(* ===== verification/Prelude.thy ===== *)
theory Prelude
  imports Main "HOL-Library.Word"
begin

text \<open>
  The shared vocabulary of the development: machine integers with their wrap-around written out,
  byte vectors with checked reads and writes, the ways an operation of the runtime can fail, the
  update flags of the eBPF map interface, and the list and arithmetic facts that several
  components use.  The collections \<open>mem_simps\<close>, \<open>wrap_simps\<close> and \<open>flag_defs\<close> carry the automation.
\<close>

named_theorems mem_simps \<open>reads and writes of byte vectors\<close>
named_theorems wrap_simps \<open>wrap-around that does not happen\<close>
named_theorems flag_defs \<open>numeric values of flags\<close>
named_theorems eval_simps \<open>evaluation of closed terms\<close>

lemma replicate_eval [eval_simps]: "replicate (numeral k) x = x # replicate (pred_numeral k) x"
  by (simp add: numeral_eq_Suc)

section \<open>Machine integers\<close>

text \<open>
  Sizes, counts and indices are natural numbers; the places where the C++ arithmetic is done at
  32 or 64 bits apply \<open>wrap32\<close> or \<open>wrap64\<close>.  Bit patterns (hashes, flags, headers) are words.
\<close>

type_synonym u8 = "8 word"
type_synonym u32 = "32 word"
type_synonym u64 = "64 word"
type_synonym bytes = "u8 list"

definition wrap32 :: "nat \<Rightarrow> nat" where [eval_simps]:
  "wrap32 n = n mod 2 ^ 32"

definition wrap64 :: "nat \<Rightarrow> nat" where [eval_simps]:
  "wrap64 n = n mod 2 ^ 64"

lemma wrap32_id [wrap_simps]: "n < 2 ^ 32 \<Longrightarrow> wrap32 n = n"
  by (simp add: wrap32_def)

lemma wrap64_id [wrap_simps]: "n < 2 ^ 64 \<Longrightarrow> wrap64 n = n"
  by (simp add: wrap64_def)

lemma wrap32_less: "wrap32 n < 2 ^ 32"
  by (simp add: wrap32_def)

text \<open>A 32-bit load from memory, least significant byte first (x86-64 and aarch64).\<close>

fun le_nat :: "bytes \<Rightarrow> nat" where
  "le_nat [] = 0"
| "le_nat (b # bs) = unat b + 256 * le_nat bs"

definition load_u32 :: "bytes \<Rightarrow> nat" where
  "load_u32 bs = le_nat (take 4 bs)"

text \<open>The same four bytes read as \<open>int32_t\<close>.\<close>

definition load_i32 :: "bytes \<Rightarrow> int" where
  "load_i32 bs = (let n = load_u32 bs in if n < 2 ^ 31 then int n else int n - 2 ^ 32)"

fun le_bytes :: "nat \<Rightarrow> nat \<Rightarrow> bytes" where
  "le_bytes 0 n = []"
| "le_bytes (Suc k) n = word_of_nat n # le_bytes k (n div 256)"

definition store_u32 :: "nat \<Rightarrow> bytes" where
  "store_u32 n = le_bytes 4 n"

definition store_i32 :: "int \<Rightarrow> bytes" where
  "store_i32 i = le_bytes 4 (nat (i mod 2 ^ 32))"

lemma le_bytes_eval [eval_simps]:
  "le_bytes (numeral k) n = word_of_nat n # le_bytes (pred_numeral k) (n div 256)"
  by (simp only: numeral_eq_Suc [of k] le_bytes.simps)

lemma u32_eval:
  "store_u32 0 = [0, 0, 0, 0]" "store_u32 (Suc 0) = [1, 0, 0, 0]"
  "load_u32 [a, b, c, d] = unat a + 256 * (unat b + 256 * (unat c + 256 * unat d))"
  by (simp_all add: store_u32_def load_u32_def le_bytes_eval)

lemma length_le_bytes [simp]: "length (le_bytes k n) = k"
  by (induction k arbitrary: n) simp_all

lemma le_nat_less: "le_nat bs < 256 ^ length bs"
proof (induction bs)
  case Nil
  then show ?case by simp
next
  case (Cons b bs)
  have "unat b < 256" using unsigned_less [of b] by simp
  with Cons show ?case by simp
qed

lemma le_nat_le_bytes: "le_nat (le_bytes k n) = n mod 256 ^ k"
proof (induction k arbitrary: n)
  case 0
  then show ?case by simp
next
  case (Suc k)
  have "unat (word_of_nat n :: u8) = n mod 256"
    by (simp add: unat_of_nat)
  then show ?case
    by (simp add: Suc mod_mult2_eq)
qed

lemma le_bytes_le_nat: "le_bytes (length bs) (le_nat bs) = bs"
proof (induction bs)
  case Nil
  then show ?case by simp
next
  case (Cons b bs)
  have b: "unat b < 256" using unsigned_less [of b] by simp
  have "(word_of_nat (unat b + 256 * le_nat bs) :: u8) = b"
  proof -
    have "(256 :: u8) = 0" by (simp add: word_eq_iff_unsigned)
    then have "256 * x = 0" for x :: u8 by (metis mult_zero_left)
    then show ?thesis by simp
  qed
  with b Cons show ?case by simp
qed

lemma load_u32_store_u32: "n < 2 ^ 32 \<Longrightarrow> load_u32 (store_u32 n) = n"
  by (simp add: load_u32_def store_u32_def le_nat_le_bytes del: le_bytes.simps)

lemma load_u32_less: "load_u32 bs < 2 ^ 32"
proof -
  have "load_u32 bs < 256 ^ length (take 4 bs)"
    unfolding load_u32_def by (rule le_nat_less)
  also have "\<dots> \<le> 256 ^ 4"
    by (rule power_increasing) simp_all
  finally show ?thesis by simp
qed

section \<open>Byte vectors\<close>

text \<open>
  \<open>load v off n\<close> is \<open>memcpy\<close> of \<open>n\<close> bytes out of the buffer \<open>v\<close>, \<open>store v off bs\<close> a copy into it.
  An access outside the buffer is undefined behaviour of the program and the value \<open>None\<close>.
\<close>

definition load :: "'a list \<Rightarrow> nat \<Rightarrow> nat \<Rightarrow> 'a list option" where [eval_simps]:
  "load v off n = (if off + n \<le> length v then Some (take n (drop off v)) else None)"

definition store :: "'a list \<Rightarrow> nat \<Rightarrow> 'a list \<Rightarrow> 'a list option" where
  [eval_simps]: "store v off bs =
     (if off + length bs \<le> length v
      then Some (take off v @ bs @ drop (off + length bs) v) else None)"

lemma load_Some [mem_simps]: "off + n \<le> length v \<Longrightarrow> load v off n = Some (take n (drop off v))"
  by (simp add: load_def)

lemma load_eq_Some_iff: "load v off n = Some bs \<longleftrightarrow> off + n \<le> length v \<and> bs = take n (drop off v)"
  by (auto simp: load_def)

lemma length_load: "load v off n = Some bs \<Longrightarrow> length bs = n"
  by (auto simp: load_def split: if_splits)

lemma store_eq_Some_iff:
  "store v off bs = Some w \<longleftrightarrow>
     off + length bs \<le> length v \<and> w = take off v @ bs @ drop (off + length bs) v"
  by (auto simp: store_def)

lemma store_defined [mem_simps]:
  "off + length bs \<le> length v \<Longrightarrow>
     store v off bs = Some (take off v @ bs @ drop (off + length bs) v)"
  by (simp add: store_def)

lemma length_store: "store v off bs = Some w \<Longrightarrow> length w = length v"
  by (auto simp: store_def split: if_splits)

lemma load_store_same: "store v off bs = Some w \<Longrightarrow> load w off (length bs) = Some bs"
  by (auto simp: store_def load_def split: if_splits)

lemma nth_store:
  "store v off bs = Some w \<Longrightarrow> i < length v \<Longrightarrow>
     w ! i = (if off \<le> i \<and> i < off + length bs then bs ! (i - off) else v ! i)"
  by (auto simp: store_def nth_append split: if_splits)

text \<open>A read that does not meet the written range is not affected by the write.\<close>

lemma load_store_other:
  assumes "store v off bs = Some w" and "off' + n \<le> off \<or> off + length bs \<le> off'"
  shows "load w off' n = load v off' n"
proof (cases "off' + n \<le> length v")
  case True
  have len: "length w = length v"
    using assms(1) by (rule length_store)
  have "take n (drop off' w) = take n (drop off' v)"
  proof (rule nth_equalityI)
    show "length (take n (drop off' w)) = length (take n (drop off' v))"
      using len by simp
  next
    fix i
    assume "i < length (take n (drop off' w))"
    then have i: "i < n" "off' + i < length v"
      using len by auto
    then have "w ! (off' + i) = v ! (off' + i)"
      using nth_store [OF assms(1), of "off' + i"] assms(2) by auto
    with i len show "take n (drop off' w) ! i = take n (drop off' v) ! i"
      by simp
  qed
  with True len show ?thesis by (simp add: load_def)
next
  case False
  with length_store [OF assms(1)] show ?thesis by (simp add: load_def)
qed

text \<open>The cells of a vector of fixed-size records: cell \<open>i\<close> is the bytes \<open>[i * sz, (i + 1) * sz)\<close>.\<close>

lemma cell_in_bounds: "i < n \<Longrightarrow> i * sz + sz \<le> n * sz" for i n sz :: nat
proof -
  assume "i < n"
  then have "Suc i * sz \<le> n * sz" by (intro mult_le_mono1) simp
  then show ?thesis by simp
qed

lemma cells_disjoint:
  "i \<noteq> j \<Longrightarrow> i * sz + sz \<le> j * sz \<or> j * sz + sz \<le> i * sz" for i j sz :: nat
  using cell_in_bounds [of i j sz] cell_in_bounds [of j i sz] by (cases "i < j") auto

definition cell :: "'a list \<Rightarrow> nat \<Rightarrow> nat \<Rightarrow> 'a list" where [eval_simps]:
  "cell v sz i = take sz (drop (i * sz) v)"

lemma load_cell: "length v = n * sz \<Longrightarrow> i < n \<Longrightarrow> load v (i * sz) sz = Some (cell v sz i)"
  using cell_in_bounds [of i n sz] by (simp add: load_def cell_def)

lemma length_cell: "length v = n * sz \<Longrightarrow> i < n \<Longrightarrow> length (cell v sz i) = sz"
  using cell_in_bounds [of i n sz] by (simp add: cell_def)

lemma store_cell:
  "length v = n * sz \<Longrightarrow> i < n \<Longrightarrow> length bs = sz \<Longrightarrow> \<exists>w. store v (i * sz) bs = Some w"
  using cell_in_bounds [of i n sz] by (simp add: store_def)

lemma cell_store:
  assumes "store v (i * sz) bs = Some w" and "length v = n * sz" and "length bs = sz"
    and "i < n" and "j < n"
  shows "cell w sz j = (if j = i then bs else cell v sz j)"
proof -
  have len: "length w = n * sz"
    using assms(1,2) length_store by metis
  show ?thesis
  proof (cases "j = i")
    case True
    with load_store_same [OF assms(1)] load_cell [OF len assms(4)] assms(3) show ?thesis by simp
  next
    case False
    then have "load w (j * sz) sz = load v (j * sz) sz"
      using load_store_other [OF assms(1), of "j * sz" sz] cells_disjoint [of i j sz] assms(3)
      by auto
    with False load_cell [OF len assms(5)] load_cell [OF assms(2,5)] show ?thesis by simp
  qed
qed

text \<open>A run of \<open>n\<close> consecutive cells is their concatenation.\<close>

lemma cells_concat:
  "(b + n) * sz \<le> length v \<Longrightarrow>
     take (n * sz) (drop (b * sz) v) = concat (map (\<lambda>k. cell v sz (b + k)) [0..<n])"
proof (induction n)
  case 0
  then show ?case by simp
next
  case (Suc n)
  have "take (Suc n * sz) (drop (b * sz) v) =
      take (n * sz) (drop (b * sz) v) @ take sz (drop (n * sz) (drop (b * sz) v))"
    using take_add [of "n * sz" sz "drop (b * sz) v"] by (simp add: add.commute del: drop_drop)
  also have "drop (n * sz) (drop (b * sz) v) = drop ((b + n) * sz) v"
    by (simp add: algebra_simps)
  finally show ?case
    using Suc by (simp add: cell_def)
qed

lemma concat_cells: "length v = n * sz \<Longrightarrow> concat (map (cell v sz) [0..<n]) = v"
  using cells_concat [of 0 n sz v] by simp

text \<open>
  The total variants, for components whose accesses are shown to be in bounds once for all: \<open>slice\<close>
  reads and \<open>poke\<close> writes.
\<close>

definition slice :: "'a list \<Rightarrow> nat \<Rightarrow> nat \<Rightarrow> 'a list" where [eval_simps]:
  "slice v off n = take n (drop off v)"

definition poke :: "'a list \<Rightarrow> nat \<Rightarrow> 'a list \<Rightarrow> 'a list" where
  "poke v off bs = (case store v off bs of Some w \<Rightarrow> w | None \<Rightarrow> v)"

lemma length_poke [simp]: "length (poke v off bs) = length v"
  by (auto simp: poke_def length_store split: option.splits)

lemma length_slice: "off + n \<le> length v \<Longrightarrow> length (slice v off n) = n"
  by (simp add: slice_def)

lemma slice_poke_same:
  "off + length bs \<le> length v \<Longrightarrow> n = length bs \<Longrightarrow> slice (poke v off bs) off n = bs"
  by (simp add: slice_def poke_def store_def)

lemma slice_poke_other:
  assumes "off + length bs \<le> length v" and "off' + n \<le> off \<or> off + length bs \<le> off'"
    and "off' + n \<le> length v"
  shows "slice (poke v off bs) off' n = slice v off' n"
proof -
  obtain w where w: "store v off bs = Some w" using assms(1) by (simp add: store_def)
  from load_store_other [OF w assms(2)] length_store [OF w] assms(3) show ?thesis
    by (simp add: poke_def w slice_def load_def)
qed

lemma option_eqI: "(\<And>w. x = Some w \<longleftrightarrow> y = Some w) \<Longrightarrow> x = y"
  by (metis not_Some_eq)

text \<open>The first \<open>n\<close> places of a ring of size \<open>n\<close> are distinct.\<close>

lemma ring_slot_inj:
  "k < n \<Longrightarrow> l < n \<Longrightarrow> (h + k) mod n = (h + l) mod n \<Longrightarrow> k = l" for h k l n :: nat
proof (induction k l rule: linorder_wlog)
  case (le k l)
  then have "n dvd (h + l) - (h + k)" by (metis mod_eq_dvd_iff_nat nat_add_left_cancel_le)
  then have "n dvd l - k" by simp
  with le show ?case by (auto dest: dvd_imp_le)
next
  case (sym k l)
  then show ?case by simp
qed

text \<open>Scans of an index range for the next index with a property.\<close>

lemma find_filter: "find P xs = (case filter P xs of [] \<Rightarrow> None | x # _ \<Rightarrow> Some x)"
  by (induction xs) auto

lemma filter_upt_after:
  assumes "i < length (filter P [0..<n])"
  shows "filter P [Suc (filter P [0..<n] ! i)..<n] = drop (Suc i) (filter P [0..<n])"
proof -
  define x where "x = filter P [0..<n] ! i"
  have x: "x < n" "P x" using nth_mem [OF assms] by (auto simp: x_def)
  have "[0..<n] = [0..<x] @ x # [Suc x..<n]"
    using upt_add_eq_append [of 0 x "n - x"] x by (simp add: upt_conv_Cons)
  then have fs: "filter P [0..<n] = filter P [0..<x] @ x # filter P [Suc x..<n]" using x by simp
  have "distinct (filter P [0..<n])" by simp
  moreover have "length (filter P [0..<x]) < length (filter P [0..<n])" "filter P [0..<n] ! length (filter P [0..<x]) = x"
    unfolding fs by simp_all
  ultimately have "i = length (filter P [0..<x])"
    using assms nth_eq_iff_index_eq by (metis x_def)
  then show ?thesis unfolding x_def [symmetric] by (simp add: fs)
qed

section \<open>Failures\<close>

text \<open>
  \<open>Errno e\<close>: the call returns \<open>-1\<close> or \<open>nullptr\<close> with \<open>errno\<close> set to \<open>e\<close>; \<open>RetNeg e\<close>: it returns
  \<open>-e\<close> and leaves \<open>errno\<close> alone; \<open>RetFail\<close>: \<open>-1\<close> or \<open>nullptr\<close> with no \<open>errno\<close>; \<open>Throw\<close>: a C++
  exception leaves the call; \<open>Fault\<close>: undefined behaviour (a null or dangling pointer, an access out
  of range).
\<close>

datatype errno = EPERM | ENOENT | E2BIG | EBADF | EAGAIN | ENOMEM | EEXIST | EINVAL | ENOSPC | EOPNOTSUPP

abbreviation ENOTSUP :: errno where
  "ENOTSUP \<equiv> EOPNOTSUPP"

datatype fail = Errno errno | RetNeg errno | RetFail | Throw | Fault

type_synonym 'a res = "fail + 'a"

text \<open>A pointer argument: \<open>None\<close> is \<open>nullptr\<close>, \<open>Some bs\<close> points to the bytes \<open>bs\<close>.\<close>

type_synonym ptr = "bytes option"

definition of_opt :: "'a option \<Rightarrow> 'a res" where
  "of_opt x = (case x of None \<Rightarrow> Inl Fault | Some y \<Rightarrow> Inr y)"

fun bind_res :: "'a res \<Rightarrow> ('a \<Rightarrow> 'b res) \<Rightarrow> 'b res" where
  "bind_res (Inl e) f = Inl e"
| "bind_res (Inr x) f = f x"

lemma of_opt_simps [simp]: "of_opt None = Inl Fault" "of_opt (Some x) = Inr x"
  by (simp_all add: of_opt_def)

lemma of_opt_eq_Inr [simp]: "of_opt x = Inr y \<longleftrightarrow> x = Some y"
  by (simp add: of_opt_def split: option.splits)

lemma of_opt_eq_Inl: "of_opt x = Inl e \<longleftrightarrow> x = None \<and> e = Fault"
  by (auto simp: of_opt_def split: option.splits)

lemma bind_res_eq_Inr: "bind_res m f = Inr y \<longleftrightarrow> (\<exists>x. m = Inr x \<and> f x = Inr y)"
  by (cases m) auto

lemma bind_res_eq_Inl: "bind_res m f = Inl e \<longleftrightarrow> m = Inl e \<or> (\<exists>x. m = Inr x \<and> f x = Inl e)"
  by (cases m) auto

text \<open>Reading through a pointer argument.\<close>

definition arg_bytes :: "ptr \<Rightarrow> nat \<Rightarrow> bytes res" where [eval_simps]:
  "arg_bytes p n = (case p of None \<Rightarrow> Inl Fault | Some v \<Rightarrow> of_opt (load v 0 n))"

definition arg_u32 :: "ptr \<Rightarrow> nat res" where
  "arg_u32 p = bind_res (arg_bytes p 4) (\<lambda>bs. Inr (load_u32 bs))"

definition arg_i32 :: "ptr \<Rightarrow> int res" where
  "arg_i32 p = bind_res (arg_bytes p 4) (\<lambda>bs. Inr (load_i32 bs))"

lemma arg_bytes_Some: "n \<le> length v \<Longrightarrow> arg_bytes (Some v) n = Inr (take n v)"
  by (simp add: arg_bytes_def load_def)

lemma arg_bytes_eq_Inr:
  "arg_bytes p n = Inr bs \<longleftrightarrow> (\<exists>v. p = Some v \<and> n \<le> length v \<and> bs = take n v)"
  by (auto simp: arg_bytes_def load_def split: option.splits)

lemma length_arg_bytes: "arg_bytes p n = Inr bs \<Longrightarrow> length bs = n"
  by (auto simp: arg_bytes_eq_Inr)

lemma arg_u32_store [simp]: "n < 2 ^ 32 \<Longrightarrow> arg_u32 (Some (store_u32 n)) = Inr n"
  by (simp add: arg_u32_def arg_bytes_def load_def store_u32_def load_u32_store_u32 [unfolded store_u32_def]
      del: le_bytes.simps)

lemma arg_u32_less: "arg_u32 p = Inr n \<Longrightarrow> n < 2 ^ 32"
  using load_u32_less by (auto simp: arg_u32_def bind_res_eq_Inr)

text \<open>The operations that never reach undefined behaviour.\<close>

definition no_fault :: "'a res \<Rightarrow> bool" where
  "no_fault r \<longleftrightarrow> r \<noteq> Inl Fault"

lemma no_fault_simps [simp]:
  "no_fault (Inr x)" "no_fault (Inl (Errno e))" "no_fault (Inl (RetNeg e))" "no_fault (Inl RetFail)"
  "no_fault (Inl Throw)" "\<not> no_fault (Inl Fault)"
  by (simp_all add: no_fault_def)

section \<open>Update flags\<close>

unbundle bit_operations_syntax

definition BPF_ANY :: nat where [flag_defs]: "BPF_ANY = 0"
definition BPF_NOEXIST :: nat where [flag_defs]: "BPF_NOEXIST = 1"
definition BPF_EXIST :: nat where [flag_defs]: "BPF_EXIST = 2"

text \<open>
  \<open>check_update_flags\<close> of map_common_def.hpp: the low 32 bits must be one of the three flags, the
  high 32 bits are free.  The other components compare the whole 64-bit flag word
  (\<open>is_good_update_flag\<close>).
\<close>

definition check_update_flags :: "nat \<Rightarrow> bool" where
  "check_update_flags flags =
     (let base_flags = flags mod 2 ^ 32
      in \<not> (base_flags \<noteq> BPF_ANY \<and> base_flags \<noteq> BPF_NOEXIST \<and> base_flags \<noteq> BPF_EXIST))"

definition is_good_update_flag :: "nat \<Rightarrow> bool" where
  "is_good_update_flag flags \<longleftrightarrow> flags = BPF_ANY \<or> flags = BPF_EXIST \<or> flags = BPF_NOEXIST"

lemma good_flag_checked: "is_good_update_flag flags \<Longrightarrow> check_update_flags flags"
  by (auto simp: is_good_update_flag_def check_update_flags_def flag_defs)

end
