(* ===== verification/Map_Contracts.thy ===== *)
theory Map_Contracts
  imports Prelude
begin

text \<open>
  The contracts that several map implementations keep, as locales: iteration with
  \<open>BPF_MAP_GET_NEXT_KEY\<close>, and the bounded push/pop/peek containers.  The lemmas a client of the
  interface relies on are proved once here; each implementation interprets the locale on its own
  operations.
\<close>

section \<open>Iteration\<close>

text \<open>
  The loop every user of \<open>BPF_MAP_GET_NEXT_KEY\<close> runs (\<open>src/runtime/src/handler/map_handler.hpp\<close>,
  the comment on \<open>bpf_map_get_next_key\<close>): start with no key, ask for the next key until the call
  fails.  The result is the keys seen and the failure that ended the loop; \<open>None\<close> when \<open>n\<close> calls
  were not enough.
\<close>

fun walk_keys :: "('k option \<Rightarrow> 'k res) \<Rightarrow> nat \<Rightarrow> 'k option \<Rightarrow> ('k list \<times> fail) option" where
  "walk_keys nxt 0 k = None"
| "walk_keys nxt (Suc n) k =
     (case nxt k of
        Inl e \<Rightarrow> Some ([], e)
      | Inr k' \<Rightarrow> map_option (\<lambda>(ks, e). (k' # ks, e)) (walk_keys nxt n (Some k')))"

locale key_iteration =
  fixes inv :: "'s \<Rightarrow> bool"
    and keys :: "'s \<Rightarrow> 'k list"
    and next_key :: "'s \<Rightarrow> 'k option \<Rightarrow> 'k res"
  assumes next_empty: "inv s \<Longrightarrow> keys s = [] \<Longrightarrow> next_key s None = Inl (Errno ENOENT)"
    and next_first: "inv s \<Longrightarrow> keys s \<noteq> [] \<Longrightarrow> next_key s None = Inr (hd (keys s))"
    and next_step: "inv s \<Longrightarrow> Suc i < length (keys s) \<Longrightarrow>
      next_key s (Some (keys s ! i)) = Inr (keys s ! Suc i)"
    and next_last: "inv s \<Longrightarrow> keys s \<noteq> [] \<Longrightarrow>
      next_key s (Some (last (keys s))) = Inl (Errno ENOENT)"
begin

lemma walk_from:
  assumes "inv s" and "i < length (keys s)"
  shows "walk_keys (next_key s) (length (keys s) - i) (Some (keys s ! i)) =
    Some (drop (Suc i) (keys s), Errno ENOENT)"
  using assms(2)
proof (induction "length (keys s) - i" arbitrary: i)
  case 0
  then show ?case by simp
next
  case (Suc n)
  from \<open>Suc n = length (keys s) - i\<close> have len: "length (keys s) - i = Suc n" by simp
  show ?case
  proof (cases "Suc i < length (keys s)")
    case True
    have n: "n = length (keys s) - Suc i" using len by simp
    from Suc.hyps(1) [OF n True] have
      "walk_keys (next_key s) n (Some (keys s ! Suc i)) = Some (drop (Suc (Suc i)) (keys s), Errno ENOENT)"
      unfolding n .
    with True next_step [OF assms(1) True] Cons_nth_drop_Suc [OF True] show ?thesis
      unfolding len by simp
  next
    case False
    with Suc.prems have i: "i = length (keys s) - 1" and ne: "keys s \<noteq> []" by auto
    then have "keys s ! i = last (keys s)" by (simp add: last_conv_nth)
    with next_last [OF assms(1) ne] False show ?thesis
      unfolding len by simp
  qed
qed

text \<open>The loop ends, after one call per key and one more, and sees every key once, in order.\<close>

lemma walk_all:
  assumes "inv s"
  shows "walk_keys (next_key s) (Suc (length (keys s))) None = Some (keys s, Errno ENOENT)"
proof (cases "keys s = []")
  case True
  with next_empty [OF assms] show ?thesis by simp
next
  case False
  then have len: "0 < length (keys s)" by simp
  have "walk_keys (next_key s) (length (keys s)) (Some (keys s ! 0)) =
      Some (drop (Suc 0) (keys s), Errno ENOENT)"
    using walk_from [OF assms len] by simp
  with next_first [OF assms False] False show ?thesis
    by (simp add: hd_conv_nth Cons_nth_drop_Suc [OF len, simplified])
qed

end

section \<open>Sequences of operations\<close>

text \<open>
  A component as a machine: an operation is applied to the state and gives the new state and the
  answer the caller sees.  \<open>run_ops\<close> applies a sequence of operations.  \<open>simulation\<close> is the
  functional refinement of such a machine by an abstract one, on single steps; its lemmas extend it
  to every sequence of operations.
\<close>

fun run_ops :: "('s \<Rightarrow> 'o \<Rightarrow> 's \<times> 'a) \<Rightarrow> 's \<Rightarrow> 'o list \<Rightarrow> 's \<times> 'a list" where
  "run_ops step s [] = (s, [])"
| "run_ops step s (op # ops) =
     (let (s', a) = step s op; (s'', as) = run_ops step s' ops in (s'', a # as))"

lemma run_ops_Cons:
  "fst (run_ops step s (op # ops)) = fst (run_ops step (fst (step s op)) ops)"
  "snd (run_ops step s (op # ops)) = snd (step s op) # snd (run_ops step (fst (step s op)) ops)"
  by (simp_all add: Let_def split: prod.splits)

declare run_ops.simps(2) [simp del]
declare run_ops_Cons [simp]

locale simulation =
  fixes inv :: "'s \<Rightarrow> bool"
    and abs :: "'s \<Rightarrow> 't"
    and step :: "'s \<Rightarrow> 'o \<Rightarrow> 's \<times> 'a"
    and spec :: "'t \<Rightarrow> 'o \<Rightarrow> 't \<times> 'a"
  assumes step_inv: "inv s \<Longrightarrow> inv (fst (step s op))"
    and step_abs: "inv s \<Longrightarrow> abs (fst (step s op)) = fst (spec (abs s) op)"
    and step_answer: "inv s \<Longrightarrow> snd (step s op) = snd (spec (abs s) op)"
begin

lemma run_inv: "inv s \<Longrightarrow> inv (fst (run_ops step s ops))"
  by (induction ops arbitrary: s) (simp_all add: step_inv)

lemma run_refines:
  "inv s \<Longrightarrow>
     abs (fst (run_ops step s ops)) = fst (run_ops spec (abs s) ops) \<and>
     snd (run_ops step s ops) = snd (run_ops spec (abs s) ops)"
  by (induction ops arbitrary: s) (simp_all add: step_inv step_abs step_answer)

end

text \<open>
  The relational form, for a machine whose clients keep a protocol: the abstract state says with
  \<open>guard\<close> which operations the clients may call.  \<open>guarded\<close> is that a whole sequence keeps the protocol.
\<close>

fun guarded :: "('t \<Rightarrow> 'o \<Rightarrow> bool) \<Rightarrow> ('t \<Rightarrow> 'o \<Rightarrow> 't \<times> 'a) \<Rightarrow> 't \<Rightarrow> 'o list \<Rightarrow> bool" where
  "guarded guard spec t [] = True"
| "guarded guard spec t (op # ops) = (guard t op \<and> guarded guard spec (fst (spec t op)) ops)"

locale guarded_simulation =
  fixes R :: "'s \<Rightarrow> 't \<Rightarrow> bool"
    and guard :: "'t \<Rightarrow> 'o \<Rightarrow> bool"
    and step :: "'s \<Rightarrow> 'o \<Rightarrow> 's \<times> 'a"
    and spec :: "'t \<Rightarrow> 'o \<Rightarrow> 't \<times> 'a"
  assumes guarded_step: "R s t \<Longrightarrow> guard t op \<Longrightarrow> R (fst (step s op)) (fst (spec t op))"
    and guarded_answer: "R s t \<Longrightarrow> guard t op \<Longrightarrow> snd (step s op) = snd (spec t op)"
begin

lemma guarded_run:
  "R s t \<Longrightarrow> guarded guard spec t ops \<Longrightarrow>
     R (fst (run_ops step s ops)) (fst (run_ops spec t ops)) \<and>
     snd (run_ops step s ops) = snd (run_ops spec t ops)"
  by (induction ops arbitrary: s t) (simp_all add: guarded_step guarded_answer)

end

section \<open>Bounded containers\<close>

text \<open>
  What the queue and the stack map promise: a list of at most \<open>cap\<close> values of \<open>vs\<close> bytes, oldest
  first.  A push appends; a push to a full container drops the oldest value when the flag is
  \<open>BPF_EXIST\<close> and fails otherwise.  \<open>sel\<close> and \<open>rest\<close> say which value is taken out: \<open>hd\<close> and \<open>tl\<close> for
  the queue, \<open>last\<close> and \<open>butlast\<close> for the stack.  The Boolean of \<open>Pop\<close> and \<open>Peek\<close> says whether the
  caller's buffer pointer is non-null.
\<close>

datatype container_op =
    Push ptr nat
  | Pop bool
  | Peek bool
  | Lookup ptr
  | Update ptr ptr nat
  | Delete ptr

datatype answer = Done | Value bytes | Failed fail

definition container_put :: "nat \<Rightarrow> nat \<Rightarrow> bytes list \<Rightarrow> bytes \<Rightarrow> nat \<Rightarrow> (nat \<times> nat \<times> bytes list) \<times> answer" where
  "container_put cap vs xs v flags =
     (if length xs < cap then ((cap, vs, xs @ [v]), Done)
      else if flags = BPF_EXIST then ((cap, vs, tl xs @ [v]), Done)
      else ((cap, vs, xs), Failed (Errno E2BIG)))"

fun container_spec ::
  "(bytes list \<Rightarrow> bytes) \<Rightarrow> (bytes list \<Rightarrow> bytes list) \<Rightarrow>
   nat \<times> nat \<times> bytes list \<Rightarrow> container_op \<Rightarrow> (nat \<times> nat \<times> bytes list) \<times> answer" where
  "container_spec sel rest (cap, vs, xs) (Push value flags) =
     (case value of
        None \<Rightarrow> ((cap, vs, xs), Failed (Errno EINVAL))
      | Some v \<Rightarrow>
          if flags \<noteq> BPF_ANY \<and> flags \<noteq> BPF_EXIST then ((cap, vs, xs), Failed (Errno EINVAL))
          else if length xs \<ge> cap \<and> flags \<noteq> BPF_EXIST then ((cap, vs, xs), Failed (Errno E2BIG))
          else if length v < vs then ((cap, vs, xs), Failed Fault)
          else container_put cap vs xs (take vs v) flags)"
| "container_spec sel rest (cap, vs, xs) (Pop buf) =
     (if \<not> buf then ((cap, vs, xs), Failed (Errno EINVAL))
      else if xs = [] then ((cap, vs, xs), Failed (Errno ENOENT))
      else ((cap, vs, rest xs), Value (sel xs)))"
| "container_spec sel rest (cap, vs, xs) (Peek buf) =
     (if \<not> buf then ((cap, vs, xs), Failed (Errno EINVAL))
      else if xs = [] then ((cap, vs, xs), Failed (Errno ENOENT))
      else ((cap, vs, xs), Value (sel xs)))"
| "container_spec sel rest (cap, vs, xs) (Lookup key) =
     (if xs = [] then ((cap, vs, xs), Failed (Errno ENOENT)) else ((cap, vs, xs), Value (sel xs)))"
| "container_spec sel rest (cap, vs, xs) (Update key value flags) =
     (case value of
        None \<Rightarrow> ((cap, vs, xs), Failed (Errno EINVAL))
      | Some v \<Rightarrow>
          if length xs \<ge> cap \<and> flags \<noteq> BPF_EXIST then ((cap, vs, xs), Failed (Errno E2BIG))
          else if length v < vs then ((cap, vs, xs), Failed Fault)
          else container_put cap vs xs (take vs v) flags)"
| "container_spec sel rest (cap, vs, xs) (Delete key) =
     (if xs = [] then ((cap, vs, xs), Failed (Errno ENOENT)) else ((cap, vs, rest xs), Done))"

definition answer_of :: "'s \<Rightarrow> ('s \<times> answer) res \<Rightarrow> 's \<times> answer" where
  "answer_of s r = (case r of Inl e \<Rightarrow> (s, Failed e) | Inr p \<Rightarrow> p)"

lemma answer_of_simps [simp]: "answer_of s (Inl e) = (s, Failed e)" "answer_of s (Inr p) = p"
  by (simp_all add: answer_of_def)

locale bounded_container = simulation inv abs step "container_spec sel rest"
  for inv :: "'s \<Rightarrow> bool" and abs :: "'s \<Rightarrow> nat \<times> nat \<times> bytes list"
    and step :: "'s \<Rightarrow> container_op \<Rightarrow> 's \<times> answer"
    and sel :: "bytes list \<Rightarrow> bytes" and rest :: "bytes list \<Rightarrow> bytes list" +
  assumes rest_length: "length (rest xs) = length xs - 1"
    and capacity: "inv s \<Longrightarrow> 0 < fst (abs s)"
begin

lemma spec_keeps:
  assumes "0 < cap" and "length xs \<le> cap"
  shows "\<exists>ys. fst (container_spec sel rest (cap, vs, xs) op) = (cap, vs, ys) \<and> length ys \<le> cap"
  using assms rest_length [of xs]
  by (cases op) (auto simp: container_put_def split: option.splits)

text \<open>A container never holds more than its capacity, and its capacity and value size are fixed.\<close>

lemma run_bounded:
  assumes "inv s" and "abs s = (cap, vs, xs)" and "length xs \<le> cap"
  shows "\<exists>ys. abs (fst (run_ops step s ops)) = (cap, vs, ys) \<and> length ys \<le> cap"
  using assms
proof (induction ops arbitrary: s xs)
  case Nil
  then show ?case by simp
next
  case (Cons op ops)
  have "0 < cap" using capacity [OF Cons.prems(1)] Cons.prems(2) by simp
  then obtain ys where "fst (container_spec sel rest (cap, vs, xs) op) = (cap, vs, ys)" "length ys \<le> cap"
    using spec_keeps Cons.prems by blast
  then show ?case
    using Cons.IH [OF step_inv [OF Cons.prems(1)]] step_abs [OF Cons.prems(1), of op] Cons.prems by simp
qed

end

end
