(* ===== verification/Array_Map.thy ===== *)
theory Array_Map
  imports Map_Contracts
begin

text \<open>
  The array-like maps: \<open>array_map_impl\<close> (array_map.cpp), \<open>per_cpu_array_map_impl\<close>
  (per_cpu_array_map.cpp) and \<open>array_map_of_maps_impl\<close> (map_in_maps.hpp).  All three keep one byte
  vector cut into cells of \<open>value_size\<close> bytes.  A lookup returns an offset into that vector (the
  pointer the C++ code returns, minus \<open>data.data()\<close>).
\<close>

section \<open>The array map\<close>

record array_map =
  am_data :: bytes
  am_value_size :: nat
  am_max_entries :: nat

text \<open>The vector is allocated with the 32-bit product of its two sizes.\<close>

definition array_map_impl :: "nat \<Rightarrow> nat \<Rightarrow> array_map" where
  "array_map_impl value_size max_entries =
     \<lparr>am_data = replicate (wrap32 (value_size * max_entries)) 0,
      am_value_size = value_size, am_max_entries = max_entries\<rparr>"

definition array_elem_lookup :: "array_map \<Rightarrow> ptr \<Rightarrow> nat res" where
  "array_elem_lookup m key =
     bind_res (arg_u32 key) (\<lambda>key_val.
       if key_val \<ge> am_max_entries m then Inl (Errno ENOENT)
       else Inr (wrap32 (key_val * am_value_size m)))"

definition array_elem_update :: "array_map \<Rightarrow> ptr \<Rightarrow> ptr \<Rightarrow> nat \<Rightarrow> array_map res" where
  "array_elem_update m key value flags =
     (if \<not> check_update_flags flags then Inl (Errno EINVAL)
      else bind_res (arg_u32 key) (\<lambda>key_val.
        if key_val < am_max_entries m \<and> flags = BPF_NOEXIST then Inl (Errno EEXIST)
        else if key_val \<ge> am_max_entries m then Inl (Errno E2BIG)
        else bind_res (arg_bytes value (am_value_size m)) (\<lambda>v.
          bind_res (of_opt (store (am_data m) (wrap32 (key_val * am_value_size m)) v)) (\<lambda>d.
            Inr (m\<lparr>am_data := d\<rparr>)))))"

definition array_elem_delete :: "array_map \<Rightarrow> ptr \<Rightarrow> array_map res" where
  "array_elem_delete m key = bind_res (arg_u32 key) (\<lambda>key_val. Inl (Errno EINVAL))"

definition array_map_get_next_key :: "array_map \<Rightarrow> ptr \<Rightarrow> nat res" where
  "array_map_get_next_key m key =
     (case key of
        None \<Rightarrow> Inr 0
      | Some _ \<Rightarrow> bind_res (arg_u32 key) (\<lambda>key_val.
          if key_val \<ge> am_max_entries m then Inr 0
          else if key_val = am_max_entries m - 1 then Inl (Errno ENOENT)
          else Inr (wrap32 (key_val + 1))))"

text \<open>\<open>get_raw_data\<close>: the address of the vector, from which the whole of it can be read.\<close>

definition array_get_raw_data :: "array_map \<Rightarrow> bytes" where
  "array_get_raw_data m = am_data m"

text \<open>Well-formed: the sizes fit their 32 bits, and so does their product.\<close>

definition array_wf :: "array_map \<Rightarrow> bool" where
  "array_wf m \<longleftrightarrow> am_value_size m < 2 ^ 32 \<and> am_max_entries m < 2 ^ 32 \<and>
     am_max_entries m * am_value_size m < 2 ^ 32 \<and>
     length (am_data m) = am_max_entries m * am_value_size m"

definition array_cell :: "array_map \<Rightarrow> nat \<Rightarrow> bytes" where
  "array_cell m i = cell (am_data m) (am_value_size m) i"

lemma array_wf_init:
  "value_size < 2 ^ 32 \<Longrightarrow> max_entries < 2 ^ 32 \<Longrightarrow> max_entries * value_size < 2 ^ 32 \<Longrightarrow>
     array_wf (array_map_impl value_size max_entries)"
  by (simp add: array_wf_def array_map_impl_def wrap32_def mult.commute)

lemma array_offset:
  assumes "array_wf m" and "i < am_max_entries m"
  shows "wrap32 (i * am_value_size m) = i * am_value_size m"
proof (rule wrap32_id)
  have "i * am_value_size m \<le> am_max_entries m * am_value_size m"
    using assms(2) by (intro mult_le_mono1) simp
  also have "\<dots> < 2 ^ 32" using assms(1) by (simp add: array_wf_def)
  finally show "i * am_value_size m < 2 ^ 32" .
qed

lemma array_update_ok:
  assumes wf: "array_wf m" and i: "i < am_max_entries m" "i < 2 ^ 32"
    and flags: "check_update_flags flags" "flags \<noteq> BPF_NOEXIST"
    and v: "am_value_size m \<le> length v"
  obtains m' where "array_elem_update m (Some (store_u32 i)) (Some v) flags = Inr m'"
    and "array_wf m'" and "am_max_entries m' = am_max_entries m" and "am_value_size m' = am_value_size m"
    and "\<And>j. j < am_max_entries m \<Longrightarrow>
      array_cell m' j = (if j = i then take (am_value_size m) v else array_cell m j)"
proof -
  let ?bs = "take (am_value_size m) v"
  have len: "length (am_data m) = am_max_entries m * am_value_size m" and bs: "length ?bs = am_value_size m"
    using wf v by (simp_all add: array_wf_def)
  obtain w where w: "store (am_data m) (i * am_value_size m) ?bs = Some w"
    using store_cell [OF len i(1) bs] by blast
  show ?thesis
  proof
    show "array_elem_update m (Some (store_u32 i)) (Some v) flags = Inr (m\<lparr>am_data := w\<rparr>)"
      using i flags v w by (simp add: array_elem_update_def array_offset [OF wf] arg_bytes_Some)
    show "array_wf (m\<lparr>am_data := w\<rparr>)"
      using wf length_store [OF w] by (simp add: array_wf_def)
    show "array_cell (m\<lparr>am_data := w\<rparr>) j = (if j = i then ?bs else array_cell m j)"
      if "j < am_max_entries m" for j
      using cell_store [OF w len bs i(1) that] by (simp add: array_cell_def)
  qed simp_all
qed

interpretation array_iter: key_iteration
  "\<lambda>m. array_wf m \<and> 0 < am_max_entries m"
  "\<lambda>m. [0..<am_max_entries m]"
  "\<lambda>m k. array_map_get_next_key m (map_option store_u32 k)"
proof (unfold_locales, goal_cases)
  case (3 s i)
  then have i: "Suc i < 2 ^ 32" by (simp add: array_wf_def)
  have "am_max_entries s - Suc 0 \<noteq> i" using 3 by simp
  with 3 i show ?case
    by (simp add: array_map_get_next_key_def wrap32_id)
next
  case (4 s)
  then have "am_max_entries s - 1 < 2 ^ 32" by (auto simp: array_wf_def)
  with 4 show ?case by (auto simp: array_map_get_next_key_def)
qed (auto simp: array_map_get_next_key_def)

text \<open>What a caller of \<open>elem_lookup\<close> reads through the pointer it gets.\<close>

definition array_read :: "array_map \<Rightarrow> nat \<Rightarrow> bytes res" where
  "array_read m i = bind_res (array_elem_lookup m (Some (store_u32 i)))
     (\<lambda>off. of_opt (load (am_data m) off (am_value_size m)))"

lemma array_read_cell:
  assumes "array_wf m" and "i < am_max_entries m"
  shows "array_read m i = Inr (array_cell m i)"
proof -
  have "i < 2 ^ 32" and len: "length (am_data m) = am_max_entries m * am_value_size m"
    using assms by (simp_all add: array_wf_def)
  with assms load_cell [OF len assms(2)] show ?thesis
    by (simp add: array_read_def array_elem_lookup_def array_offset array_cell_def)
qed

text \<open>
  C39. Array map, update then lookup: on a well-formed map an update with an index in range, a value
  of \<open>value_size\<close> bytes and a flag other than \<open>BPF_NOEXIST\<close> succeeds, keeps the map well formed, and
  afterwards the pointer a lookup returns leads to the new bytes for that index and to the old
  bytes, in bounds, for every other index.
\<close>

theorem array_update_lookup:
  assumes "array_wf m" and "i < am_max_entries m"
    and "check_update_flags flags" and "flags \<noteq> BPF_NOEXIST" and "am_value_size m \<le> length v"
  shows "\<exists>m'. array_elem_update m (Some (store_u32 i)) (Some v) flags = Inr m' \<and> array_wf m' \<and>
    (\<forall>j < am_max_entries m. array_read m' j =
       (if j = i then Inr (take (am_value_size m) v) else array_read m j))"
proof -
  have "i < 2 ^ 32" using assms(1,2) by (simp add: array_wf_def)
  then obtain m' where "array_elem_update m (Some (store_u32 i)) (Some v) flags = Inr m'" "array_wf m'"
    "am_max_entries m' = am_max_entries m"
    "\<And>j. j < am_max_entries m \<Longrightarrow>
      array_cell m' j = (if j = i then take (am_value_size m) v else array_cell m j)"
    using array_update_ok [OF assms(1,2) _ assms(3-5)] by metis
  with assms(1) show ?thesis by (auto simp: array_read_cell)
qed

theorem array_update_lookup_witness:
  "array_wf (array_map_impl 2 3) \<and>
   (\<exists>m'. array_elem_update (array_map_impl 2 3) (Some (store_u32 1)) (Some [7, 8]) 0 = Inr m' \<and>
      array_read m' 1 = Inr [7, 8] \<and> array_read m' 2 = Inr [0, 0])"
proof -
  have wf: "array_wf (array_map_impl 2 3)" by (rule array_wf_init) simp_all
  have r: "array_read (array_map_impl 2 3) 2 = Inr [0, 0]"
    by (simp add: array_read_def array_elem_lookup_def array_map_impl_def eval_simps)
  have "\<exists>m'. array_elem_update (array_map_impl 2 3) (Some (store_u32 1)) (Some [7, 8]) 0 = Inr m' \<and>
      array_wf m' \<and>
      (\<forall>j < am_max_entries (array_map_impl 2 3). array_read m' j =
        (if j = 1 then Inr (take (am_value_size (array_map_impl 2 3)) [7, 8])
         else array_read (array_map_impl 2 3) j))"
    by (rule array_update_lookup [OF wf])
      (simp_all add: array_map_impl_def check_update_flags_def flag_defs)
  then obtain m' where m': "array_elem_update (array_map_impl 2 3) (Some (store_u32 1)) (Some [7, 8]) 0 = Inr m'"
    and all: "\<forall>j < am_max_entries (array_map_impl 2 3). array_read m' j =
        (if j = 1 then Inr (take (am_value_size (array_map_impl 2 3)) [7, 8])
         else array_read (array_map_impl 2 3) j)"
    by blast
  have "array_read m' 1 = Inr [7, 8]" "array_read m' 2 = Inr [0, 0]"
    using all [rule_format, of 1] all [rule_format, of 2] r by (simp_all add: array_map_impl_def)
  with wf m' show ?thesis by blast
qed

text \<open>
  The 32-bit products: with 65537-byte values and 65536 entries the vector gets 65536 bytes, and the
  lookup of index 1 answers with offset 65537, outside the vector.
\<close>

lemma array_size_overflow:
  "length (am_data (array_map_impl 65537 65536)) = 65536"
  "array_elem_lookup (array_map_impl 65537 65536) (Some (store_u32 1)) = Inr 65537"
  by (simp_all add: array_map_impl_def array_elem_lookup_def wrap32_def)

text \<open>An array with no entries answers every \<open>map_get_next_key\<close> with key 0, so no iteration ends.\<close>

lemma array_empty_iteration: "am_max_entries m = 0 \<Longrightarrow> walk_keys
    (\<lambda>k. array_map_get_next_key m (map_option store_u32 k)) n k = None"
proof (induction n arbitrary: k)
  case (Suc n)
  have "array_map_get_next_key m (map_option store_u32 k) = Inr 0"
    using Suc.prems
    by (cases k) (simp_all add: array_map_get_next_key_def arg_u32_def arg_bytes_def load_def store_u32_def
        del: le_bytes.simps)
  with Suc show ?case by simp
qed simp

end
