(* ===== verification/Percpu_Array.thy ===== *)
theory Percpu_Array
  imports Map_Contracts Array_Map
begin

text \<open>
  \<open>per_cpu_array_map_impl\<close> (per_cpu_array_map.cpp) and \<open>array_map_of_maps_impl\<close>
  (map_in_maps.hpp).  The processor an operation runs on (\<open>my_sched_getcpu\<close>) is the argument
  \<open>cpu\<close>; the number of processors is fixed when the map is made.
\<close>

section \<open>The per-CPU array map\<close>

record pcpu_array =
  pa_data :: bytes
  pa_ncpu :: nat
  pa_value_size :: nat
  pa_max_ent :: nat

text \<open>The allocation multiplies at 32 bits, \<open>data_at\<close> at 64 bits.\<close>

definition per_cpu_array_map_impl :: "nat \<Rightarrow> nat \<Rightarrow> nat \<Rightarrow> pcpu_array" where
  "per_cpu_array_map_impl value_size max_entries ncpu =
     \<lparr>pa_data = replicate (wrap32 (max_entries * ncpu * value_size)) 0, pa_ncpu = ncpu,
      pa_value_size = value_size, pa_max_ent = max_entries\<rparr>"

definition pcpu_data_at :: "pcpu_array \<Rightarrow> nat \<Rightarrow> nat \<Rightarrow> nat" where
  "pcpu_data_at m idx cpu = wrap64 (idx * pa_value_size m * pa_ncpu m + cpu * pa_value_size m)"

definition pcpu_elem_lookup :: "nat \<Rightarrow> pcpu_array \<Rightarrow> ptr \<Rightarrow> nat res" where
  "pcpu_elem_lookup cpu m key =
     (case key of
        None \<Rightarrow> Inl (Errno ENOENT)
      | Some _ \<Rightarrow> bind_res (arg_u32 key) (\<lambda>key_val.
          if key_val \<ge> pa_max_ent m then Inl (Errno ENOENT)
          else Inr (pcpu_data_at m key_val cpu)))"

definition pcpu_elem_update :: "nat \<Rightarrow> pcpu_array \<Rightarrow> ptr \<Rightarrow> ptr \<Rightarrow> nat \<Rightarrow> pcpu_array res" where
  "pcpu_elem_update cpu m key value flags =
     (if \<not> check_update_flags flags then Inl (Errno EINVAL)
      else case key of
        None \<Rightarrow> Inl (Errno ENOENT)
      | Some _ \<Rightarrow> bind_res (arg_u32 key) (\<lambda>key_val.
          if key_val < pa_max_ent m \<and> flags = BPF_NOEXIST then Inl (Errno EEXIST)
          else if key_val \<ge> pa_max_ent m then Inl (Errno E2BIG)
          else bind_res (arg_bytes value (pa_value_size m)) (\<lambda>v.
            bind_res (of_opt (store (pa_data m) (pcpu_data_at m key_val cpu) v)) (\<lambda>d.
              Inr (m\<lparr>pa_data := d\<rparr>)))))"

definition pcpu_elem_delete :: "pcpu_array \<Rightarrow> ptr \<Rightarrow> pcpu_array res" where
  "pcpu_elem_delete m key = Inl (Errno EINVAL)"

definition pcpu_map_get_next_key :: "pcpu_array \<Rightarrow> ptr \<Rightarrow> nat res" where
  "pcpu_map_get_next_key m key =
     (case key of
        None \<Rightarrow> Inr 0
      | Some _ \<Rightarrow> bind_res (arg_u32 key) (\<lambda>key_val.
          if key_val \<ge> pa_max_ent m then Inr 0
          else if key_val = pa_max_ent m - 1 then Inl (Errno ENOENT)
          else Inr (wrap32 (key_val + 1))))"

definition pcpu_elem_lookup_userspace :: "pcpu_array \<Rightarrow> ptr \<Rightarrow> nat res" where
  "pcpu_elem_lookup_userspace m key =
     (case key of
        None \<Rightarrow> Inl (Errno ENOENT)
      | Some _ \<Rightarrow> bind_res (arg_u32 key) (\<lambda>key_val.
          if key_val \<ge> pa_max_ent m then Inl (Errno ENOENT)
          else Inr (pcpu_data_at m key_val 0)))"

definition pcpu_elem_update_userspace :: "pcpu_array \<Rightarrow> ptr \<Rightarrow> ptr \<Rightarrow> nat \<Rightarrow> pcpu_array res" where
  "pcpu_elem_update_userspace m key value flags =
     (if \<not> check_update_flags flags then Inl (Errno EINVAL)
      else case key of
        None \<Rightarrow> Inl (Errno ENOENT)
      | Some _ \<Rightarrow> bind_res (arg_u32 key) (\<lambda>key_val.
          if key_val < pa_max_ent m \<and> flags = BPF_NOEXIST then Inl (Errno EEXIST)
          else if key_val \<ge> pa_max_ent m then Inl (Errno E2BIG)
          else bind_res (arg_bytes value (wrap32 (pa_ncpu m * pa_value_size m))) (\<lambda>v.
            bind_res (of_opt (store (pa_data m) (pcpu_data_at m key_val 0) v)) (\<lambda>d.
              Inr (m\<lparr>pa_data := d\<rparr>)))))"

definition pcpu_elem_delete_userspace :: "pcpu_array \<Rightarrow> ptr \<Rightarrow> pcpu_array res" where
  "pcpu_elem_delete_userspace m key = Inl (Errno EINVAL)"

definition pcpu_wf :: "pcpu_array \<Rightarrow> bool" where
  "pcpu_wf m \<longleftrightarrow> 0 < pa_ncpu m \<and> pa_value_size m < 2 ^ 32 \<and> pa_max_ent m < 2 ^ 32 \<and>
     pa_max_ent m * pa_ncpu m * pa_value_size m < 2 ^ 32 \<and>
     length (pa_data m) = pa_max_ent m * pa_ncpu m * pa_value_size m"

text \<open>The value processor \<open>cpu\<close> sees at index \<open>i\<close>.\<close>

definition pcpu_value :: "pcpu_array \<Rightarrow> nat \<Rightarrow> nat \<Rightarrow> bytes" where
  "pcpu_value m i cpu = cell (pa_data m) (pa_value_size m) (i * pa_ncpu m + cpu)"

lemma pcpu_wf_init:
  "0 < ncpu \<Longrightarrow> value_size < 2 ^ 32 \<Longrightarrow> max_entries < 2 ^ 32 \<Longrightarrow>
     max_entries * ncpu * value_size < 2 ^ 32 \<Longrightarrow>
     pcpu_wf (per_cpu_array_map_impl value_size max_entries ncpu)"
  by (simp add: pcpu_wf_def per_cpu_array_map_impl_def wrap32_def)

lemma pcpu_index_less: "i < me \<Longrightarrow> cpu < ncpu \<Longrightarrow> i * ncpu + cpu < me * ncpu" for i :: nat
  using cell_in_bounds [of i me ncpu] by simp

lemma pcpu_index_eq:
  "cpu < ncpu \<Longrightarrow> c < ncpu \<Longrightarrow> j * ncpu + c = i * ncpu + cpu \<longleftrightarrow> j = i \<and> c = cpu" for i :: nat
proof
  assume "cpu < ncpu" "c < ncpu" and eq: "j * ncpu + c = i * ncpu + cpu"
  then have "(j * ncpu + c) div ncpu = (i * ncpu + cpu) div ncpu"
    and "(j * ncpu + c) mod ncpu = (i * ncpu + cpu) mod ncpu" by simp_all
  with \<open>cpu < ncpu\<close> \<open>c < ncpu\<close> show "j = i \<and> c = cpu" by simp
qed simp

lemma pcpu_data_at_cell:
  assumes "pcpu_wf m" and "i < pa_max_ent m" and "cpu < pa_ncpu m"
  shows "pcpu_data_at m i cpu = (i * pa_ncpu m + cpu) * pa_value_size m"
proof -
  have "(i * pa_ncpu m + cpu) * pa_value_size m \<le> pa_max_ent m * pa_ncpu m * pa_value_size m"
    using pcpu_index_less [OF assms(2,3)] by (intro mult_le_mono1) simp
  also have "\<dots> < 2 ^ 64"
    using assms(1) by (simp add: pcpu_wf_def)
  finally show ?thesis
    by (simp add: pcpu_data_at_def wrap64_id algebra_simps)
qed

lemma pcpu_update_ok:
  assumes wf: "pcpu_wf m" and i: "i < pa_max_ent m" and cpu: "cpu < pa_ncpu m"
    and flags: "check_update_flags flags" "flags \<noteq> BPF_NOEXIST" and v: "pa_value_size m \<le> length v"
  obtains m' where "pcpu_elem_update cpu m (Some (store_u32 i)) (Some v) flags = Inr m'"
    and "pcpu_wf m'" and "pa_max_ent m' = pa_max_ent m" and "pa_ncpu m' = pa_ncpu m"
    and "\<And>j c. j < pa_max_ent m \<Longrightarrow> c < pa_ncpu m \<Longrightarrow>
      pcpu_value m' j c = (if j = i \<and> c = cpu then take (pa_value_size m) v else pcpu_value m j c)"
proof -
  let ?bs = "take (pa_value_size m) v"
  have len: "length (pa_data m) = pa_max_ent m * pa_ncpu m * pa_value_size m"
    and bs: "length ?bs = pa_value_size m" and i32: "i < 2 ^ 32"
    using wf v i by (simp_all add: pcpu_wf_def)
  note idx = pcpu_index_less [OF i cpu]
  obtain w where w: "store (pa_data m) ((i * pa_ncpu m + cpu) * pa_value_size m) ?bs = Some w"
    using store_cell [OF len idx bs] by blast
  show ?thesis
  proof
    show "pcpu_elem_update cpu m (Some (store_u32 i)) (Some v) flags = Inr (m\<lparr>pa_data := w\<rparr>)"
      using i i32 flags v w
      by (simp add: pcpu_elem_update_def pcpu_data_at_cell [OF wf i cpu] arg_bytes_Some)
    show "pcpu_wf (m\<lparr>pa_data := w\<rparr>)"
      using wf length_store [OF w] by (simp add: pcpu_wf_def)
    show "pcpu_value (m\<lparr>pa_data := w\<rparr>) j c = (if j = i \<and> c = cpu then ?bs else pcpu_value m j c)"
      if "j < pa_max_ent m" "c < pa_ncpu m" for j c
      using cell_store [OF w len bs idx pcpu_index_less [OF that]] pcpu_index_eq [OF cpu that(2), of j i]
      by (simp add: pcpu_value_def)
  qed simp_all
qed

text \<open>What user space reads through \<open>elem_lookup_userspace\<close>: one value per processor.\<close>

definition pcpu_read_userspace :: "pcpu_array \<Rightarrow> nat \<Rightarrow> bytes res" where
  "pcpu_read_userspace m i = bind_res (pcpu_elem_lookup_userspace m (Some (store_u32 i)))
     (\<lambda>off. of_opt (load (pa_data m) off (pa_ncpu m * pa_value_size m)))"

lemma pcpu_read_userspace_values:
  assumes wf: "pcpu_wf m" and i: "i < pa_max_ent m"
  shows "pcpu_read_userspace m i = Inr (concat (map (pcpu_value m i) [0..<pa_ncpu m]))"
proof -
  let ?n = "pa_ncpu m" and ?sz = "pa_value_size m"
  have n: "0 < ?n" and i32: "i < 2 ^ 32"
    and len: "length (pa_data m) = pa_max_ent m * ?n * ?sz"
    using wf i by (simp_all add: pcpu_wf_def)
  have bound: "(i * ?n + ?n) * ?sz \<le> length (pa_data m)"
    unfolding len using cell_in_bounds [OF i, of ?n] by (intro mult_le_mono1) simp
  then have "load (pa_data m) (i * ?n * ?sz) (?n * ?sz) =
      Some (concat (map (\<lambda>k. cell (pa_data m) ?sz (i * ?n + k)) [0..<?n]))"
    using cells_concat [OF bound] by (simp add: load_def algebra_simps)
  then show ?thesis
    using pcpu_data_at_cell [OF wf i n] i i32
    by (simp add: pcpu_read_userspace_def pcpu_elem_lookup_userspace_def pcpu_value_def [abs_def])
qed

text \<open>
  C40. Per-CPU array: an update made while running on processor \<open>cpu\<close> replaces exactly that
  processor's copy of the element; what user space then reads for the element is the concatenation
  of all processors' copies, with only that one changed, and no other element changes.
\<close>

theorem pcpu_update_isolated:
  assumes "pcpu_wf m" and "i < pa_max_ent m" and "cpu < pa_ncpu m"
    and "check_update_flags flags" and "flags \<noteq> BPF_NOEXIST" and "pa_value_size m \<le> length v"
  shows "\<exists>m'. pcpu_elem_update cpu m (Some (store_u32 i)) (Some v) flags = Inr m' \<and> pcpu_wf m' \<and>
    pcpu_read_userspace m' i = Inr (concat (map
      (\<lambda>c. if c = cpu then take (pa_value_size m) v else pcpu_value m i c) [0..<pa_ncpu m])) \<and>
    (\<forall>j < pa_max_ent m. j \<noteq> i \<longrightarrow> pcpu_read_userspace m' j = pcpu_read_userspace m j)"
proof -
  obtain m' where upd: "pcpu_elem_update cpu m (Some (store_u32 i)) (Some v) flags = Inr m'"
    and wf': "pcpu_wf m'" and me: "pa_max_ent m' = pa_max_ent m" and nc: "pa_ncpu m' = pa_ncpu m"
    and val: "\<And>j c. j < pa_max_ent m \<Longrightarrow> c < pa_ncpu m \<Longrightarrow>
      pcpu_value m' j c = (if j = i \<and> c = cpu then take (pa_value_size m) v else pcpu_value m j c)"
    using pcpu_update_ok [OF assms] by metis
  have read: "pcpu_read_userspace m' j = Inr (concat (map (pcpu_value m' j) [0..<pa_ncpu m]))"
    if "j < pa_max_ent m" for j
    using pcpu_read_userspace_values [OF wf'] that me nc by simp
  have "pcpu_read_userspace m' j = pcpu_read_userspace m j" if "j < pa_max_ent m" "j \<noteq> i" for j
  proof -
    have "map (pcpu_value m' j) [0..<pa_ncpu m] = map (pcpu_value m j) [0..<pa_ncpu m]"
      using val that by simp
    then show ?thesis using read [OF that(1)] pcpu_read_userspace_values [OF assms(1) that(1)] by metis
  qed
  moreover have "map (pcpu_value m' i) [0..<pa_ncpu m] =
      map (\<lambda>c. if c = cpu then take (pa_value_size m) v else pcpu_value m i c) [0..<pa_ncpu m]"
    using val assms(2) by simp
  ultimately show ?thesis using upd wf' read [OF assms(2)] by metis
qed

theorem pcpu_update_isolated_witness:
  "pcpu_wf (per_cpu_array_map_impl 1 2 3) \<and>
   (\<exists>m'. pcpu_elem_update 1 (per_cpu_array_map_impl 1 2 3) (Some (store_u32 1)) (Some [9]) 0 = Inr m' \<and>
      pcpu_read_userspace m' 1 = Inr [0, 9, 0])"
proof -
  let ?m = "per_cpu_array_map_impl 1 2 3"
  have wf: "pcpu_wf ?m" by (rule pcpu_wf_init) simp_all
  have "\<exists>m'. pcpu_elem_update 1 ?m (Some (store_u32 1)) (Some [9]) 0 = Inr m' \<and> pcpu_wf m' \<and>
    pcpu_read_userspace m' 1 = Inr (concat (map
      (\<lambda>c. if c = 1 then take (pa_value_size ?m) [9] else pcpu_value ?m 1 c) [0..<pa_ncpu ?m])) \<and>
    (\<forall>j < pa_max_ent ?m. j \<noteq> 1 \<longrightarrow> pcpu_read_userspace m' j = pcpu_read_userspace ?m j)"
    by (rule pcpu_update_isolated [OF wf])
      (simp_all add: per_cpu_array_map_impl_def check_update_flags_def flag_defs)
  then show ?thesis
    using wf by (auto simp: per_cpu_array_map_impl_def pcpu_value_def eval_simps upt_rec)
qed

interpretation pcpu_iter: key_iteration
  "\<lambda>m. pcpu_wf m \<and> 0 < pa_max_ent m"
  "\<lambda>m. [0..<pa_max_ent m]"
  "\<lambda>m k. pcpu_map_get_next_key m (map_option store_u32 k)"
proof (unfold_locales, goal_cases)
  case (3 s i)
  then have i: "Suc i < 2 ^ 32" by (simp add: pcpu_wf_def)
  have "pa_max_ent s - Suc 0 \<noteq> i" using 3 by simp
  with 3 i show ?case by (simp add: pcpu_map_get_next_key_def wrap32_id)
next
  case (4 s)
  then have "pa_max_ent s - 1 < 2 ^ 32" by (auto simp: pcpu_wf_def)
  with 4 show ?case by (auto simp: pcpu_map_get_next_key_def)
qed (auto simp: pcpu_map_get_next_key_def)

text \<open>
  The allocation is a 32-bit product: with 65536-byte values, 65536 entries and one processor the
  vector is empty, and the lookup of index 1 points 65536 bytes past it.
\<close>

lemma pcpu_size_overflow:
  "pa_data (per_cpu_array_map_impl 65536 65536 1) = []"
  "pcpu_elem_lookup 0 (per_cpu_array_map_impl 65536 65536 1) (Some (store_u32 1)) = Inr 65536"
  by (simp_all add: per_cpu_array_map_impl_def pcpu_elem_lookup_def pcpu_data_at_def wrap32_def wrap64_def)

section \<open>The array of maps\<close>

text \<open>
  \<open>array_map_of_maps_impl\<close> is an array map of 4-byte map ids whose lookup dereferences what the
  array lookup returned and shifts the id into the high half of a pointer.
\<close>

definition array_map_of_maps_impl :: "nat \<Rightarrow> array_map" where
  "array_map_of_maps_impl max_entries = array_map_impl 4 max_entries"

definition array_of_maps_elem_lookup :: "array_map \<Rightarrow> ptr \<Rightarrow> nat res" where
  "array_of_maps_elem_lookup m key =
     (case array_elem_lookup m key of
        Inl _ \<Rightarrow> Inl Fault
      | Inr off \<Rightarrow> bind_res (of_opt (load (am_data m) off 4)) (\<lambda>bs.
          let map_id = load_i32 bs in Inr (wrap64 (nat (map_id mod 2 ^ 64) * 2 ^ 32))))"

text \<open>A key out of range makes it dereference the null pointer.\<close>

lemma array_of_maps_lookup_out_of_range:
  "am_max_entries m \<le> k \<Longrightarrow> k < 2 ^ 32 \<Longrightarrow>
     array_of_maps_elem_lookup m (Some (store_u32 k)) = Inl Fault"
  by (simp add: array_of_maps_elem_lookup_def array_elem_lookup_def)

end
