(* ===== verification/Fd_Array.thy ===== *)
theory Fd_Array
  imports Map_Contracts
begin

text \<open>
  The arrays of descriptors: \<open>perf_event_array_map_impl\<close> (perf_event_array_map.cpp) and
  \<open>prog_array_map_impl\<close> (prog_array.cpp).  Both keep a vector of \<open>int32_t\<close> filled with -1.  The
  program array stores kernel program ids and translates them with two \<open>bpf\<close> system calls, which
  are parameters: \<open>sys n\<close> is the result of the \<open>n\<close>-th attempt of \<open>BPF_PROG_GET_FD_BY_ID\<close>, and
  \<open>info_by_fd v\<close> is the id \<open>BPF_OBJ_GET_INFO_BY_FD\<close> reports for the descriptor \<open>v\<close>, if it succeeds.
\<close>

section \<open>The perf event array\<close>

record fd_array =
  fa_data :: "int list"

text \<open>Both constructors: the sizes must be 4; every slot starts as -1.\<close>

definition perf_event_array_map_impl :: "nat \<Rightarrow> nat \<Rightarrow> nat \<Rightarrow> fd_array res" where
  "perf_event_array_map_impl key_size value_size max_entries =
     (if key_size \<noteq> 4 \<or> value_size \<noteq> 4 then Inl Throw
      else Inr \<lparr>fa_data = replicate max_entries (-1)\<rparr>)"

definition perf_elem_lookup :: "fd_array \<Rightarrow> ptr \<Rightarrow> nat res" where
  "perf_elem_lookup m key =
     bind_res (arg_i32 key) (\<lambda>k.
       if k < 0 \<or> nat k \<ge> length (fa_data m) then Inl (Errno EINVAL) else Inr (nat k))"

definition perf_elem_update :: "fd_array \<Rightarrow> ptr \<Rightarrow> ptr \<Rightarrow> nat \<Rightarrow> fd_array res" where
  "perf_elem_update m key value flags =
     bind_res (arg_i32 key) (\<lambda>k.
       if k < 0 \<or> nat k \<ge> length (fa_data m) then Inl (Errno EINVAL)
       else bind_res (arg_i32 value) (\<lambda>v. Inr (m\<lparr>fa_data := (fa_data m)[nat k := v]\<rparr>)))"

definition perf_elem_delete :: "fd_array \<Rightarrow> ptr \<Rightarrow> fd_array res" where
  "perf_elem_delete m key =
     bind_res (arg_i32 key) (\<lambda>k.
       if k < 0 \<or> nat k \<ge> length (fa_data m) then Inl (Errno EINVAL)
       else Inr (m\<lparr>fa_data := (fa_data m)[nat k := -1]\<rparr>))"

text \<open>\<open>k + 1\<close> is a signed addition: at \<open>INT32_MAX\<close> it overflows, which is undefined.\<close>

definition perf_map_get_next_key :: "fd_array \<Rightarrow> ptr \<Rightarrow> int res" where
  "perf_map_get_next_key m key =
     (case key of
        None \<Rightarrow> Inr 0
      | Some _ \<Rightarrow> bind_res (arg_i32 key) (\<lambda>k.
          if k + 1 = 2 ^ 31 then Inl Fault
          else if nat ((k + 1) mod 2 ^ 64) = length (fa_data m) then Inl (Errno ENOENT)
          else if k < 0 \<or> nat k \<ge> length (fa_data m) then Inl (Errno EINVAL)
          else Inr (k + 1)))"

section \<open>The program array\<close>

definition EAGAIN_code :: int where "EAGAIN_code = 11"

text \<open>The retry loop of \<open>my_bpf_syscall_fd\<close>: at most \<open>attempts\<close> calls.\<close>

fun my_bpf_syscall_fd_loop :: "(nat \<Rightarrow> int) \<Rightarrow> nat \<Rightarrow> nat \<Rightarrow> int" where
  "my_bpf_syscall_fd_loop sys n 0 = sys n"
| "my_bpf_syscall_fd_loop sys n (Suc attempts) =
     (let fd = sys n
      in if fd < 0 \<and> fd = - EAGAIN_code \<and> attempts > 0
         then my_bpf_syscall_fd_loop sys (Suc n) attempts else fd)"

definition my_bpf_syscall_fd :: "(nat \<Rightarrow> int) \<Rightarrow> int" where
  "my_bpf_syscall_fd sys = my_bpf_syscall_fd_loop sys 0 5"

definition my_bpf_prog_get_fd_by_id :: "(int \<Rightarrow> nat \<Rightarrow> int) \<Rightarrow> int \<Rightarrow> int" where
  "my_bpf_prog_get_fd_by_id sys prog_id = my_bpf_syscall_fd (sys prog_id)"

definition prog_array_map_impl :: "nat \<Rightarrow> nat \<Rightarrow> nat \<Rightarrow> fd_array res" where
  "prog_array_map_impl key_size value_size max_entries =
     (if key_size \<noteq> 4 \<or> value_size \<noteq> 4 then Inl Throw
      else Inr \<lparr>fa_data = replicate max_entries (-1)\<rparr>)"

text \<open>The result is the content of the thread-local \<open>uint32_t\<close> the returned pointer leads to.\<close>

definition prog_elem_lookup :: "(int \<Rightarrow> nat \<Rightarrow> int) \<Rightarrow> fd_array \<Rightarrow> ptr \<Rightarrow> nat res" where
  "prog_elem_lookup sys m key =
     bind_res (arg_i32 key) (\<lambda>k.
       if k < 0 \<or> nat k \<ge> length (fa_data m) then Inl (Errno EINVAL)
       else Inr (nat (my_bpf_prog_get_fd_by_id sys (fa_data m ! nat k) mod 2 ^ 32)))"

definition prog_elem_update ::
  "(int \<Rightarrow> int option) \<Rightarrow> fd_array \<Rightarrow> ptr \<Rightarrow> ptr \<Rightarrow> nat \<Rightarrow> fd_array res" where
  "prog_elem_update info_by_fd m key value flags =
     bind_res (arg_i32 key) (\<lambda>k.
       if k < 0 \<or> nat k \<ge> length (fa_data m) then Inl (Errno EINVAL)
       else bind_res (arg_i32 value) (\<lambda>v.
         case info_by_fd v of
           None \<Rightarrow> Inl RetFail
         | Some prog_id \<Rightarrow> Inr (m\<lparr>fa_data := (fa_data m)[nat k := prog_id]\<rparr>)))"

definition prog_elem_delete :: "fd_array \<Rightarrow> ptr \<Rightarrow> fd_array res" where
  "prog_elem_delete m key =
     bind_res (arg_i32 key) (\<lambda>k.
       if k < 0 \<or> nat k \<ge> length (fa_data m) then Inl (Errno EINVAL)
       else Inr (m\<lparr>fa_data := (fa_data m)[nat k := -1]\<rparr>))"

definition prog_map_get_next_key :: "fd_array \<Rightarrow> ptr \<Rightarrow> int res" where
  "prog_map_get_next_key m key =
     (case key of
        None \<Rightarrow> Inr 0
      | Some _ \<Rightarrow> bind_res (arg_i32 key) (\<lambda>k.
          if k + 1 = 2 ^ 31 then Inl Fault
          else if nat ((k + 1) mod 2 ^ 64) = length (fa_data m) then Inl (Errno ENOENT)
          else if k < 0 \<or> nat k \<ge> length (fa_data m) then Inl (Errno EINVAL)
          else Inr (k + 1)))"

section \<open>Signed keys\<close>

lemma arg_i32_store [simp]:
  assumes "- (2 ^ 31) \<le> i" and "i < 2 ^ 31"
  shows "arg_i32 (Some (store_i32 i)) = Inr i"
proof -
  let ?n = "nat (i mod 2 ^ 32)"
  have n: "?n < 2 ^ 32" by (simp add: nat_less_iff)
  have "load_u32 (store_i32 i) = ?n"
    using load_u32_store_u32 [OF n] by (simp add: store_i32_def store_u32_def)
  moreover have "i mod 2 ^ 32 = (if i < 0 then i + 2 ^ 32 else i)"
  proof (cases "i < 0")
    case True
    then have "(i + 2 ^ 32) mod 2 ^ 32 = i + 2 ^ 32"
      using assms by (intro mod_pos_pos_trivial) auto
    with True show ?thesis by simp
  next
    case False
    with assms show ?thesis by (auto intro: mod_pos_pos_trivial)
  qed
  ultimately have "load_i32 (store_i32 i) = i"
    using assms by (auto simp: load_i32_def Let_def)
  then show ?thesis
    by (simp add: arg_i32_def arg_bytes_def load_def store_i32_def del: le_bytes.simps)
qed

lemma arg_i32_range:
  assumes "arg_i32 p = Inr i"
  shows "- (2 ^ 31) \<le> i \<and> i < 2 ^ 31"
proof -
  from assms obtain x where "i = load_i32 x" by (auto simp: arg_i32_def bind_res_eq_Inr)
  then show ?thesis using load_u32_less [of x] by (auto simp: load_i32_def Let_def)
qed

section \<open>Well-formedness and iteration\<close>

text \<open>The vector is shorter than 2^31: its indices are the non-negative \<open>int32_t\<close> keys.\<close>

definition fd_array_wf :: "fd_array \<Rightarrow> bool" where
  "fd_array_wf m \<longleftrightarrow> 0 < length (fa_data m) \<and> length (fa_data m) < 2 ^ 31"

lemma fd_next_step:
  assumes "fd_array_wf m" and "Suc i < length (fa_data m)"
  shows "perf_map_get_next_key m (Some (store_i32 (int i))) = Inr (int (Suc i))"
    and "prog_map_get_next_key m (Some (store_i32 (int i))) = Inr (int (Suc i))"
proof -
  have i: "int i + 1 < 2 ^ 31" using assms by (simp add: fd_array_wf_def)
  then have "nat ((int i + 1) mod 2 ^ 64) = Suc i" by simp
  with assms i show "perf_map_get_next_key m (Some (store_i32 (int i))) = Inr (int (Suc i))"
    and "prog_map_get_next_key m (Some (store_i32 (int i))) = Inr (int (Suc i))"
    by (simp_all add: perf_map_get_next_key_def prog_map_get_next_key_def)
qed

lemma fd_next_last:
  assumes "fd_array_wf m"
  shows "perf_map_get_next_key m (Some (store_i32 (int (length (fa_data m) - 1)))) = Inl (Errno ENOENT)"
    and "prog_map_get_next_key m (Some (store_i32 (int (length (fa_data m) - 1)))) = Inl (Errno ENOENT)"
proof -
  let ?i = "length (fa_data m) - 1"
  have n: "0 < length (fa_data m)" "length (fa_data m) < 2 ^ 31"
    using assms by (simp_all add: fd_array_wf_def)
  then have i: "int ?i + 1 = int (length (fa_data m))" by linarith
  with n have "int ?i + 1 < 2 ^ 31" by simp
  then have "nat ((int ?i + 1) mod 2 ^ 64) = length (fa_data m)" unfolding i using n by simp
  with i \<open>int ?i + 1 < 2 ^ 31\<close> show "perf_map_get_next_key m (Some (store_i32 (int ?i))) = Inl (Errno ENOENT)"
    and "prog_map_get_next_key m (Some (store_i32 (int ?i))) = Inl (Errno ENOENT)"
    by (simp_all add: perf_map_get_next_key_def prog_map_get_next_key_def)
qed

interpretation perf_iter: key_iteration fd_array_wf
  "\<lambda>m. map int [0..<length (fa_data m)]"
  "\<lambda>m k. perf_map_get_next_key m (map_option store_i32 k)"
proof (unfold_locales, goal_cases)
  case (2 s)
  then show ?case by (simp add: perf_map_get_next_key_def hd_map fd_array_wf_def)
next
  case (4 s)
  then show ?case using fd_next_last [of s] by (simp add: last_map fd_array_wf_def)
qed (simp_all add: fd_next_step perf_map_get_next_key_def fd_array_wf_def)

interpretation prog_iter: key_iteration fd_array_wf
  "\<lambda>m. map int [0..<length (fa_data m)]"
  "\<lambda>m k. prog_map_get_next_key m (map_option store_i32 k)"
proof (unfold_locales, goal_cases)
  case (2 s)
  then show ?case by (simp add: prog_map_get_next_key_def hd_map fd_array_wf_def)
next
  case (4 s)
  then show ?case using fd_next_last [of s] by (simp add: last_map fd_array_wf_def)
qed (simp_all add: fd_next_step prog_map_get_next_key_def fd_array_wf_def)

section \<open>Update, lookup, delete\<close>

text \<open>What a caller reads through the pointer a perf event array lookup returns.\<close>

definition perf_read :: "fd_array \<Rightarrow> int \<Rightarrow> int res" where
  "perf_read m k = bind_res (perf_elem_lookup m (Some (store_i32 k))) (\<lambda>i. Inr (fa_data m ! i))"

lemma perf_read_nth:
  "fd_array_wf m \<Longrightarrow> i < length (fa_data m) \<Longrightarrow> perf_read m (int i) = Inr (fa_data m ! i)"
  by (simp add: perf_read_def perf_elem_lookup_def fd_array_wf_def)

text \<open>
  Descriptor arrays: storing a descriptor at an index in range of a perf event array makes
  exactly that slot read back as the descriptor, and deleting it afterwards makes it read back as
  -1, the value of a slot that was never written; every other slot keeps its value throughout.
\<close>

lemma perf_update_delete:
  assumes "fd_array_wf m" and "i < length (fa_data m)" and "- (2 ^ 31) \<le> v" and "v < 2 ^ 31"
  shows "\<exists>m1 m2. perf_elem_update m (Some (store_i32 (int i))) (Some (store_i32 v)) flags = Inr m1 \<and>
    perf_elem_delete m1 (Some (store_i32 (int i))) = Inr m2 \<and> fd_array_wf m1 \<and> fd_array_wf m2 \<and>
    (\<forall>j < length (fa_data m). perf_read m1 (int j) = (if j = i then Inr v else perf_read m (int j)) \<and>
      perf_read m2 (int j) = (if j = i then Inr (-1) else perf_read m (int j)))"
proof -
  let ?m1 = "m\<lparr>fa_data := (fa_data m)[i := v]\<rparr>"
  let ?m2 = "m\<lparr>fa_data := (fa_data m)[i := -1]\<rparr>"
  have i: "int i < 2 ^ 31" using assms(1,2) by (simp add: fd_array_wf_def)
  have wf: "fd_array_wf ?m1" "fd_array_wf ?m2" using assms(1) by (simp_all add: fd_array_wf_def)
  have "perf_elem_update m (Some (store_i32 (int i))) (Some (store_i32 v)) flags = Inr ?m1"
    using assms i by (simp add: perf_elem_update_def)
  moreover have "perf_elem_delete ?m1 (Some (store_i32 (int i))) = Inr ?m2"
    using assms i by (simp add: perf_elem_delete_def)
  moreover have "perf_read ?m1 (int j) = (if j = i then Inr v else perf_read m (int j)) \<and>
      perf_read ?m2 (int j) = (if j = i then Inr (-1) else perf_read m (int j))"
    if "j < length (fa_data m)" for j
    using that assms(1) perf_read_nth [OF wf(1), of j] perf_read_nth [OF wf(2), of j]
    by (simp add: perf_read_nth)
  ultimately show ?thesis using wf by blast
qed

text \<open>
  The program array retries the system call only while it answers \<open>-EAGAIN\<close>, and never more than
  five times.
\<close>

lemma my_bpf_syscall_fd_attempts:
  "\<exists>n < 5. my_bpf_syscall_fd sys = sys n \<and> (\<forall>k < n. sys k = - EAGAIN_code) \<and>
     (n < 4 \<longrightarrow> sys n \<noteq> - EAGAIN_code)"
proof -
  consider "sys 0 \<noteq> - EAGAIN_code"
    | "sys 0 = - EAGAIN_code" "sys 1 \<noteq> - EAGAIN_code"
    | "\<forall>k < 2. sys k = - EAGAIN_code" "sys 2 \<noteq> - EAGAIN_code"
    | "\<forall>k < 3. sys k = - EAGAIN_code" "sys 3 \<noteq> - EAGAIN_code"
    | "\<forall>k < 4. sys k = - EAGAIN_code"
    by (auto simp: less_Suc_eq numeral_eq_Suc)
  then show ?thesis
  proof cases
    case 1
    then show ?thesis
      by (intro exI [of _ 0]) (simp add: my_bpf_syscall_fd_def numeral_eq_Suc Let_def)
  next
    case 2
    then show ?thesis
      by (intro exI [of _ 1]) (simp add: my_bpf_syscall_fd_def numeral_eq_Suc Let_def EAGAIN_code_def)
  next
    case 3
    then show ?thesis
      by (intro exI [of _ 2])
        (simp add: my_bpf_syscall_fd_def numeral_eq_Suc Let_def EAGAIN_code_def less_Suc_eq)
  next
    case 4
    then show ?thesis
      by (intro exI [of _ 3])
        (simp add: my_bpf_syscall_fd_def numeral_eq_Suc Let_def EAGAIN_code_def less_Suc_eq)
  next
    case 5
    then show ?thesis
      by (intro exI [of _ 4])
        (simp add: my_bpf_syscall_fd_def numeral_eq_Suc Let_def EAGAIN_code_def less_Suc_eq)
  qed
qed

text \<open>The map interface documents that an unknown key restarts the iteration; here it fails.\<close>

lemma fd_next_unknown_key:
  "fd_array_wf m \<Longrightarrow> perf_map_get_next_key m (Some (store_i32 (-5))) = Inl (Errno EINVAL)"
  by (simp add: perf_map_get_next_key_def fd_array_wf_def)

end
