(* ===== verification/Queue_Map.thy ===== *)
theory Queue_Map
  imports Map_Contracts
begin

text \<open>
  The queue map (\<open>src/runtime/src/bpf_map/userspace/queue.cpp\<close>): a circular buffer of fixed-size
  values in a byte vector, with head and tail indices and a count.  The operations refine the
  bounded first-in first-out container of Map\_Contracts.
\<close>

section \<open>The operations\<close>

record queue_map =
  qm_value_size :: nat
  qm_max_entries :: nat
  qm_data :: bytes
  qm_head :: nat
  qm_tail :: nat
  qm_count :: nat

definition queue_map_impl :: "nat \<Rightarrow> nat \<Rightarrow> queue_map res" where
  "queue_map_impl value_size max_entries =
     (if value_size = 0 \<or> max_entries = 0 then Inl Throw
      else Inr \<lparr>qm_value_size = value_size, qm_max_entries = max_entries,
                qm_data = replicate (wrap32 (max_entries * value_size)) 0,
                qm_head = 0, qm_tail = 0, qm_count = 0\<rparr>)"

definition queue_get_current_size :: "queue_map \<Rightarrow> nat" where
  "queue_get_current_size q = qm_count q"

definition queue_is_full :: "queue_map \<Rightarrow> bool" where
  "queue_is_full q \<longleftrightarrow> qm_count q \<ge> qm_max_entries q"

definition queue_is_empty :: "queue_map \<Rightarrow> bool" where
  "queue_is_empty q \<longleftrightarrow> qm_count q = 0"

definition queue_next_index :: "queue_map \<Rightarrow> nat \<Rightarrow> nat" where
  "queue_next_index q index = wrap32 (index + 1) mod qm_max_entries q"

text \<open>The byte offset of slot \<open>i\<close>: a product of two \<open>unsigned int\<close>.\<close>

definition queue_offset :: "queue_map \<Rightarrow> nat \<Rightarrow> nat" where
  "queue_offset q i = wrap32 (i * qm_value_size q)"

definition queue_elem_lookup :: "queue_map \<Rightarrow> ptr \<Rightarrow> nat res" where
  "queue_elem_lookup q key =
     (if queue_is_empty q then Inl (Errno ENOENT) else Inr (queue_offset q (qm_head q)))"

text \<open>The steps that remove the element at the head.\<close>

definition queue_drop_head :: "queue_map \<Rightarrow> queue_map" where
  "queue_drop_head q = q\<lparr>qm_head := queue_next_index q (qm_head q), qm_count := qm_count q - 1\<rparr>"

text \<open>
  The common tail of \<open>elem_update\<close> and \<open>map_push_elem\<close>: make room when full, copy the value to the
  tail slot, advance.
\<close>

definition queue_put :: "queue_map \<Rightarrow> ptr \<Rightarrow> nat \<Rightarrow> queue_map res" where
  "queue_put q value flags =
     (let full = queue_is_full q
      in if full \<and> flags \<noteq> BPF_EXIST then Inl (Errno E2BIG)
         else
           let q' = (if full then queue_drop_head q else q)
           in bind_res (arg_bytes value (qm_value_size q')) (\<lambda>value_bytes.
              bind_res (of_opt (store (qm_data q') (queue_offset q' (qm_tail q')) value_bytes)) (\<lambda>d.
              Inr (q'\<lparr>qm_data := d, qm_tail := queue_next_index q' (qm_tail q'),
                      qm_count := wrap32 (qm_count q' + 1)\<rparr>))))"

definition queue_elem_update :: "queue_map \<Rightarrow> ptr \<Rightarrow> ptr \<Rightarrow> nat \<Rightarrow> queue_map res" where
  "queue_elem_update q key value flags =
     (if value = None then Inl (Errno EINVAL) else queue_put q value flags)"

definition queue_elem_delete :: "queue_map \<Rightarrow> ptr \<Rightarrow> queue_map res" where
  "queue_elem_delete q key =
     (if queue_is_empty q then Inl (Errno ENOENT) else Inr (queue_drop_head q))"

definition queue_map_get_next_key :: "queue_map \<Rightarrow> ptr \<Rightarrow> bytes res" where
  "queue_map_get_next_key q key = Inl (Errno EINVAL)"

definition queue_map_push_elem :: "queue_map \<Rightarrow> ptr \<Rightarrow> nat \<Rightarrow> queue_map res" where
  "queue_map_push_elem q value flags =
     (if value = None then Inl (Errno EINVAL)
      else if flags \<noteq> 0 \<and> flags \<noteq> BPF_ANY \<and> flags \<noteq> BPF_EXIST then Inl (Errno EINVAL)
      else queue_put q value flags)"

definition queue_map_pop_elem :: "queue_map \<Rightarrow> bool \<Rightarrow> (queue_map \<times> bytes) res" where
  "queue_map_pop_elem q value =
     (if \<not> value then Inl (Errno EINVAL)
      else if queue_is_empty q then Inl (Errno ENOENT)
      else bind_res (of_opt (load (qm_data q) (queue_offset q (qm_head q)) (qm_value_size q))) (\<lambda>v.
           Inr (queue_drop_head q, v)))"

definition queue_map_peek_elem :: "queue_map \<Rightarrow> bool \<Rightarrow> bytes res" where
  "queue_map_peek_elem q value =
     (if \<not> value then Inl (Errno EINVAL)
      else if queue_is_empty q then Inl (Errno ENOENT)
      else of_opt (load (qm_data q) (queue_offset q (qm_head q)) (qm_value_size q)))"

text \<open>The queue map as a machine: a lookup answers the value the returned pointer shows.\<close>

fun queue_step :: "queue_map \<Rightarrow> container_op \<Rightarrow> queue_map \<times> answer" where
  "queue_step q (Push value flags) =
     answer_of q (bind_res (queue_map_push_elem q value flags) (\<lambda>q'. Inr (q', Done)))"
| "queue_step q (Pop buf) =
     answer_of q (bind_res (queue_map_pop_elem q buf) (\<lambda>(q', v). Inr (q', Value v)))"
| "queue_step q (Peek buf) =
     answer_of q (bind_res (queue_map_peek_elem q buf) (\<lambda>v. Inr (q, Value v)))"
| "queue_step q (Lookup key) =
     answer_of q (bind_res (queue_elem_lookup q key) (\<lambda>off.
       bind_res (of_opt (load (qm_data q) off (qm_value_size q))) (\<lambda>v. Inr (q, Value v))))"
| "queue_step q (Update key value flags) =
     answer_of q (bind_res (queue_elem_update q key value flags) (\<lambda>q'. Inr (q', Done)))"
| "queue_step q (Delete key) =
     answer_of q (bind_res (queue_elem_delete q key) (\<lambda>q'. Inr (q', Done)))"

section \<open>Invariant and abstraction\<close>

definition queue_wf :: "queue_map \<Rightarrow> bool" where
  "queue_wf q \<longleftrightarrow>
     0 < qm_value_size q \<and> 0 < qm_max_entries q \<and> qm_max_entries q * qm_value_size q < 2 ^ 32 \<and>
     length (qm_data q) = qm_max_entries q * qm_value_size q \<and>
     qm_head q < qm_max_entries q \<and> qm_count q \<le> qm_max_entries q \<and>
     qm_tail q = (qm_head q + qm_count q) mod qm_max_entries q"

definition queue_slot :: "queue_map \<Rightarrow> nat \<Rightarrow> bytes" where
  "queue_slot q k = cell (qm_data q) (qm_value_size q) ((qm_head q + k) mod qm_max_entries q)"

definition queue_elems :: "queue_map \<Rightarrow> bytes list" where
  "queue_elems q = map (queue_slot q) [0..<qm_count q]"

definition queue_abs :: "queue_map \<Rightarrow> nat \<times> nat \<times> bytes list" where
  "queue_abs q = (qm_max_entries q, qm_value_size q, queue_elems q)"

lemma queue_wf_max: "queue_wf q \<Longrightarrow> qm_max_entries q < 2 ^ 32"
proof -
  assume "queue_wf q"
  then have "1 \<le> qm_value_size q" "qm_max_entries q * qm_value_size q < 2 ^ 32"
    by (auto simp: queue_wf_def)
  moreover from this(1) have "qm_max_entries q * 1 \<le> qm_max_entries q * qm_value_size q"
    by (rule mult_le_mono2)
  ultimately show ?thesis by linarith
qed

lemma queue_wf_init:
  "queue_map_impl vs n = Inr q \<Longrightarrow> n * vs < 2 ^ 32 \<Longrightarrow> queue_wf q \<and> queue_abs q = (n, vs, [])"
  by (auto simp: queue_map_impl_def queue_wf_def queue_abs_def queue_elems_def wrap_simps split: if_splits)

lemma queue_next_index_wf:
  "queue_wf q \<Longrightarrow> i < qm_max_entries q \<Longrightarrow> queue_next_index q i = Suc i mod qm_max_entries q"
  using queue_wf_max [of q] by (simp add: queue_next_index_def wrap_simps)

lemma queue_offset_wf:
  assumes "queue_wf q" and "i < qm_max_entries q"
  shows "queue_offset q i = i * qm_value_size q"
proof -
  have "i * qm_value_size q \<le> qm_max_entries q * qm_value_size q"
    using assms(2) by (intro mult_le_mono1) simp
  also have "\<dots> < 2 ^ 32" using assms(1) by (simp add: queue_wf_def)
  finally show ?thesis by (simp add: queue_offset_def wrap_simps)
qed

lemma queue_elems_empty: "queue_elems q = [] \<longleftrightarrow> queue_is_empty q"
  by (simp add: queue_elems_def queue_is_empty_def)

lemma length_queue_elems [simp]: "length (queue_elems q) = qm_count q"
  by (simp add: queue_elems_def)

lemma queue_load_head:
  assumes "queue_wf q" and "\<not> queue_is_empty q"
  shows "load (qm_data q) (queue_offset q (qm_head q)) (qm_value_size q) = Some (hd (queue_elems q))"
proof -
  have "hd (queue_elems q) = queue_slot q 0"
    using assms(2) by (simp add: queue_elems_def queue_is_empty_def hd_map upt_conv_Cons)
  with assms show ?thesis
    by (simp add: queue_offset_wf queue_slot_def queue_wf_def load_cell)
qed

lemma queue_drop_head_wf:
  assumes "queue_wf q" and "\<not> queue_is_empty q"
  shows "queue_wf (queue_drop_head q)" and "queue_elems (queue_drop_head q) = tl (queue_elems q)"
proof -
  let ?n = "qm_max_entries q"
  have h: "qm_head q < ?n" and c: "0 < qm_count q" "0 < ?n"
    using assms by (auto simp: queue_wf_def queue_is_empty_def)
  have nx: "queue_next_index q (qm_head q) = Suc (qm_head q) mod ?n"
    using assms(1) h by (rule queue_next_index_wf)
  have shift: "(Suc (qm_head q) mod ?n + k) mod ?n = (qm_head q + Suc k) mod ?n" for k
    by (metis add_Suc_shift mod_add_left_eq)
  show "queue_wf (queue_drop_head q)"
    using assms(1) c shift [of "qm_count q - 1"] by (auto simp: queue_wf_def queue_drop_head_def nx)
  have "tl (queue_elems q) = map (queue_slot q \<circ> Suc) [0..<qm_count q - 1]"
    using c(1) by (cases "qm_count q") (simp_all add: queue_elems_def upt_conv_Cons map_Suc_upt [symmetric] del: upt_Suc)
  also have "\<dots> = queue_elems (queue_drop_head q)"
    by (simp add: queue_elems_def queue_slot_def queue_drop_head_def nx shift)
  finally show "queue_elems (queue_drop_head q) = tl (queue_elems q)" by simp
qed

lemma queue_append:
  assumes "queue_wf q" and "qm_count q < qm_max_entries q" and "length v = qm_value_size q"
  obtains d where "store (qm_data q) (queue_offset q (qm_tail q)) v = Some d"
    and "let q' = q\<lparr>qm_data := d, qm_tail := queue_next_index q (qm_tail q),
                    qm_count := wrap32 (qm_count q + 1)\<rparr>
         in queue_wf q' \<and> queue_elems q' = queue_elems q @ [v]"
proof -
  let ?n = "qm_max_entries q" and ?vs = "qm_value_size q"
  have wf: "0 < ?n" "length (qm_data q) = ?n * ?vs" "qm_tail q = (qm_head q + qm_count q) mod ?n"
    using assms(1) by (auto simp: queue_wf_def)
  then have t: "qm_tail q < ?n" by simp
  obtain d where d: "store (qm_data q) (qm_tail q * ?vs) v = Some d"
    using store_cell [OF wf(2) t assms(3)] by blast
  have st: "store (qm_data q) (queue_offset q (qm_tail q)) v = Some d"
    using d queue_offset_wf [OF assms(1) t] by simp
  have cells: "cell d ?vs j = (if j = qm_tail q then v else cell (qm_data q) ?vs j)" if "j < ?n" for j
    using cell_store [OF d wf(2) assms(3) t that] .
  have cnt: "wrap32 (qm_count q + 1) = Suc (qm_count q)"
    using assms(2) queue_wf_max [OF assms(1)] by (simp add: wrap_simps)
  have nx: "queue_next_index q (qm_tail q) = (qm_head q + Suc (qm_count q)) mod ?n"
    using queue_next_index_wf [OF assms(1) t] wf(3) by (simp add: mod_Suc_eq)
  define q' where "q' = q\<lparr>qm_data := d, qm_tail := queue_next_index q (qm_tail q),
                    qm_count := wrap32 (qm_count q + 1)\<rparr>"
  have "queue_wf q'"
    using assms length_store [OF d] nx by (simp add: q'_def queue_wf_def cnt [simplified])
  moreover have "queue_slot q' k = queue_slot q k" if "k < qm_count q" for k
    using that assms(2) wf(1,3) ring_slot_inj [of k ?n "qm_count q" "qm_head q"]
    by (auto simp: q'_def queue_slot_def cells)
  moreover have "queue_slot q' (qm_count q) = v"
    using wf(1,3) by (simp add: q'_def queue_slot_def cells)
  moreover have "qm_count q' = Suc (qm_count q)" by (simp add: q'_def cnt [simplified])
  ultimately have "queue_wf q' \<and> queue_elems q' = queue_elems q @ [v]"
    by (simp add: queue_elems_def)
  with st that show ?thesis by (simp add: q'_def Let_def)
qed

section \<open>Refinement of the bounded queue\<close>

lemma queue_put_full:
  "queue_wf q \<Longrightarrow> queue_is_full q \<longleftrightarrow> length (queue_elems q) = qm_max_entries q"
  by (auto simp: queue_is_full_def queue_wf_def)

lemma queue_put_short:
  assumes "\<not> (queue_is_full q \<and> flags \<noteq> BPF_EXIST)" and "length v < qm_value_size q"
  shows "queue_put q (Some v) flags = Inl Fault"
  using assms by (auto simp: queue_put_def Let_def arg_bytes_def load_def queue_drop_head_def)

lemma queue_put_ok:
  assumes wf: "queue_wf q" and "\<not> (queue_is_full q \<and> flags \<noteq> BPF_EXIST)" and len: "qm_value_size q \<le> length v"
  obtains q' where "queue_put q (Some v) flags = Inr q'" and "queue_wf q'"
    and "(queue_abs q', Done) = container_put (qm_max_entries q) (qm_value_size q) (queue_elems q) (take (qm_value_size q) v) flags"
proof -
  define p where "p = (if queue_is_full q then queue_drop_head q else q)"
  let ?v = "take (qm_value_size q) v"
  have same: "qm_value_size p = qm_value_size q" "qm_max_entries p = qm_max_entries q"
    by (simp_all add: p_def queue_drop_head_def)
  have "queue_is_full q \<Longrightarrow> \<not> queue_is_empty q"
    using wf by (auto simp: queue_is_full_def queue_is_empty_def queue_wf_def)
  then have p: "queue_wf p" "queue_elems p = (if queue_is_full q then tl (queue_elems q) else queue_elems q)"
    using wf queue_drop_head_wf [OF wf] by (simp_all add: p_def)
  have "qm_count p < qm_max_entries p"
    using wf by (auto simp: p_def queue_drop_head_def queue_is_full_def queue_wf_def)
  from queue_append [OF p(1) this, of ?v] len obtain d where
    d: "store (qm_data p) (queue_offset p (qm_tail p)) ?v = Some d"
    and q': "let q' = p\<lparr>qm_data := d, qm_tail := queue_next_index p (qm_tail p),
                    qm_count := wrap32 (qm_count p + 1)\<rparr>
         in queue_wf q' \<and> queue_elems q' = queue_elems p @ [?v]"
    by (auto simp: same)
  define q'' where "q'' = p\<lparr>qm_data := d, qm_tail := queue_next_index p (qm_tail p),
                    qm_count := wrap32 (qm_count p + 1)\<rparr>"
  have "queue_put q (Some v) flags = Inr q''"
    using assms(2) d len unfolding queue_put_def Let_def p_def [symmetric]
    by (simp add: arg_bytes_Some same q''_def)
  moreover have "queue_wf q''" "queue_elems q'' = queue_elems p @ [?v]"
    using q' by (simp_all add: Let_def q''_def)
  moreover have "qm_value_size q'' = qm_value_size q" "qm_max_entries q'' = qm_max_entries q"
    by (simp_all add: q''_def same)
  moreover have "queue_is_full q \<longleftrightarrow> \<not> length (queue_elems q) < qm_max_entries q"
    by (auto simp: queue_is_full_def)
  ultimately show ?thesis
    using that [of q''] p(2) assms(2) by (cases "queue_is_full q") (simp_all add: container_put_def queue_abs_def)
qed

lemma queue_put_answer:
  assumes "queue_wf q"
  shows "(let r = answer_of q (bind_res (queue_put q (Some v) flags) (\<lambda>q'. Inr (q', Done)))
          in queue_wf (fst r) \<and>
             (queue_abs (fst r), snd r) = container_spec hd tl (queue_abs q) (Update key (Some v) flags))"
proof (cases "queue_is_full q \<and> flags \<noteq> BPF_EXIST")
  case True
  with assms show ?thesis
    by (simp add: queue_put_def queue_abs_def queue_put_full)
next
  case ok: False
  then have nofull: "\<not> (qm_max_entries q \<le> qm_count q \<and> flags \<noteq> BPF_EXIST)"
    by (simp add: queue_is_full_def)
  show ?thesis
  proof (cases "length v < qm_value_size q")
    case True
    with ok nofull assms show ?thesis by (auto simp: queue_put_short queue_abs_def)
  next
    case False
    then have "qm_value_size q \<le> length v" by simp
    from queue_put_ok [OF assms ok this] obtain q' where
      "queue_put q (Some v) flags = Inr q'" "queue_wf q'"
      "(queue_abs q', Done) = container_put (qm_max_entries q) (qm_value_size q) (queue_elems q) (take (qm_value_size q) v) flags"
      by blast
    with False nofull show ?thesis by (auto simp: queue_abs_def)
  qed
qed

lemma queue_step_refines:
  assumes "queue_wf q"
  shows "queue_wf (fst (queue_step q op)) \<and>
    (queue_abs (fst (queue_step q op)), snd (queue_step q op)) = container_spec hd tl (queue_abs q) op"
proof (cases op)
  case (Push val flags)
  show ?thesis
  proof (cases "val = None \<or> flags \<noteq> BPF_ANY \<and> flags \<noteq> BPF_EXIST")
    case True
    with Push assms show ?thesis by (auto simp: queue_map_push_elem_def queue_abs_def flag_defs)
  next
    case False
    with Push queue_put_answer [OF assms, of _ flags] show ?thesis
      by (auto simp: queue_map_push_elem_def queue_abs_def Let_def)
  qed
next
  case (Update key val flags)
  with queue_put_answer [OF assms, of _ flags key] assms show ?thesis
    by (cases val) (auto simp: queue_elem_update_def queue_abs_def Let_def)
next
  case (Pop buf)
  with assms queue_drop_head_wf [OF assms] queue_load_head [OF assms] show ?thesis
    by (auto simp: queue_map_pop_elem_def queue_abs_def queue_elems_empty queue_drop_head_def)
next
  case (Peek buf)
  with assms queue_load_head [OF assms] show ?thesis
    by (auto simp: queue_map_peek_elem_def queue_abs_def queue_elems_empty)
next
  case (Lookup key)
  with assms queue_load_head [OF assms] show ?thesis
    by (auto simp: queue_elem_lookup_def queue_abs_def queue_elems_empty)
next
  case (Delete key)
  with assms queue_drop_head_wf [OF assms] show ?thesis
    by (auto simp: queue_elem_delete_def queue_abs_def queue_elems_empty queue_drop_head_def)
qed

interpretation queue_box: bounded_container queue_wf queue_abs queue_step hd tl
proof
  fix q op
  assume "queue_wf q"
  from queue_step_refines [OF this, of op] show "queue_wf (fst (queue_step q op))"
    and "queue_abs (fst (queue_step q op)) = fst (container_spec hd tl (queue_abs q) op)"
    and "snd (queue_step q op) = snd (container_spec hd tl (queue_abs q) op)"
    by (metis fst_conv snd_conv)+
  show "0 < fst (queue_abs q)" using \<open>queue_wf q\<close> by (simp add: queue_abs_def queue_wf_def)
qed simp

text \<open>
  C7. The queue map is a bounded first-in first-out queue: from the constructor on, any sequence of
  pushes, pops, peeks, lookups, updates and deletes, with any flags and null or non-null buffers,
  gives exactly the answers of the abstract bounded queue; the circular buffer keeps its invariant
  and never holds more than \<open>max_entries\<close> values.
\<close>

theorem queue_is_bounded_fifo:
  assumes "queue_map_impl vs n = Inr q" and "n * vs < 2 ^ 32"
  shows "snd (run_ops queue_step q ops) = snd (run_ops (container_spec hd tl) (n, vs, []) ops) \<and>
    queue_wf (fst (run_ops queue_step q ops)) \<and>
    length (queue_elems (fst (run_ops queue_step q ops))) \<le> n"
proof -
  have q: "queue_wf q" "queue_abs q = (n, vs, [])" using queue_wf_init [OF assms] by auto
  have "snd (run_ops queue_step q ops) = snd (run_ops (container_spec hd tl) (n, vs, []) ops)"
    using queue_box.run_refines [OF q(1), of ops] q(2) by simp
  moreover have "\<exists>ys. queue_abs (fst (run_ops queue_step q ops)) = (n, vs, ys) \<and> length ys \<le> n"
    using queue_box.run_bounded [OF q] by simp
  ultimately show ?thesis
    using queue_box.run_inv [OF q(1), of ops] by (auto simp: queue_abs_def)
qed

theorem queue_is_bounded_fifo_witness:
  "\<exists>q. queue_map_impl 1 2 = Inr q \<and>
     snd (run_ops queue_step q
       [Push (Some [7]) BPF_ANY, Push (Some [8]) BPF_ANY, Push (Some [9]) BPF_ANY,
        Push (Some [9]) BPF_EXIST, Pop True, Pop True, Pop True]) =
     [Done, Done, Failed (Errno E2BIG), Done, Value [8], Value [9], Failed (Errno ENOENT)] \<and>
     length (queue_elems (fst (run_ops queue_step q [Push (Some [7]) BPF_ANY]))) \<le> 2"
proof -
  obtain q where q: "queue_map_impl 1 2 = Inr q" by (simp add: queue_map_impl_def)
  have "snd (run_ops (container_spec hd tl) (2, 1, [])
       [Push (Some [7]) BPF_ANY, Push (Some [8]) BPF_ANY, Push (Some [9]) BPF_ANY,
        Push (Some [9]) BPF_EXIST, Pop True, Pop True, Pop True]) =
     [Done, Done, Failed (Errno E2BIG), Done, Value [8], Value [9], Failed (Errno ENOENT)]"
    by (simp add: container_put_def flag_defs)
  with q queue_is_bounded_fifo [OF q] show ?thesis by (simp del: run_ops_Cons)
qed

text \<open>
  The buffer is sized with a 32-bit product, so a queue whose size does not fit in 32 bits accepts
  a push that writes outside its buffer.
\<close>

lemma queue_size_overflow:
  "\<exists>q. queue_map_impl (2 ^ 16) (2 ^ 16) = Inr q \<and> qm_data q = [] \<and>
     queue_map_push_elem q (Some (replicate (2 ^ 16) 0)) BPF_ANY = Inl Fault"
proof -
  have "arg_bytes (Some (replicate (2 ^ 16) 0)) (2 ^ 16) = Inr (replicate (2 ^ 16) 0)"
    by (simp only: arg_bytes_Some length_replicate order_refl) simp
  then show ?thesis
    by (auto simp: queue_map_impl_def queue_map_push_elem_def queue_put_def queue_is_full_def wrap32_def
        queue_offset_def store_def flag_defs)
qed

text \<open>The header documents \<open>EBUSY\<close> and a check of the flags for \<open>elem_update\<close>; it makes neither.\<close>

lemma queue_update_any_flags:
  assumes "queue_wf q" and "\<not> queue_is_full q" and "length v = qm_value_size q"
  shows "\<exists>q'. queue_elem_update q key (Some v) flags = Inr q'"
  using queue_put_ok [OF assms(1), of flags v] assms by (auto simp: queue_elem_update_def)

end
