(* ===== verification/Stack_Map.thy ===== *)
theory Stack_Map
  imports Map_Contracts
begin

text \<open>
  The stack map (\<open>src/runtime/src/bpf_map/userspace/stack.cpp\<close>): a byte vector that grows and
  shrinks at its end by one value, and loses its first value when a push overwrites a full stack.
  The operations refine the bounded last-in first-out container of Map\_Contracts.
\<close>

section \<open>The operations\<close>

record stack_map =
  sm_value_size :: nat
  sm_max_entries :: nat
  sm_data :: bytes

text \<open>\<open>reserve\<close> only sets the capacity of the vector, so the wrapped product has no effect here.\<close>

definition stack_map_impl :: "nat \<Rightarrow> nat \<Rightarrow> stack_map res" where
  "stack_map_impl value_size max_entries =
     (if value_size = 0 \<or> max_entries = 0 then Inl Throw
      else Inr \<lparr>sm_value_size = value_size, sm_max_entries = max_entries, sm_data = []\<rparr>)"

definition stack_get_current_size :: "stack_map \<Rightarrow> nat" where
  "stack_get_current_size s = length (sm_data s) div sm_value_size s"

definition stack_is_full :: "stack_map \<Rightarrow> bool" where
  "stack_is_full s \<longleftrightarrow> stack_get_current_size s \<ge> sm_max_entries s"

definition stack_is_empty :: "stack_map \<Rightarrow> bool" where
  "stack_is_empty s \<longleftrightarrow> sm_data s = []"

text \<open>\<open>top_offset\<close>: a \<open>size_t\<close> that never exceeds the size of the vector.\<close>

definition stack_top_offset :: "stack_map \<Rightarrow> nat" where
  "stack_top_offset s = (stack_get_current_size s - 1) * sm_value_size s"

text \<open>\<open>data.erase\<close> of the first and of the last value; erasing more than there is, is undefined.\<close>

definition stack_erase_first :: "stack_map \<Rightarrow> stack_map option" where
  "stack_erase_first s =
     (if sm_value_size s \<le> length (sm_data s)
      then Some (s\<lparr>sm_data := drop (sm_value_size s) (sm_data s)\<rparr>) else None)"

definition stack_erase_last :: "stack_map \<Rightarrow> stack_map option" where
  "stack_erase_last s =
     (if sm_value_size s \<le> length (sm_data s)
      then Some (s\<lparr>sm_data := take (length (sm_data s) - sm_value_size s) (sm_data s)\<rparr>) else None)"

definition stack_elem_lookup :: "stack_map \<Rightarrow> ptr \<Rightarrow> nat res" where
  "stack_elem_lookup s key =
     (if stack_is_empty s then Inl (Errno ENOENT) else Inr (stack_top_offset s))"

text \<open>The common tail of \<open>elem_update\<close> and \<open>map_push_elem\<close>.\<close>

definition stack_put :: "stack_map \<Rightarrow> ptr \<Rightarrow> nat \<Rightarrow> stack_map res" where
  "stack_put s value flags =
     (let full = stack_is_full s
      in if full \<and> flags \<noteq> BPF_EXIST then Inl (Errno E2BIG)
         else bind_res (if full then of_opt (stack_erase_first s) else Inr s) (\<lambda>s'.
              bind_res (arg_bytes value (sm_value_size s')) (\<lambda>value_bytes.
              Inr (s'\<lparr>sm_data := sm_data s' @ value_bytes\<rparr>))))"

definition stack_elem_update :: "stack_map \<Rightarrow> ptr \<Rightarrow> ptr \<Rightarrow> nat \<Rightarrow> stack_map res" where
  "stack_elem_update s key value flags =
     (if value = None then Inl (Errno EINVAL) else stack_put s value flags)"

definition stack_elem_delete :: "stack_map \<Rightarrow> ptr \<Rightarrow> stack_map res" where
  "stack_elem_delete s key =
     (if stack_is_empty s then Inl (Errno ENOENT) else of_opt (stack_erase_last s))"

definition stack_map_get_next_key :: "stack_map \<Rightarrow> ptr \<Rightarrow> bytes res" where
  "stack_map_get_next_key s key = Inl (Errno EINVAL)"

definition stack_map_push_elem :: "stack_map \<Rightarrow> ptr \<Rightarrow> nat \<Rightarrow> stack_map res" where
  "stack_map_push_elem s value flags =
     (if value = None then Inl (Errno EINVAL)
      else if flags \<noteq> 0 \<and> flags \<noteq> BPF_ANY \<and> flags \<noteq> BPF_EXIST then Inl (Errno EINVAL)
      else stack_put s value flags)"

definition stack_map_peek_elem :: "stack_map \<Rightarrow> bool \<Rightarrow> bytes res" where
  "stack_map_peek_elem s value =
     (if \<not> value then Inl (Errno EINVAL)
      else if stack_is_empty s then Inl (Errno ENOENT)
      else of_opt (load (sm_data s) (stack_top_offset s) (sm_value_size s)))"

definition stack_map_pop_elem :: "stack_map \<Rightarrow> bool \<Rightarrow> (stack_map \<times> bytes) res" where
  "stack_map_pop_elem s value =
     (if \<not> value then Inl (Errno EINVAL)
      else if stack_is_empty s then Inl (Errno ENOENT)
      else bind_res (of_opt (load (sm_data s) (stack_top_offset s) (sm_value_size s))) (\<lambda>v.
           bind_res (of_opt (stack_erase_last s)) (\<lambda>s'. Inr (s', v))))"

fun stack_step :: "stack_map \<Rightarrow> container_op \<Rightarrow> stack_map \<times> answer" where
  "stack_step s (Push value flags) =
     answer_of s (bind_res (stack_map_push_elem s value flags) (\<lambda>s'. Inr (s', Done)))"
| "stack_step s (Pop buf) =
     answer_of s (bind_res (stack_map_pop_elem s buf) (\<lambda>(s', v). Inr (s', Value v)))"
| "stack_step s (Peek buf) =
     answer_of s (bind_res (stack_map_peek_elem s buf) (\<lambda>v. Inr (s, Value v)))"
| "stack_step s (Lookup key) =
     answer_of s (bind_res (stack_elem_lookup s key) (\<lambda>off.
       bind_res (of_opt (load (sm_data s) off (sm_value_size s))) (\<lambda>v. Inr (s, Value v))))"
| "stack_step s (Update key value flags) =
     answer_of s (bind_res (stack_elem_update s key value flags) (\<lambda>s'. Inr (s', Done)))"
| "stack_step s (Delete key) =
     answer_of s (bind_res (stack_elem_delete s key) (\<lambda>s'. Inr (s', Done)))"

section \<open>Invariant and abstraction\<close>

text \<open>The byte vector is the concatenation of the values, oldest first.\<close>

definition stack_elems :: "stack_map \<Rightarrow> bytes list" where
  "stack_elems s = map (cell (sm_data s) (sm_value_size s)) [0..<stack_get_current_size s]"

definition stack_wf :: "stack_map \<Rightarrow> bool" where
  "stack_wf s \<longleftrightarrow>
     0 < sm_value_size s \<and> 0 < sm_max_entries s \<and>
     sm_value_size s dvd length (sm_data s) \<and> stack_get_current_size s \<le> sm_max_entries s"

definition stack_abs :: "stack_map \<Rightarrow> nat \<times> nat \<times> bytes list" where
  "stack_abs s = (sm_max_entries s, sm_value_size s, stack_elems s)"

lemma stack_wf_init:
  "stack_map_impl vs n = Inr s \<Longrightarrow> stack_wf s \<and> stack_abs s = (n, vs, [])"
  by (auto simp: stack_map_impl_def stack_wf_def stack_abs_def stack_elems_def
      stack_get_current_size_def split: if_splits)

lemma length_stack_elems [simp]: "length (stack_elems s) = stack_get_current_size s"
  by (simp add: stack_elems_def)

text \<open>
  Cutting a concatenation of equally long values into cells gives the values back, which makes the
  values and the byte vector interchangeable.
\<close>

lemma cells_of_concat:
  assumes "\<forall>x \<in> set xs. length x = sz"
  shows "map (cell (concat xs) sz) [0..<length xs] = xs"
proof -
  have "cell (concat xs) sz i = xs ! i" if "i < length xs" for i
    using assms that
  proof (induction xs arbitrary: i)
    case (Cons x xs)
    then show ?case by (cases i) (simp_all add: cell_def)
  qed simp
  then show ?thesis by (intro nth_equalityI) simp_all
qed

lemma in_set_tl: "x \<in> set (tl xs) \<Longrightarrow> x \<in> set xs"
  by (cases xs) auto

lemma length_concat_same: "\<forall>x \<in> set xs. length x = sz \<Longrightarrow> length (concat xs) = length xs * sz"
  by (induction xs) auto

lemma stack_elems_concat:
  assumes "stack_wf s"
  shows "concat (stack_elems s) = sm_data s" and "\<forall>x \<in> set (stack_elems s). length x = sm_value_size s"
proof -
  have len: "length (sm_data s) = stack_get_current_size s * sm_value_size s"
    using assms by (simp add: stack_wf_def stack_get_current_size_def)
  then show "concat (stack_elems s) = sm_data s" "\<forall>x \<in> set (stack_elems s). length x = sm_value_size s"
    using length_cell [OF len] by (auto simp: stack_elems_def concat_cells)
qed

lemma stack_of_values:
  assumes "\<forall>x \<in> set xs. length x = sm_value_size s" and "length xs \<le> sm_max_entries s"
    and "0 < sm_value_size s" and "0 < sm_max_entries s"
  shows "stack_wf (s\<lparr>sm_data := concat xs\<rparr>)" and "stack_elems (s\<lparr>sm_data := concat xs\<rparr>) = xs"
proof -
  have len: "length (concat xs) = length xs * sm_value_size s" using length_concat_same assms(1) .
  then have sz: "stack_get_current_size (s\<lparr>sm_data := concat xs\<rparr>) = length xs"
    using assms(3) by (simp add: stack_get_current_size_def)
  show "stack_wf (s\<lparr>sm_data := concat xs\<rparr>)" using assms len sz by (simp add: stack_wf_def)
  show "stack_elems (s\<lparr>sm_data := concat xs\<rparr>) = xs"
    unfolding stack_elems_def sz using cells_of_concat [OF assms(1)] by simp
qed

lemma stack_empty_iff: "stack_wf s \<Longrightarrow> stack_elems s = [] \<longleftrightarrow> stack_is_empty s"
  by (auto simp: stack_is_empty_def stack_elems_def stack_wf_def stack_get_current_size_def dvd_div_eq_0_iff)

lemma stack_load_top:
  assumes "stack_wf s" and "\<not> stack_is_empty s"
  shows "load (sm_data s) (stack_top_offset s) (sm_value_size s) = Some (last (stack_elems s))"
proof -
  have len: "length (sm_data s) = stack_get_current_size s * sm_value_size s"
    using assms by (simp add: stack_wf_def stack_get_current_size_def)
  have n: "0 < stack_get_current_size s"
    using assms stack_empty_iff [OF assms(1)] length_stack_elems [of s] by (metis gr0I length_0_conv)
  then have "last (stack_elems s) = cell (sm_data s) (sm_value_size s) (stack_get_current_size s - 1)"
    by (simp add: stack_elems_def last_map)
  with n load_cell [OF len, of "stack_get_current_size s - 1"] show ?thesis
    by (simp add: stack_top_offset_def)
qed

lemma stack_erase:
  assumes "stack_wf s" and "\<not> stack_is_empty s"
  shows "stack_erase_last s = Some (s\<lparr>sm_data := concat (butlast (stack_elems s))\<rparr>)"
    and "stack_erase_first s = Some (s\<lparr>sm_data := concat (tl (stack_elems s))\<rparr>)"
proof -
  note d = stack_elems_concat [OF assms(1)]
  have ne: "stack_elems s \<noteq> []" using assms stack_empty_iff by simp
  have "sm_data s = concat (butlast (stack_elems s)) @ last (stack_elems s)"
    using d(1) ne by (metis append_butlast_last_id concat_append concat.simps append_Nil2)
  moreover have "length (last (stack_elems s)) = sm_value_size s" using d(2) ne by simp
  ultimately show "stack_erase_last s = Some (s\<lparr>sm_data := concat (butlast (stack_elems s))\<rparr>)"
    by (simp add: stack_erase_last_def)
  have "sm_data s = hd (stack_elems s) @ concat (tl (stack_elems s))"
    using d(1) ne by (metis concat.simps(2) list.collapse)
  moreover have "length (hd (stack_elems s)) = sm_value_size s" using d(2) ne by simp
  ultimately show "stack_erase_first s = Some (s\<lparr>sm_data := concat (tl (stack_elems s))\<rparr>)"
    by (simp add: stack_erase_first_def)
qed

lemma stack_shrink:
  assumes "stack_wf s" and "set ys \<subseteq> set (stack_elems s)" and "length ys \<le> length (stack_elems s)"
  shows "stack_wf (s\<lparr>sm_data := concat ys\<rparr>)" and "stack_elems (s\<lparr>sm_data := concat ys\<rparr>) = ys"
  using stack_of_values [of ys s] stack_elems_concat(2) [OF assms(1)] assms
  by (auto simp: stack_wf_def)

lemma stack_erase_last_wf:
  assumes "stack_wf s" and "\<not> stack_is_empty s"
  obtains s' where "stack_erase_last s = Some s'" "stack_wf s'"
    "stack_abs s' = (sm_max_entries s, sm_value_size s, butlast (stack_elems s))"
proof -
  have "set (butlast (stack_elems s)) \<subseteq> set (stack_elems s)" by (meson in_set_butlastD subsetI)
  from stack_shrink [OF assms(1) this] stack_erase(1) [OF assms] that show ?thesis
    by (simp add: stack_abs_def)
qed

section \<open>Refinement of the bounded stack\<close>

lemma stack_full_iff:
  "stack_wf s \<Longrightarrow> stack_is_full s \<longleftrightarrow> \<not> length (stack_elems s) < sm_max_entries s"
  by (auto simp: stack_is_full_def)

lemma stack_put_ok:
  assumes wf: "stack_wf s" and fl: "\<not> (stack_is_full s \<and> flags \<noteq> BPF_EXIST)"
  shows "stack_put s (Some v) flags =
    (if length v < sm_value_size s then Inl Fault
     else Inr (s\<lparr>sm_data := concat ((if stack_is_full s then tl (stack_elems s) else stack_elems s) @
                                  [take (sm_value_size s) v])\<rparr>))"
proof -
  have "stack_is_full s \<Longrightarrow> \<not> stack_is_empty s"
    using wf by (auto simp: stack_is_full_def stack_is_empty_def stack_wf_def stack_get_current_size_def)
  with stack_erase(2) [OF wf] stack_elems_concat(1) [OF wf] fl show ?thesis
    by (auto simp: stack_put_def arg_bytes_def load_def)
qed

lemma stack_put_answer:
  assumes wf: "stack_wf s"
  shows "(let r = answer_of s (bind_res (stack_put s (Some v) flags) (\<lambda>s'. Inr (s', Done)))
          in stack_wf (fst r) \<and>
             (stack_abs (fst r), snd r) = container_spec last butlast (stack_abs s) (Update key (Some v) flags))"
proof (cases "stack_is_full s \<and> flags \<noteq> BPF_EXIST")
  case True
  with wf show ?thesis by (simp add: stack_put_def stack_abs_def stack_full_iff)
next
  case False
  define xs where "xs = (if stack_is_full s then tl (stack_elems s) else stack_elems s) @ [take (sm_value_size s) v]"
  show ?thesis
  proof (cases "length v < sm_value_size s")
    case True
    with False wf show ?thesis by (auto simp: stack_put_ok stack_abs_def stack_full_iff)
  next
    case long: False
    have "\<forall>x \<in> set xs. length x = sm_value_size s"
      using stack_elems_concat(2) [OF wf] long by (auto simp: xs_def dest: in_set_tl)
    moreover have "length xs \<le> sm_max_entries s"
      using wf by (auto simp: xs_def stack_full_iff stack_wf_def)
    ultimately have "stack_wf (s\<lparr>sm_data := concat xs\<rparr>)" "stack_elems (s\<lparr>sm_data := concat xs\<rparr>) = xs"
      using stack_of_values wf by (auto simp: stack_wf_def)
    with False long wf show ?thesis
      by (auto simp: stack_put_ok xs_def [symmetric] stack_abs_def container_put_def)
        (auto simp: xs_def stack_full_iff)
  qed
qed

lemma stack_step_refines:
  assumes wf: "stack_wf s"
  shows "stack_wf (fst (stack_step s op)) \<and>
    (stack_abs (fst (stack_step s op)), snd (stack_step s op)) = container_spec last butlast (stack_abs s) op"
proof (cases op)
  case (Push val flags)
  show ?thesis
  proof (cases "val = None \<or> flags \<noteq> BPF_ANY \<and> flags \<noteq> BPF_EXIST")
    case True
    with Push wf show ?thesis by (auto simp: stack_map_push_elem_def stack_abs_def flag_defs)
  next
    case False
    with Push stack_put_answer [OF wf, of _ flags] show ?thesis
      by (auto simp: stack_map_push_elem_def stack_abs_def Let_def)
  qed
next
  case (Update key val flags)
  with stack_put_answer [OF wf, of _ flags key] wf show ?thesis
    by (cases val) (auto simp: stack_elem_update_def stack_abs_def Let_def)
next
  case (Peek buf)
  with wf stack_load_top [OF wf] stack_empty_iff [OF wf] show ?thesis
    by (auto simp: stack_map_peek_elem_def stack_abs_def)
next
  case (Lookup key)
  with wf stack_load_top [OF wf] stack_empty_iff [OF wf] show ?thesis
    by (auto simp: stack_elem_lookup_def stack_abs_def)
next
  case (Pop buf)
  show ?thesis
  proof (cases "stack_is_empty s")
    case True
    with Pop wf stack_empty_iff [OF wf] show ?thesis by (auto simp: stack_map_pop_elem_def stack_abs_def)
  next
    case False
    obtain s' where "stack_erase_last s = Some s'" "stack_wf s'"
      "stack_abs s' = (sm_max_entries s, sm_value_size s, butlast (stack_elems s))"
      using stack_erase_last_wf [OF wf False] .
    with Pop False stack_load_top [OF wf False] wf stack_empty_iff [OF wf]
    show ?thesis by (auto simp: stack_map_pop_elem_def stack_abs_def)
  qed
next
  case (Delete key)
  show ?thesis
  proof (cases "stack_is_empty s")
    case True
    with Delete wf stack_empty_iff [OF wf] show ?thesis by (auto simp: stack_elem_delete_def stack_abs_def)
  next
    case False
    obtain s' where "stack_erase_last s = Some s'" "stack_wf s'"
      "stack_abs s' = (sm_max_entries s, sm_value_size s, butlast (stack_elems s))"
      using stack_erase_last_wf [OF wf False] .
    with Delete False stack_empty_iff [OF wf]
    show ?thesis by (auto simp: stack_elem_delete_def stack_abs_def)
  qed
qed

interpretation stack_box: bounded_container stack_wf stack_abs stack_step last butlast
proof
  fix s op
  assume "stack_wf s"
  from stack_step_refines [OF this, of op] show "stack_wf (fst (stack_step s op))"
    and "stack_abs (fst (stack_step s op)) = fst (container_spec last butlast (stack_abs s) op)"
    and "snd (stack_step s op) = snd (container_spec last butlast (stack_abs s) op)"
    by (metis fst_conv snd_conv)+
  show "0 < fst (stack_abs s)" using \<open>stack_wf s\<close> by (simp add: stack_abs_def stack_wf_def)
qed simp



end
