(* ===== verification/Primes.thy ===== *)
theory Primes
  imports Main
begin

text \<open>
  The bucket count of \<open>bpftime_hash_map\<close> (bpftime_hash_map.hpp): \<open>is_prime\<close> and \<open>next_prime\<close>, shown
  to be the mathematical primality test and the least prime above a number.  Bucket counts come from
  a 32-bit \<open>max_entries\<close>, so \<open>i * i\<close> stays far below 64 bits and the arithmetic is that of
  \<open>nat\<close>.
\<close>

text \<open>The loop \<open>for (i = 5; i * i <= n; i += 6)\<close>.\<close>

function is_prime_loop :: "nat \<Rightarrow> nat \<Rightarrow> bool" where
  "is_prime_loop n i =
     (if i * i \<le> n
      then if n mod i = 0 \<or> n mod (i + 2) = 0 then False else is_prime_loop n (i + 6)
      else True)"
  by pat_completeness auto
termination
proof (relation "measure (\<lambda>(n, i). Suc n - i)")
  fix n i :: nat
  assume "i * i \<le> n"
  then have "i \<le> n" by (cases i) auto
  then show "((n, i + 6), n, i) \<in> measure (\<lambda>(n, i). Suc n - i)" by simp
qed simp

declare is_prime_loop.simps [simp del]

definition is_prime :: "nat \<Rightarrow> bool" where
  "is_prime n =
     (if n \<le> 1 then False else if n \<le> 3 then True
      else if n mod 2 = 0 \<or> n mod 3 = 0 then False
      else is_prime_loop n 5)"

section \<open>The test decides primality\<close>

definition prime_nat :: "nat \<Rightarrow> bool" where
  "prime_nat n \<longleftrightarrow> 1 < n \<and> (\<forall>d. d dvd n \<longrightarrow> d = 1 \<or> d = n)"

lemma is_prime_loop_iff:
  "is_prime_loop n i \<longleftrightarrow>
     (\<forall>k. (i + 6 * k) * (i + 6 * k) \<le> n \<longrightarrow> \<not> (i + 6 * k) dvd n \<and> \<not> (i + 6 * k + 2) dvd n)"
proof (induction n i rule: is_prime_loop.induct)
  case (1 n i)
  let ?P = "\<lambda>i k. (i + 6 * k) * (i + 6 * k) \<le> n \<longrightarrow> \<not> (i + 6 * k) dvd n \<and> \<not> (i + 6 * k + 2) dvd n"
  show ?case
  proof (cases "i * i \<le> n")
    case True
    have "(\<forall>k. ?P i k) \<longleftrightarrow> ?P i 0 \<and> (\<forall>k. ?P i (Suc k))" by (metis not0_implies_Suc)
    moreover have "?P i (Suc k) = ?P (i + 6) k" for k
    proof -
      have "i + 6 * Suc k = i + 6 + 6 * k" by simp
      then show ?thesis by (simp only:)
    qed
    ultimately have split: "(\<forall>k. ?P i k) \<longleftrightarrow> ?P i 0 \<and> (\<forall>k. ?P (i + 6) k)" by (simp only:)
    show ?thesis
    proof (cases "i dvd n \<or> (i + 2) dvd n")
      case div: True
      with True show ?thesis unfolding split
        by (subst is_prime_loop.simps) (auto simp: mod_eq_0_iff_dvd)
    next
      case False
      with True 1 show ?thesis unfolding split
        by (subst is_prime_loop.simps) (auto simp: mod_eq_0_iff_dvd)
    qed
  next
    case False
    then have "\<not> (i + 6 * k) * (i + 6 * k) \<le> n" for k
      using mult_le_mono [of i "i + 6 * k" i "i + 6 * k"] by linarith
    with False show ?thesis by (subst is_prime_loop.simps) auto
  qed
qed

lemma least_divisor:
  assumes "1 < n" and "\<not> prime_nat n"
  obtains d where "d dvd n" "1 < d" "d * d \<le> n" "\<And>e. e dvd d \<Longrightarrow> e = 1 \<or> e = d"
proof -
  obtain e where e: "e dvd n" "e \<noteq> 1" "e \<noteq> n" using assms by (auto simp: prime_nat_def)
  define d where "d = (LEAST d. d dvd n \<and> 1 < d)"
  have "1 < e" using e assms by (cases "e = 0") auto
  then have d: "d dvd n" "1 < d" unfolding d_def using e LeastI [of "\<lambda>d. d dvd n \<and> 1 < d" e] by auto
  have least: "d \<le> x" if "x dvd n" "1 < x" for x
    unfolding d_def using that by (simp add: Least_le)
  have irr: "x = 1 \<or> x = d" if "x dvd d" for x
  proof (rule ccontr)
    assume "\<not> (x = 1 \<or> x = d)"
    moreover have "x \<noteq> 0" "x \<le> d" using that d by (auto intro: dvd_imp_le gr0I)
    ultimately have "1 < x" "x < d" by auto
    with least [of x] that d show False by (meson dvd_trans not_le)
  qed
  obtain c where c: "n = d * c" using d by (auto elim: dvdE)
  have "1 < c"
  proof (rule ccontr)
    assume "\<not> 1 < c"
    with c assms have "c = 1" by (cases c) auto
    with c have "n = d" by simp
    with least [OF e(1) \<open>1 < e\<close>] e dvd_imp_le [OF e(1)] assms show False by auto
  qed
  then have "d \<le> c" using least [of c] c by simp
  then have "d * d \<le> n" using c by simp
  with d irr that show ?thesis by blast
qed

lemma is_prime_sound:
  assumes "is_prime n"
  shows "prime_nat n"
proof (rule ccontr)
  assume np: "\<not> prime_nat n"
  have n: "1 < n" using assms by (auto simp: is_prime_def split: if_splits)
  obtain d where d: "d dvd n" "1 < d" "d * d \<le> n" and irr: "\<And>e. e dvd d \<Longrightarrow> e = 1 \<or> e = d"
    using least_divisor [OF n np] by blast
  have "2 * d \<le> d * d" using d(2) by simp
  with d have "4 \<le> n" by linarith
  with assms have loop: "is_prime_loop n 5" and n2: "\<not> 2 dvd n" and n3: "\<not> 3 dvd n"
    by (auto simp: is_prime_def mod_eq_0_iff_dvd split: if_splits)
  have "\<not> 2 dvd d" "\<not> 3 dvd d" using n2 n3 d(1) by (meson dvd_trans)+
  then have "d mod 6 = 1 \<or> d mod 6 = 5" by presburger
  then show False
  proof
    assume m: "d mod 6 = 1"
    with d(2) have "\<exists>k. d = 5 + 6 * k + 2" by presburger
    then obtain k where k: "d = 5 + 6 * k + 2" by blast
    then have "(5 + 6 * k) * (5 + 6 * k) \<le> d * d" by (intro mult_le_mono) simp_all
    with loop d k show False unfolding is_prime_loop_iff by (metis le_trans)
  next
    assume m: "d mod 6 = 5"
    then have "\<exists>k. d = 5 + 6 * k" by presburger
    then obtain k where "d = 5 + 6 * k" by blast
    with loop d show False unfolding is_prime_loop_iff by metis
  qed
qed

lemma is_prime_complete:
  assumes "prime_nat n"
  shows "is_prime n"
proof (cases "n \<le> 3")
  case True
  with assms show ?thesis by (auto simp: is_prime_def prime_nat_def)
next
  case False
  have no: "\<not> x dvd n" if "1 < x" "x < n" for x using assms that by (auto simp: prime_nat_def)
  have "is_prime_loop n 5"
    unfolding is_prime_loop_iff
  proof (intro allI impI)
    fix k :: nat
    assume le: "(5 + 6 * k) * (5 + 6 * k) \<le> n"
    have "5 * (5 + 6 * k) \<le> (5 + 6 * k) * (5 + 6 * k)" by (intro mult_le_mono1) simp
    with le have "5 * (5 + 6 * k) \<le> n" by (rule le_trans [rotated])
    then have "5 + 6 * k + 2 < n" by simp
    then show "\<not> (5 + 6 * k) dvd n \<and> \<not> (5 + 6 * k + 2) dvd n" using no by simp
  qed
  with False no [of 2] no [of 3] show ?thesis by (simp add: is_prime_def mod_eq_0_iff_dvd)
qed

lemma is_prime_iff: "is_prime n \<longleftrightarrow> prime_nat n"
  using is_prime_sound is_prime_complete by blast

section \<open>The next prime\<close>

lemma prime_factor: "1 < n \<Longrightarrow> \<exists>p. p dvd n \<and> prime_nat p"
proof (induction n rule: less_induct)
  case (less n)
  show ?case
  proof (cases "prime_nat n")
    case False
    obtain d where d: "d dvd n" "1 < d" "\<And>e. e dvd d \<Longrightarrow> e = 1 \<or> e = d"
      using least_divisor [OF less.prems False] by blast
    then show ?thesis by (auto simp: prime_nat_def)
  next
    case True
    then show ?thesis by (metis dvd_refl)
  qed
qed

lemma prime_above: "\<exists>p \<ge> n. is_prime p"
proof -
  have "1 < fact n + (1 :: nat)" using fact_ge_1 [of n, where 'a = nat] by linarith
  then obtain p where p: "p dvd fact n + 1" "prime_nat p" using prime_factor by blast
  have "n \<le> p"
  proof (rule ccontr)
    assume "\<not> n \<le> p"
    then have "p dvd fact n" using p(2) by (intro dvd_fact) (auto simp: prime_nat_def)
    with p(1) have "p dvd 1" by (meson dvd_add_right_iff)
    with p(2) show False by (simp add: prime_nat_def)
  qed
  with p(2) show ?thesis using is_prime_complete by blast
qed

text \<open>The loop \<open>while (!is_prime(n)) ++n\<close> ends because there is a prime above every number.\<close>

function next_prime :: "nat \<Rightarrow> nat" where
  "next_prime n = (if \<not> is_prime n then next_prime (Suc n) else n)"
  by pat_completeness auto
termination
proof (relation "measure (\<lambda>n. (LEAST p. n \<le> p \<and> is_prime p) - n)")
  fix n
  assume np: "\<not> is_prime n"
  let ?p = "\<lambda>n. LEAST p. n \<le> p \<and> is_prime p"
  obtain q where q: "n \<le> q" "is_prime q" using prime_above by blast
  have p: "n \<le> ?p n \<and> is_prime (?p n)" by (rule LeastI [of _ q]) (use q in simp)
  then have "n \<noteq> ?p n" using np by metis
  with p have "n < ?p n" by simp
  moreover have "?p (Suc n) \<le> ?p n" by (rule Least_le) (use p \<open>n < ?p n\<close> in simp)
  ultimately show "(Suc n, n) \<in> measure (\<lambda>n. ?p n - n)" by auto
qed simp

declare next_prime.simps [simp del]

lemma next_prime_ge: "n \<le> next_prime n"
proof (induction n rule: next_prime.induct)
  case (1 n)
  then show ?case by (subst next_prime.simps) auto
qed

lemma next_prime_prime: "is_prime (next_prime n)"
proof (induction n rule: next_prime.induct)
  case (1 n)
  then show ?case by (subst next_prime.simps) auto
qed

lemma next_prime_least: "n \<le> q \<Longrightarrow> is_prime q \<Longrightarrow> next_prime n \<le> q"
proof (induction n rule: next_prime.induct)
  case (1 n)
  show ?case
  proof (cases "is_prime n")
    case True
    with 1 show ?thesis by (subst next_prime.simps) simp
  next
    case False
    with 1 have "Suc n \<le> q" by (metis le_antisym not_less_eq_eq)
    with 1 False show ?thesis by (subst next_prime.simps) simp
  qed
qed

lemma next_prime_gt_1: "1 < next_prime n"
  using next_prime_prime [of n] by (simp add: is_prime_iff prime_nat_def)



end
