(* ===== verification/Open_Hash.thy ===== *)
theory Open_Hash
  imports Map_Contracts Primes
begin

text \<open>
  The open-addressing hash table \<open>bpftime_hash_map\<close> (\<open>src/runtime/src/bpf_map/bpftime_hash_map.hpp\<close>)
  with linear probing in a flat byte buffer.  A bucket is a 4-byte flag, the key and the value.
  Keys and values are the bytes the pointer arguments show: \<open>_key_size\<close> and \<open>_value_size\<close> of them.
\<close>

section \<open>The operations\<close>

record hash_map =
  hm_key_size :: nat
  hm_value_size :: nat
  hm_num_buckets :: nat
  hm_max_element_count :: nat
  hm_count :: nat
  hm_data :: bytes

definition hm_elem_size :: "hash_map \<Rightarrow> nat" where
  "hm_elem_size m = 4 + hm_key_size m + hm_value_size m"

definition get_elem_offset :: "hash_map \<Rightarrow> nat \<Rightarrow> nat" where
  "get_elem_offset m index = wrap64 (index * hm_elem_size m)"

definition bpftime_hash_map :: "nat \<Rightarrow> nat \<Rightarrow> nat \<Rightarrow> hash_map" where
  "bpftime_hash_map num_buckets key_size value_size =
     \<lparr>hm_key_size = key_size, hm_value_size = value_size,
      hm_num_buckets = next_prime num_buckets, hm_max_element_count = num_buckets, hm_count = 0,
      hm_data = replicate (wrap64 (next_prime num_buckets * (4 + key_size + value_size))) 0\<rparr>"

definition hash_func :: "bytes \<Rightarrow> u64" where
  "hash_func key = foldl (\<lambda>hash b. hash * 31 + ucast b) 0 key"

definition hm_is_empty :: "hash_map \<Rightarrow> nat \<Rightarrow> bool" where
  "hm_is_empty m index \<longleftrightarrow> load_u32 (slice (hm_data m) (get_elem_offset m index) 4) = 0"

definition hm_set_empty :: "hash_map \<Rightarrow> nat \<Rightarrow> hash_map" where
  "hm_set_empty m index = m\<lparr>hm_data := poke (hm_data m) (get_elem_offset m index) (store_u32 0)\<rparr>"

definition hm_set_filled :: "hash_map \<Rightarrow> nat \<Rightarrow> hash_map" where
  "hm_set_filled m index = m\<lparr>hm_data := poke (hm_data m) (get_elem_offset m index) (store_u32 1)\<rparr>"

text \<open>\<open>get_key\<close> and \<open>get_value\<close> return pointers into the buffer: offsets.\<close>

definition hm_get_key :: "hash_map \<Rightarrow> nat \<Rightarrow> nat" where
  "hm_get_key m index = get_elem_offset m index + 4"

definition hm_get_value :: "hash_map \<Rightarrow> nat \<Rightarrow> nat" where
  "hm_get_value m index = get_elem_offset m index + 4 + hm_key_size m"

definition hm_key_at :: "hash_map \<Rightarrow> nat \<Rightarrow> bytes" where
  "hm_key_at m index = slice (hm_data m) (hm_get_key m index) (hm_key_size m)"

definition hm_value_at :: "hash_map \<Rightarrow> nat \<Rightarrow> bytes" where
  "hm_value_at m index = slice (hm_data m) (hm_get_value m index) (hm_value_size m)"

text \<open>\<open>None\<close> is the \<open>-1\<close> of a pointer that is null or outside the buffer.\<close>

definition hm_get_index_of_value :: "hash_map \<Rightarrow> nat option \<Rightarrow> nat option" where
  "hm_get_index_of_value m value =
     (case value of
        None \<Rightarrow> None
      | Some off \<Rightarrow>
          if off \<ge> length (hm_data m) then None else Some (off div (4 + hm_key_size m + hm_value_size m)))"

text \<open>
  The \<open>do ... while (index != start_index)\<close> loop that the three operations share: it stops at an
  empty bucket, at a bucket with the key, or after a full turn.  Every turn visits another bucket,
  so \<open>_num_buckets\<close> rounds are enough (lemma \<open>hm_probe_cases\<close>: the fuel never runs out).
\<close>

datatype probe = Hit nat | Vacant nat | Exhausted

fun hm_probe :: "hash_map \<Rightarrow> bytes \<Rightarrow> nat \<Rightarrow> nat \<Rightarrow> nat \<Rightarrow> probe option" where
  "hm_probe m key start_index 0 index = None"
| "hm_probe m key start_index (Suc fuel) index =
     (if hm_is_empty m index then Some (Vacant index)
      else if hm_key_at m index = key then Some (Hit index)
      else let index' = (index + 1) mod hm_num_buckets m
           in if index' \<noteq> start_index then hm_probe m key start_index fuel index'
              else Some Exhausted)"

definition hm_home :: "hash_map \<Rightarrow> bytes \<Rightarrow> nat" where
  "hm_home m key = unat (hash_func key) mod hm_num_buckets m"

definition hm_search :: "hash_map \<Rightarrow> bytes \<Rightarrow> probe option" where
  "hm_search m key = hm_probe m key (hm_home m key) (hm_num_buckets m) (hm_home m key)"

definition hm_elem_lookup :: "hash_map \<Rightarrow> bytes \<Rightarrow> nat option" where
  "hm_elem_lookup m key =
     (case hm_search m key of Some (Hit index) \<Rightarrow> Some (hm_get_value m index) | _ \<Rightarrow> None)"

definition hm_write_value :: "hash_map \<Rightarrow> nat \<Rightarrow> bytes \<Rightarrow> hash_map" where
  "hm_write_value m index val = m\<lparr>hm_data := poke (hm_data m) (hm_get_value m index) val\<rparr>"

definition hm_write_key :: "hash_map \<Rightarrow> nat \<Rightarrow> bytes \<Rightarrow> hash_map" where
  "hm_write_key m index key = m\<lparr>hm_data := poke (hm_data m) (hm_get_key m index) key\<rparr>"

definition hm_elem_update :: "hash_map \<Rightarrow> bytes \<Rightarrow> bytes \<Rightarrow> hash_map \<times> bool" where
  "hm_elem_update m key val =
     (case hm_search m key of
        Some (Vacant index) \<Rightarrow>
          if hm_count m \<ge> hm_max_element_count m then (m, False)
          else
            (let m' = hm_set_filled (hm_write_value (hm_write_key m index key) index val) index
             in (m'\<lparr>hm_count := hm_count m' + 1\<rparr>, True))
      | Some (Hit index) \<Rightarrow> (hm_write_value m index val, True)
      | _ \<Rightarrow> (m, False))"

definition hm_elem_delete :: "hash_map \<Rightarrow> bytes \<Rightarrow> hash_map \<times> bool" where
  "hm_elem_delete m key =
     (case hm_search m key of
        Some (Hit index) \<Rightarrow>
          (let m' = hm_set_empty m index in (m'\<lparr>hm_count := hm_count m' - 1\<rparr>, True))
      | _ \<Rightarrow> (m, False))"

definition hm_get_elem_count :: "hash_map \<Rightarrow> nat" where
  "hm_get_elem_count m = hm_count m"

section \<open>The buffer as an array of buckets\<close>

definition hm_wf :: "hash_map \<Rightarrow> bool" where
  "hm_wf m \<longleftrightarrow>
     0 < hm_num_buckets m \<and> hm_num_buckets m * hm_elem_size m < 2 ^ 64 \<and>
     length (hm_data m) = hm_num_buckets m * hm_elem_size m"

definition hm_bucket :: "hash_map \<Rightarrow> nat \<Rightarrow> (bytes \<times> bytes) option" where
  "hm_bucket m i = (if hm_is_empty m i then None else Some (hm_key_at m i, hm_value_at m i))"

text \<open>Every access of the operations is inside the buffer.\<close>

lemma hm_in_bounds:
  assumes "hm_wf m" and "i < hm_num_buckets m" and "off + n \<le> hm_elem_size m"
  shows "get_elem_offset m i = i * hm_elem_size m" and "i * hm_elem_size m + off + n \<le> length (hm_data m)"
proof -
  have le: "i * hm_elem_size m + hm_elem_size m \<le> hm_num_buckets m * hm_elem_size m"
    using assms(2) by (rule cell_in_bounds)
  then show "i * hm_elem_size m + off + n \<le> length (hm_data m)"
    using assms by (simp add: hm_wf_def)
  have "i * hm_elem_size m < 2 ^ 64" using le assms(1) by (simp add: hm_wf_def)
  then show "get_elem_offset m i = i * hm_elem_size m" by (simp add: get_elem_offset_def wrap_simps)
qed

lemma hm_offset: "hm_wf m \<Longrightarrow> i < hm_num_buckets m \<Longrightarrow> get_elem_offset m i = i * hm_elem_size m"
  using hm_in_bounds(1) [of m i 0 0] by simp

text \<open>A write to a field of bucket \<open>i\<close> leaves every other field of every bucket alone.\<close>

lemma hm_slice_poke:
  assumes "hm_wf m" and "i < hm_num_buckets m" and "j < hm_num_buckets m"
    and "off + length bs \<le> hm_elem_size m" and "off' + n \<le> hm_elem_size m"
    and "j \<noteq> i \<or> off' + n \<le> off \<or> off + length bs \<le> off'"
  shows "slice (poke (hm_data m) (i * hm_elem_size m + off) bs) (j * hm_elem_size m + off') n =
    slice (hm_data m) (j * hm_elem_size m + off') n"
proof (rule slice_poke_other)
  show "i * hm_elem_size m + off + length bs \<le> length (hm_data m)"
    using hm_in_bounds(2) [OF assms(1,2,4)] by (simp add: add.assoc)
  show "j * hm_elem_size m + off' + n \<le> length (hm_data m)"
    using hm_in_bounds(2) [OF assms(1,3,5)] by (simp add: add.assoc)
  show "j * hm_elem_size m + off' + n \<le> i * hm_elem_size m + off \<or>
      i * hm_elem_size m + off + length bs \<le> j * hm_elem_size m + off'"
    using assms(4-6) cells_disjoint [of j i "hm_elem_size m"] by (cases "j = i") auto
qed

lemma hm_slice_poke_same:
  assumes "hm_wf m" and "i < hm_num_buckets m" and "off + length bs \<le> hm_elem_size m" and "n = length bs"
  shows "slice (poke (hm_data m) (i * hm_elem_size m + off) bs) (i * hm_elem_size m + off) n = bs"
  using slice_poke_same [of "i * hm_elem_size m + off" bs "hm_data m" n] hm_in_bounds(2) [OF assms(1,2,3)] assms(4)
  by (simp add: add.assoc)

lemmas hm_fields = hm_is_empty_def hm_key_at_def hm_value_at_def hm_get_key_def hm_get_value_def

lemma length_store_u32 [simp]: "length (store_u32 n) = 4"
  by (simp add: store_u32_def)

lemma hm_elem_size_upd [simp]:
  "hm_elem_size (m\<lparr>hm_data := d\<rparr>) = hm_elem_size m" "hm_elem_size (m\<lparr>hm_count := c\<rparr>) = hm_elem_size m"
  "get_elem_offset (m\<lparr>hm_data := d\<rparr>) i = get_elem_offset m i"
  "get_elem_offset (m\<lparr>hm_count := c\<rparr>) i = get_elem_offset m i"
  by (simp_all add: hm_elem_size_def get_elem_offset_def)

lemma hm_fields_of:
  assumes "hm_wf m" and "j < hm_num_buckets m"
  shows "hm_is_empty (m\<lparr>hm_data := d\<rparr>) j \<longleftrightarrow> load_u32 (slice d (j * hm_elem_size m + 0) 4) = 0"
    and "hm_key_at (m\<lparr>hm_data := d\<rparr>) j = slice d (j * hm_elem_size m + 4) (hm_key_size m)"
    and "hm_value_at (m\<lparr>hm_data := d\<rparr>) j = slice d (j * hm_elem_size m + (4 + hm_key_size m)) (hm_value_size m)"
  using assms by (simp_all add: hm_fields hm_offset add.assoc)

lemma hm_fields_at:
  assumes "hm_wf m" and "j < hm_num_buckets m"
  shows "hm_is_empty m j \<longleftrightarrow> load_u32 (slice (hm_data m) (j * hm_elem_size m + 0) 4) = 0"
    and "hm_key_at m j = slice (hm_data m) (j * hm_elem_size m + 4) (hm_key_size m)"
    and "hm_value_at m j = slice (hm_data m) (j * hm_elem_size m + (4 + hm_key_size m)) (hm_value_size m)"
  using assms by (simp_all add: hm_fields hm_offset add.assoc)

lemma hm_field_bounds:
  "0 + 4 \<le> hm_elem_size m" "4 + hm_key_size m \<le> hm_elem_size m"
  "(4 + hm_key_size m) + hm_value_size m \<le> hm_elem_size m"
  by (simp_all add: hm_elem_size_def)

lemma hm_set_flag:
  assumes "hm_wf m" and "i < hm_num_buckets m" and "j < hm_num_buckets m" and "x < 2 ^ 32"
  shows "hm_is_empty (m\<lparr>hm_data := poke (hm_data m) (get_elem_offset m i) (store_u32 x)\<rparr>) j =
      (if j = i then x = 0 else hm_is_empty m j)"
    and "hm_key_at (m\<lparr>hm_data := poke (hm_data m) (get_elem_offset m i) (store_u32 x)\<rparr>) j = hm_key_at m j"
    and "hm_value_at (m\<lparr>hm_data := poke (hm_data m) (get_elem_offset m i) (store_u32 x)\<rparr>) j = hm_value_at m j"
proof -
  let ?d = "poke (hm_data m) (i * hm_elem_size m + 0) (store_u32 x)"
  have off: "get_elem_offset m i = i * hm_elem_size m + 0" using assms by (simp add: hm_offset)
  have len: "0 + length (store_u32 x) \<le> hm_elem_size m" by (simp add: hm_elem_size_def)
  note other = hm_slice_poke [OF assms(1-3) len]
  show "hm_is_empty (m\<lparr>hm_data := poke (hm_data m) (get_elem_offset m i) (store_u32 x)\<rparr>) j =
      (if j = i then x = 0 else hm_is_empty m j)"
  proof (cases "j = i")
    case True
    have "slice ?d (i * hm_elem_size m + 0) 4 = store_u32 x"
      by (rule hm_slice_poke_same [OF assms(1,2) len]) simp
    with True assms(4) show ?thesis
      unfolding off hm_fields_of [OF assms(1,3)] by (simp add: load_u32_store_u32)
  next
    case False
    then show ?thesis
      unfolding off hm_fields_of [OF assms(1,3)] hm_fields_at [OF assms(1,3)]
      using other [OF hm_field_bounds(1)] by simp
  qed
  show "hm_key_at (m\<lparr>hm_data := poke (hm_data m) (get_elem_offset m i) (store_u32 x)\<rparr>) j = hm_key_at m j"
    unfolding off hm_fields_of [OF assms(1,3)] hm_fields_at [OF assms(1,3)]
    by (rule other [OF hm_field_bounds(2)]) simp
  show "hm_value_at (m\<lparr>hm_data := poke (hm_data m) (get_elem_offset m i) (store_u32 x)\<rparr>) j = hm_value_at m j"
    unfolding off hm_fields_of [OF assms(1,3)] hm_fields_at [OF assms(1,3)]
    by (rule other [OF hm_field_bounds(3)]) simp
qed

lemma hm_write_key_fields:
  assumes "hm_wf m" and "i < hm_num_buckets m" and "j < hm_num_buckets m" and "length key = hm_key_size m"
  shows "hm_is_empty (hm_write_key m i key) j = hm_is_empty m j"
    and "hm_key_at (hm_write_key m i key) j = (if j = i then key else hm_key_at m j)"
    and "hm_value_at (hm_write_key m i key) j = hm_value_at m j"
proof -
  have off: "hm_get_key m i = i * hm_elem_size m + 4" using assms by (simp add: hm_get_key_def hm_offset)
  have len: "4 + length key \<le> hm_elem_size m" using assms(4) by (simp add: hm_elem_size_def)
  note other = hm_slice_poke [OF assms(1-3) len] and same = hm_slice_poke_same [OF assms(1,2) len]
  note unf = hm_write_key_def off hm_fields_of [OF assms(1,3)] hm_fields_at [OF assms(1,3)]
  show "hm_is_empty (hm_write_key m i key) j = hm_is_empty m j"
    unfolding unf using other [OF hm_field_bounds(1)] by simp
  show "hm_key_at (hm_write_key m i key) j = (if j = i then key else hm_key_at m j)"
    unfolding unf using other [OF hm_field_bounds(2)] same assms(4) by simp
  show "hm_value_at (hm_write_key m i key) j = hm_value_at m j"
    unfolding unf by (rule other [OF hm_field_bounds(3)]) (simp add: assms(4))
qed

lemma hm_write_value_fields:
  assumes "hm_wf m" and "i < hm_num_buckets m" and "j < hm_num_buckets m" and "length val = hm_value_size m"
  shows "hm_is_empty (hm_write_value m i val) j = hm_is_empty m j"
    and "hm_key_at (hm_write_value m i val) j = hm_key_at m j"
    and "hm_value_at (hm_write_value m i val) j = (if j = i then val else hm_value_at m j)"
proof -
  have off: "hm_get_value m i = i * hm_elem_size m + (4 + hm_key_size m)"
    using assms by (simp add: hm_get_value_def hm_offset)
  have len: "(4 + hm_key_size m) + length val \<le> hm_elem_size m" using assms(4) by (simp add: hm_elem_size_def)
  note other = hm_slice_poke [OF assms(1-3) len] and same = hm_slice_poke_same [OF assms(1,2) len]
  note unf = hm_write_value_def off hm_fields_of [OF assms(1,3)] hm_fields_at [OF assms(1,3)]
  show "hm_is_empty (hm_write_value m i val) j = hm_is_empty m j"
    unfolding unf using other [OF hm_field_bounds(1)] by simp
  show "hm_key_at (hm_write_value m i val) j = hm_key_at m j"
    unfolding unf by (rule other [OF hm_field_bounds(2)]) simp
  show "hm_value_at (hm_write_value m i val) j = (if j = i then val else hm_value_at m j)"
  proof (cases "j = i")
    case True
    then show ?thesis unfolding unf using same [of "hm_value_size m"] assms(4) by simp
  next
    case False
    then show ?thesis unfolding unf using other [OF hm_field_bounds(3)] by simp
  qed
qed

lemma hm_count_fields [simp]:
  "hm_is_empty (m\<lparr>hm_count := c\<rparr>) j = hm_is_empty m j" "hm_key_at (m\<lparr>hm_count := c\<rparr>) j = hm_key_at m j"
  "hm_value_at (m\<lparr>hm_count := c\<rparr>) j = hm_value_at m j"
  by (simp_all add: hm_fields)

lemma hm_writes_keep_wf [simp]:
  "hm_wf (hm_write_key m i key) = hm_wf m" "hm_wf (hm_write_value m i val) = hm_wf m"
  "hm_wf (hm_set_filled m i) = hm_wf m" "hm_wf (hm_set_empty m i) = hm_wf m"
  "hm_wf (m\<lparr>hm_count := c\<rparr>) = hm_wf m"
  by (simp_all add: hm_wf_def hm_write_key_def hm_write_value_def hm_set_filled_def hm_set_empty_def)

lemma hm_writes_keep [simp]:
  "hm_num_buckets (hm_write_key m i key) = hm_num_buckets m"
  "hm_num_buckets (hm_write_value m i val) = hm_num_buckets m"
  "hm_num_buckets (hm_set_filled m i) = hm_num_buckets m"
  "hm_num_buckets (hm_set_empty m i) = hm_num_buckets m"
  "hm_key_size (hm_write_key m i key) = hm_key_size m" "hm_key_size (hm_write_value m i val) = hm_key_size m"
  "hm_key_size (hm_set_filled m i) = hm_key_size m" "hm_key_size (hm_set_empty m i) = hm_key_size m"
  "hm_value_size (hm_write_key m i key) = hm_value_size m" "hm_value_size (hm_write_value m i val) = hm_value_size m"
  "hm_value_size (hm_set_filled m i) = hm_value_size m" "hm_value_size (hm_set_empty m i) = hm_value_size m"
  "hm_count (hm_write_key m i key) = hm_count m" "hm_count (hm_write_value m i val) = hm_count m"
  "hm_count (hm_set_filled m i) = hm_count m" "hm_count (hm_set_empty m i) = hm_count m"
  "hm_max_element_count (hm_write_key m i key) = hm_max_element_count m"
  "hm_max_element_count (hm_write_value m i val) = hm_max_element_count m"
  "hm_max_element_count (hm_set_filled m i) = hm_max_element_count m"
  "hm_max_element_count (hm_set_empty m i) = hm_max_element_count m"
  by (simp_all add: hm_write_key_def hm_write_value_def hm_set_filled_def hm_set_empty_def)

text \<open>What the writes of the operations do to the array of buckets.\<close>

lemma hm_bucket_insert:
  assumes "hm_wf m" and "i < hm_num_buckets m" and "j < hm_num_buckets m"
    and "length key = hm_key_size m" and "length val = hm_value_size m"
  shows "hm_bucket (hm_set_filled (hm_write_value (hm_write_key m i key) i val) i) j =
    (if j = i then Some (key, val) else hm_bucket m j)"
  using assms hm_set_flag [of "hm_write_value (hm_write_key m i key) i val" i j 1]
    hm_write_value_fields [of "hm_write_key m i key" i j val] hm_write_key_fields [of m i j key]
  by (cases "j = i") (simp_all add: hm_bucket_def hm_set_filled_def)

lemma hm_bucket_overwrite:
  assumes "hm_wf m" and "i < hm_num_buckets m" and "j < hm_num_buckets m" and "length val = hm_value_size m"
    and "\<not> hm_is_empty m i"
  shows "hm_bucket (hm_write_value m i val) j =
    (if j = i then Some (hm_key_at m i, val) else hm_bucket m j)"
  using assms hm_write_value_fields [of m i j val] by (cases "j = i") (simp_all add: hm_bucket_def)

lemma hm_bucket_clear:
  assumes "hm_wf m" and "i < hm_num_buckets m" and "j < hm_num_buckets m"
  shows "hm_bucket (hm_set_empty m i) j = (if j = i then None else hm_bucket m j)"
  using assms hm_set_flag [of m i j 0] by (cases "j = i") (simp_all add: hm_bucket_def hm_set_empty_def)

lemma hm_bucket_count [simp]: "hm_bucket (m\<lparr>hm_count := c\<rparr>) j = hm_bucket m j"
  by (simp add: hm_bucket_def)

section \<open>Probing\<close>

definition hm_path :: "hash_map \<Rightarrow> bytes \<Rightarrow> nat \<Rightarrow> nat" where
  "hm_path m key t = (hm_home m key + t) mod hm_num_buckets m"

text \<open>The places where the loop stops.\<close>

definition hm_stop :: "hash_map \<Rightarrow> bytes \<Rightarrow> nat \<Rightarrow> bool" where
  "hm_stop m key i \<longleftrightarrow> hm_bucket m i = None \<or> (\<exists>v. hm_bucket m i = Some (key, v))"

definition hm_result :: "hash_map \<Rightarrow> nat \<Rightarrow> probe" where
  "hm_result m i = (if hm_bucket m i = None then Vacant i else Hit i)"

lemma hm_probe_Suc:
  "hm_probe m key start (Suc f) i =
     (if hm_stop m key i then Some (hm_result m i)
      else if (i + 1) mod hm_num_buckets m \<noteq> start
      then hm_probe m key start f ((i + 1) mod hm_num_buckets m) else Some Exhausted)"
  by (simp add: hm_stop_def hm_result_def hm_bucket_def Let_def)

lemma hm_path_less: "0 < hm_num_buckets m \<Longrightarrow> hm_path m key t < hm_num_buckets m"
  by (simp add: hm_path_def)

lemma hm_probe_from:
  assumes nb: "0 < hm_num_buckets m" and "j < hm_num_buckets m"
  shows "(\<exists>t. j \<le> t \<and> t < hm_num_buckets m \<and> hm_stop m key (hm_path m key t) \<and>
            (\<forall>u. j \<le> u \<and> u < t \<longrightarrow> \<not> hm_stop m key (hm_path m key u)) \<and>
            hm_probe m key (hm_home m key) (hm_num_buckets m - j) (hm_path m key j) =
              Some (hm_result m (hm_path m key t))) \<or>
         ((\<forall>u. j \<le> u \<and> u < hm_num_buckets m \<longrightarrow> \<not> hm_stop m key (hm_path m key u)) \<and>
            hm_probe m key (hm_home m key) (hm_num_buckets m - j) (hm_path m key j) = Some Exhausted)"
  using assms(2)
proof (induction "hm_num_buckets m - j" arbitrary: j)
  case 0
  then show ?case by simp
next
  case (Suc f)
  let ?n = "hm_num_buckets m" and ?h = "hm_home m key"
  have fuel: "?n - j = Suc f" using Suc.hyps(2) by simp
  have h: "?h < ?n" using nb by (simp add: hm_home_def)
  have nx: "(hm_path m key j + 1) mod ?n = hm_path m key (Suc j)" by (simp add: hm_path_def mod_Suc_eq)
  show ?case
  proof (cases "hm_stop m key (hm_path m key j)")
    case True
    with Suc.prems show ?thesis unfolding fuel hm_probe_Suc by (intro disjI1 exI [of _ j]) auto
  next
    case run: False
    show ?thesis
    proof (cases "Suc j < ?n")
      case True
      have "hm_path m key (Suc j) \<noteq> ?h"
        using ring_slot_inj [of "Suc j" ?n 0 ?h] True nb h by (auto simp: hm_path_def)
      then have step: "hm_probe m key ?h (?n - j) (hm_path m key j) = hm_probe m key ?h f (hm_path m key (Suc j))"
        using run nx unfolding fuel hm_probe_Suc by simp
      have f: "f = ?n - Suc j" using fuel by simp
      have all: "(\<forall>u. j \<le> u \<and> u < t \<longrightarrow> \<not> hm_stop m key (hm_path m key u)) \<longleftrightarrow>
          (\<forall>u. Suc j \<le> u \<and> u < t \<longrightarrow> \<not> hm_stop m key (hm_path m key u))" for t
        using run by (metis Suc_leI Suc_leD le_neq_implies_less)
      from Suc.hyps(1) [OF f True] show ?thesis
        unfolding step all f [symmetric] by (meson Suc_leD)
    next
      case False
      then have j: "Suc j = ?n" using Suc.prems by simp
      then have "hm_path m key (Suc j) = ?h" using h by (simp add: hm_path_def)
      then have "hm_probe m key ?h (?n - j) (hm_path m key j) = Some Exhausted"
        using run nx unfolding fuel hm_probe_Suc by simp
      moreover have "u = j" if "j \<le> u" "u < ?n" for u using that j by simp
      ultimately show ?thesis using run by blast
    qed
  qed
qed

text \<open>
  The search ends within the fuel: at the first stopping place of the probe sequence, or after a
  full turn without one.
\<close>

lemma hm_search_cases:
  assumes "0 < hm_num_buckets m"
  obtains (stop) t where "t < hm_num_buckets m" "hm_stop m key (hm_path m key t)"
      "\<And>u. u < t \<Longrightarrow> \<not> hm_stop m key (hm_path m key u)"
      "hm_search m key = Some (hm_result m (hm_path m key t))"
  | (full) "\<And>u. u < hm_num_buckets m \<Longrightarrow> \<not> hm_stop m key (hm_path m key u)"
      "hm_search m key = Some Exhausted"
proof -
  have "hm_path m key 0 = hm_home m key" using assms by (simp add: hm_path_def hm_home_def)
  then show ?thesis
    using hm_probe_from [OF assms, of 0 key] assms that by (auto simp: hm_search_def)
qed

lemma hm_path_onto:
  assumes "i < hm_num_buckets m"
  obtains t where "t < hm_num_buckets m" and "i = hm_path m key t"
proof -
  let ?n = "hm_num_buckets m" and ?h = "hm_home m key"
  have h: "?h < ?n" using assms by (simp add: hm_home_def)
  show ?thesis
  proof (cases "?h \<le> i")
    case True
    then show ?thesis using that [of "i - ?h"] assms by (simp add: hm_path_def)
  next
    case False
    then have "i = (?h + (?n - ?h + i)) mod ?n" "?n - ?h + i < ?n" using assms h by auto
    then show ?thesis using that [of "?n - ?h + i"] by (simp add: hm_path_def)
  qed
qed

section \<open>Invariant and abstraction\<close>

text \<open>
  A key is stored at most once, the buckets between the home of a key and its place are filled, and
  the count is the number of filled buckets.
\<close>

definition hm_unique :: "hash_map \<Rightarrow> bool" where
  "hm_unique m \<longleftrightarrow>
     (\<forall>i < hm_num_buckets m. \<forall>j < hm_num_buckets m. \<forall>k v v'.
        hm_bucket m i = Some (k, v) \<longrightarrow> hm_bucket m j = Some (k, v') \<longrightarrow> i = j)"

definition hm_reachable :: "hash_map \<Rightarrow> bool" where
  "hm_reachable m \<longleftrightarrow>
     (\<forall>k v. \<forall>t < hm_num_buckets m. hm_bucket m (hm_path m k t) = Some (k, v) \<longrightarrow>
        (\<forall>u < t. hm_bucket m (hm_path m k u) \<noteq> None))"

definition hm_filled :: "hash_map \<Rightarrow> nat set" where
  "hm_filled m = {i. i < hm_num_buckets m \<and> hm_bucket m i \<noteq> None}"

definition hm_inv :: "hash_map \<Rightarrow> bool" where
  "hm_inv m \<longleftrightarrow>
     hm_wf m \<and> hm_unique m \<and> hm_reachable m \<and> hm_count m = card (hm_filled m) \<and>
     hm_count m \<le> hm_max_element_count m \<and> hm_max_element_count m \<le> hm_num_buckets m"

definition hm_map :: "hash_map \<Rightarrow> bytes \<Rightarrow> bytes option" where
  "hm_map m k =
     (case find (\<lambda>i. map_option fst (hm_bucket m i) = Some k) [0..<hm_num_buckets m] of
        None \<Rightarrow> None
      | Some i \<Rightarrow> map_option snd (hm_bucket m i))"

lemma hm_map_Some:
  assumes "hm_unique m"
  shows "hm_map m k = Some v \<longleftrightarrow> (\<exists>i < hm_num_buckets m. hm_bucket m i = Some (k, v))"
proof (cases "find (\<lambda>i. map_option fst (hm_bucket m i) = Some k) [0..<hm_num_buckets m]")
  case None
  then have "hm_map m k = None" by (simp add: hm_map_def)
  moreover from None have "hm_bucket m i \<noteq> Some (k, v)" if "i < hm_num_buckets m" for i
    using that by (auto simp: find_None_iff)
  ultimately show ?thesis by auto
next
  case (Some i)
  then obtain w where w: "i < hm_num_buckets m" "hm_bucket m i = Some (k, w)"
    by (auto simp: find_Some_iff)
  have "i = j" if "j < hm_num_buckets m" "hm_bucket m j = Some (k, v)" for j
    using assms w that unfolding hm_unique_def by blast
  moreover have "hm_map m k = Some w" using Some w by (simp add: hm_map_def)
  ultimately show ?thesis using w by auto
qed

lemma hm_map_None:
  "hm_unique m \<Longrightarrow> hm_map m k = None \<longleftrightarrow> (\<forall>i < hm_num_buckets m. \<forall>v. hm_bucket m i \<noteq> Some (k, v))"
  using hm_map_Some [of m k] by (metis not_Some_eq)

lemma finite_hm_filled [simp]: "finite (hm_filled m)"
  by (simp add: hm_filled_def)

lemma hm_inv_nb: "hm_inv m \<Longrightarrow> 0 < hm_num_buckets m"
  by (simp add: hm_inv_def hm_wf_def)

text \<open>An empty bucket at the end of a run without the key shows that the key is not stored.\<close>

lemma hm_absent:
  assumes "hm_inv m" and "t < hm_num_buckets m" and "hm_bucket m (hm_path m k t) = None"
    and "\<And>u. u < t \<Longrightarrow> \<not> hm_stop m k (hm_path m k u)" and "i < hm_num_buckets m"
  shows "hm_bucket m i \<noteq> Some (k, v)"
proof
  assume b: "hm_bucket m i = Some (k, v)"
  obtain t' where t': "t' < hm_num_buckets m" "i = hm_path m k t'" using hm_path_onto [OF assms(5)] .
  consider "t' < t" | "t' = t" | "t < t'" by linarith
  then show False
  proof cases
    case 1
    with assms(4) b t' show False by (auto simp: hm_stop_def)
  next
    case 2
    with assms(3) b t' show False by simp
  next
    case 3
    with assms(1,3) b t' show False unfolding hm_inv_def hm_reachable_def by blast
  qed
qed

lemma hm_search_Hit:
  assumes "hm_inv m" and "i < hm_num_buckets m" and "hm_bucket m i = Some (k, v)"
  shows "hm_search m k = Some (Hit i)"
  using hm_inv_nb [OF assms(1)]
proof (cases rule: hm_search_cases [where key = k])
  case (stop t)
  have "hm_bucket m (hm_path m k t) \<noteq> None"
    using hm_absent [OF assms(1) stop(1) _ stop(3) assms(2)] assms(3) by blast
  with stop(2) obtain w where w: "hm_bucket m (hm_path m k t) = Some (k, w)" by (auto simp: hm_stop_def)
  then have "hm_path m k t = i"
    using assms hm_path_less [OF hm_inv_nb [OF assms(1)]] unfolding hm_inv_def hm_unique_def by blast
  with stop(4) w show ?thesis by (simp add: hm_result_def)
next
  case full
  obtain t where "t < hm_num_buckets m" "i = hm_path m k t" using hm_path_onto [OF assms(2)] .
  with full(1) assms(3) show ?thesis by (auto simp: hm_stop_def)
qed

lemma hm_search_HitD:
  assumes "0 < hm_num_buckets m" and "hm_search m k = Some (Hit i)"
  shows "i < hm_num_buckets m \<and> hm_bucket m i = Some (k, hm_value_at m i)"
  using assms(1)
proof (cases rule: hm_search_cases [where key = k])
  case (stop t)
  with assms hm_path_less [OF assms(1)] show ?thesis
    by (auto simp: hm_result_def hm_stop_def hm_bucket_def split: if_splits)
qed (use assms in simp)

text \<open>
  A lookup returns the place of the value of the key in the abstract map, or the null pointer.
\<close>

definition hm_read :: "hash_map \<Rightarrow> nat \<Rightarrow> bytes" where
  "hm_read m off = slice (hm_data m) off (hm_value_size m)"

lemma hm_elem_lookup_map:
  assumes "hm_inv m"
  shows "map_option (hm_read m) (hm_elem_lookup m k) = hm_map m k"
proof (cases "hm_map m k")
  case None
  have "hm_elem_lookup m k = None"
    using None hm_search_HitD [OF hm_inv_nb [OF assms], of k] assms
    by (auto simp: hm_map_None hm_inv_def hm_elem_lookup_def split: option.splits probe.splits)
  with None show ?thesis by simp
next
  case (Some v)
  with assms obtain i where i: "i < hm_num_buckets m" "hm_bucket m i = Some (k, v)"
    by (auto simp: hm_map_Some hm_inv_def)
  with hm_search_Hit [OF assms i] Some show ?thesis
    by (auto simp: hm_elem_lookup_def hm_read_def hm_bucket_def hm_value_at_def split: if_splits)
qed

section \<open>Updates\<close>

lemma hm_path_same:
  "hm_num_buckets m' = hm_num_buckets m \<Longrightarrow> hm_path m' k t = hm_path m k t"
  by (simp add: hm_path_def hm_home_def)

lemma hm_map_upd:
  assumes "hm_unique m" and "hm_unique m'" and nb: "hm_num_buckets m' = hm_num_buckets m"
    and "i < hm_num_buckets m" and old: "hm_bucket m i = None \<or> (\<exists>w. hm_bucket m i = Some (k, w))"
    and b: "\<And>j. j < hm_num_buckets m \<Longrightarrow> hm_bucket m' j = (if j = i then Some (k, v) else hm_bucket m j)"
  shows "hm_map m' = (hm_map m)(k \<mapsto> v)"
proof
  fix k'
  show "hm_map m' k' = ((hm_map m)(k \<mapsto> v)) k'"
  proof (cases "k' = k")
    case True
    with assms b [of i] have "hm_map m' k' = Some v" by (auto simp: hm_map_Some)
    with True show ?thesis by simp
  next
    case False
    have "hm_bucket m' j = Some (k', w) \<longleftrightarrow> hm_bucket m j = Some (k', w)" if "j < hm_num_buckets m" for j w
      using b [OF that] old False by auto
    then have "hm_map m' k' = Some w \<longleftrightarrow> hm_map m k' = Some w" for w
      using assms(1,2) by (auto simp: hm_map_Some nb)
    then have "hm_map m' k' = hm_map m k'" by (rule option_eqI)
    with False show ?thesis by simp
  qed
qed

lemma hm_unique_upd:
  assumes "hm_unique m" and nb: "hm_num_buckets m' = hm_num_buckets m"
    and b: "\<And>j. j < hm_num_buckets m \<Longrightarrow> hm_bucket m' j = (if j = i then Some (k, v) else hm_bucket m j)"
    and no: "\<And>j w. j < hm_num_buckets m \<Longrightarrow> j \<noteq> i \<Longrightarrow> hm_bucket m j \<noteq> Some (k, w)"
  shows "hm_unique m'"
  unfolding hm_unique_def nb
proof (intro allI impI)
  fix a c k' x y
  assume a: "a < hm_num_buckets m" "hm_bucket m' a = Some (k', x)"
    and c: "c < hm_num_buckets m" "hm_bucket m' c = Some (k', y)"
  show "a = c"
  proof (cases "k' = k")
    case True
    have "a = i" using no [OF a(1), of x] b [OF a(1)] a(2) True by (auto split: if_splits)
    moreover have "c = i" using no [OF c(1), of y] b [OF c(1)] c(2) True by (auto split: if_splits)
    ultimately show ?thesis by simp
  next
    case False
    then have "hm_bucket m a = Some (k', x)" "hm_bucket m c = Some (k', y)"
      using b [OF a(1)] b [OF c(1)] a(2) c(2) by (auto split: if_splits)
    with assms(1) a(1) c(1) show ?thesis unfolding hm_unique_def by blast
  qed
qed

lemma hm_inv_insert:
  assumes inv: "hm_inv m" and t: "t < hm_num_buckets m" and vac: "hm_bucket m (hm_path m k t) = None"
    and run: "\<And>u. u < t \<Longrightarrow> \<not> hm_stop m k (hm_path m k u)"
    and m': "hm_wf m'" "hm_num_buckets m' = hm_num_buckets m" "hm_max_element_count m' = hm_max_element_count m"
      "hm_count m' = Suc (hm_count m)" "hm_count m < hm_max_element_count m"
    and b: "\<And>j. j < hm_num_buckets m \<Longrightarrow>
      hm_bucket m' j = (if j = hm_path m k t then Some (k, v) else hm_bucket m j)"
  shows "hm_inv m'" and "hm_map m' = (hm_map m)(k \<mapsto> v)" and "hm_map m k = None"
proof -
  have pl: "hm_path m k u < hm_num_buckets m" for k u using hm_path_less hm_inv_nb [OF inv] by blast
  have abs: "hm_bucket m i \<noteq> Some (k, w)" if "i < hm_num_buckets m" for i w
    using hm_absent [OF inv t vac run that] .
  have u: "hm_unique m'"
    by (rule hm_unique_upd [OF _ m'(2) b]) (use inv abs in \<open>simp_all add: hm_inv_def\<close>)
  moreover have "hm_reachable m'"
    unfolding hm_reachable_def m'(2) hm_path_same [OF m'(2)]
  proof (intro allI impI)
    fix k' v' t' u
    assume t': "t' < hm_num_buckets m" "hm_bucket m' (hm_path m k' t') = Some (k', v')" "u < t'"
    show "hm_bucket m' (hm_path m k' u) \<noteq> None"
    proof (cases "hm_path m k' t' = hm_path m k t")
      case True
      with t'(2) b [OF pl] have k': "k' = k" by simp
      with True t'(1) t have "t' = t" 
        using ring_slot_inj [of t' "hm_num_buckets m" t "hm_home m k"] by (simp add: hm_path_def)
      with run t'(3) k' b [OF pl] show ?thesis by (auto simp: hm_stop_def)
    next
      case False
      with t' b [OF pl] inv show ?thesis unfolding hm_inv_def hm_reachable_def by (simp add: b pl)
    qed
  qed
  moreover have "hm_filled m' = insert (hm_path m k t) (hm_filled m)"
    unfolding hm_filled_def m'(2) using b pl by auto
  moreover have "hm_path m k t \<notin> hm_filled m" using vac by (simp add: hm_filled_def)
  ultimately show "hm_inv m'"
    using inv m' by (simp add: hm_inv_def)
  show none: "hm_map m k = None" using abs inv by (simp add: hm_map_None hm_inv_def)
  show "hm_map m' = (hm_map m)(k \<mapsto> v)"
    by (rule hm_map_upd [OF _ u m'(2) pl _ b]) (use inv vac in \<open>simp_all add: hm_inv_def\<close>)
qed

lemma hm_inv_overwrite:
  assumes inv: "hm_inv m" and i: "i < hm_num_buckets m" "hm_bucket m i = Some (k, w)"
    and m': "hm_wf m'" "hm_num_buckets m' = hm_num_buckets m" "hm_max_element_count m' = hm_max_element_count m"
      "hm_count m' = hm_count m"
    and b: "\<And>j. j < hm_num_buckets m \<Longrightarrow> hm_bucket m' j = (if j = i then Some (k, v) else hm_bucket m j)"
  shows "hm_inv m'" and "hm_map m' = (hm_map m)(k \<mapsto> v)"
proof -
  have pl: "hm_path m k u < hm_num_buckets m" for k u using hm_path_less hm_inv_nb [OF inv] by blast
  have ne: "hm_bucket m' j = None \<longleftrightarrow> hm_bucket m j = None" if "j < hm_num_buckets m" for j
    using b [OF that] i by auto
  have un: "hm_unique m" using inv by (simp add: hm_inv_def)
  have u: "hm_unique m'"
    by (rule hm_unique_upd [OF un m'(2) b]) (use un i in \<open>auto simp: hm_unique_def\<close>)
  moreover have "hm_reachable m'"
    unfolding hm_reachable_def m'(2) hm_path_same [OF m'(2)]
  proof (intro allI impI)
    fix k' v' t' u
    assume t': "t' < hm_num_buckets m" "hm_bucket m' (hm_path m k' t') = Some (k', v')" "u < t'"
    then have "\<exists>x. hm_bucket m (hm_path m k' t') = Some (k', x)"
      using b [OF pl, of k' t'] i by (auto split: if_splits)
    with t' inv ne [OF pl] show "hm_bucket m' (hm_path m k' u) \<noteq> None"
      unfolding hm_inv_def hm_reachable_def by blast
  qed
  moreover have "hm_filled m' = hm_filled m" unfolding hm_filled_def m'(2) by (intro Collect_cong conj_cong refl) (simp add: ne)
  ultimately show "hm_inv m'" using inv m' by (simp add: hm_inv_def)
  show "hm_map m' = (hm_map m)(k \<mapsto> v)"
    by (rule hm_map_upd [OF _ u m'(2) i(1) _ b]) (use inv i in \<open>simp_all add: hm_inv_def\<close>)
qed

lemma hm_elem_update_cases:
  assumes inv: "hm_inv m" and len: "length k = hm_key_size m" "length v = hm_value_size m"
  shows "(let (m', ok) = hm_elem_update m k v in
    hm_inv m' \<and> hm_key_size m' = hm_key_size m \<and> hm_value_size m' = hm_value_size m \<and>
    hm_num_buckets m' = hm_num_buckets m \<and> hm_max_element_count m' = hm_max_element_count m \<and>
    (if hm_map m k \<noteq> None \<or> hm_count m < hm_max_element_count m
     then ok \<and> hm_map m' = (hm_map m)(k \<mapsto> v) else \<not> ok \<and> m' = m))"
  using hm_inv_nb [OF inv]
proof (cases rule: hm_search_cases [where key = k])
  case (stop t)
  let ?i = "hm_path m k t"
  have wf: "hm_wf m" and i: "?i < hm_num_buckets m"
    using inv hm_path_less [OF hm_inv_nb [OF inv]] by (simp_all add: hm_inv_def)
  show ?thesis
  proof (cases "hm_bucket m ?i")
    case None
    let ?m = "hm_set_filled (hm_write_value (hm_write_key m ?i k) ?i v) ?i"
    let ?m' = "?m\<lparr>hm_count := Suc (hm_count m)\<rparr>"
    have absent: "hm_map m k = None"
      using hm_absent [OF inv stop(1) None stop(3)] inv by (simp add: hm_map_None hm_inv_def)
    have s: "hm_search m k = Some (Vacant ?i)" using stop(4) None by (simp add: hm_result_def)
    show ?thesis
    proof (cases "hm_count m < hm_max_element_count m")
      case True
      have b: "hm_bucket ?m' j = (if j = ?i then Some (k, v) else hm_bucket m j)" if "j < hm_num_buckets m" for j
        using hm_bucket_insert [OF wf i that len] by simp
      have "hm_inv ?m'" "hm_map ?m' = (hm_map m)(k \<mapsto> v)"
        using hm_inv_insert(1,2) [OF inv stop(1) None stop(3) _ _ _ _ True b] wf by simp_all
      with True s show ?thesis by (simp add: hm_elem_update_def)
    next
      case False
      with s absent inv show ?thesis by (simp add: hm_elem_update_def)
    qed
  next
    case (Some p)
    with stop(2) obtain w where w: "hm_bucket m ?i = Some (k, w)" by (auto simp: hm_stop_def)
    then have ne: "\<not> hm_is_empty m ?i" "hm_key_at m ?i = k" by (auto simp: hm_bucket_def split: if_splits)
    have b: "hm_bucket (hm_write_value m ?i v) j = (if j = ?i then Some (k, v) else hm_bucket m j)"
      if "j < hm_num_buckets m" for j
      using hm_bucket_overwrite [OF wf i that len(2) ne(1)] ne(2) by simp
    have "hm_inv (hm_write_value m ?i v)" "hm_map (hm_write_value m ?i v) = (hm_map m)(k \<mapsto> v)"
      using hm_inv_overwrite [OF inv i w _ _ _ _ b] wf by simp_all
    moreover have "hm_map m k = Some w" using inv i w by (auto simp: hm_map_Some hm_inv_def)
    moreover have "hm_search m k = Some (Hit ?i)" using stop(4) w by (simp add: hm_result_def)
    ultimately show ?thesis by (simp add: hm_elem_update_def)
  qed
next
  case full
  have occ: "hm_bucket m i \<noteq> None \<and> (\<forall>v. hm_bucket m i \<noteq> Some (k, v))" if i: "i < hm_num_buckets m" for i
  proof -
    obtain t where "t < hm_num_buckets m" "i = hm_path m k t" using hm_path_onto [OF i] .
    then show ?thesis using full(1) by (simp add: hm_stop_def)
  qed
  then have "hm_filled m = {..<hm_num_buckets m}" by (auto simp: hm_filled_def)
  then have "hm_count m = hm_num_buckets m" using inv by (simp add: hm_inv_def)
  then have "\<not> hm_count m < hm_max_element_count m" using inv by (simp add: hm_inv_def)
  moreover have "hm_map m k = None" using occ inv by (simp add: hm_map_None hm_inv_def)
  ultimately show ?thesis using full(2) inv by (simp add: hm_elem_update_def)
qed

text \<open>The count is the number of keys of the abstract map.\<close>

lemma hm_count_dom:
  assumes "hm_inv m"
  shows "hm_count m = card (dom (hm_map m))"
proof -
  have u: "hm_unique m" using assms by (simp add: hm_inv_def)
  let ?key = "\<lambda>i. fst (the (hm_bucket m i))"
  have "inj_on ?key (hm_filled m)"
  proof (rule inj_onI)
    fix i j
    assume "i \<in> hm_filled m" "j \<in> hm_filled m" "?key i = ?key j"
    then show "i = j" using u unfolding hm_unique_def hm_filled_def by auto
  qed
  moreover have "dom (hm_map m) = ?key ` hm_filled m"
    using hm_map_Some [OF u] by (force simp: hm_filled_def dom_def)
  ultimately show ?thesis using assms by (simp add: hm_inv_def card_image)
qed

lemma hm_init_bucket:
  assumes "hm_wf (bpftime_hash_map n ks vs)" and "i < next_prime n"
  shows "hm_bucket (bpftime_hash_map n ks vs) i = None"
proof -
  let ?m = "bpftime_hash_map n ks vs"
  have data: "hm_data ?m = replicate (length (hm_data ?m)) 0" by (simp add: bpftime_hash_map_def)
  have "i * hm_elem_size ?m + 0 + 4 \<le> length (hm_data ?m)"
    using hm_in_bounds(2) [OF assms(1), of i 0 4] assms(2) by (simp add: bpftime_hash_map_def hm_elem_size_def)
  then have "slice (hm_data ?m) (i * hm_elem_size ?m + 0) 4 = replicate 4 0"
    by (subst data) (simp add: slice_def)
  moreover have "load_u32 (replicate 4 0) = 0" by (simp add: load_u32_def numeral_eq_Suc)
  ultimately show ?thesis
    using hm_fields_at(1) [OF assms(1), of i] assms(2) by (simp add: hm_bucket_def bpftime_hash_map_def)
qed

lemma hm_inv_init:
  assumes "next_prime n * (4 + ks + vs) < 2 ^ 64"
  shows "hm_inv (bpftime_hash_map n ks vs)" and "hm_map (bpftime_hash_map n ks vs) = Map.empty"
proof -
  let ?m = "bpftime_hash_map n ks vs"
  have nb: "hm_num_buckets ?m = next_prime n" by (simp add: bpftime_hash_map_def)
  have wf: "hm_wf ?m"
    using assms next_prime_gt_1 [of n] by (simp add: hm_wf_def bpftime_hash_map_def hm_elem_size_def wrap_simps)
  have emp: "hm_bucket ?m i = None" if "i < hm_num_buckets ?m" for i using hm_init_bucket [OF wf] that nb by simp
  then have u: "hm_unique ?m" by (simp add: hm_unique_def)
  have "hm_reachable ?m" using emp hm_path_less [of ?m] wf by (simp add: hm_reachable_def hm_wf_def)
  moreover have "hm_filled ?m = {}" using emp by (auto simp: hm_filled_def)
  ultimately show "hm_inv ?m" using wf u next_prime_ge [of n] by (simp add: hm_inv_def bpftime_hash_map_def)
  show "hm_map ?m = Map.empty" using emp hm_map_None [OF u] by (intro ext) simp
qed

section \<open>Deletions\<close>

text \<open>
  \<open>elem_delete\<close> marks the bucket empty.  This keeps the probe sequences intact when the next bucket
  is empty, that is when no run of filled buckets is cut.
\<close>

lemma hm_elem_delete_end_of_run:
  assumes inv: "hm_inv m" and hit: "hm_search m k = Some (Hit i)"
    and gap: "hm_bucket m (Suc i mod hm_num_buckets m) = None"
  shows "hm_inv (fst (hm_elem_delete m k))" and "hm_map (fst (hm_elem_delete m k)) = (hm_map m)(k := None)"
    and "snd (hm_elem_delete m k)"
proof -
  define m' where "m' = (hm_set_empty m i)\<lparr>hm_count := hm_count m - 1\<rparr>"
  have del: "hm_elem_delete m k = (m', True)" using hit by (simp add: hm_elem_delete_def m'_def)
  have wf: "hm_wf m" "hm_wf m'" and un: "hm_unique m" using inv by (simp_all add: hm_inv_def m'_def)
  have i: "i < hm_num_buckets m" "hm_bucket m i = Some (k, hm_value_at m i)"
    using hm_search_HitD [OF hm_inv_nb [OF inv] hit] by auto
  have nb: "hm_num_buckets m' = hm_num_buckets m" by (simp add: m'_def)
  have pl: "hm_path m k u < hm_num_buckets m" for k u using hm_path_less hm_inv_nb [OF inv] by blast
  have b: "hm_bucket m' j = (if j = i then None else hm_bucket m j)" if "j < hm_num_buckets m" for j
    using hm_bucket_clear [OF wf(1) i(1) that] by (simp add: m'_def)
  have u: "hm_unique m'" using un unfolding hm_unique_def nb by (simp add: b)
  have "hm_reachable m'"
    unfolding hm_reachable_def nb hm_path_same [OF nb]
  proof (intro allI impI)
    fix k' v' t' u
    assume t': "t' < hm_num_buckets m" "hm_bucket m' (hm_path m k' t') = Some (k', v')" "u < t'"
    have old: "hm_bucket m (hm_path m k' t') = Some (k', v')"
      using t'(2) b [OF pl] by (auto split: if_splits)
    then have run: "hm_bucket m (hm_path m k' x) \<noteq> None" if "x \<le> t'" for x
      using that t'(1) inv unfolding hm_inv_def hm_reachable_def by (cases "x = t'") auto
    have "hm_path m k' u \<noteq> i"
    proof
      assume "hm_path m k' u = i"
      then have "hm_path m k' (Suc u) = Suc i mod hm_num_buckets m" by (auto simp: hm_path_def mod_Suc_eq)
      with gap run [of "Suc u"] t'(3) show False by simp
    qed
    then show "hm_bucket m' (hm_path m k' u) \<noteq> None" using run [of u] b [OF pl] t'(3) by simp
  qed
  moreover have "hm_filled m' = hm_filled m - {i}" "i \<in> hm_filled m"
    unfolding hm_filled_def nb using b i by (auto split: if_splits)
  then have "card (hm_filled m') = card (hm_filled m) - 1" by simp
  moreover have "hm_count m' = hm_count m - 1" "hm_max_element_count m' = hm_max_element_count m"
    by (simp_all add: m'_def)
  moreover have "hm_count m = card (hm_filled m)" "hm_count m \<le> hm_max_element_count m"
    "hm_max_element_count m \<le> hm_num_buckets m" using inv by (simp_all add: hm_inv_def)
  ultimately have "hm_inv m'"
    using wf(2) u nb by (simp add: hm_inv_def)
  then show "hm_inv (fst (hm_elem_delete m k))" "snd (hm_elem_delete m k)" by (simp_all add: del)
  have gone: "hm_bucket m' j \<noteq> Some (k, w)" if "j < hm_num_buckets m" for j w
  proof
    assume "hm_bucket m' j = Some (k, w)"
    with b [OF that] have "j \<noteq> i" "hm_bucket m j = Some (k, w)" by (auto split: if_splits)
    with un i that show False unfolding hm_unique_def by blast
  qed
  have "hm_map m' k' = ((hm_map m)(k := None)) k'" for k'
  proof (cases "k' = k")
    case True
    with gone u show ?thesis by (simp add: hm_map_None nb)
  next
    case False
    have "hm_bucket m' j = Some (k', w) \<longleftrightarrow> hm_bucket m j = Some (k', w)" if "j < hm_num_buckets m" for j w
      using b [OF that] i(2) False by (cases "j = i") auto
    then have "hm_map m' k' = Some w \<longleftrightarrow> hm_map m k' = Some w" for w
      using un u by (auto simp: hm_map_Some nb)
    then have "hm_map m' k' = hm_map m k'" by (rule option_eqI)
    with False show ?thesis by simp
  qed
  then show "hm_map (fst (hm_elem_delete m k)) = (hm_map m)(k := None)" by (auto simp: del)
qed

lemma hm_elem_delete_absent:
  "hm_inv m \<Longrightarrow> hm_map m k = None \<Longrightarrow> hm_elem_delete m k = (m, False)"
  using hm_search_HitD [of m k] hm_inv_nb [of m]
  by (auto simp: hm_elem_delete_def hm_map_None hm_inv_def split: option.splits probe.splits)

end
