(* ===== verification/Fix_Hash_Map.thy ===== *)
theory Fix_Hash_Map
  imports Open_Hash
begin

text \<open>
  The fixed-size hash map (\<open>src/runtime/src/bpf_map/userspace/fix_hash_map.cpp\<close>): the map type that
  wraps the open-addressing table.  Its own bucket count is the number it was created with, not the
  prime number of buckets of the table.
\<close>

section \<open>The operations\<close>

record fix_hash =
  fh_map :: hash_map
  fh_key_size :: nat
  fh_value_size :: nat
  fh_num_buckets :: nat

text \<open>The three sizes are \<open>size_t\<close> arguments stored in \<open>uint32_t\<close> fields.\<close>

definition fix_size_hash_map_impl :: "nat \<Rightarrow> nat \<Rightarrow> nat \<Rightarrow> fix_hash" where
  "fix_size_hash_map_impl num_buckets key_size value_size =
     \<lparr>fh_map = bpftime_hash_map num_buckets key_size value_size,
      fh_key_size = wrap32 key_size, fh_value_size = wrap32 value_size,
      fh_num_buckets = wrap32 num_buckets\<rparr>"

text \<open>The null pointer comes back without an \<open>errno\<close>: \<open>RetFail\<close>.\<close>

definition fix_elem_lookup :: "fix_hash \<Rightarrow> ptr \<Rightarrow> nat res" where
  "fix_elem_lookup f key =
     bind_res (arg_bytes key (hm_key_size (fh_map f))) (\<lambda>k.
     case hm_elem_lookup (fh_map f) k of None \<Rightarrow> Inl RetFail | Some off \<Rightarrow> Inr off)"

definition fix_elem_update :: "fix_hash \<Rightarrow> ptr \<Rightarrow> ptr \<Rightarrow> nat \<Rightarrow> fix_hash res" where
  "fix_elem_update f key value flags =
     bind_res (arg_bytes key (hm_key_size (fh_map f))) (\<lambda>k.
     bind_res (arg_bytes value (hm_value_size (fh_map f))) (\<lambda>v.
     Inr (f\<lparr>fh_map := fst (hm_elem_update (fh_map f) k v)\<rparr>)))"

definition fix_elem_delete :: "fix_hash \<Rightarrow> ptr \<Rightarrow> fix_hash res" where
  "fix_elem_delete f key =
     bind_res (arg_bytes key (hm_key_size (fh_map f))) (\<lambda>k.
     Inr (f\<lparr>fh_map := fst (hm_elem_delete (fh_map f) k)\<rparr>))"

text \<open>The loop \<open>for (i = from; i < _num_buckets; i++)\<close> over the buckets.\<close>

definition fix_next_filled :: "fix_hash \<Rightarrow> nat \<Rightarrow> bytes res" where
  "fix_next_filled f from =
     (case find (\<lambda>i. \<not> hm_is_empty (fh_map f) i) [from..<fh_num_buckets f] of
        None \<Rightarrow> Inl (Errno ENOENT)
      | Some i \<Rightarrow> Inr (slice (hm_data (fh_map f)) (hm_get_key (fh_map f) i) (fh_key_size f)))"

text \<open>\<open>index + 1\<close> of the index \<open>-1\<close> wraps to \<open>0\<close>.\<close>

definition fix_map_get_next_key :: "fix_hash \<Rightarrow> ptr \<Rightarrow> bool \<Rightarrow> bytes res" where
  "fix_map_get_next_key f key next_key =
     (if \<not> next_key then Inl (Errno EINVAL)
      else if key = None then fix_next_filled f 0
      else
        case fix_elem_lookup f key of
          Inl RetFail \<Rightarrow> fix_next_filled f 0
        | Inl e \<Rightarrow> Inl e
        | Inr value_ptr \<Rightarrow>
            fix_next_filled f
              (case hm_get_index_of_value (fh_map f) (Some value_ptr) of None \<Rightarrow> 0 | Some index \<Rightarrow> index + 1))"

text \<open>The lookups and updates of the map as a machine.\<close>

datatype hash_op = HLookup ptr | HUpdate ptr ptr nat | HCount

datatype hash_answer = HDone | HValue bytes | HSize nat | HFailed fail

fun fix_step :: "fix_hash \<Rightarrow> hash_op \<Rightarrow> fix_hash \<times> hash_answer" where
  "fix_step f (HLookup key) =
     (f, case fix_elem_lookup f key of Inl e \<Rightarrow> HFailed e | Inr off \<Rightarrow> HValue (hm_read (fh_map f) off))"
| "fix_step f (HUpdate key value flags) =
     (case fix_elem_update f key value flags of Inl e \<Rightarrow> (f, HFailed e) | Inr f' \<Rightarrow> (f', HDone))"
| "fix_step f HCount = (f, HSize (hm_get_elem_count (fh_map f)))"

section \<open>Refinement of a bounded finite map\<close>

text \<open>
  The specification: a finite map with a capacity.  An update of a new key when the map is full has
  no effect, and the caller is not told.
\<close>

record hash_spec =
  hs_key_size :: nat
  hs_value_size :: nat
  hs_capacity :: nat
  hs_map :: "bytes \<Rightarrow> bytes option"

fun hash_spec_step :: "hash_spec \<Rightarrow> hash_op \<Rightarrow> hash_spec \<times> hash_answer" where
  "hash_spec_step s (HLookup key) =
     (s, case arg_bytes key (hs_key_size s) of
           Inl e \<Rightarrow> HFailed e
         | Inr k \<Rightarrow> (case hs_map s k of None \<Rightarrow> HFailed RetFail | Some v \<Rightarrow> HValue v))"
| "hash_spec_step s (HUpdate key value flags) =
     (case arg_bytes key (hs_key_size s) of
        Inl e \<Rightarrow> (s, HFailed e)
      | Inr k \<Rightarrow>
          (case arg_bytes value (hs_value_size s) of
             Inl e \<Rightarrow> (s, HFailed e)
           | Inr v \<Rightarrow>
               ((if hs_map s k \<noteq> None \<or> card (dom (hs_map s)) < hs_capacity s
                 then s\<lparr>hs_map := (hs_map s)(k \<mapsto> v)\<rparr> else s), HDone)))"
| "hash_spec_step s HCount = (s, HSize (card (dom (hs_map s))))"

definition fix_inv :: "fix_hash \<Rightarrow> bool" where
  "fix_inv f \<longleftrightarrow>
     hm_inv (fh_map f) \<and> 0 < hm_value_size (fh_map f) \<and> fh_key_size f = hm_key_size (fh_map f) \<and>
     fh_num_buckets f \<le> hm_num_buckets (fh_map f)"

definition fix_abs :: "fix_hash \<Rightarrow> hash_spec" where
  "fix_abs f = \<lparr>hs_key_size = hm_key_size (fh_map f), hs_value_size = hm_value_size (fh_map f),
     hs_capacity = hm_max_element_count (fh_map f), hs_map = hm_map (fh_map f)\<rparr>"

lemma fix_elem_lookup_answer:
  assumes "hm_inv (fh_map f)"
  shows "(case fix_elem_lookup f key of Inl e \<Rightarrow> HFailed e | Inr off \<Rightarrow> HValue (hm_read (fh_map f) off)) =
    (case arg_bytes key (hm_key_size (fh_map f)) of
       Inl e \<Rightarrow> HFailed e
     | Inr k \<Rightarrow> (case hm_map (fh_map f) k of None \<Rightarrow> HFailed RetFail | Some v \<Rightarrow> HValue v))"
  using hm_elem_lookup_map [OF assms, symmetric]
  by (auto simp: fix_elem_lookup_def split: sum.splits option.splits)

interpretation fix_sim: simulation fix_inv fix_abs fix_step hash_spec_step
proof
  fix f :: fix_hash and op
  assume inv: "fix_inv f"
  then have hinv: "hm_inv (fh_map f)" by (simp add: fix_inv_def)
  have "fix_inv (fst (fix_step f op)) \<and> (fix_abs (fst (fix_step f op)), snd (fix_step f op)) = hash_spec_step (fix_abs f) op"
  proof (cases op)
    case (HLookup key)
    with inv fix_elem_lookup_answer [OF hinv, of key] show ?thesis by (auto simp: fix_abs_def split: sum.splits)
  next
    case HCount
    with inv hm_count_dom [OF hinv] show ?thesis by (simp add: fix_abs_def hm_get_elem_count_def)
  next
    case (HUpdate key val flags)
    show ?thesis
    proof (cases "\<exists>k v. arg_bytes key (hm_key_size (fh_map f)) = Inr k \<and> arg_bytes val (hm_value_size (fh_map f)) = Inr v")
      case False
      with HUpdate inv show ?thesis
        by (auto simp: fix_elem_update_def fix_abs_def bind_res_eq_Inr split: sum.splits)
    next
      case True
      then obtain k v where kv: "arg_bytes key (hm_key_size (fh_map f)) = Inr k"
        "arg_bytes val (hm_value_size (fh_map f)) = Inr v" by blast
      with hm_elem_update_cases [OF hinv, of k v] HUpdate inv hm_count_dom [OF hinv] show ?thesis
        by (auto simp: fix_elem_update_def fix_abs_def fix_inv_def length_arg_bytes Let_def split: prod.splits if_splits)
    qed
  qed
  then show "fix_inv (fst (fix_step f op))" "fix_abs (fst (fix_step f op)) = fst (hash_spec_step (fix_abs f) op)"
    "snd (fix_step f op) = snd (hash_spec_step (fix_abs f) op)"
    by (metis fst_conv snd_conv)+
qed

lemma fix_init:
  assumes "n < 2 ^ 32" and "ks < 2 ^ 32" and "0 < vs" and "next_prime n * (4 + ks + vs) < 2 ^ 64"
  shows "fix_inv (fix_size_hash_map_impl n ks vs)"
    and "fix_abs (fix_size_hash_map_impl n ks vs) =
      \<lparr>hs_key_size = ks, hs_value_size = vs, hs_capacity = n, hs_map = Map.empty\<rparr>"
  using assms hm_inv_init [OF assms(4)] next_prime_ge [of n]
  by (simp_all add: fix_inv_def fix_abs_def fix_size_hash_map_impl_def wrap_simps bpftime_hash_map_def)

text \<open>
  C2. As long as nothing is deleted, the fixed-size hash map is a bounded finite map: any sequence of
  lookups, updates and size queries answers exactly as the abstract map does, the linear probing
  ends, and the table keeps its invariant (a key is stored once, probe sequences have no gap, the
  count is exact).
\<close>

theorem fix_hash_refines_map:
  assumes "n < 2 ^ 32" and "ks < 2 ^ 32" and "0 < vs" and "next_prime n * (4 + ks + vs) < 2 ^ 64"
  defines "f \<equiv> fix_size_hash_map_impl n ks vs"
  shows "snd (run_ops fix_step f ops) =
      snd (run_ops hash_spec_step
        \<lparr>hs_key_size = ks, hs_value_size = vs, hs_capacity = n, hs_map = Map.empty\<rparr> ops) \<and>
    hm_inv (fh_map (fst (run_ops fix_step f ops)))"
  using fix_sim.run_refines [OF fix_init(1) [OF assms(1-4)], of ops] fix_init(2) [OF assms(1-4)]
    fix_sim.run_inv [OF fix_init(1) [OF assms(1-4)], of ops]
  by (simp add: f_def fix_inv_def)

lemma next_prime_small [simp]: "next_prime 3 = 3" "next_prime 4 = 5"
  by (simp_all add: next_prime.simps is_prime_def is_prime_loop.simps)

theorem fix_hash_refines_map_witness:
  "snd (run_ops fix_step (fix_size_hash_map_impl 3 1 1)
     [HUpdate (Some [0]) (Some [7]) 0, HUpdate (Some [3]) (Some [8]) 0, HUpdate (Some [6]) (Some [9]) 0,
      HUpdate (Some [9]) (Some [1]) 0, HLookup (Some [3]), HLookup (Some [9]), HLookup None]) =
   [HDone, HDone, HDone, HDone, HValue [8], HFailed RetFail, HFailed Fault]"
proof -
  have "snd (run_ops hash_spec_step
        \<lparr>hs_key_size = 1, hs_value_size = 1, hs_capacity = 3, hs_map = Map.empty\<rparr>
     [HUpdate (Some [0]) (Some [7]) 0, HUpdate (Some [3]) (Some [8]) 0, HUpdate (Some [6]) (Some [9]) 0,
      HUpdate (Some [9]) (Some [1]) 0, HLookup (Some [3]), HLookup (Some [9]), HLookup None]) =
   [HDone, HDone, HDone, HDone, HValue [8], HFailed RetFail, HFailed Fault]"
    by (simp add: arg_bytes_def load_def)
  with fix_hash_refines_map [of 3 1 1] show ?thesis by (simp del: run_ops_Cons)
qed

section \<open>Deletions\<close>


text \<open>Evaluation of the table on a concrete map with three buckets and one-byte keys and values.\<close>

lemma hm_probe_numeral:
  "hm_probe m key s (numeral n) i =
     (if hm_is_empty m i then Some (Vacant i)
      else if hm_key_at m i = key then Some (Hit i)
      else if (i + 1) mod hm_num_buckets m \<noteq> s
      then hm_probe m key s (pred_numeral n) ((i + 1) mod hm_num_buckets m)
      else Some Exhausted)"
  by (simp add: numeral_eq_Suc Let_def)

lemmas hm_eval = hm_elem_update_def hm_elem_delete_def hm_elem_lookup_def hm_search_def hm_home_def hash_func_def
  hm_is_empty_def hm_key_at_def hm_get_key_def hm_get_value_def get_elem_offset_def hm_elem_size_def
  hm_write_key_def hm_write_value_def hm_set_filled_def hm_set_empty_def
  slice_def poke_def store_def wrap64_def Let_def u32_eval hm_probe_numeral

definition hm_three :: "nat \<Rightarrow> bytes \<Rightarrow> hash_map" where
  "hm_three c d =
     \<lparr>hm_key_size = 1, hm_value_size = 1, hm_num_buckets = 3, hm_max_element_count = 3, hm_count = c,
      hm_data = d\<rparr>"

lemma hm_three_init: "bpftime_hash_map 3 1 1 = hm_three 0 [0,0,0,0,0,0, 0,0,0,0,0,0, 0,0,0,0,0,0]"
  by (simp add: bpftime_hash_map_def hm_three_def eval_simps)

lemma hm_three_first:
  "hm_elem_update (hm_three 0 [0,0,0,0,0,0, 0,0,0,0,0,0, 0,0,0,0,0,0]) [0] [7] =
     (hm_three 1 [1,0,0,0,0,7, 0,0,0,0,0,0, 0,0,0,0,0,0], True)"
  by (simp add: hm_three_def hm_eval)

lemma hm_three_second:
  "hm_elem_update (hm_three 1 [1,0,0,0,0,7, 0,0,0,0,0,0, 0,0,0,0,0,0]) [3] [8] =
     (hm_three 2 [1,0,0,0,0,7, 1,0,0,0,3,8, 0,0,0,0,0,0], True)"
  "hm_elem_lookup (hm_three 2 [1,0,0,0,0,7, 1,0,0,0,3,8, 0,0,0,0,0,0]) [3] = Some 11"
  by (simp_all add: hm_three_def hm_eval)

lemma hm_three_delete:
  "hm_elem_delete (hm_three 2 [1,0,0,0,0,7, 1,0,0,0,3,8, 0,0,0,0,0,0]) [0] =
     (hm_three 1 [0,0,0,0,0,7, 1,0,0,0,3,8, 0,0,0,0,0,0], True)"
  "hm_elem_lookup (hm_three 1 [0,0,0,0,0,7, 1,0,0,0,3,8, 0,0,0,0,0,0]) [3] = None"
  by (simp_all add: hm_three_def hm_eval)

lemma hm_three_again:
  "hm_elem_update (hm_three 1 [0,0,0,0,0,7, 1,0,0,0,3,8, 0,0,0,0,0,0]) [3] [9] =
     (hm_three 2 [1,0,0,0,3,9, 1,0,0,0,3,8, 0,0,0,0,0,0], True)"
  "hm_bucket (hm_three 2 [1,0,0,0,3,9, 1,0,0,0,3,8, 0,0,0,0,0,0]) 0 = Some ([3], [9])"
  "hm_bucket (hm_three 2 [1,0,0,0,3,9, 1,0,0,0,3,8, 0,0,0,0,0,0]) 1 = Some ([3], [8])"
  by (simp_all add: hm_three_def hm_eval hm_bucket_def hm_value_at_def)

lemma hm_three_sizes: "hm_key_size (hm_three c d) = 1" "hm_value_size (hm_three c d) = 1"
  by (simp_all add: hm_three_def)

lemmas hm_three_steps = hm_three_sizes hm_three_init [unfolded One_nat_def] hm_three_first [unfolded One_nat_def]
  hm_three_second [unfolded One_nat_def] hm_three_delete [unfolded One_nat_def] hm_three_again [unfolded One_nat_def]



section \<open>Iteration\<close>

definition fix_keys :: "fix_hash \<Rightarrow> bytes list" where
  "fix_keys f = map (hm_key_at (fh_map f)) (filter (\<lambda>i. \<not> hm_is_empty (fh_map f) i) [0..<fh_num_buckets f])"

definition fix_next :: "fix_hash \<Rightarrow> bytes option \<Rightarrow> bytes res" where
  "fix_next f k = fix_map_get_next_key f k True"

lemma fix_next_filled_keys:
  assumes "fix_inv f"
  shows "fix_next_filled f a =
    (case filter (\<lambda>i. \<not> hm_is_empty (fh_map f) i) [a..<fh_num_buckets f] of
       [] \<Rightarrow> Inl (Errno ENOENT) | i # _ \<Rightarrow> Inr (hm_key_at (fh_map f) i))"
  using assms
  by (auto simp: fix_next_filled_def find_filter fix_inv_def hm_key_at_def split: list.splits option.splits)

lemma fix_next_of_bucket:
  assumes inv: "fix_inv f" and i: "i < fh_num_buckets f" "\<not> hm_is_empty (fh_map f) i"
  shows "fix_next f (Some (hm_key_at (fh_map f) i)) = fix_next_filled f (Suc i)"
proof -
  let ?m = "fh_map f"
  have hinv: "hm_inv ?m" and wf: "hm_wf ?m" and vs: "0 < hm_value_size ?m" and lt: "i < hm_num_buckets ?m"
    using inv i by (auto simp: fix_inv_def hm_inv_def)
  have es: "0 < hm_elem_size ?m" by (simp add: hm_elem_size_def)
  have b: "i * hm_elem_size ?m + (4 + hm_key_size ?m) + hm_value_size ?m \<le> length (hm_data ?m)"
    using hm_in_bounds(2) [OF wf lt hm_field_bounds(3)] by simp
  have len: "length (hm_key_at ?m i) = hm_key_size ?m"
    unfolding hm_fields_at(2) [OF wf lt] by (rule length_slice) (use b in simp)
  have hit: "hm_elem_lookup ?m (hm_key_at ?m i) = Some (hm_get_value ?m i)"
    using hm_search_Hit [OF hinv lt, of "hm_key_at ?m i" "hm_value_at ?m i"] i(2)
    by (simp add: hm_bucket_def hm_elem_lookup_def)
  have off: "hm_get_value ?m i = i * hm_elem_size ?m + (4 + hm_key_size ?m)"
    using wf lt by (simp add: hm_get_value_def hm_offset)
  have "4 + hm_key_size ?m < hm_elem_size ?m" using vs by (simp add: hm_elem_size_def)
  then have "hm_get_value ?m i div hm_elem_size ?m = i"
    unfolding off using es by (simp add: div_mult_self3)
  then have "hm_get_index_of_value ?m (Some (hm_get_value ?m i)) = Some i"
    using b vs off by (simp add: hm_get_index_of_value_def hm_elem_size_def)
  then show ?thesis
    using hit len by (simp add: fix_next_def fix_map_get_next_key_def fix_elem_lookup_def arg_bytes_Some)
qed

interpretation fix_iter: key_iteration fix_inv fix_keys fix_next
proof
  fix f :: fix_hash
  let ?P = "\<lambda>i. \<not> hm_is_empty (fh_map f) i"
  let ?fs = "filter ?P [0..<fh_num_buckets f]"
  assume inv: "fix_inv f"
  have first: "fix_next f None = fix_next_filled f 0" by (simp add: fix_next_def fix_map_get_next_key_def)
  show "fix_next f None = Inl (Errno ENOENT)" if "fix_keys f = []"
    using that unfolding first fix_next_filled_keys [OF inv] by (simp add: fix_keys_def)
  show "fix_next f None = Inr (hd (fix_keys f))" if "fix_keys f \<noteq> []"
    using that unfolding first fix_next_filled_keys [OF inv] by (auto simp: fix_keys_def split: list.splits)
  have step: "fix_next f (Some (hm_key_at (fh_map f) (?fs ! i))) =
      (case drop (Suc i) ?fs of [] \<Rightarrow> Inl (Errno ENOENT) | j # _ \<Rightarrow> Inr (hm_key_at (fh_map f) j))"
    if "i < length ?fs" for i
    using nth_mem [OF that] fix_next_of_bucket [OF inv, of "?fs ! i"]
    unfolding fix_next_filled_keys [OF inv] filter_upt_after [OF that] by simp
  show "fix_next f (Some (fix_keys f ! i)) = Inr (fix_keys f ! Suc i)" if "Suc i < length (fix_keys f)" for i
    using step [of i] that Cons_nth_drop_Suc [of "Suc i" ?fs, symmetric] by (simp add: fix_keys_def)
  show "fix_next f (Some (last (fix_keys f))) = Inl (Errno ENOENT)" if "fix_keys f \<noteq> []"
    using step [of "length ?fs - 1"] that by (simp add: fix_keys_def last_conv_nth)
qed

lemma fix_keys_distinct:
  assumes "fix_inv f"
  shows "distinct (fix_keys f)"
  unfolding fix_keys_def
proof (subst distinct_map, intro conjI inj_onI)
  fix i j
  assume "i \<in> set (filter (\<lambda>i. \<not> hm_is_empty (fh_map f) i) [0..<fh_num_buckets f])"
    "j \<in> set (filter (\<lambda>i. \<not> hm_is_empty (fh_map f) i) [0..<fh_num_buckets f])"
    and eq: "hm_key_at (fh_map f) i = hm_key_at (fh_map f) j"
  then have "i < hm_num_buckets (fh_map f)" "j < hm_num_buckets (fh_map f)"
    "hm_bucket (fh_map f) i = Some (hm_key_at (fh_map f) i, hm_value_at (fh_map f) i)"
    "hm_bucket (fh_map f) j = Some (hm_key_at (fh_map f) i, hm_value_at (fh_map f) j)"
    using assms by (auto simp: fix_inv_def hm_bucket_def)
  then show "i = j" using assms unfolding fix_inv_def hm_inv_def hm_unique_def by blast
qed simp

lemma fix_keys_dom:
  assumes "fix_inv f"
  shows "set (fix_keys f) \<subseteq> dom (hm_map (fh_map f))"
    and "fh_num_buckets f = hm_num_buckets (fh_map f) \<Longrightarrow> dom (hm_map (fh_map f)) \<subseteq> set (fix_keys f)"
proof -
  have u: "hm_unique (fh_map f)" and le: "fh_num_buckets f \<le> hm_num_buckets (fh_map f)"
    using assms by (auto simp: fix_inv_def hm_inv_def)
  show "set (fix_keys f) \<subseteq> dom (hm_map (fh_map f))"
  proof
    fix k
    assume "k \<in> set (fix_keys f)"
    then obtain i where "i < fh_num_buckets f" "\<not> hm_is_empty (fh_map f) i" "k = hm_key_at (fh_map f) i"
      by (auto simp: fix_keys_def)
    then have "i < hm_num_buckets (fh_map f)" "hm_bucket (fh_map f) i = Some (k, hm_value_at (fh_map f) i)"
      using le by (simp_all add: hm_bucket_def)
    then show "k \<in> dom (hm_map (fh_map f))" using hm_map_Some [OF u] by blast
  qed
  show "dom (hm_map (fh_map f)) \<subseteq> set (fix_keys f)" if "fh_num_buckets f = hm_num_buckets (fh_map f)"
    using that hm_map_Some [OF u] by (auto simp: fix_keys_def hm_bucket_def split: if_splits)
qed

text \<open>
  C32. Iterating the fixed-size hash map with \<open>map_get_next_key\<close> ends with \<open>ENOENT\<close> after visiting
  pairwise different stored keys, and visits all of them when the requested number of buckets was
  prime, so that the table has exactly that many.
\<close>

theorem fix_iteration_complete:
  assumes "fix_inv f"
  shows "walk_keys (fix_next f) (Suc (length (fix_keys f))) None = Some (fix_keys f, Errno ENOENT) \<and>
    distinct (fix_keys f) \<and> set (fix_keys f) \<subseteq> dom (hm_map (fh_map f)) \<and>
    (fh_num_buckets f = hm_num_buckets (fh_map f) \<longrightarrow> set (fix_keys f) = dom (hm_map (fh_map f)))"
  using fix_iter.walk_all [OF assms] fix_keys_distinct [OF assms] fix_keys_dom [OF assms] by blast

theorem fix_iteration_complete_witness:
  "\<exists>f. fix_elem_update (fix_size_hash_map_impl 3 1 1) (Some [0]) (Some [7]) BPF_ANY = Inr f \<and>
     walk_keys (fix_next f) 2 None = Some ([[0]], Errno ENOENT)"
proof -
  let ?f = "fix_size_hash_map_impl 3 1 1"
  define f where "f = ?f\<lparr>fh_map := hm_three 1 [1,0,0,0,0,7, 0,0,0,0,0,0, 0,0,0,0,0,0]\<rparr>"
  have upd: "fix_elem_update ?f (Some [0]) (Some [7]) BPF_ANY = Inr f"
    by (simp add: f_def fix_elem_update_def fix_size_hash_map_impl_def arg_bytes_def load_def hm_three_steps)
  have "fix_inv ?f" by (rule fix_init(1)) simp_all
  from fix_sim.step_inv [OF this, of "HUpdate (Some [0]) (Some [7]) BPF_ANY"] upd have inv: "fix_inv f" by simp
  have "fix_keys f = [[0]]"
    by (simp add: fix_keys_def f_def fix_size_hash_map_impl_def wrap32_def upt_rec hm_three_def hm_eval)
  with fix_iteration_complete [OF inv] have "walk_keys (fix_next f) 2 None = Some ([[0]], Errno ENOENT)"
    by (simp add: numeral_2_eq_2)
  with upd show ?thesis by blast
qed

text \<open>
  When the requested number is not prime the loop bound is below the number of buckets: the key
  stored in the last bucket is found by a lookup and never by the iteration.
\<close>

lemma hm_five_insert:
  "hm_elem_update (bpftime_hash_map 4 1 1) [4] [7] =
     (\<lparr>hm_key_size = 1, hm_value_size = 1, hm_num_buckets = 5, hm_max_element_count = 4, hm_count = 1,
       hm_data = replicate 24 0 @ [1,0,0,0,4,7]\<rparr>, True)"
  by (simp add: hm_eval bpftime_hash_map_def eval_simps)

text \<open>
  The iteration misses keys when the number of buckets is rounded up to a prime: a map created
  for four entries has five buckets, and the key in the fifth is stored but never visited.
\<close>

lemma fix_iteration_misses_key:
  "\<exists>f. fix_elem_update (fix_size_hash_map_impl 4 1 1) (Some [4]) (Some [7]) BPF_ANY = Inr f \<and>
     fix_elem_lookup f (Some [4]) = Inr 29 \<and>
     fix_map_get_next_key f None True = Inl (Errno ENOENT)"
  by (simp add: fix_elem_update_def fix_size_hash_map_impl_def fix_elem_lookup_def fix_map_get_next_key_def
      fix_next_filled_def arg_bytes_def load_def hm_five_insert [unfolded One_nat_def] hm_eval eval_simps upt_rec
      bpftime_hash_map_def [of 4 "Suc 0" "Suc 0"])

end
