(* ===== verification/Unordered_Map.thy ===== *)
theory Unordered_Map
  imports Map_Contracts
begin

text \<open>
  \<open>boost::unordered_map\<close>, on which the variable-size, the per-CPU and the LRU hash maps are built, is
  a library outside the repository.  The definitions that use it take its operations as the
  argument \<open>U\<close>, and the locale \<open>unordered_map\<close> states what its documentation promises.  An
  association list is one container with these properties.
\<close>

section \<open>The operations used\<close>

text \<open>
  \<open>um_entries\<close> is the sequence from \<open>begin()\<close> to \<open>end()\<close>; \<open>um_assign\<close> is an assignment through the
  iterator that \<open>find\<close> returned, which does not touch the order; \<open>um_insert\<close> (\<open>insert\<close>, \<open>emplace\<close>)
  does nothing when the key is present.
\<close>

record ('c, 'k, 'v) umap =
  um_empty :: 'c
  um_entries :: "'c \<Rightarrow> ('k \<times> 'v) list"
  um_find :: "'c \<Rightarrow> 'k \<Rightarrow> 'v option"
  um_size :: "'c \<Rightarrow> nat"
  um_insert_or_assign :: "'c \<Rightarrow> 'k \<Rightarrow> 'v \<Rightarrow> 'c"
  um_insert :: "'c \<Rightarrow> 'k \<Rightarrow> 'v \<Rightarrow> 'c"
  um_assign :: "'c \<Rightarrow> 'k \<Rightarrow> 'v \<Rightarrow> 'c"
  um_erase :: "'c \<Rightarrow> 'k \<Rightarrow> 'c"

text \<open>The element after \<open>k\<close> in a sequence of keys: \<open>itr++\<close>.\<close>

fun next_in :: "'k \<Rightarrow> 'k list \<Rightarrow> 'k option" where
  "next_in k [] = None"
| "next_in k (x # xs) = (if x = k then (case xs of [] \<Rightarrow> None | y # _ \<Rightarrow> Some y) else next_in k xs)"

text \<open>
  The body of \<open>map_get_next_key\<close> that the three hash maps share: no key or an unknown key asks for
  the first element.
\<close>

definition umap_first :: "('c, 'k, 'v) umap \<Rightarrow> 'c \<Rightarrow> 'k res" where
  "umap_first U c = (case um_entries U c of [] \<Rightarrow> Inl (Errno ENOENT) | e # _ \<Rightarrow> Inr (fst e))"

definition umap_next_key :: "('c, 'k, 'v) umap \<Rightarrow> 'c \<Rightarrow> 'k option \<Rightarrow> 'k res" where
  "umap_next_key U c key =
     (case key of
        None \<Rightarrow> umap_first U c
      | Some k \<Rightarrow>
          if um_find U c k = None then umap_first U c
          else (case next_in k (map fst (um_entries U c)) of
                  None \<Rightarrow> Inl (Errno ENOENT)
                | Some k' \<Rightarrow> Inr k'))"

section \<open>The documented behaviour\<close>

locale unordered_map =
  fixes U :: "('c, 'k, 'v) umap"
  assumes entries_distinct: "distinct (map fst (um_entries U c))"
    and find_entries: "um_find U c k = map_of (um_entries U c) k"
    and size_entries: "um_size U c = length (um_entries U c)"
    and find_empty: "um_find U (um_empty U) k = None"
    and find_put: "um_find U (um_insert_or_assign U c k v) k' = (if k' = k then Some v else um_find U c k')"
    and find_insert: "um_find U (um_insert U c k v) k' =
      (if k' = k \<and> um_find U c k = None then Some v else um_find U c k')"
    and find_assign: "um_find U c k \<noteq> None \<Longrightarrow>
      um_find U (um_assign U c k v) k' = (if k' = k then Some v else um_find U c k')"
    and find_erase: "um_find U (um_erase U c k) k' = (if k' = k then None else um_find U c k')"
begin

lemma find_eq:
  "um_find U (um_empty U) = Map.empty"
  "um_find U (um_insert_or_assign U c k v) = (um_find U c)(k \<mapsto> v)"
  "um_find U (um_erase U c k) = (um_find U c)(k := None)"
  "um_find U c k = None \<Longrightarrow> um_find U (um_insert U c k v) = (um_find U c)(k \<mapsto> v)"
  "um_find U c k \<noteq> None \<Longrightarrow> um_find U (um_assign U c k v) = (um_find U c)(k \<mapsto> v)"
  by (auto simp: find_empty find_put find_erase find_insert find_assign)

lemma dom_find: "dom (um_find U c) = fst ` set (um_entries U c)"
  by (simp add: find_entries [abs_def] dom_map_of_conv_image_fst)

lemma finite_dom_find [simp]: "finite (dom (um_find U c))"
  by (simp add: dom_find)

lemma size_card: "um_size U c = card (dom (um_find U c))"
  using distinct_card [OF entries_distinct] by (simp add: dom_find size_entries)

end

lemma next_in_nth:
  assumes "distinct xs" and "i < length xs"
  shows "next_in (xs ! i) xs = (if Suc i < length xs then Some (xs ! Suc i) else None)"
  using assms
proof (induction xs arbitrary: i)
  case (Cons x xs)
  show ?case
  proof (cases i)
    case 0
    then show ?thesis by (simp split: list.splits)
  next
    case (Suc j)
    with Cons.prems have "x \<noteq> xs ! j" by (auto simp: in_set_conv_nth)
    with Suc Cons show ?thesis by simp
  qed
qed simp

text \<open>Iteration visits every key of the container once.\<close>

sublocale unordered_map \<subseteq> iter: key_iteration "\<lambda>_. True" "\<lambda>c. map fst (um_entries U c)" "umap_next_key U"
proof
  fix c i
  let ?ks = "map fst (um_entries U c)"
  have known: "um_find U c (?ks ! i) \<noteq> None" if "i < length ?ks" for i
    using that nth_mem [of i ?ks] by (simp add: find_entries map_of_eq_None_iff)
  show "umap_next_key U c None = Inl (Errno ENOENT)" if "?ks = []"
    using that by (simp add: umap_next_key_def umap_first_def)
  show "umap_next_key U c None = Inr (hd ?ks)" if "?ks \<noteq> []"
    using that by (auto simp: umap_next_key_def umap_first_def split: list.splits)
  show "umap_next_key U c (Some (?ks ! i)) = Inr (?ks ! Suc i)" if "Suc i < length ?ks"
    using that known [of i] next_in_nth [OF entries_distinct, of i c] by (auto simp: umap_next_key_def)
  show "umap_next_key U c (Some (last ?ks)) = Inl (Errno ENOENT)" if "?ks \<noteq> []"
    using that known [of "length ?ks - 1"] next_in_nth [OF entries_distinct, of "length ?ks - 1" c]
    by (auto simp: umap_next_key_def last_conv_nth)
qed

section \<open>Association lists\<close>

definition alist_put :: "('k \<times> 'v) list \<Rightarrow> 'k \<Rightarrow> 'v \<Rightarrow> ('k \<times> 'v) list" where
  "alist_put c k v = filter (\<lambda>e. fst e \<noteq> k) c @ [(k, v)]"

definition alist_distinct :: "('k \<times> 'v) list \<Rightarrow> ('k \<times> 'v) list" where
  "alist_distinct c = (if distinct (map fst c) then c else [])"

text \<open>The container of all lists; one with a repeated key stands for the empty container.\<close>

definition alist_umap :: "(('k \<times> 'v) list, 'k, 'v) umap" where
  "alist_umap =
     \<lparr>um_empty = [], um_entries = alist_distinct,
      um_find = (\<lambda>c. map_of (alist_distinct c)),
      um_size = (\<lambda>c. length (alist_distinct c)),
      um_insert_or_assign = (\<lambda>c. alist_put (alist_distinct c)),
      um_insert = (\<lambda>c k v. if map_of (alist_distinct c) k = None then alist_put (alist_distinct c) k v else c),
      um_assign = (\<lambda>c k v. map (\<lambda>e. if fst e = k then (k, v) else e) (alist_distinct c)),
      um_erase = (\<lambda>c k. filter (\<lambda>e. fst e \<noteq> k) (alist_distinct c))\<rparr>"

lemma alist_distinct_keys [simp]: "distinct (map fst (alist_distinct c))"
  by (simp add: alist_distinct_def)

lemma alist_distinct_id: "distinct (map fst c) \<Longrightarrow> alist_distinct c = c"
  by (simp add: alist_distinct_def)

lemma distinct_fst_filter: "distinct (map fst c) \<Longrightarrow> distinct (map fst (filter P c))"
  by (induction c) auto

lemma map_of_filter_key: "map_of (filter (\<lambda>e. fst e \<noteq> k) c) k' = (if k' = k then None else map_of c k')"
  by (induction c) auto

lemma alist_put_distinct: "distinct (map fst c) \<Longrightarrow> distinct (map fst (alist_put c k v))"
  by (auto simp: alist_put_def distinct_fst_filter)

lemma map_of_alist_put: "map_of (alist_put c k v) k' = (if k' = k then Some v else map_of c k')"
  by (simp add: alist_put_def map_add_def map_of_filter_key split: option.splits)

lemma map_fst_assign: "map fst (map (\<lambda>e. if fst e = k then (k, v) else e) c) = map fst c"
  by (induction c) auto

lemma map_of_assign:
  "map_of (map (\<lambda>e. if fst e = k then (k, v) else e) c) k' =
     (if k' = k then map_option (\<lambda>_. v) (map_of c k) else map_of c k')"
  by (induction c) auto

lemma alist_unordered_map: "unordered_map (alist_umap :: (('k \<times> 'v) list, 'k, 'v) umap)"
proof
  fix c :: "('k \<times> 'v) list" and k k' v
  have put: "alist_distinct (alist_put (alist_distinct c) k v) = alist_put (alist_distinct c) k v"
    by (intro alist_distinct_id alist_put_distinct) simp
  show "um_find alist_umap (um_insert_or_assign alist_umap c k v) k' =
      (if k' = k then Some v else um_find alist_umap c k')"
    by (simp add: alist_umap_def put map_of_alist_put)
  show "um_find alist_umap (um_insert alist_umap c k v) k' =
      (if k' = k \<and> um_find alist_umap c k = None then Some v else um_find alist_umap c k')"
    by (cases "map_of (alist_distinct c) k") (simp_all add: alist_umap_def put map_of_alist_put)
  show "um_find alist_umap (um_erase alist_umap c k) k' = (if k' = k then None else um_find alist_umap c k')"
    by (simp add: alist_umap_def alist_distinct_id [OF distinct_fst_filter] map_of_filter_key)
  have same: "alist_distinct (map (\<lambda>e. if fst e = k then (k, v) else e) (alist_distinct c)) =
      map (\<lambda>e. if fst e = k then (k, v) else e) (alist_distinct c)"
    by (rule alist_distinct_id) (simp only: map_fst_assign alist_distinct_keys)
  show "um_find alist_umap (um_assign alist_umap c k v) k' = (if k' = k then Some v else um_find alist_umap c k')"
    if "um_find alist_umap c k \<noteq> None"
    using that unfolding alist_umap_def by (auto simp: same map_of_assign)
qed (simp_all add: alist_umap_def alist_distinct_def)

interpretation alist: unordered_map alist_umap
  by (rule alist_unordered_map)

end
