(* ===== verification/Var_Hash_Map.thy ===== *)
theory Var_Hash_Map
  imports Unordered_Map
begin

text \<open>
  The variable-size hash map (\<open>src/runtime/src/bpf_map/userspace/var_hash_map.cpp\<close>) on top of
  \<open>boost::unordered_map\<close>.  A lookup returns a pointer to the value in the container's node; the
  model returns the bytes it shows.  The buffers \<open>key_vec\<close> and \<open>value_vec\<close> are rewritten by every
  operation before they are read and are local to the operations here.
\<close>

section \<open>The operations\<close>

definition BPF_F_RDONLY :: nat where [flag_defs]: "BPF_F_RDONLY = 8"
definition BPF_F_WRONLY :: nat where [flag_defs]: "BPF_F_WRONLY = 16"

record 'c var_hash =
  vh_map :: 'c
  vh_key_size :: nat
  vh_value_size :: nat
  vh_max_entries :: nat
  vh_flags :: nat

definition var_size_hash_map_impl ::
  "('c, bytes, bytes) umap \<Rightarrow> nat \<Rightarrow> nat \<Rightarrow> nat \<Rightarrow> nat \<Rightarrow> 'c var_hash" where
  "var_size_hash_map_impl U key_size value_size max_entries flags =
     \<lparr>vh_map = um_empty U, vh_key_size = key_size, vh_value_size = value_size,
      vh_max_entries = max_entries, vh_flags = flags\<rparr>"

definition var_elem_lookup :: "('c, bytes, bytes) umap \<Rightarrow> 'c var_hash \<Rightarrow> ptr \<Rightarrow> bytes res" where
  "var_elem_lookup U h key =
     (if vh_flags h AND BPF_F_WRONLY \<noteq> 0 then Inl (Errno EPERM)
      else bind_res (arg_bytes key (vh_key_size h)) (\<lambda>k.
           case um_find U (vh_map h) k of None \<Rightarrow> Inl (Errno ENOENT) | Some v \<Rightarrow> Inr v))"

definition var_elem_update ::
  "('c, bytes, bytes) umap \<Rightarrow> 'c var_hash \<Rightarrow> ptr \<Rightarrow> ptr \<Rightarrow> nat \<Rightarrow> 'c var_hash res" where
  "var_elem_update U h key value flags =
     (if \<not> is_good_update_flag flags then Inl (Errno EINVAL)
      else
        bind_res (arg_bytes key (vh_key_size h)) (\<lambda>k.
        bind_res (arg_bytes value (vh_value_size h)) (\<lambda>v.
        let element_exists = (um_find U (vh_map h) k \<noteq> None)
        in if flags = BPF_NOEXIST \<and> element_exists then Inl (Errno EEXIST)
           else if flags = BPF_EXIST \<and> \<not> element_exists then Inl (Errno ENOENT)
           else if element_exists = False \<and> um_size U (vh_map h) = vh_max_entries h then Inl (Errno E2BIG)
           else if element_exists = False \<and> vh_flags h AND BPF_F_RDONLY \<noteq> 0 then Inl (Errno EPERM)
           else Inr (h\<lparr>vh_map := um_insert_or_assign U (vh_map h) k v\<rparr>))))"

definition var_elem_delete :: "('c, bytes, bytes) umap \<Rightarrow> 'c var_hash \<Rightarrow> ptr \<Rightarrow> 'c var_hash res" where
  "var_elem_delete U h key =
     bind_res (arg_bytes key (vh_key_size h)) (\<lambda>k.
     if um_find U (vh_map h) k = None then Inl (Errno ENOENT)
     else Inr (h\<lparr>vh_map := um_erase U (vh_map h) k\<rparr>))"

definition var_lookup_and_delete ::
  "('c, bytes, bytes) umap \<Rightarrow> 'c var_hash \<Rightarrow> ptr \<Rightarrow> ('c var_hash \<times> bytes) res" where
  "var_lookup_and_delete U h key =
     bind_res (arg_bytes key (vh_key_size h)) (\<lambda>k.
     case um_find U (vh_map h) k of
       None \<Rightarrow> Inl (Errno ENOENT)
     | Some v \<Rightarrow>
         bind_res (of_opt (load v 0 (vh_value_size h))) (\<lambda>out.
         Inr (h\<lparr>vh_map := um_erase U (vh_map h) k\<rparr>, out)))"

definition var_map_get_next_key :: "('c, bytes, bytes) umap \<Rightarrow> 'c var_hash \<Rightarrow> ptr \<Rightarrow> bytes res" where
  "var_map_get_next_key U h key =
     (if vh_flags h AND BPF_F_WRONLY \<noteq> 0 then Inl (Errno EPERM)
      else if key = None then umap_next_key U (vh_map h) None
      else bind_res (arg_bytes key (vh_key_size h)) (\<lambda>k. umap_next_key U (vh_map h) (Some k)))"

section \<open>Refinement of a finite map with a capacity\<close>

datatype var_op = VLookup ptr | VUpdate ptr ptr nat | VDelete ptr | VLookupDelete ptr

datatype var_answer = VDone | VValue bytes | VFailed fail

definition var_answer :: "'s \<Rightarrow> ('s \<times> var_answer) res \<Rightarrow> 's \<times> var_answer" where
  "var_answer s r = (case r of Inl e \<Rightarrow> (s, VFailed e) | Inr p \<Rightarrow> p)"

fun var_step :: "('c, bytes, bytes) umap \<Rightarrow> 'c var_hash \<Rightarrow> var_op \<Rightarrow> 'c var_hash \<times> var_answer" where
  "var_step U h (VLookup key) = var_answer h (bind_res (var_elem_lookup U h key) (\<lambda>v. Inr (h, VValue v)))"
| "var_step U h (VUpdate key value flags) =
     var_answer h (bind_res (var_elem_update U h key value flags) (\<lambda>h'. Inr (h', VDone)))"
| "var_step U h (VDelete key) = var_answer h (bind_res (var_elem_delete U h key) (\<lambda>h'. Inr (h', VDone)))"
| "var_step U h (VLookupDelete key) =
     var_answer h (bind_res (var_lookup_and_delete U h key) (\<lambda>(h', v). Inr (h', VValue v)))"

text \<open>The specification is the same record with a finite map in place of the container.\<close>

type_synonym var_spec = "(bytes \<Rightarrow> bytes option) var_hash"

definition var_spec_update :: "var_spec \<Rightarrow> bytes \<Rightarrow> bytes \<Rightarrow> nat \<Rightarrow> var_spec \<times> var_answer" where
  "var_spec_update s k v flags =
     (if k \<in> dom (vh_map s)
      then if flags = BPF_NOEXIST then (s, VFailed (Errno EEXIST))
           else (s\<lparr>vh_map := (vh_map s)(k \<mapsto> v)\<rparr>, VDone)
      else if flags = BPF_EXIST then (s, VFailed (Errno ENOENT))
      else if card (dom (vh_map s)) = vh_max_entries s then (s, VFailed (Errno E2BIG))
      else if vh_flags s AND BPF_F_RDONLY \<noteq> 0 then (s, VFailed (Errno EPERM))
      else (s\<lparr>vh_map := (vh_map s)(k \<mapsto> v)\<rparr>, VDone))"

fun var_spec_step :: "var_spec \<Rightarrow> var_op \<Rightarrow> var_spec \<times> var_answer" where
  "var_spec_step s (VLookup key) =
     (if vh_flags s AND BPF_F_WRONLY \<noteq> 0 then (s, VFailed (Errno EPERM))
      else case arg_bytes key (vh_key_size s) of
             Inl e \<Rightarrow> (s, VFailed e)
           | Inr k \<Rightarrow> (s, case vh_map s k of None \<Rightarrow> VFailed (Errno ENOENT) | Some v \<Rightarrow> VValue v))"
| "var_spec_step s (VUpdate key value flags) =
     (if \<not> is_good_update_flag flags then (s, VFailed (Errno EINVAL))
      else case arg_bytes key (vh_key_size s) of
             Inl e \<Rightarrow> (s, VFailed e)
           | Inr k \<Rightarrow> (case arg_bytes value (vh_value_size s) of
                         Inl e \<Rightarrow> (s, VFailed e)
                       | Inr v \<Rightarrow> var_spec_update s k v flags))"
| "var_spec_step s (VDelete key) =
     (case arg_bytes key (vh_key_size s) of
        Inl e \<Rightarrow> (s, VFailed e)
      | Inr k \<Rightarrow> if vh_map s k = None then (s, VFailed (Errno ENOENT))
                 else (s\<lparr>vh_map := (vh_map s)(k := None)\<rparr>, VDone))"
| "var_spec_step s (VLookupDelete key) =
     (case arg_bytes key (vh_key_size s) of
        Inl e \<Rightarrow> (s, VFailed e)
      | Inr k \<Rightarrow> (case vh_map s k of
                    None \<Rightarrow> (s, VFailed (Errno ENOENT))
                  | Some v \<Rightarrow> (s\<lparr>vh_map := (vh_map s)(k := None)\<rparr>, VValue v)))"

definition var_abs :: "('c, bytes, bytes) umap \<Rightarrow> 'c var_hash \<Rightarrow> var_spec" where
  "var_abs U h =
     \<lparr>vh_map = um_find U (vh_map h), vh_key_size = vh_key_size h, vh_value_size = vh_value_size h,
      vh_max_entries = vh_max_entries h, vh_flags = vh_flags h\<rparr>"

text \<open>Every stored value has the size of the map's values, and the capacity is respected.\<close>

definition var_inv :: "('c, bytes, bytes) umap \<Rightarrow> 'c var_hash \<Rightarrow> bool" where
  "var_inv U h \<longleftrightarrow>
     (\<forall>k v. um_find U (vh_map h) k = Some v \<longrightarrow> length k = vh_key_size h \<and> length v = vh_value_size h) \<and>
     um_size U (vh_map h) \<le> vh_max_entries h"

lemma var_answer_simps [simp]: "var_answer s (Inl e) = (s, VFailed e)" "var_answer s (Inr p) = p"
  by (simp_all add: var_answer_def)

locale byte_map = unordered_map U for U :: "('c, bytes, bytes) umap"
begin

lemma var_inv_put:
  assumes "var_inv U h" and "length k = vh_key_size h" and "length v = vh_value_size h"
    and "k \<in> dom (um_find U (vh_map h)) \<or> um_size U (vh_map h) \<noteq> vh_max_entries h"
  shows "var_inv U (h\<lparr>vh_map := um_insert_or_assign U (vh_map h) k v\<rparr>)"
  using assms by (auto simp: var_inv_def find_put size_card find_eq insert_absorb card_insert_if)

lemma var_inv_erase: "var_inv U h \<Longrightarrow> var_inv U (h\<lparr>vh_map := um_erase U (vh_map h) k\<rparr>)"
  using card_Diff1_le [of "dom (um_find U (vh_map h))" k]
  by (auto simp: var_inv_def find_erase size_card find_eq intro: le_trans)

lemma var_step_refines:
  assumes inv: "var_inv U h"
  shows "var_inv U (fst (var_step U h op)) \<and>
    (var_abs U (fst (var_step U h op)), snd (var_step U h op)) = var_spec_step (var_abs U h) op"
proof (cases op)
  case (VLookup key)
  with inv show ?thesis
    by (cases "arg_bytes key (vh_key_size h)")
      (auto simp: var_elem_lookup_def var_abs_def split: option.splits)
next
  case (VDelete key)
  with inv var_inv_erase [OF inv] show ?thesis
    by (cases "arg_bytes key (vh_key_size h)") (auto simp: var_elem_delete_def var_abs_def find_eq)
next
  case (VLookupDelete key)
  with inv var_inv_erase [OF inv] show ?thesis
    by (cases "arg_bytes key (vh_key_size h)")
      (auto simp: var_lookup_and_delete_def var_abs_def find_eq load_def var_inv_def split: option.splits)
next
  case (VUpdate key val flags)
  show ?thesis
  proof (cases "\<exists>k v. arg_bytes key (vh_key_size h) = Inr k \<and> arg_bytes val (vh_value_size h) = Inr v")
    case False
    with VUpdate inv show ?thesis
      by (cases "arg_bytes key (vh_key_size h)"; cases "arg_bytes val (vh_value_size h)")
        (auto simp: var_elem_update_def var_abs_def)
  next
    case True
    then obtain k v where kv: "arg_bytes key (vh_key_size h) = Inr k" "arg_bytes val (vh_value_size h) = Inr v"
      by blast
    have ins: "var_inv U (h\<lparr>vh_map := um_insert_or_assign U (vh_map h) k v\<rparr>)"
      if "k \<in> dom (um_find U (vh_map h)) \<or> um_size U (vh_map h) \<noteq> vh_max_entries h"
      using var_inv_put [OF inv _ _ that] kv by (simp add: length_arg_bytes)
    show ?thesis
    proof (cases "k \<in> dom (um_find U (vh_map h))")
      case True
      with VUpdate kv inv ins show ?thesis
        by (auto simp: var_elem_update_def var_abs_def var_spec_update_def find_eq)
    next
      case False
      then have "um_find U (vh_map h) k = None" by blast
      with False VUpdate kv inv ins show ?thesis
        by (auto simp: var_elem_update_def var_abs_def var_spec_update_def find_eq size_card)
    qed
  qed
qed

end

sublocale byte_map \<subseteq> var_sim: simulation "var_inv U" "var_abs U" "var_step U" var_spec_step
proof
  fix h :: "'c var_hash" and op
  assume "var_inv U h"
  from var_step_refines [OF this, of op] show "var_inv U (fst (var_step U h op))"
    "var_abs U (fst (var_step U h op)) = fst (var_spec_step (var_abs U h) op)"
    "snd (var_step U h op) = snd (var_spec_step (var_abs U h) op)"
    by (metis fst_conv snd_conv)+
qed

context byte_map
begin

lemmas var_run_refines = var_sim.run_refines
lemmas var_run_inv = var_sim.run_inv

end

interpretation alist_bytes: byte_map alist_umap
  by unfold_locales

text \<open>
  C14. The variable-size hash map is a finite map with a capacity, for every container that keeps the
  documented laws of \<open>boost::unordered_map\<close>: any sequence of lookups, updates with the flags of
  \<open>bpf(2)\<close>, deletions and lookup-and-deletes answers as the abstract map does, including the errors
  \<open>EPERM\<close>, \<open>ENOENT\<close>, \<open>EEXIST\<close>, \<open>E2BIG\<close> and \<open>EINVAL\<close>, and never more than \<open>max_entries\<close> keys are stored.
\<close>

theorem var_hash_refines_map:
  fixes U :: "('c, bytes, bytes) umap" and ks vs n fl :: nat
  assumes "unordered_map U"
  defines "h \<equiv> var_size_hash_map_impl U ks vs n fl"
  shows "snd (run_ops (var_step U) h ops) =
      snd (run_ops var_spec_step
        \<lparr>vh_map = Map.empty, vh_key_size = ks, vh_value_size = vs, vh_max_entries = n, vh_flags = fl\<rparr> ops) \<and>
    um_size U (vh_map (fst (run_ops (var_step U) h ops))) \<le> n"
proof -
  have bm: "byte_map U" using assms(1) by (simp add: byte_map_def)
  have abs: "var_abs U h = \<lparr>vh_map = Map.empty, vh_key_size = ks, vh_value_size = vs, vh_max_entries = n, vh_flags = fl\<rparr>"
    using unordered_map.find_eq(1) [OF assms(1)] by (simp add: var_abs_def h_def var_size_hash_map_impl_def)
  have inv: "var_inv U h"
    using unordered_map.find_eq(1) [OF assms(1)] unordered_map.size_card [OF assms(1)]
    by (simp add: var_inv_def h_def var_size_hash_map_impl_def)
  have keep: "vh_max_entries (fst (var_spec_step s op)) = vh_max_entries s" for s op
    by (cases op) (auto simp: var_spec_update_def split: sum.splits option.splits)
  have "vh_max_entries (fst (run_ops var_spec_step s ops)) = vh_max_entries s" for s
    by (induction ops arbitrary: s) (simp_all add: keep)
  with byte_map.var_run_refines [OF bm inv, of ops] byte_map.var_run_inv [OF bm inv, of ops] abs show ?thesis
    by (metis (no_types, lifting) var_abs_def var_hash.select_convs(4) var_inv_def)
qed

theorem var_hash_refines_map_witness:
  "snd (run_ops (var_step alist_umap) (var_size_hash_map_impl alist_umap 1 1 1 0)
     [VUpdate (Some [1]) (Some [5]) BPF_ANY, VUpdate (Some [1]) (Some [6]) BPF_NOEXIST,
      VUpdate (Some [2]) (Some [7]) BPF_ANY, VLookup (Some [1]), VLookupDelete (Some [1]), VLookup (Some [1])]) =
   [VDone, VFailed (Errno EEXIST), VFailed (Errno E2BIG), VValue [5], VValue [5], VFailed (Errno ENOENT)]"
proof -
  have "snd (run_ops var_spec_step
        \<lparr>vh_map = Map.empty, vh_key_size = 1, vh_value_size = 1, vh_max_entries = 1, vh_flags = 0\<rparr>
     [VUpdate (Some [1]) (Some [5]) BPF_ANY, VUpdate (Some [1]) (Some [6]) BPF_NOEXIST,
      VUpdate (Some [2]) (Some [7]) BPF_ANY, VLookup (Some [1]), VLookupDelete (Some [1]), VLookup (Some [1])]) =
   [VDone, VFailed (Errno EEXIST), VFailed (Errno E2BIG), VValue [5], VValue [5], VFailed (Errno ENOENT)]"
    by (simp add: arg_bytes_def load_def is_good_update_flag_def flag_defs var_spec_update_def)
  with var_hash_refines_map [OF alist_unordered_map, of 1 1 1 0] show ?thesis by (simp del: run_ops_Cons)
qed

end
