(* ===== verification/Percpu_Hash_Map.thy ===== *)
theory Percpu_Hash_Map
  imports Unordered_Map
begin

text \<open>
  The per-CPU hash map (\<open>src/runtime/src/bpf_map/userspace/per_cpu_hash_map.cpp\<close>): a
  \<open>boost::unordered_map\<close> from keys to one value per CPU, stored one after the other.  The eBPF side
  works on the slot of the CPU it runs on (\<open>my_sched_getcpu\<close>, the argument \<open>cpu\<close>); the userspace side
  works on all slots of a key.
\<close>

section \<open>The operations\<close>

record 'c pcpu_hash =
  ph_map :: 'c
  ph_key_size :: nat
  ph_value_size :: nat
  ph_ncpu :: nat
  ph_max_entries :: nat
  ph_value_template :: bytes

definition per_cpu_hash_map_impl ::
  "('c, bytes, bytes) umap \<Rightarrow> nat \<Rightarrow> nat \<Rightarrow> nat \<Rightarrow> nat \<Rightarrow> 'c pcpu_hash" where
  "per_cpu_hash_map_impl U key_size value_size max_entries ncpu =
     \<lparr>ph_map = um_empty U, ph_key_size = key_size, ph_value_size = value_size, ph_ncpu = ncpu,
      ph_max_entries = max_entries, ph_value_template = replicate (wrap32 (value_size * ncpu)) 0\<rparr>"

text \<open>
  \<open>key_templates[cpu].assign(...)\<close>: the scratch vectors exist for the CPUs below \<open>ncpu\<close> only.
\<close>

definition ph_key_template :: "'c pcpu_hash \<Rightarrow> nat \<Rightarrow> ptr \<Rightarrow> bytes res" where
  "ph_key_template h cpu key = (if cpu < ph_ncpu h then arg_bytes key (ph_key_size h) else Inl Fault)"

text \<open>The bytes the returned pointer shows: the value of the current CPU.\<close>

definition ph_elem_lookup :: "('c, bytes, bytes) umap \<Rightarrow> nat \<Rightarrow> 'c pcpu_hash \<Rightarrow> ptr \<Rightarrow> bytes res" where
  "ph_elem_lookup U cpu h key =
     (if key = None then Inl (Errno ENOENT)
      else bind_res (ph_key_template h cpu key) (\<lambda>k.
           case um_find U (ph_map h) k of
             None \<Rightarrow> Inl (Errno ENOENT)
           | Some v \<Rightarrow> of_opt (load v (wrap32 (ph_value_size h * cpu)) (ph_value_size h))))"

definition ph_elem_update ::
  "('c, bytes, bytes) umap \<Rightarrow> nat \<Rightarrow> 'c pcpu_hash \<Rightarrow> ptr \<Rightarrow> ptr \<Rightarrow> nat \<Rightarrow> 'c pcpu_hash res" where
  "ph_elem_update U cpu h key value flags =
     (if \<not> check_update_flags flags then Inl (Errno EINVAL)
      else
        bind_res (ph_key_template h cpu key) (\<lambda>k.
        bind_res (arg_bytes value (ph_value_size h)) (\<lambda>v.
        case um_find U (ph_map h) k of
          Some old \<Rightarrow>
            bind_res (of_opt (store old (wrap32 (cpu * ph_value_size h)) v)) (\<lambda>new.
            Inr (h\<lparr>ph_map := um_assign U (ph_map h) k new\<rparr>))
        | None \<Rightarrow>
            bind_res (of_opt (store (ph_value_template h) (wrap32 (cpu * ph_value_size h)) v)) (\<lambda>full_value_vec.
            Inr (h\<lparr>ph_map := um_insert U (ph_map h) k full_value_vec\<rparr>)))))"

definition ph_elem_delete :: "('c, bytes, bytes) umap \<Rightarrow> nat \<Rightarrow> 'c pcpu_hash \<Rightarrow> ptr \<Rightarrow> 'c pcpu_hash res" where
  "ph_elem_delete U cpu h key =
     bind_res (ph_key_template h cpu key) (\<lambda>k.
     case um_find U (ph_map h) k of
       None \<Rightarrow> Inr h
     | Some v \<Rightarrow>
         bind_res (of_opt (store v 0 (replicate (wrap32 (cpu * ph_value_size h)) 0))) (\<lambda>v'.
         Inr (h\<lparr>ph_map := um_assign U (ph_map h) k v'\<rparr>)))"

definition ph_map_get_next_key :: "('c, bytes, bytes) umap \<Rightarrow> 'c pcpu_hash \<Rightarrow> ptr \<Rightarrow> bytes res" where
  "ph_map_get_next_key U h key =
     (if key = None then umap_next_key U (ph_map h) None
      else bind_res (ph_key_template h 0 key) (\<lambda>k. umap_next_key U (ph_map h) (Some k)))"

definition ph_elem_lookup_userspace :: "('c, bytes, bytes) umap \<Rightarrow> 'c pcpu_hash \<Rightarrow> ptr \<Rightarrow> bytes res" where
  "ph_elem_lookup_userspace U h key =
     (if key = None then Inl (Errno ENOENT)
      else bind_res (ph_key_template h 0 key) (\<lambda>k.
           case um_find U (ph_map h) k of None \<Rightarrow> Inl (Errno ENOENT) | Some v \<Rightarrow> Inr v))"

definition ph_elem_update_userspace ::
  "('c, bytes, bytes) umap \<Rightarrow> 'c pcpu_hash \<Rightarrow> ptr \<Rightarrow> ptr \<Rightarrow> nat \<Rightarrow> 'c pcpu_hash res" where
  "ph_elem_update_userspace U h key value flags =
     (if \<not> check_update_flags flags then Inl (Errno EINVAL)
      else
        bind_res (ph_key_template h 0 key) (\<lambda>k.
        bind_res (arg_bytes value (wrap32 (ph_value_size h * ph_ncpu h))) (\<lambda>v.
        let elem_exists = (um_find U (ph_map h) k \<noteq> None)
        in if flags = BPF_NOEXIST \<and> elem_exists then Inl (Errno EEXIST)
           else if flags = BPF_EXIST \<and> \<not> elem_exists then Inl (Errno ENOENT)
           else if elem_exists = False \<and> um_size U (ph_map h) = ph_max_entries h then Inl (Errno E2BIG)
           else Inr (h\<lparr>ph_map := um_insert_or_assign U (ph_map h) k v\<rparr>))))"

definition ph_elem_delete_userspace :: "('c, bytes, bytes) umap \<Rightarrow> 'c pcpu_hash \<Rightarrow> ptr \<Rightarrow> 'c pcpu_hash res" where
  "ph_elem_delete_userspace U h key =
     bind_res (ph_key_template h 0 key) (\<lambda>k.
     if um_find U (ph_map h) k = None then Inl (Errno ENOENT)
     else Inr (h\<lparr>ph_map := um_erase U (ph_map h) k\<rparr>))"

definition ph_lookup_and_delete_userspace ::
  "('c, bytes, bytes) umap \<Rightarrow> 'c pcpu_hash \<Rightarrow> ptr \<Rightarrow> ('c pcpu_hash \<times> bytes) res" where
  "ph_lookup_and_delete_userspace U h key =
     bind_res (ph_key_template h 0 key) (\<lambda>k.
     case um_find U (ph_map h) k of
       None \<Rightarrow> Inl (Errno ENOENT)
     | Some v \<Rightarrow>
         bind_res (of_opt (load v 0 (wrap32 (ph_ncpu h * ph_value_size h)))) (\<lambda>out.
         Inr (h\<lparr>ph_map := um_erase U (ph_map h) k\<rparr>, out)))"

section \<open>Invariant\<close>

definition ph_wf :: "('c, bytes, bytes) umap \<Rightarrow> 'c pcpu_hash \<Rightarrow> bool" where
  "ph_wf U h \<longleftrightarrow>
     0 < ph_ncpu h \<and> ph_ncpu h * ph_value_size h < 2 ^ 32 \<and>
     ph_value_template h = replicate (ph_ncpu h * ph_value_size h) 0 \<and>
     (\<forall>k v. um_find U (ph_map h) k = Some v \<longrightarrow>
        length k = ph_key_size h \<and> length v = ph_ncpu h * ph_value_size h)"

text \<open>The value of \<open>key\<close> on \<open>cpu\<close>, if the key is stored.\<close>

definition ph_slot :: "('c, bytes, bytes) umap \<Rightarrow> 'c pcpu_hash \<Rightarrow> bytes \<Rightarrow> nat \<Rightarrow> bytes option" where
  "ph_slot U h k cpu = map_option (\<lambda>v. cell v (ph_value_size h) cpu) (um_find U (ph_map h) k)"

lemma ph_offset:
  assumes "ph_wf U h" and "cpu < ph_ncpu h"
  shows "wrap32 (cpu * ph_value_size h) = cpu * ph_value_size h"
proof -
  have "cpu * ph_value_size h \<le> ph_ncpu h * ph_value_size h" using assms(2) by (intro mult_le_mono1) simp
  also have "\<dots> < 2 ^ 32" using assms(1) by (simp add: ph_wf_def)
  finally show ?thesis by (simp add: wrap_simps)
qed

lemma ph_lookup_slot:
  assumes "ph_wf U h" and "cpu < ph_ncpu h" and "length k = ph_key_size h"
  shows "ph_elem_lookup U cpu h (Some k) =
    (case ph_slot U h k cpu of None \<Rightarrow> Inl (Errno ENOENT) | Some v \<Rightarrow> Inr v)"
proof (cases "um_find U (ph_map h) k")
  case None
  with assms show ?thesis by (simp add: ph_elem_lookup_def ph_key_template_def arg_bytes_Some ph_slot_def)
next
  case (Some v)
  then have "length v = ph_ncpu h * ph_value_size h" using assms(1) by (simp add: ph_wf_def)
  from load_cell [OF this assms(2)] Some assms ph_offset [OF assms(1,2)] show ?thesis
    by (simp add: ph_elem_lookup_def ph_key_template_def arg_bytes_Some ph_slot_def mult.commute)
qed

lemma ph_wf_init:
  assumes "unordered_map U" and "0 < ncpu" and "ncpu * vs < 2 ^ 32"
  shows "ph_wf U (per_cpu_hash_map_impl U ks vs n ncpu)"
  using assms by (simp add: ph_wf_def per_cpu_hash_map_impl_def unordered_map.find_eq(1) wrap_simps mult.commute)

lemma ph_wf_put:
  assumes "ph_wf U h" and "length k = ph_key_size h" and "length w = ph_ncpu h * ph_value_size h"
    and "um_find U c = (um_find U (ph_map h))(k \<mapsto> w)"
  shows "ph_wf U (h\<lparr>ph_map := c\<rparr>)"
  using assms by (auto simp: ph_wf_def split: if_splits)

section \<open>The eBPF side\<close>

lemma ph_elem_update_slots:
  assumes U: "unordered_map U" and wf: "ph_wf U h" and cpu: "cpu < ph_ncpu h"
    and len: "length k = ph_key_size h" "length v = ph_value_size h" and fl: "check_update_flags flags"
  obtains h' where "ph_elem_update U cpu h (Some k) (Some v) flags = Inr h'" "ph_wf U h'"
    "ph_ncpu h' = ph_ncpu h" "ph_key_size h' = ph_key_size h"
    "\<And>k' c. c < ph_ncpu h \<Longrightarrow> ph_slot U h' k' c =
       (if k' \<noteq> k then ph_slot U h k' c
        else if c = cpu then Some v
        else Some (case ph_slot U h k c of None \<Rightarrow> replicate (ph_value_size h) 0 | Some x \<Rightarrow> x))"
proof -
  define old where "old = (case um_find U (ph_map h) k of None \<Rightarrow> ph_value_template h | Some x \<Rightarrow> x)"
  have old: "length old = ph_ncpu h * ph_value_size h"
    using wf by (auto simp: old_def ph_wf_def split: option.splits)
  obtain new where new: "store old (cpu * ph_value_size h) v = Some new"
    using store_cell [OF old cpu len(2)] by blast
  have newlen: "length new = ph_ncpu h * ph_value_size h" using length_store [OF new] old by simp
  have cells: "cell new (ph_value_size h) c = (if c = cpu then v else cell old (ph_value_size h) c)"
    if "c < ph_ncpu h" for c using cell_store [OF new old len(2) cpu that] .
  have zero: "cell (ph_value_template h) (ph_value_size h) c = replicate (ph_value_size h) 0" if "c < ph_ncpu h" for c
    using wf cell_in_bounds [OF that, of "ph_value_size h"] by (simp add: ph_wf_def cell_def)
  define c' where "c' = (if um_find U (ph_map h) k = None then um_insert U (ph_map h) k new
                         else um_assign U (ph_map h) k new)"
  have find: "um_find U c' = (um_find U (ph_map h))(k \<mapsto> new)"
    using unordered_map.find_eq(4,5) [OF U] by (auto simp: c'_def)
  have upd: "ph_elem_update U cpu h (Some k) (Some v) flags = Inr (h\<lparr>ph_map := c'\<rparr>)"
    using fl cpu len new ph_offset [OF wf cpu]
    by (auto simp: ph_elem_update_def ph_key_template_def arg_bytes_Some c'_def old_def split: option.splits)
  have wf': "ph_wf U (h\<lparr>ph_map := c'\<rparr>)"
    using ph_wf_put [OF wf len(1) newlen find] .
  have slots: "ph_slot U (h\<lparr>ph_map := c'\<rparr>) k' c =
       (if k' \<noteq> k then ph_slot U h k' c
        else if c = cpu then Some v
        else Some (case ph_slot U h k c of None \<Rightarrow> replicate (ph_value_size h) 0 | Some x \<Rightarrow> x))"
    if "c < ph_ncpu h" for k' c
    using that cells zero by (auto simp: ph_slot_def find old_def split: option.splits)
  show ?thesis by (rule that [OF upd wf' _ _ slots]) simp_all
qed

text \<open>
  C34. An update of the per-CPU hash map on one CPU is visible on that CPU and leaves every other CPU
  and every other key alone; a key that was not stored starts with zeros on the other CPUs.
\<close>

theorem pcpu_hash_update_isolated:
  assumes "unordered_map U" and "ph_wf U h" and "cpu < ph_ncpu h"
    and "length k = ph_key_size h" and "length v = ph_value_size h" and "check_update_flags flags"
  shows "\<exists>h'. ph_elem_update U cpu h (Some k) (Some v) flags = Inr h' \<and> ph_wf U h' \<and>
    ph_elem_lookup U cpu h' (Some k) = Inr v \<and>
    (\<forall>c < ph_ncpu h. c \<noteq> cpu \<longrightarrow>
       ph_elem_lookup U c h' (Some k) =
         (case ph_elem_lookup U c h (Some k) of
            Inl _ \<Rightarrow> Inr (replicate (ph_value_size h) 0) | Inr x \<Rightarrow> Inr x)) \<and>
    (\<forall>c < ph_ncpu h. \<forall>k'. length k' = ph_key_size h \<and> k' \<noteq> k \<longrightarrow>
       ph_elem_lookup U c h' (Some k') = ph_elem_lookup U c h (Some k'))"
proof -
  obtain h' where h': "ph_elem_update U cpu h (Some k) (Some v) flags = Inr h'" "ph_wf U h'"
    "ph_ncpu h' = ph_ncpu h" "ph_key_size h' = ph_key_size h"
    and slots: "\<And>k' c. c < ph_ncpu h \<Longrightarrow> ph_slot U h' k' c =
       (if k' \<noteq> k then ph_slot U h k' c
        else if c = cpu then Some v
        else Some (case ph_slot U h k c of None \<Rightarrow> replicate (ph_value_size h) 0 | Some x \<Rightarrow> x))"
    by (rule ph_elem_update_slots [OF assms]) blast
  have look: "ph_elem_lookup U c h' (Some k') = (case ph_slot U h' k' c of None \<Rightarrow> Inl (Errno ENOENT) | Some v \<Rightarrow> Inr v)"
    if "c < ph_ncpu h" "length k' = ph_key_size h" for c k'
    using ph_lookup_slot [OF h'(2)] h'(3,4) that by simp
  show ?thesis
    using h' assms(3,4) ph_lookup_slot [OF assms(2)]
    by (intro exI [of _ h']) (auto simp: look slots split: option.splits)
qed

lemma ph_example_wf: "ph_wf alist_umap (per_cpu_hash_map_impl alist_umap 1 1 1 2)"
  using ph_wf_init [OF alist_unordered_map, of 2 1 1 1] by simp

theorem pcpu_hash_update_isolated_witness:
  "\<exists>h'. ph_elem_update alist_umap 1 (per_cpu_hash_map_impl alist_umap 1 1 1 2) (Some [5]) (Some [9]) BPF_ANY = Inr h' \<and>
     ph_elem_lookup alist_umap 1 h' (Some [5]) = Inr [9] \<and> ph_elem_lookup alist_umap 0 h' (Some [5]) = Inr [0]"
proof -
  let ?h = "per_cpu_hash_map_impl alist_umap 1 1 1 2"
  have "ph_ncpu ?h = 2" "ph_key_size ?h = 1" "ph_value_size ?h = 1" by (simp_all add: per_cpu_hash_map_impl_def)
  moreover have "ph_elem_lookup alist_umap 0 ?h (Some [5]) = Inl (Errno ENOENT)"
    by (simp add: ph_elem_lookup_def per_cpu_hash_map_impl_def ph_key_template_def arg_bytes_def load_def
        alist_umap_def alist_distinct_def)
  ultimately show ?thesis
    using pcpu_hash_update_isolated [OF alist_unordered_map ph_example_wf, of 1 "[5]" "[9]" BPF_ANY]
    by (auto simp: check_update_flags_def flag_defs)
qed

text \<open>
  What a deletion on the eBPF side really does: on \<open>cpu\<close> it returns success, keeps the key, clears
  the values of all CPUs below \<open>cpu\<close> and leaves the value of \<open>cpu\<close> itself as it was.
\<close>

lemma pcpu_hash_delete_clears_others:
  assumes U: "unordered_map U" and wf: "ph_wf U h" and cpu: "cpu < ph_ncpu h"
    and len: "length k = ph_key_size h" and stored: "um_find U (ph_map h) k \<noteq> None"
  shows "\<exists>h'. ph_elem_delete U cpu h (Some k) = Inr h' \<and>
    (\<forall>c < ph_ncpu h. ph_elem_lookup U c h' (Some k) =
       (if c < cpu then Inr (replicate (ph_value_size h) 0) else ph_elem_lookup U c h (Some k)))"
proof -
  let ?n = "cpu * ph_value_size h"
  obtain v where v: "um_find U (ph_map h) k = Some v" using stored by blast
  have vlen: "length v = ph_ncpu h * ph_value_size h" using wf v by (simp add: ph_wf_def)
  have bound: "?n \<le> ph_ncpu h * ph_value_size h" using cpu by (intro mult_le_mono1) simp
  define v' where "v' = replicate ?n 0 @ drop ?n v"
  have st: "store v 0 (replicate ?n 0) = Some v'" using bound vlen by (simp add: store_def v'_def)
  define h' where "h' = h\<lparr>ph_map := um_assign U (ph_map h) k v'\<rparr>"
  have del: "ph_elem_delete U cpu h (Some k) = Inr h'"
    using cpu len v st ph_offset [OF wf cpu] by (simp add: ph_elem_delete_def ph_key_template_def arg_bytes_Some h'_def)
  have find: "um_find U (um_assign U (ph_map h) k v') = (um_find U (ph_map h))(k \<mapsto> v')"
    using unordered_map.find_eq(5) [OF U stored] .
  have v'len: "length v' = ph_ncpu h * ph_value_size h" using length_store [OF st] vlen by simp
  have wf': "ph_wf U h'" unfolding h'_def using ph_wf_put [OF wf len v'len find] .
  have cells: "cell v' (ph_value_size h) c =
      (if c < cpu then replicate (ph_value_size h) 0 else cell v (ph_value_size h) c)" for c
    using cell_in_bounds [of c cpu "ph_value_size h"] mult_le_mono1 [of cpu c "ph_value_size h"]
    by (auto simp: cell_def v'_def)
  have "ph_elem_lookup U c h' (Some k) =
       (if c < cpu then Inr (replicate (ph_value_size h) 0) else ph_elem_lookup U c h (Some k))"
    if "c < ph_ncpu h" for c
    using ph_lookup_slot [OF wf', of c k] ph_lookup_slot [OF wf that len] that len v
    by (simp add: h'_def ph_slot_def find cells)
  with del show ?thesis by blast
qed

text \<open>
  The eBPF side checks neither the capacity nor \<open>BPF_EXIST\<close>: an update of a new key succeeds on a
  full map and with the flag that asks for an existing key.
\<close>

lemma ph_update_ignores_capacity:
  assumes "unordered_map U" and "ph_wf U h" and "cpu < ph_ncpu h"
    and "length k = ph_key_size h" and "length v = ph_value_size h"
    and "um_find U (ph_map h) k = None" and "um_size U (ph_map h) = ph_max_entries h"
  shows "\<exists>h'. ph_elem_update U cpu h (Some k) (Some v) BPF_EXIST = Inr h'"
proof -
  have "check_update_flags BPF_EXIST" by (simp add: check_update_flags_def flag_defs)
  from ph_elem_update_slots [OF assms(1-5) this] show ?thesis by blast
qed

end
