(* ===== verification/Lru_Hash_Map.thy ===== *)
theory Lru_Hash_Map
  imports Unordered_Map
begin

text \<open>
  The LRU hash map (\<open>src/runtime/src/bpf_map/userspace/lru_var_hash_map.cpp\<close>): a
  \<open>boost::unordered_map\<close> whose values carry a pointer to their entry in a doubly linked list, most
  recently used first.  The list lives in an explicit store: an address is the identity of an entry
  object, numbered in the order of construction, so a new object differs from all earlier ones.
  The shared pointers free an entry when nothing refers to it any more; the model leaves it in the
  store, where nothing reaches it.
\<close>

section \<open>The linked list\<close>

record lru_linklist_entry =
  ln_key :: bytes
  ln_next :: "nat option"
  ln_prev :: "nat option"

type_synonym lru_heap = "nat \<Rightarrow> lru_linklist_entry option"

record 'c lru_hash =
  lru_map :: 'c
  lru_head :: "nat option"
  lru_tail :: "nat option"
  lru_key_size :: nat
  lru_value_size :: nat
  lru_max_entries :: nat
  lru_store :: lru_heap
  lru_fresh :: nat

type_synonym 'c lru_umap = "('c, bytes, bytes \<times> nat) umap"

definition lru_var_hash_map_impl :: "'c lru_umap \<Rightarrow> nat \<Rightarrow> nat \<Rightarrow> nat \<Rightarrow> 'c lru_hash" where
  "lru_var_hash_map_impl U key_size value_size max_entries =
     \<lparr>lru_map = um_empty U, lru_head = None, lru_tail = None, lru_key_size = key_size,
      lru_value_size = value_size, lru_max_entries = max_entries, lru_store = Map.empty, lru_fresh = 0\<rparr>"

text \<open>Access through a pointer: a null pointer or a pointer to no object is a fault.\<close>

definition lru_deref :: "'c lru_hash \<Rightarrow> nat option \<Rightarrow> lru_linklist_entry res" where
  "lru_deref s p = (case p of None \<Rightarrow> Inl Fault | Some a \<Rightarrow> of_opt (lru_store s a))"

definition upd_next :: "lru_heap \<Rightarrow> nat \<Rightarrow> nat option \<Rightarrow> lru_heap" where
  "upd_next h a n = h(a := map_option (\<lambda>e. e\<lparr>ln_next := n\<rparr>) (h a))"

definition upd_prev :: "lru_heap \<Rightarrow> nat \<Rightarrow> nat option \<Rightarrow> lru_heap" where
  "upd_prev h a p = h(a := map_option (\<lambda>e. e\<lparr>ln_prev := p\<rparr>) (h a))"

definition lru_set_next :: "'c lru_hash \<Rightarrow> nat option \<Rightarrow> nat option \<Rightarrow> 'c lru_hash res" where
  "lru_set_next s p n =
     bind_res (lru_deref s p) (\<lambda>_. Inr (s\<lparr>lru_store := upd_next (lru_store s) (the p) n\<rparr>))"

definition lru_set_prev :: "'c lru_hash \<Rightarrow> nat option \<Rightarrow> nat option \<Rightarrow> 'c lru_hash res" where
  "lru_set_prev s p q =
     bind_res (lru_deref s p) (\<lambda>_. Inr (s\<lparr>lru_store := upd_prev (lru_store s) (the p) q\<rparr>))"

definition move_to_head :: "'c lru_hash \<Rightarrow> nat \<Rightarrow> 'c lru_hash res" where
  "move_to_head s entry =
     (if Some entry = lru_head s then Inr s
      else
        bind_res (lru_deref s (Some entry)) (\<lambda>e.
        let prev = ln_prev e; nxt = ln_next e
        in bind_res (lru_set_next s prev nxt) (\<lambda>s.
           bind_res (if nxt \<noteq> None then lru_set_prev s nxt prev else Inr (s\<lparr>lru_tail := prev\<rparr>)) (\<lambda>s.
           bind_res (lru_set_next s (Some entry) (lru_head s)) (\<lambda>s.
           bind_res (lru_set_prev s (Some entry) None) (\<lambda>s.
           bind_res (lru_set_prev s (lru_head s) (Some entry)) (\<lambda>s.
           Inr (s\<lparr>lru_head := Some entry\<rparr>))))))))"

definition insert_new_entry :: "'c lru_hash \<Rightarrow> bytes \<Rightarrow> ('c lru_hash \<times> nat) res" where
  "insert_new_entry s key =
     (let entry = lru_fresh s;
          s = s\<lparr>lru_store := (lru_store s)(entry \<mapsto> \<lparr>ln_key = key, ln_next = None, ln_prev = None\<rparr>),
                lru_fresh := Suc entry\<rparr>
      in if lru_head s = None then Inr (s\<lparr>lru_head := Some entry, lru_tail := Some entry\<rparr>, entry)
         else
           bind_res (lru_set_next s (Some entry) (lru_head s)) (\<lambda>s.
           bind_res (lru_set_prev s (lru_head s) (Some entry)) (\<lambda>s.
           Inr (s\<lparr>lru_head := Some entry\<rparr>, entry))))"

definition evict_entry :: "'c lru_hash \<Rightarrow> nat \<Rightarrow> 'c lru_hash res" where
  "evict_entry s entry =
     (if Some entry = lru_tail s
      then if Some entry = lru_head s then Inr (s\<lparr>lru_head := None, lru_tail := None\<rparr>)
           else
             bind_res (lru_deref s (Some entry)) (\<lambda>e.
             bind_res (lru_set_next s (ln_prev e) None) (\<lambda>s.
             Inr (s\<lparr>lru_tail := ln_prev e\<rparr>)))
      else if Some entry = lru_head s
      then
        bind_res (lru_deref s (Some entry)) (\<lambda>e.
        bind_res (lru_set_prev s (ln_next e) None) (\<lambda>s.
        Inr (s\<lparr>lru_head := ln_next e\<rparr>)))
      else
        bind_res (lru_deref s (Some entry)) (\<lambda>e.
        bind_res (lru_set_next s (ln_prev e) (ln_next e)) (\<lambda>s.
        lru_set_prev s (ln_next e) (ln_prev e))))"

section \<open>The map operations\<close>

definition lru_elem_lookup :: "'c lru_umap \<Rightarrow> 'c lru_hash \<Rightarrow> ptr \<Rightarrow> ('c lru_hash \<times> bytes) res" where
  "lru_elem_lookup U s key =
     bind_res (arg_bytes key (lru_key_size s)) (\<lambda>k.
     case um_find U (lru_map s) k of
       None \<Rightarrow> Inl (Errno ENOENT)
     | Some (v, entry) \<Rightarrow> bind_res (move_to_head s entry) (\<lambda>s. Inr (s, v)))"

text \<open>\<open>map_impl.erase(lru_link_list_tail->key); evict_entry(lru_link_list_tail)\<close>.\<close>

definition lru_evict_tail :: "'c lru_umap \<Rightarrow> 'c lru_hash \<Rightarrow> 'c lru_hash res" where
  "lru_evict_tail U s =
     bind_res (lru_deref s (lru_tail s)) (\<lambda>e.
     evict_entry (s\<lparr>lru_map := um_erase U (lru_map s) (ln_key e)\<rparr>) (the (lru_tail s)))"

definition lru_elem_update :: "'c lru_umap \<Rightarrow> 'c lru_hash \<Rightarrow> ptr \<Rightarrow> ptr \<Rightarrow> nat \<Rightarrow> 'c lru_hash res" where
  "lru_elem_update U s key value flags =
     (if \<not> is_good_update_flag flags then Inl (Errno EINVAL)
      else
        bind_res (arg_bytes key (lru_key_size s)) (\<lambda>k.
        let itr = um_find U (lru_map s) k; element_exists = (itr \<noteq> None)
        in if flags = BPF_NOEXIST \<and> element_exists then Inl (Errno EEXIST)
           else if flags = BPF_EXIST \<and> \<not> element_exists then Inl (Errno ENOENT)
           else
             bind_res (if element_exists = False \<and> um_size U (lru_map s) = lru_max_entries s
                       then lru_evict_tail U s else Inr s) (\<lambda>s.
             bind_res (arg_bytes value (lru_value_size s)) (\<lambda>v.
             case itr of
               Some (_, entry) \<Rightarrow>
                 move_to_head (s\<lparr>lru_map := um_assign U (lru_map s) k (v, entry)\<rparr>) entry
             | None \<Rightarrow>
                 bind_res (insert_new_entry s k) (\<lambda>(s, entry).
                 Inr (s\<lparr>lru_map := um_insert U (lru_map s) k (v, entry)\<rparr>))))))"

definition lru_elem_delete :: "'c lru_umap \<Rightarrow> 'c lru_hash \<Rightarrow> ptr \<Rightarrow> 'c lru_hash res" where
  "lru_elem_delete U s key =
     bind_res (arg_bytes key (lru_key_size s)) (\<lambda>k.
     case um_find U (lru_map s) k of
       None \<Rightarrow> Inl (Errno ENOENT)
     | Some (_, entry) \<Rightarrow>
         bind_res (evict_entry s entry) (\<lambda>s. Inr (s\<lparr>lru_map := um_erase U (lru_map s) k\<rparr>)))"

definition lru_map_get_next_key :: "'c lru_umap \<Rightarrow> 'c lru_hash \<Rightarrow> ptr \<Rightarrow> bytes res" where
  "lru_map_get_next_key U s key =
     (if key = None then umap_next_key U (lru_map s) None
      else bind_res (arg_bytes key (lru_key_size s)) (\<lambda>k. umap_next_key U (lru_map s) (Some k)))"

section \<open>List segments\<close>

fun first_or :: "nat list \<Rightarrow> nat option \<Rightarrow> nat option" where
  "first_or [] n = n"
| "first_or (a # xs) n = Some a"

definition last_or :: "nat list \<Rightarrow> nat option \<Rightarrow> nat option" where
  "last_or xs p = (if xs = [] then p else Some (last xs))"

text \<open>
  \<open>dlseg h p xs n\<close>: the entries \<open>xs\<close> are linked in both directions, the first points back to \<open>p\<close> and
  the last points forward to \<open>n\<close>.
\<close>

fun dlseg :: "lru_heap \<Rightarrow> nat option \<Rightarrow> nat list \<Rightarrow> nat option \<Rightarrow> bool" where
  "dlseg h p [] n = True"
| "dlseg h p (a # xs) n =
     (\<exists>e. h a = Some e \<and> ln_prev e = p \<and> ln_next e = first_or xs n \<and> dlseg h (Some a) xs n)"

lemma last_or_simps [simp]: "last_or [] p = p" "last_or (xs @ [a]) p = Some a" "last_or (a # xs) p = last_or xs (Some a)"
  by (simp_all add: last_or_def)

lemma first_or_append: "first_or (xs @ ys) n = first_or xs (first_or ys n)"
  by (cases xs) simp_all

lemma dlseg_append:
  "dlseg h p (xs @ ys) n \<longleftrightarrow> dlseg h p xs (first_or ys n) \<and> dlseg h (last_or xs p) ys n"
  by (induction xs arbitrary: p) (auto simp: first_or_append)

lemma dlseg_cong: "(\<And>a. a \<in> set xs \<Longrightarrow> h a = h' a) \<Longrightarrow> dlseg h p xs n = dlseg h' p xs n"
  by (induction xs arbitrary: p) auto

lemma dlseg_dom: "dlseg h p xs n \<Longrightarrow> a \<in> set xs \<Longrightarrow> \<exists>e. h a = Some e"
  by (induction xs arbitrary: p) auto

lemma dlseg_upd_other [simp]:
  "a \<notin> set xs \<Longrightarrow> dlseg (upd_next h a m) p xs n = dlseg h p xs n"
  "a \<notin> set xs \<Longrightarrow> dlseg (upd_prev h a m) p xs n = dlseg h p xs n"
  "a \<notin> set xs \<Longrightarrow> dlseg (h(a := e)) p xs n = dlseg h p xs n"
  by (rule dlseg_cong; force simp: upd_next_def upd_prev_def)+

lemma dlseg_set_next:
  assumes "dlseg h p (us @ [b]) n" and "b \<notin> set us"
  shows "dlseg (upd_next h b m) p (us @ [b]) m"
  using assms by (auto simp: dlseg_append) (auto simp: upd_next_def)

lemma dlseg_set_prev:
  assumes "dlseg h p (b # vs) n" and "b \<notin> set vs"
  shows "dlseg (upd_prev h b q) q (b # vs) n"
  using assms by auto (auto simp: upd_prev_def)

text \<open>The links of two neighbouring segments, and a new first entry.\<close>

definition relink :: "lru_heap \<Rightarrow> nat list \<Rightarrow> nat list \<Rightarrow> lru_heap" where
  "relink h us vs =
     (let h1 = (if us = [] then h else upd_next h (last us) (first_or vs None))
      in if vs = [] then h1 else upd_prev h1 (hd vs) (last_or us None))"

lemma dlseg_relink:
  assumes "dlseg h None us n" and "dlseg h p vs None" and "distinct (us @ vs)"
  shows "dlseg (relink h us vs) None (us @ vs) None"
proof -
  define h1 where "h1 = (if us = [] then h else upd_next h (last us) (first_or vs None))"
  have rel: "relink h us vs = (if vs = [] then h1 else upd_prev h1 (hd vs) (last_or us None))"
    by (simp add: relink_def h1_def Let_def)
  have us: "dlseg h1 None us (first_or vs None)"
  proof (cases us rule: rev_cases)
    case (snoc us' b)
    with assms dlseg_set_next [of h None us' b n "first_or vs None"] show ?thesis by (simp add: h1_def)
  qed (use assms in \<open>simp add: h1_def\<close>)
  have vs: "dlseg h1 p vs None"
    using assms by (cases us rule: rev_cases) (simp_all add: h1_def)
  show ?thesis
  proof (cases vs)
    case Nil
    with us rel show ?thesis by simp
  next
    case (Cons b vs')
    with vs assms have "dlseg (upd_prev h1 b (last_or us None)) (last_or us None) vs None"
      using dlseg_set_prev [of h1 p b vs' None] by simp
    with us rel Cons assms show ?thesis
      by (simp add: dlseg_append)
  qed
qed

lemma relink_other:
  assumes "a \<notin> set us" and "a \<notin> set vs"
  shows "relink h us vs a = h a"
proof -
  have "us \<noteq> [] \<Longrightarrow> a \<noteq> last us" "vs \<noteq> [] \<Longrightarrow> a \<noteq> hd vs" using assms by auto
  then show ?thesis by (simp add: relink_def Let_def upd_next_def upd_prev_def)
qed

lemma dlseg_push:
  assumes "dlseg h None (b # ys) None" and "a \<notin> set (b # ys)" and "distinct (b # ys)" and "h a = Some e"
  shows "dlseg (upd_prev (upd_prev (upd_next h a (Some b)) a None) b (Some a)) None (a # b # ys) None"
proof -
  let ?h = "upd_prev (upd_next h a (Some b)) a None"
  have "dlseg ?h None (b # ys) None" using assms(1,2) by (simp del: dlseg.simps)
  then have "dlseg (upd_prev ?h b (Some a)) (Some a) (b # ys) None"
    using dlseg_set_prev [of ?h None b ys None "Some a"] assms(3) by simp
  moreover have "upd_prev ?h b (Some a) a = Some (e\<lparr>ln_next := Some b, ln_prev := None\<rparr>)"
    using assms(2,4) by (simp add: upd_prev_def upd_next_def)
  ultimately show ?thesis by simp
qed

text \<open>No update of a link changes a key or the set of objects.\<close>

definition same_keys :: "lru_heap \<Rightarrow> lru_heap \<Rightarrow> bool" where
  "same_keys h h' \<longleftrightarrow> (\<forall>a. map_option ln_key (h' a) = map_option ln_key (h a))"

lemma same_keys_refl [simp]: "same_keys h h"
  by (simp add: same_keys_def)

lemma same_keys_upd [simp]:
  "same_keys h (upd_next h' a n) = same_keys h h'" "same_keys h (upd_prev h' a n) = same_keys h h'"
  by (auto simp: same_keys_def upd_next_def upd_prev_def option.map_comp comp_def)

lemma same_keys_relink [simp]: "same_keys h (relink h' us vs) = same_keys h h'"
  by (simp add: relink_def Let_def)

section \<open>The list operations\<close>

definition lru_list :: "'c lru_hash \<Rightarrow> nat list \<Rightarrow> bool" where
  "lru_list s xs \<longleftrightarrow>
     distinct xs \<and> dlseg (lru_store s) None xs None \<and>
     lru_head s = first_or xs None \<and> lru_tail s = last_or xs None"

lemma lru_deref_Some [simp]: "lru_store s a = Some e \<Longrightarrow> lru_deref s (Some a) = Inr e"
  by (simp add: lru_deref_def)

lemma upd_dom [simp]:
  "upd_next h a n b = None \<longleftrightarrow> h b = None" "upd_prev h a n b = None \<longleftrightarrow> h b = None"
  by (simp_all add: upd_next_def upd_prev_def)

lemma lru_set_ok:
  "lru_store s a \<noteq> None \<Longrightarrow> lru_set_next s (Some a) n = Inr (s\<lparr>lru_store := upd_next (lru_store s) a n\<rparr>)"
  "lru_store s a \<noteq> None \<Longrightarrow> lru_set_prev s (Some a) n = Inr (s\<lparr>lru_store := upd_prev (lru_store s) a n\<rparr>)"
  by (auto simp: lru_set_next_def lru_set_prev_def)

text \<open>An entry of the list, with what its links are.\<close>

lemma lru_list_split:
  assumes "lru_list s (us @ a # vs)"
  obtains e where "lru_store s a = Some e" "ln_prev e = last_or us None" "ln_next e = first_or vs None"
    "dlseg (lru_store s) None us (Some a)" "dlseg (lru_store s) (Some a) vs None"
    "distinct (us @ vs)" "a \<notin> set us" "a \<notin> set vs"
  using assms by (auto simp: lru_list_def dlseg_append)

lemma evict_entry_list:
  assumes l: "lru_list s (us @ a # vs)"
  obtains s' where "evict_entry s a = Inr s'" "lru_list s' (us @ vs)" "same_keys (lru_store s) (lru_store s')"
    "lru_map s' = lru_map s" "lru_fresh s' = lru_fresh s" "lru_max_entries s' = lru_max_entries s"
    "lru_key_size s' = lru_key_size s" "lru_value_size s' = lru_value_size s"
proof -
  obtain e where e: "lru_store s a = Some e" "ln_prev e = last_or us None" "ln_next e = first_or vs None"
    and us: "dlseg (lru_store s) None us (Some a)" and vs: "dlseg (lru_store s) (Some a) vs None"
    and d: "distinct (us @ vs)" "a \<notin> set us" "a \<notin> set vs"
    using lru_list_split [OF l] .
  have ht: "lru_head s = first_or us (Some a)" "lru_tail s = last_or vs (Some a)"
    using l by (simp_all add: lru_list_def first_or_append last_or_def)
  have nu: "lru_store s b \<noteq> None" if "b \<in> set us" for b using dlseg_dom [OF us that] by blast
  have nv: "lru_store s b \<noteq> None" if "b \<in> set vs" for b using dlseg_dom [OF vs that] by blast
  have tail: "Some a = lru_tail s \<longleftrightarrow> vs = []" using d(3) ht by (auto simp: last_or_def)
  have head: "Some a = lru_head s \<longleftrightarrow> us = []" using d(2) ht by (cases us) auto
  define s' where "s' = s\<lparr>lru_store := relink (lru_store s) us vs, lru_head := first_or (us @ vs) None,
    lru_tail := last_or (us @ vs) None\<rparr>"
  have ev: "evict_entry s a = Inr s'"
  proof (cases vs)
    case Nil
    then show ?thesis
      using e ht nu tail head by (cases us) (simp_all add: evict_entry_def lru_set_ok s'_def relink_def last_or_def)
  next
    case (Cons b vs')
    then show ?thesis
      using e ht nu nv tail head
      by (cases us) (simp_all add: evict_entry_def lru_set_ok s'_def relink_def last_or_def Let_def)
  qed
  have "lru_list s' (us @ vs)"
    using dlseg_relink [OF us vs d(1)] d(1) by (simp add: lru_list_def s'_def)
  with ev show ?thesis by (rule that) (simp_all add: s'_def)
qed

lemma move_to_head_list:
  assumes l: "lru_list s (us @ a # vs)"
  obtains s' where "move_to_head s a = Inr s'" "lru_list s' (a # us @ vs)" "same_keys (lru_store s) (lru_store s')"
    "lru_map s' = lru_map s" "lru_fresh s' = lru_fresh s" "lru_max_entries s' = lru_max_entries s"
    "lru_key_size s' = lru_key_size s" "lru_value_size s' = lru_value_size s"
proof (cases us)
  case Nil
  with l have "move_to_head s a = Inr s" by (simp add: move_to_head_def lru_list_def)
  then show ?thesis using that [of s] l Nil by simp
next
  case (Cons b us')
  obtain e where e: "lru_store s a = Some e" "ln_prev e = last_or us None" "ln_next e = first_or vs None"
    and us: "dlseg (lru_store s) None us (Some a)" and vs: "dlseg (lru_store s) (Some a) vs None"
    and d: "distinct (us @ vs)" "a \<notin> set us" "a \<notin> set vs"
    using lru_list_split [OF l] .
  have ht: "lru_head s = Some b" "lru_tail s = last_or vs (Some a)"
    using l Cons by (simp_all add: lru_list_def last_or_def)
  have nu: "lru_store s b \<noteq> None" if "b \<in> set us" for b using dlseg_dom [OF us that] by blast
  have nv: "lru_store s b \<noteq> None" if "b \<in> set vs" for b using dlseg_dom [OF vs that] by blast
  let ?h = "relink (lru_store s) us vs"
  let ?h' = "upd_prev (upd_prev (upd_next ?h a (Some b)) a None) b (Some a)"
  define s' where "s' = s\<lparr>lru_store := ?h', lru_head := Some a, lru_tail := last_or (us @ vs) None\<rparr>"
  have mv: "move_to_head s a = Inr s'"
  proof -
    have ne: "Some a \<noteq> lru_head s" "us \<noteq> []" "lru_store s (last us) \<noteq> None" "lru_store s b \<noteq> None" "lru_store s a \<noteq> None"
      using ht d(2) Cons nu [of b] nu [of "last us"] e(1) by auto
    then show ?thesis
    proof (cases vs)
      case Nil
      with ne e ht Cons show ?thesis
        by (simp add: move_to_head_def lru_set_ok s'_def relink_def last_or_def Let_def)
    next
      case (Cons c vs')
      with ne e ht nv [of c] show ?thesis
        by (simp add: move_to_head_def lru_set_ok s'_def relink_def last_or_def Let_def)
    qed
  qed
  have ha: "?h a = Some e" using e d relink_other by simp
  have "dlseg ?h None (b # us' @ vs) None" using dlseg_relink [OF us vs d(1)] Cons by simp
  from dlseg_push [OF this _ _ ha] d Cons have "dlseg ?h' None (a # us @ vs) None" by simp
  then have "lru_list s' (a # us @ vs)"
    using d Cons by (simp add: lru_list_def s'_def last_or_def del: dlseg.simps)
  with mv show ?thesis by (rule that) (simp_all add: s'_def)
qed

lemma insert_new_entry_list:
  assumes l: "lru_list s xs" and fresh: "\<forall>a \<in> set xs. a < lru_fresh s"
  obtains s' where "insert_new_entry s key = Inr (s', lru_fresh s)" "lru_list s' (lru_fresh s # xs)"
    "same_keys ((lru_store s)(lru_fresh s \<mapsto> \<lparr>ln_key = key, ln_next = None, ln_prev = None\<rparr>)) (lru_store s')"
    "lru_map s' = lru_map s" "lru_fresh s' = Suc (lru_fresh s)" "lru_max_entries s' = lru_max_entries s"
    "lru_key_size s' = lru_key_size s" "lru_value_size s' = lru_value_size s"
proof -
  let ?a = "lru_fresh s" and ?e = "\<lparr>ln_key = key, ln_next = None, ln_prev = None\<rparr>"
  let ?h = "(lru_store s)(?a \<mapsto> ?e)"
  have new: "?a \<notin> set xs" using fresh by blast
  have seg: "dlseg ?h None xs None" "distinct xs" using l new by (simp_all add: lru_list_def)
  show ?thesis
  proof (cases xs)
    case Nil
    define s' where "s' = s\<lparr>lru_store := ?h, lru_fresh := Suc ?a, lru_head := Some ?a, lru_tail := Some ?a\<rparr>"
    have "insert_new_entry s key = Inr (s', ?a)"
      using l Nil by (simp add: insert_new_entry_def s'_def lru_list_def Let_def)
    moreover have "lru_list s' (?a # xs)" using Nil by (simp add: lru_list_def s'_def)
    ultimately show ?thesis by (rule that) (simp_all add: s'_def)
  next
    case (Cons b ys)
    have b: "lru_head s = Some b" "?h b \<noteq> None" "lru_store s b \<noteq> None" "b \<noteq> ?a"
      using l Cons new by (auto simp: lru_list_def)
    have same: "upd_prev (upd_next ?h ?a (Some b)) ?a None = upd_next ?h ?a (Some b)"
      by (auto simp: upd_prev_def upd_next_def)
    define s' where "s' = s\<lparr>lru_store := upd_prev (upd_next ?h ?a (Some b)) b (Some ?a),
      lru_fresh := Suc ?a, lru_head := Some ?a\<rparr>"
    have "insert_new_entry s key = Inr (s', ?a)"
      using b by (simp add: insert_new_entry_def s'_def lru_set_ok Let_def)
    moreover have "lru_list s' (?a # xs)"
      using dlseg_push [of ?h b ys ?a ?e] seg new Cons l same
      by (simp add: lru_list_def s'_def del: dlseg.simps)
    ultimately show ?thesis by (rule that) (simp_all add: s'_def)
  qed
qed

section \<open>Invariant and abstraction\<close>

definition lru_key_of :: "'c lru_hash \<Rightarrow> nat \<Rightarrow> bytes" where
  "lru_key_of s a = ln_key (the (lru_store s a))"

text \<open>
  The container and the list describe the same keys: every stored value points to the list entry
  with its key, and every entry of the list is the entry of its key.
\<close>

definition lru_inv :: "'c lru_umap \<Rightarrow> 'c lru_hash \<Rightarrow> nat list \<Rightarrow> bool" where
  "lru_inv U s xs \<longleftrightarrow>
     lru_list s xs \<and> (\<forall>a \<in> set xs. a < lru_fresh s) \<and>
     (\<forall>k v a. um_find U (lru_map s) k = Some (v, a) \<longrightarrow>
        a \<in> set xs \<and> lru_key_of s a = k \<and> length k = lru_key_size s \<and> length v = lru_value_size s) \<and>
     (\<forall>a \<in> set xs. \<exists>v. um_find U (lru_map s) (lru_key_of s a) = Some (v, a)) \<and>
     length xs \<le> lru_max_entries s \<and> 0 < lru_max_entries s"

definition lru_items :: "'c lru_umap \<Rightarrow> 'c lru_hash \<Rightarrow> nat list \<Rightarrow> (bytes \<times> bytes) list" where
  "lru_items U s xs = map (\<lambda>a. (lru_key_of s a, fst (the (um_find U (lru_map s) (lru_key_of s a))))) xs"

lemma lru_invI:
  assumes "lru_list s xs" and "\<And>a. a \<in> set xs \<Longrightarrow> a < lru_fresh s"
    and "\<And>k v a. um_find U (lru_map s) k = Some (v, a) \<Longrightarrow>
      a \<in> set xs \<and> lru_key_of s a = k \<and> length k = lru_key_size s \<and> length v = lru_value_size s"
    and "\<And>a. a \<in> set xs \<Longrightarrow> \<exists>v. um_find U (lru_map s) (lru_key_of s a) = Some (v, a)"
    and "length xs \<le> lru_max_entries s" and "0 < lru_max_entries s"
  shows "lru_inv U s xs"
  using assms unfolding lru_inv_def by blast

lemma lru_invD:
  assumes "lru_inv U s xs"
  shows "lru_list s xs" and "distinct xs" and "\<And>a. a \<in> set xs \<Longrightarrow> a < lru_fresh s"
    and "\<And>k v a. um_find U (lru_map s) k = Some (v, a) \<Longrightarrow>
      a \<in> set xs \<and> lru_key_of s a = k \<and> length k = lru_key_size s \<and> length v = lru_value_size s"
    and "\<And>a. a \<in> set xs \<Longrightarrow> \<exists>v. um_find U (lru_map s) (lru_key_of s a) = Some (v, a)"
    and "length xs \<le> lru_max_entries s" and "0 < lru_max_entries s"
  using assms unfolding lru_inv_def lru_list_def by blast+

lemma lru_key_inj: "lru_inv U s xs \<Longrightarrow> inj_on (lru_key_of s) (set xs)"
  unfolding lru_inv_def inj_on_def by (metis option.inject prod.inject)

lemma lru_store_dom: "lru_inv U s xs \<Longrightarrow> a \<in> set xs \<Longrightarrow> \<exists>e. lru_store s a = Some e"
  by (auto simp: lru_inv_def lru_list_def intro: dlseg_dom)

lemma lru_find_iff:
  "lru_inv U s xs \<Longrightarrow> a \<in> set xs \<Longrightarrow>
     \<exists>v. um_find U (lru_map s) (lru_key_of s a) = Some (v, a) \<and> length v = lru_value_size s"
  unfolding lru_inv_def by blast

lemma lru_items_find:
  assumes inv: "lru_inv U s xs"
  shows "map_of (lru_items U s xs) k = map_option fst (um_find U (lru_map s) k)"
proof (cases "um_find U (lru_map s) k")
  case None
  have "k \<notin> lru_key_of s ` set xs" using lru_invD(5) [OF inv] None by (metis imageE option.distinct(1))
  with None show ?thesis by (auto simp: lru_items_def map_of_eq_None_iff)
next
  case (Some p)
  obtain v a where p: "p = (v, a)" by fastforce
  with Some inv have a: "a \<in> set xs" "lru_key_of s a = k" by (auto simp: lru_inv_def)
  have "distinct (map fst (lru_items U s xs))"
    using lru_key_inj [OF inv] inv by (simp add: lru_items_def comp_def distinct_map lru_inv_def lru_list_def)
  moreover have "(k, v) \<in> set (lru_items U s xs)"
    using a Some p by (force simp: lru_items_def)
  ultimately show ?thesis using Some p by simp
qed

lemma lru_items_filter:
  assumes inv: "lru_inv U s (us @ a # vs)"
  shows "filter (\<lambda>e. fst e \<noteq> lru_key_of s a) (lru_items U s (us @ a # vs)) = lru_items U s (us @ vs)"
proof -
  have "lru_key_of s b \<noteq> lru_key_of s a" if "b \<in> set us \<union> set vs" for b
  proof
    assume "lru_key_of s b = lru_key_of s a"
    with lru_key_inj [OF inv] that have "b = a" by (auto simp: inj_on_def)
    with that inv show False by (auto simp: lru_inv_def lru_list_def)
  qed
  then have "filter (\<lambda>b. lru_key_of s b \<noteq> lru_key_of s a) us = us"
    "filter (\<lambda>b. lru_key_of s b \<noteq> lru_key_of s a) vs = vs" by (auto simp: filter_id_conv)
  then show ?thesis by (simp add: lru_items_def filter_map comp_def)
qed

lemma lru_key_same:
  assumes "same_keys h (lru_store s')" and "h a = lru_store s a" and "lru_store s a = Some e"
  shows "lru_key_of s' a = lru_key_of s a"
proof -
  have "map_option ln_key (lru_store s' a) = Some (ln_key e)" using assms by (simp add: same_keys_def)
  with assms(3) show ?thesis by (auto simp: lru_key_of_def)
qed

text \<open>The three ways the operations change the state.\<close>

lemma lru_inv_move:
  assumes inv: "lru_inv U s (us @ a # vs)" and l': "lru_list s' (a # us @ vs)"
    and keys: "same_keys (lru_store s) (lru_store s')"
    and find': "um_find U (lru_map s') = (um_find U (lru_map s))(lru_key_of s a \<mapsto> (v, a))"
    and v: "length v = lru_value_size s"
    and rest: "lru_fresh s' = lru_fresh s" "lru_max_entries s' = lru_max_entries s"
      "lru_key_size s' = lru_key_size s" "lru_value_size s' = lru_value_size s"
  shows "lru_inv U s' (a # us @ vs)"
    and "lru_items U s' (a # us @ vs) =
      (lru_key_of s a, v) # filter (\<lambda>e. fst e \<noteq> lru_key_of s a) (lru_items U s (us @ a # vs))"
proof -
  have same: "lru_key_of s' b = lru_key_of s b" if "b \<in> set (us @ a # vs)" for b
    using lru_store_dom [OF inv that] lru_key_same [OF keys] by blast
  have inj: "b = a" if "lru_key_of s b = lru_key_of s a" "b \<in> set (us @ a # vs)" for b
    using lru_key_inj [OF inv] that by (auto simp: inj_on_def)
  have other: "b \<noteq> a \<Longrightarrow> b \<in> set (us @ a # vs) \<Longrightarrow> lru_key_of s b \<noteq> lru_key_of s a" for b using inj by blast
  have d: "a \<notin> set us" "a \<notin> set vs" using inv by (auto simp: lru_inv_def lru_list_def)
  have alen: "length (lru_key_of s a) = lru_key_size s"
    using lru_invD(4,5) [OF inv] by (metis in_set_conv_decomp)
  have set: "set (a # us @ vs) = set (us @ a # vs)" by auto
  show "lru_inv U s' (a # us @ vs)"
  proof (rule lru_invI [OF l'], unfold set rest find')
    fix k x b
    assume "((um_find U (lru_map s))(lru_key_of s a \<mapsto> (v, a))) k = Some (x, b)"
    then show "b \<in> set (us @ a # vs) \<and> lru_key_of s' b = k \<and> length k = lru_key_size s \<and> length x = lru_value_size s"
      using lru_invD(4) [OF inv, of k x b] same alen v by (cases "k = lru_key_of s a") auto
  next
    fix b
    assume "b \<in> set (us @ a # vs)"
    then show "\<exists>x. ((um_find U (lru_map s))(lru_key_of s a \<mapsto> (v, a))) (lru_key_of s' b) = Some (x, b)"
      using lru_invD(5) [OF inv, of b] same [of b] inj [of b] by auto
  qed (use lru_invD(3,6,7) [OF inv] in auto)
  show "lru_items U s' (a # us @ vs) =
      (lru_key_of s a, v) # filter (\<lambda>e. fst e \<noteq> lru_key_of s a) (lru_items U s (us @ a # vs))"
  proof -
    have "lru_key_of s b \<noteq> lru_key_of s a" if "b \<in> set us \<or> b \<in> set vs" for b
      using other [of b] that d by auto
    then show ?thesis unfolding lru_items_filter [OF inv] by (simp add: lru_items_def find' same)
  qed
qed

lemma lru_inv_remove:
  assumes inv: "lru_inv U s (us @ a # vs)" and l': "lru_list s' (us @ vs)"
    and keys: "same_keys (lru_store s) (lru_store s')"
    and find': "um_find U (lru_map s') = (um_find U (lru_map s))(lru_key_of s a := None)"
    and rest: "lru_fresh s' = lru_fresh s" "lru_max_entries s' = lru_max_entries s"
      "lru_key_size s' = lru_key_size s" "lru_value_size s' = lru_value_size s"
  shows "lru_inv U s' (us @ vs)"
    and "lru_items U s' (us @ vs) = filter (\<lambda>e. fst e \<noteq> lru_key_of s a) (lru_items U s (us @ a # vs))"
proof -
  have same: "lru_key_of s' b = lru_key_of s b" if "b \<in> set (us @ a # vs)" for b
    using lru_store_dom [OF inv that] lru_key_same [OF keys] by blast
  have other: "lru_key_of s b \<noteq> lru_key_of s a" if "b \<noteq> a" "b \<in> set (us @ a # vs)" for b
    using lru_key_inj [OF inv] that by (auto simp: inj_on_def)
  have d: "a \<notin> set us" "a \<notin> set vs" using inv by (auto simp: lru_inv_def lru_list_def)
  show "lru_inv U s' (us @ vs)"
  proof (rule lru_invI [OF l'], unfold rest find')
    fix k x b
    assume "((um_find U (lru_map s))(lru_key_of s a := None)) k = Some (x, b)"
    then have k: "k \<noteq> lru_key_of s a" "um_find U (lru_map s) k = Some (x, b)" by (auto split: if_splits)
    then show "b \<in> set (us @ vs) \<and> lru_key_of s' b = k \<and> length k = lru_key_size s \<and> length x = lru_value_size s"
      using lru_invD(4) [OF inv k(2)] same [of b] by auto
  next
    fix b
    assume "b \<in> set (us @ vs)"
    then show "\<exists>x. ((um_find U (lru_map s))(lru_key_of s a := None)) (lru_key_of s' b) = Some (x, b)"
      using lru_invD(5) [OF inv, of b] same [of b] other [of b] d by auto
  qed (use lru_invD(3,6,7) [OF inv] in auto)
  show "lru_items U s' (us @ vs) = filter (\<lambda>e. fst e \<noteq> lru_key_of s a) (lru_items U s (us @ a # vs))"
  proof -
    have "lru_key_of s b \<noteq> lru_key_of s a" if "b \<in> set us \<or> b \<in> set vs" for b
      using other [of b] that d by auto
    then show ?thesis unfolding lru_items_filter [OF inv] by (simp add: lru_items_def find' same)
  qed
qed

lemma lru_inv_add:
  assumes inv: "lru_inv U s xs" and l': "lru_list s' (lru_fresh s # xs)"
    and keys: "same_keys ((lru_store s)(lru_fresh s \<mapsto> \<lparr>ln_key = k, ln_next = None, ln_prev = None\<rparr>)) (lru_store s')"
    and absent: "um_find U (lru_map s) k = None"
    and find': "um_find U (lru_map s') = (um_find U (lru_map s))(k \<mapsto> (v, lru_fresh s))"
    and len: "length k = lru_key_size s" "length v = lru_value_size s" "length xs < lru_max_entries s"
    and rest: "lru_fresh s' = Suc (lru_fresh s)" "lru_max_entries s' = lru_max_entries s"
      "lru_key_size s' = lru_key_size s" "lru_value_size s' = lru_value_size s"
  shows "lru_inv U s' (lru_fresh s # xs)" and "lru_items U s' (lru_fresh s # xs) = (k, v) # lru_items U s xs"
proof -
  have new: "lru_fresh s \<notin> set xs" using inv by (auto simp: lru_inv_def)
  have same: "lru_key_of s' b = lru_key_of s b" if "b \<in> set xs" for b
  proof -
    have "b \<noteq> lru_fresh s" using that new by blast
    then show ?thesis using lru_store_dom [OF inv that] lru_key_same [OF keys, of b s] by auto
  qed
  have "map_option ln_key (lru_store s' (lru_fresh s)) = Some k" using keys by (simp add: same_keys_def)
  then have fresh: "lru_key_of s' (lru_fresh s) = k" by (auto simp: lru_key_of_def)
  have other: "lru_key_of s b \<noteq> k" if "b \<in> set xs" for b using lru_invD(5) [OF inv that] absent by auto
  show "lru_inv U s' (lru_fresh s # xs)"
  proof (rule lru_invI [OF l'], unfold rest find')
    fix j x b
    assume "((um_find U (lru_map s))(k \<mapsto> (v, lru_fresh s))) j = Some (x, b)"
    then show "b \<in> set (lru_fresh s # xs) \<and> lru_key_of s' b = j \<and> length j = lru_key_size s \<and> length x = lru_value_size s"
      using lru_invD(4) [OF inv, of j x b] same [of b] fresh len by (cases "j = k") auto
  next
    fix b
    assume "b \<in> set (lru_fresh s # xs)"
    then show "\<exists>x. ((um_find U (lru_map s))(k \<mapsto> (v, lru_fresh s))) (lru_key_of s' b) = Some (x, b)"
      using lru_invD(5) [OF inv, of b] same [of b] other [of b] fresh by (cases "b = lru_fresh s") auto
  qed (use lru_invD(3,6,7) [OF inv] len in \<open>auto simp: less_SucI\<close>)
  show "lru_items U s' (lru_fresh s # xs) = (k, v) # lru_items U s xs"
    using same other fresh by (auto simp: lru_items_def find')
qed

section \<open>Refinement of a recency list\<close>

datatype lru_op = LLookup ptr | LUpdate ptr ptr nat | LDelete ptr

datatype lru_answer = LDone | LValue bytes | LFailed fail

definition lru_answer :: "'s \<Rightarrow> ('s \<times> lru_answer) res \<Rightarrow> 's \<times> lru_answer" where
  "lru_answer s r = (case r of Inl e \<Rightarrow> (s, LFailed e) | Inr p \<Rightarrow> p)"

lemma lru_answer_simps [simp]: "lru_answer s (Inl e) = (s, LFailed e)" "lru_answer s (Inr p) = p"
  by (simp_all add: lru_answer_def)

fun lru_step :: "'c lru_umap \<Rightarrow> 'c lru_hash \<Rightarrow> lru_op \<Rightarrow> 'c lru_hash \<times> lru_answer" where
  "lru_step U s (LLookup key) =
     lru_answer s (bind_res (lru_elem_lookup U s key) (\<lambda>(s', v). Inr (s', LValue v)))"
| "lru_step U s (LUpdate key value flags) =
     lru_answer s (bind_res (lru_elem_update U s key value flags) (\<lambda>s'. Inr (s', LDone)))"
| "lru_step U s (LDelete key) = lru_answer s (bind_res (lru_elem_delete U s key) (\<lambda>s'. Inr (s', LDone)))"

text \<open>
  The specification: the pairs of keys and values, most recently used first.  A lookup or an update
  moves the pair to the front, and an update of a new key on a full map drops the last pair.
\<close>

record lru_spec =
  ls_key_size :: nat
  ls_value_size :: nat
  ls_capacity :: nat
  ls_items :: "(bytes \<times> bytes) list"

definition lru_touch :: "bytes \<Rightarrow> bytes \<Rightarrow> (bytes \<times> bytes) list \<Rightarrow> (bytes \<times> bytes) list" where
  "lru_touch k v items = (k, v) # filter (\<lambda>e. fst e \<noteq> k) items"

definition lru_spec_put :: "lru_spec \<Rightarrow> bytes \<Rightarrow> bytes \<Rightarrow> lru_spec" where
  "lru_spec_put s k v =
     s\<lparr>ls_items :=
        (if map_of (ls_items s) k \<noteq> None then lru_touch k v (ls_items s)
         else (k, v) # (if length (ls_items s) = ls_capacity s then butlast (ls_items s) else ls_items s))\<rparr>"

fun lru_spec_step :: "lru_spec \<Rightarrow> lru_op \<Rightarrow> lru_spec \<times> lru_answer" where
  "lru_spec_step s (LLookup key) =
     (case arg_bytes key (ls_key_size s) of
        Inl e \<Rightarrow> (s, LFailed e)
      | Inr k \<Rightarrow>
          (case map_of (ls_items s) k of
             None \<Rightarrow> (s, LFailed (Errno ENOENT))
           | Some v \<Rightarrow> (s\<lparr>ls_items := lru_touch k v (ls_items s)\<rparr>, LValue v)))"
| "lru_spec_step s (LUpdate key value flags) =
     (if \<not> is_good_update_flag flags then (s, LFailed (Errno EINVAL))
      else
        case arg_bytes key (ls_key_size s) of
          Inl e \<Rightarrow> (s, LFailed e)
        | Inr k \<Rightarrow>
            if flags = BPF_NOEXIST \<and> map_of (ls_items s) k \<noteq> None then (s, LFailed (Errno EEXIST))
            else if flags = BPF_EXIST \<and> map_of (ls_items s) k = None then (s, LFailed (Errno ENOENT))
            else (case arg_bytes value (ls_value_size s) of
                    Inl e \<Rightarrow> (s, LFailed e)
                  | Inr v \<Rightarrow> (lru_spec_put s k v, LDone)))"
| "lru_spec_step s (LDelete key) =
     (case arg_bytes key (ls_key_size s) of
        Inl e \<Rightarrow> (s, LFailed e)
      | Inr k \<Rightarrow>
          if map_of (ls_items s) k = None then (s, LFailed (Errno ENOENT))
          else (s\<lparr>ls_items := filter (\<lambda>e. fst e \<noteq> k) (ls_items s)\<rparr>, LDone))"

text \<open>The list read from the store, along the \<open>next\<close> pointers; the size of the map bounds its length.\<close>

fun lru_chain :: "lru_heap \<Rightarrow> nat \<Rightarrow> nat option \<Rightarrow> nat list" where
  "lru_chain h 0 p = []"
| "lru_chain h (Suc n) p =
     (case p of None \<Rightarrow> [] | Some a \<Rightarrow> a # (case h a of None \<Rightarrow> [] | Some e \<Rightarrow> lru_chain h n (ln_next e)))"

lemma lru_chain_dlseg: "dlseg h p xs None \<Longrightarrow> lru_chain h (length xs) (first_or xs None) = xs"
  by (induction xs arbitrary: p) auto

definition lru_abs :: "'c lru_umap \<Rightarrow> 'c lru_hash \<Rightarrow> lru_spec" where
  "lru_abs U s =
     \<lparr>ls_key_size = lru_key_size s, ls_value_size = lru_value_size s, ls_capacity = lru_max_entries s,
      ls_items = lru_items U s (lru_chain (lru_store s) (um_size U (lru_map s)) (lru_head s))\<rparr>"

definition lru_ok :: "'c lru_umap \<Rightarrow> 'c lru_hash \<Rightarrow> bool" where
  "lru_ok U s \<longleftrightarrow> (\<exists>xs. lru_inv U s xs)"

locale lru_container = unordered_map U for U :: "'c lru_umap"
begin

lemma lru_size:
  assumes inv: "lru_inv U s xs"
  shows "um_size U (lru_map s) = length xs"
proof -
  have "dom (um_find U (lru_map s)) = lru_key_of s ` set xs"
    using lru_invD(4,5) [OF inv] by (fastforce simp: dom_def)
  with lru_key_inj [OF inv] distinct_card [OF lru_invD(2) [OF inv]] show ?thesis
    by (simp add: size_card card_image)
qed

lemma lru_abs_inv:
  assumes inv: "lru_inv U s xs"
  shows "lru_abs U s = \<lparr>ls_key_size = lru_key_size s, ls_value_size = lru_value_size s,
    ls_capacity = lru_max_entries s, ls_items = lru_items U s xs\<rparr>"
  using lru_chain_dlseg [of "lru_store s" None xs] lru_invD(1) [OF inv] lru_size [OF inv]
  by (simp add: lru_abs_def lru_list_def)

lemma lru_entry:
  assumes "lru_inv U s xs" and "um_find U (lru_map s) k = Some (v, a)"
  obtains us vs where "xs = us @ a # vs" and "k = lru_key_of s a" and "length v = lru_value_size s"
  using lru_invD(4) [OF assms] split_list by metis

lemma lru_lookup_hit:
  assumes inv: "lru_inv U s xs" and find: "um_find U (lru_map s) k = Some (v, a)"
  shows "\<exists>s'. move_to_head s a = Inr s' \<and> lru_ok U s' \<and>
    lru_abs U s' = (lru_abs U s)\<lparr>ls_items := lru_touch k v (lru_items U s xs)\<rparr>"
proof -
  obtain us vs where xs: "xs = us @ a # vs" and k: "k = lru_key_of s a" and v: "length v = lru_value_size s"
    using lru_entry [OF inv find] .
  obtain s' where mv: "move_to_head s a = Inr s'" and l': "lru_list s' (a # us @ vs)"
    and keys: "same_keys (lru_store s) (lru_store s')" and map: "lru_map s' = lru_map s"
    and rest: "lru_fresh s' = lru_fresh s" "lru_max_entries s' = lru_max_entries s"
      "lru_key_size s' = lru_key_size s" "lru_value_size s' = lru_value_size s"
    using move_to_head_list [of s us a vs] lru_invD(1) [OF inv] xs by blast
  have f': "um_find U (lru_map s') = (um_find U (lru_map s))(lru_key_of s a \<mapsto> (v, a))"
    using find k map by (simp add: fun_upd_idem)
  note m = lru_inv_move [OF inv [unfolded xs] l' keys f' v rest]
  show ?thesis
    using mv m(1) lru_abs_inv [OF m(1)] lru_abs_inv [OF inv] rest m(2) xs k
    by (auto simp: lru_ok_def lru_touch_def)
qed

lemma lru_update_hit:
  assumes inv: "lru_inv U s xs" and find: "um_find U (lru_map s) k = Some (w, a)" and v: "length v = lru_value_size s"
  shows "\<exists>s'. move_to_head (s\<lparr>lru_map := um_assign U (lru_map s) k (v, a)\<rparr>) a = Inr s' \<and> lru_ok U s' \<and>
    lru_abs U s' = (lru_abs U s)\<lparr>ls_items := lru_touch k v (lru_items U s xs)\<rparr>"
proof -
  let ?s = "s\<lparr>lru_map := um_assign U (lru_map s) k (v, a)\<rparr>"
  obtain us vs where xs: "xs = us @ a # vs" and k: "k = lru_key_of s a" using lru_entry [OF inv find] .
  have l: "lru_list ?s (us @ a # vs)" using lru_invD(1) [OF inv] xs by (simp add: lru_list_def)
  obtain s' where mv: "move_to_head ?s a = Inr s'" and l': "lru_list s' (a # us @ vs)"
    and keys: "same_keys (lru_store s) (lru_store s')" and map: "lru_map s' = um_assign U (lru_map s) k (v, a)"
    and rest: "lru_fresh s' = lru_fresh s" "lru_max_entries s' = lru_max_entries s"
      "lru_key_size s' = lru_key_size s" "lru_value_size s' = lru_value_size s"
    using move_to_head_list [OF l] by auto
  have f': "um_find U (lru_map s') = (um_find U (lru_map s))(lru_key_of s a \<mapsto> (v, a))"
    using find_eq(5) [of "lru_map s" k "(v, a)"] find k map by simp
  note m = lru_inv_move [OF inv [unfolded xs] l' keys f' v rest]
  show ?thesis
    using mv m(1) lru_abs_inv [OF m(1)] lru_abs_inv [OF inv] rest m(2) xs k
    by (auto simp: lru_ok_def lru_touch_def)
qed

text \<open>A removal through a list entry, with the container cleared before or after.\<close>

lemma lru_remove:
  assumes inv: "lru_inv U s (us @ a # vs)" and k: "k = lru_key_of s a"
    and s1: "s1 = s\<lparr>lru_map := c\<rparr>"
  shows "\<exists>s'. evict_entry s1 a = Inr s' \<and> lru_map s' = c \<and>
    lru_inv U (s'\<lparr>lru_map := um_erase U (lru_map s) k\<rparr>) (us @ vs) \<and>
    lru_abs U (s'\<lparr>lru_map := um_erase U (lru_map s) k\<rparr>) =
      (lru_abs U s)\<lparr>ls_items := filter (\<lambda>e. fst e \<noteq> k) (lru_items U s (us @ a # vs))\<rparr>"
proof -
  have l: "lru_list s1 (us @ a # vs)" using lru_invD(1) [OF inv] by (simp add: lru_list_def s1)
  obtain s' where ev: "evict_entry s1 a = Inr s'" and l': "lru_list s' (us @ vs)"
    and keys: "same_keys (lru_store s) (lru_store s')" and map: "lru_map s' = c"
    and rest: "lru_fresh s' = lru_fresh s" "lru_max_entries s' = lru_max_entries s"
      "lru_key_size s' = lru_key_size s" "lru_value_size s' = lru_value_size s"
    using evict_entry_list [OF l] s1 by auto
  let ?s = "s'\<lparr>lru_map := um_erase U (lru_map s) k\<rparr>"
  have "lru_list ?s (us @ vs)" using l' by (simp add: lru_list_def)
  moreover have "um_find U (lru_map ?s) = (um_find U (lru_map s))(lru_key_of s a := None)"
    using find_eq(3) [of "lru_map s" k] k by simp
  ultimately have "lru_inv U ?s (us @ vs)"
    "lru_items U ?s (us @ vs) = filter (\<lambda>e. fst e \<noteq> lru_key_of s a) (lru_items U s (us @ a # vs))"
    using lru_inv_remove [OF inv, of ?s] keys rest by simp_all
  then show ?thesis using ev map k rest lru_abs_inv [OF inv] lru_abs_inv [of ?s "us @ vs"] by auto
qed

lemma lru_evict_last:
  assumes inv: "lru_inv U s xs" and full: "length xs = lru_max_entries s"
  shows "\<exists>s'. lru_evict_tail U s = Inr s' \<and> lru_inv U s' (butlast xs) \<and> lru_items U s' (butlast xs) = butlast (lru_items U s xs) \<and>
    lru_abs U s' = (lru_abs U s)\<lparr>ls_items := butlast (lru_items U s xs)\<rparr> \<and>
    (\<forall>k. um_find U (lru_map s) k = None \<longrightarrow> um_find U (lru_map s') k = None)"
proof -
  have "xs \<noteq> []" using lru_invD(7) [OF inv] full by auto
  then obtain us a where xs: "xs = us @ [a]" by (metis append_butlast_last_id)
  have inv': "lru_inv U s (us @ a # [])" using inv xs by simp
  obtain e where e: "lru_store s a = Some e" using lru_store_dom [OF inv'] by auto
  have k: "ln_key e = lru_key_of s a" using e by (simp add: lru_key_of_def)
  have tail: "lru_tail s = Some a" using lru_invD(1) [OF inv] xs by (simp add: lru_list_def)
  let ?c = "um_erase U (lru_map s) (ln_key e)"
  obtain s' where s': "evict_entry (s\<lparr>lru_map := ?c\<rparr>) a = Inr s'" "lru_map s' = ?c"
    and iv: "lru_inv U (s'\<lparr>lru_map := ?c\<rparr>) (us @ [])"
    and ab: "lru_abs U (s'\<lparr>lru_map := ?c\<rparr>) =
      (lru_abs U s)\<lparr>ls_items := filter (\<lambda>x. fst x \<noteq> ln_key e) (lru_items U s (us @ a # []))\<rparr>"
    using lru_remove [OF inv' k refl, of ?c] by blast
  have same: "s'\<lparr>lru_map := ?c\<rparr> = s'" using s'(2) by (cases s') simp
  have items: "filter (\<lambda>x. fst x \<noteq> ln_key e) (lru_items U s (us @ a # [])) = butlast (lru_items U s xs)"
    using lru_items_filter [OF inv'] k xs by (simp add: lru_items_def butlast_append)
  have "lru_evict_tail U s = Inr s'" using e tail s'(1) by (simp add: lru_evict_tail_def)
  moreover have iv': "lru_inv U s' (butlast xs)" using iv same xs by simp
  moreover have "um_find U (lru_map s') k = None" if "um_find U (lru_map s) k = None" for k
    using that s'(2) find_erase by simp
  moreover have ab': "lru_abs U s' = (lru_abs U s)\<lparr>ls_items := butlast (lru_items U s xs)\<rparr>"
    using ab same items by simp
  moreover have "lru_items U s' (butlast xs) = butlast (lru_items U s xs)"
    using arg_cong [OF ab', of ls_items] lru_abs_inv [OF iv'] by simp
  ultimately show ?thesis by blast
qed

lemma lru_insert:
  assumes inv: "lru_inv U s xs" and find: "um_find U (lru_map s) k = None"
    and len: "length k = lru_key_size s" "length v = lru_value_size s" "length xs < lru_max_entries s"
  shows "\<exists>s' a. insert_new_entry s k = Inr (s', a) \<and>
    lru_ok U (s'\<lparr>lru_map := um_insert U (lru_map s') k (v, a)\<rparr>) \<and>
    lru_abs U (s'\<lparr>lru_map := um_insert U (lru_map s') k (v, a)\<rparr>) =
      (lru_abs U s)\<lparr>ls_items := (k, v) # lru_items U s xs\<rparr>"
proof -
  have "\<forall>a \<in> set xs. a < lru_fresh s" using lru_invD(3) [OF inv] by blast
  then obtain s' where ins: "insert_new_entry s k = Inr (s', lru_fresh s)" and l': "lru_list s' (lru_fresh s # xs)"
    and keys: "same_keys ((lru_store s)(lru_fresh s \<mapsto> \<lparr>ln_key = k, ln_next = None, ln_prev = None\<rparr>)) (lru_store s')"
    and map: "lru_map s' = lru_map s"
    and rest: "lru_fresh s' = Suc (lru_fresh s)" "lru_max_entries s' = lru_max_entries s"
      "lru_key_size s' = lru_key_size s" "lru_value_size s' = lru_value_size s"
    using insert_new_entry_list [OF lru_invD(1) [OF inv], of k] by auto
  let ?s = "s'\<lparr>lru_map := um_insert U (lru_map s') k (v, lru_fresh s)\<rparr>"
  have "lru_list ?s (lru_fresh s # xs)" using l' by (simp add: lru_list_def)
  moreover have "um_find U (lru_map ?s) = (um_find U (lru_map s))(k \<mapsto> (v, lru_fresh s))"
    using find_eq(4) [of "lru_map s" k] find map by simp
  ultimately have iv: "lru_inv U ?s (lru_fresh s # xs)" "lru_items U ?s (lru_fresh s # xs) = (k, v) # lru_items U s xs"
    using lru_inv_add [OF inv, of ?s k v] keys find len rest by simp_all
  then show ?thesis
    using ins rest lru_abs_inv [OF iv(1)] lru_abs_inv [OF inv] by (auto simp: lru_ok_def)
qed

lemma lru_update_miss:
  assumes inv: "lru_inv U s xs" and find: "um_find U (lru_map s) k = None"
    and len: "length k = lru_key_size s" "length v = lru_value_size s"
  shows "\<exists>s'. bind_res (if um_size U (lru_map s) = lru_max_entries s then lru_evict_tail U s else Inr s) (\<lambda>s.
      bind_res (insert_new_entry s k) (\<lambda>(s, entry). Inr (s\<lparr>lru_map := um_insert U (lru_map s) k (v, entry)\<rparr>))) = Inr s' \<and>
    lru_ok U s' \<and> lru_abs U s' = (lru_abs U s)\<lparr>ls_items := (k, v) #
      (if length (lru_items U s xs) = lru_max_entries s then butlast (lru_items U s xs) else lru_items U s xs)\<rparr>"
proof (cases "length xs = lru_max_entries s")
  case True
  then obtain t where t: "lru_evict_tail U s = Inr t" "lru_inv U t (butlast xs)"
    "lru_items U t (butlast xs) = butlast (lru_items U s xs)"
    "lru_abs U t = (lru_abs U s)\<lparr>ls_items := butlast (lru_items U s xs)\<rparr>" "um_find U (lru_map t) k = None"
    using lru_evict_last [OF inv] find by blast
  have same: "lru_key_size t = lru_key_size s" "lru_value_size t = lru_value_size s" "lru_max_entries t = lru_max_entries s"
    using t(4) by (simp_all add: lru_abs_def)
  have "length (butlast xs) < lru_max_entries t" using True lru_invD(7) [OF inv] same by simp
  with lru_insert [OF t(2,5)] len same obtain s' a where
    "insert_new_entry t k = Inr (s', a)" "lru_ok U (s'\<lparr>lru_map := um_insert U (lru_map s') k (v, a)\<rparr>)"
    "lru_abs U (s'\<lparr>lru_map := um_insert U (lru_map s') k (v, a)\<rparr>) =
      (lru_abs U t)\<lparr>ls_items := (k, v) # lru_items U t (butlast xs)\<rparr>" by metis
  with t True lru_size [OF inv] show ?thesis by (simp add: lru_items_def)
next
  case False
  then have "length xs < lru_max_entries s" using lru_invD(6) [OF inv] by simp
  with lru_insert [OF inv find len] obtain s' a where
    "insert_new_entry s k = Inr (s', a)" "lru_ok U (s'\<lparr>lru_map := um_insert U (lru_map s') k (v, a)\<rparr>)"
    "lru_abs U (s'\<lparr>lru_map := um_insert U (lru_map s') k (v, a)\<rparr>) =
      (lru_abs U s)\<lparr>ls_items := (k, v) # lru_items U s xs\<rparr>" by blast
  with False lru_size [OF inv] show ?thesis by (simp add: lru_items_def)
qed

definition lru_refines_at :: "'c lru_hash \<Rightarrow> lru_op \<Rightarrow> bool" where
  "lru_refines_at s op \<longleftrightarrow> lru_ok U (fst (lru_step U s op)) \<and>
     (lru_abs U (fst (lru_step U s op)), snd (lru_step U s op)) = lru_spec_step (lru_abs U s) op"

lemma lru_step_lookup:
  assumes inv: "lru_inv U s xs"
  shows "lru_refines_at s (LLookup key)"
proof (cases "arg_bytes key (lru_key_size s)")
  case (Inl e)
  with inv lru_abs_inv [OF inv] show ?thesis by (auto simp: lru_refines_at_def lru_elem_lookup_def lru_ok_def)
next
  case (Inr k)
  show ?thesis
  proof (cases "um_find U (lru_map s) k")
    case None
    with Inr inv lru_abs_inv [OF inv] lru_items_find [OF inv] show ?thesis
      by (auto simp: lru_refines_at_def lru_elem_lookup_def lru_ok_def)
  next
    case (Some p)
    then obtain v a where find: "um_find U (lru_map s) k = Some (v, a)" by (cases p) simp
    then obtain s' where "move_to_head s a = Inr s'" "lru_ok U s'"
      "lru_abs U s' = (lru_abs U s)\<lparr>ls_items := lru_touch k v (lru_items U s xs)\<rparr>"
      using lru_lookup_hit [OF inv] by blast
    with Inr find lru_abs_inv [OF inv] lru_items_find [OF inv] show ?thesis
      by (simp add: lru_refines_at_def lru_elem_lookup_def)
  qed
qed

lemma lru_step_delete:
  assumes inv: "lru_inv U s xs"
  shows "lru_refines_at s (LDelete key)"
proof (cases "arg_bytes key (lru_key_size s)")
  case (Inl e)
  with inv lru_abs_inv [OF inv] show ?thesis by (auto simp: lru_refines_at_def lru_elem_delete_def lru_ok_def)
next
  case (Inr k)
  show ?thesis
  proof (cases "um_find U (lru_map s) k")
    case None
    with Inr inv lru_abs_inv [OF inv] lru_items_find [OF inv] show ?thesis
      by (auto simp: lru_refines_at_def lru_elem_delete_def lru_ok_def)
  next
    case (Some p)
    then obtain v a where find: "um_find U (lru_map s) k = Some (v, a)" by (cases p) simp
    obtain us vs where xs: "xs = us @ a # vs" and k: "k = lru_key_of s a" using lru_entry [OF inv find] .
    have "s = s\<lparr>lru_map := lru_map s\<rparr>" by simp
    with lru_remove [OF inv [unfolded xs] k, of s "lru_map s"] obtain s' where
      "evict_entry s a = Inr s'" "lru_map s' = lru_map s"
      "lru_inv U (s'\<lparr>lru_map := um_erase U (lru_map s) k\<rparr>) (us @ vs)"
      "lru_abs U (s'\<lparr>lru_map := um_erase U (lru_map s) k\<rparr>) =
        (lru_abs U s)\<lparr>ls_items := filter (\<lambda>e. fst e \<noteq> k) (lru_items U s xs)\<rparr>"
      using xs by blast
    with Inr find lru_abs_inv [OF inv] lru_items_find [OF inv] show ?thesis
      by (auto simp: lru_refines_at_def lru_elem_delete_def lru_ok_def)
  qed
qed

lemma lru_make_room:
  assumes inv: "lru_inv U s xs"
  obtains t where "(if um_size U (lru_map s) = lru_max_entries s then lru_evict_tail U s else Inr s) = Inr t"
    and "lru_value_size t = lru_value_size s"
proof (cases "length xs = lru_max_entries s")
  case True
  with lru_evict_last [OF inv] obtain t where "lru_evict_tail U s = Inr t"
    "lru_abs U t = (lru_abs U s)\<lparr>ls_items := butlast (lru_items U s xs)\<rparr>" by blast
  then show ?thesis using that [of t] True lru_size [OF inv] by (simp add: lru_abs_def)
next
  case False
  then show ?thesis using that [of s] lru_size [OF inv] by simp
qed

lemma lru_step_update_hit:
  assumes inv: "lru_inv U s xs" and k: "arg_bytes key (lru_key_size s) = Inr k"
    and find: "um_find U (lru_map s) k = Some (w, a)" and good: "is_good_update_flag flags"
  shows "lru_refines_at s (LUpdate key val flags)"
proof (cases "flags = BPF_NOEXIST")
  case True
  with k find good inv lru_abs_inv [OF inv] lru_items_find [OF inv] show ?thesis
    by (auto simp: lru_refines_at_def lru_elem_update_def lru_ok_def)
next
  case fl: False
  show ?thesis
  proof (cases "arg_bytes val (lru_value_size s)")
    case (Inl e)
    with fl k find good inv lru_abs_inv [OF inv] lru_items_find [OF inv] show ?thesis
      by (auto simp: lru_refines_at_def lru_elem_update_def lru_ok_def)
  next
    case (Inr v)
    then obtain s' where "move_to_head (s\<lparr>lru_map := um_assign U (lru_map s) k (v, a)\<rparr>) a = Inr s'"
      "lru_ok U s'" "lru_abs U s' = (lru_abs U s)\<lparr>ls_items := lru_touch k v (lru_items U s xs)\<rparr>"
      using lru_update_hit [OF inv find] length_arg_bytes by blast
    with Inr fl k find good lru_abs_inv [OF inv] lru_items_find [OF inv] show ?thesis
      by (simp add: lru_refines_at_def lru_elem_update_def lru_spec_put_def)
  qed
qed

lemma lru_step_update_miss:
  assumes inv: "lru_inv U s xs" and k: "arg_bytes key (lru_key_size s) = Inr k"
    and find: "um_find U (lru_map s) k = None" and good: "is_good_update_flag flags"
  shows "lru_refines_at s (LUpdate key val flags)"
proof (cases "flags = BPF_EXIST")
  case True
  with k find good inv lru_abs_inv [OF inv] lru_items_find [OF inv] show ?thesis
    by (auto simp: lru_refines_at_def lru_elem_update_def lru_ok_def)
next
  case fl: False
  obtain t where t: "(if um_size U (lru_map s) = lru_max_entries s then lru_evict_tail U s else Inr s) = Inr t"
    and vs: "lru_value_size t = lru_value_size s" using lru_make_room [OF inv] .
  show ?thesis
  proof (cases "arg_bytes val (lru_value_size s)")
    case (Inl e)
    with fl k find good inv t vs lru_abs_inv [OF inv] lru_items_find [OF inv] show ?thesis
      by (auto simp: lru_refines_at_def lru_elem_update_def lru_ok_def)
  next
    case (Inr v)
    from lru_update_miss [OF inv find] length_arg_bytes [OF k] length_arg_bytes [OF Inr] obtain s' where
      s': "bind_res (insert_new_entry t k) (\<lambda>(s, entry). Inr (s\<lparr>lru_map := um_insert U (lru_map s) k (v, entry)\<rparr>)) = Inr s'"
      "lru_ok U s'" "lru_abs U s' = (lru_abs U s)\<lparr>ls_items := (k, v) #
      (if length (lru_items U s xs) = lru_max_entries s then butlast (lru_items U s xs) else lru_items U s xs)\<rparr>"
      unfolding t by auto
    have "lru_elem_update U s key val flags = Inr s'"
      using fl k find good t vs Inr s'(1) by (auto simp: lru_elem_update_def)
    with s' Inr fl k find good lru_abs_inv [OF inv] lru_items_find [OF inv] show ?thesis
      by (simp add: lru_refines_at_def lru_spec_put_def)
  qed
qed

lemma lru_step_update:
  assumes inv: "lru_inv U s xs"
  shows "lru_refines_at s (LUpdate key val flags)"
proof (cases "is_good_update_flag flags \<and> (\<exists>k. arg_bytes key (lru_key_size s) = Inr k)")
  case True
  then obtain k where k: "arg_bytes key (lru_key_size s) = Inr k" and good: "is_good_update_flag flags" by blast
  show ?thesis
    using lru_step_update_miss [OF inv k _ good] lru_step_update_hit [OF inv k _ good]
    by (cases "um_find U (lru_map s) k") auto
next
  case False
  with inv lru_abs_inv [OF inv] show ?thesis
    by (cases "arg_bytes key (lru_key_size s)") (auto simp: lru_refines_at_def lru_elem_update_def lru_ok_def)
qed

lemma lru_step_refines: "lru_ok U s \<Longrightarrow> lru_refines_at s op"
  using lru_step_lookup lru_step_update lru_step_delete by (cases op) (auto simp: lru_ok_def)

end

sublocale lru_container \<subseteq> lru_sim: simulation "lru_ok U" "lru_abs U" "lru_step U" lru_spec_step
proof
  fix s :: "'c lru_hash" and op
  assume "lru_ok U s"
  from lru_step_refines [OF this, of op] show "lru_ok U (fst (lru_step U s op))"
    "lru_abs U (fst (lru_step U s op)) = fst (lru_spec_step (lru_abs U s) op)"
    "snd (lru_step U s op) = snd (lru_spec_step (lru_abs U s) op)"
    unfolding lru_refines_at_def by (metis fst_conv snd_conv)+
qed

context lru_container
begin

lemmas lru_run_refines = lru_sim.run_refines
lemmas lru_run_inv = lru_sim.run_inv

end

interpretation alist_lru: lru_container alist_umap
  by unfold_locales

lemma lru_init:
  assumes "unordered_map U" and "0 < n"
  shows "lru_ok U (lru_var_hash_map_impl U ks vs n)"
    and "lru_abs U (lru_var_hash_map_impl U ks vs n) =
      \<lparr>ls_key_size = ks, ls_value_size = vs, ls_capacity = n, ls_items = []\<rparr>"
proof -
  have inv: "lru_inv U (lru_var_hash_map_impl U ks vs n) []"
    using assms unordered_map.find_eq(1) [OF assms(1)]
    by (simp add: lru_inv_def lru_list_def lru_var_hash_map_impl_def)
  then show "lru_ok U (lru_var_hash_map_impl U ks vs n)" by (auto simp: lru_ok_def)
  have "lru_container U" using assms(1) by (simp add: lru_container_def)
  from lru_container.lru_abs_inv [OF this inv] show "lru_abs U (lru_var_hash_map_impl U ks vs n) =
      \<lparr>ls_key_size = ks, ls_value_size = vs, ls_capacity = n, ls_items = []\<rparr>"
    by (simp add: lru_items_def lru_var_hash_map_impl_def)
qed

text \<open>
  C1. The LRU hash map evicts the least recently used key, for every container that keeps the
  documented laws of \<open>boost::unordered_map\<close>: any sequence of lookups, updates and deletions answers
  as the abstract recency list does; no link operation dereferences a null pointer, and the
  doubly linked list and the container stay consistent.
\<close>

theorem lru_hash_refines_recency_list:
  fixes U :: "'c lru_umap" and ks vs n :: nat
  assumes "unordered_map U" and "0 < n"
  shows "snd (run_ops (lru_step U) (lru_var_hash_map_impl U ks vs n) ops) =
      snd (run_ops lru_spec_step
        \<lparr>ls_key_size = ks, ls_value_size = vs, ls_capacity = n, ls_items = []\<rparr> ops) \<and>
    lru_ok U (fst (run_ops (lru_step U) (lru_var_hash_map_impl U ks vs n) ops))"
proof -
  have c: "lru_container U" using assms(1) by (simp add: lru_container_def)
  show ?thesis
    using lru_container.lru_run_refines [OF c lru_init(1) [OF assms]] lru_init(2) [OF assms]
      lru_container.lru_run_inv [OF c lru_init(1) [OF assms]] by metis
qed

theorem lru_hash_refines_recency_list_witness:
  "snd (run_ops (lru_step alist_umap) (lru_var_hash_map_impl alist_umap 1 1 2)
     [LUpdate (Some [1]) (Some [5]) BPF_ANY, LUpdate (Some [2]) (Some [6]) BPF_ANY, LLookup (Some [1]),
      LUpdate (Some [3]) (Some [7]) BPF_ANY, LLookup (Some [2]), LLookup (Some [1]), LLookup (Some [3])]) =
   [LDone, LDone, LValue [5], LDone, LFailed (Errno ENOENT), LValue [5], LValue [7]]"
proof -
  have "snd (run_ops lru_spec_step
        \<lparr>ls_key_size = 1, ls_value_size = 1, ls_capacity = 2, ls_items = []\<rparr>
     [LUpdate (Some [1]) (Some [5]) BPF_ANY, LUpdate (Some [2]) (Some [6]) BPF_ANY, LLookup (Some [1]),
      LUpdate (Some [3]) (Some [7]) BPF_ANY, LLookup (Some [2]), LLookup (Some [1]), LLookup (Some [3])]) =
   [LDone, LDone, LValue [5], LDone, LFailed (Errno ENOENT), LValue [5], LValue [7]]"
    by (simp add: arg_bytes_def load_def is_good_update_flag_def flag_defs lru_spec_put_def lru_touch_def)
  with lru_hash_refines_recency_list [OF alist_unordered_map, of 2 1 1] show ?thesis by (simp del: run_ops_Cons)
qed

text \<open>A map created with no room dereferences the null tail pointer on its first update.\<close>

lemma lru_no_capacity_faults:
  assumes "unordered_map U" and "length k = ks"
  shows "lru_elem_update U (lru_var_hash_map_impl U ks vs 0) (Some k) value BPF_ANY = Inl Fault"
proof -
  have "um_size U (um_empty U) = 0" "um_find U (um_empty U) k = None"
    using unordered_map.size_card [OF assms(1)] unordered_map.find_eq(1) [OF assms(1)] by simp_all
  with assms(2) show ?thesis
    by (simp add: lru_elem_update_def lru_var_hash_map_impl_def arg_bytes_Some lru_evict_tail_def lru_deref_def
        is_good_update_flag_def flag_defs)
qed

end
