(* ===== verification/Bloom_Filter.thy ===== *)
theory Bloom_Filter
  imports Prelude
begin

text \<open>
  The bloom filter map (\<open>src/runtime/src/bpf_map/userspace/bloom_filter.cpp\<close>): the two hash functions
  on 32-bit words, the sizing of the bit array and the operations.  The random numbers of the seed
  are arguments of \<open>generate_random_seed\<close>.
\<close>

section \<open>Hash functions\<close>

text \<open>\<open>(x << n) | (x >> (32 - n))\<close>\<close>

definition rol32 :: "nat \<Rightarrow> u32 \<Rightarrow> u32" where
  "rol32 n x = push_bit n x OR drop_bit (32 - n) x"

text \<open>Byte \<open>i\<close> of the key shifted to its place, when the key has that byte.\<close>

definition key_byte :: "bytes \<Rightarrow> nat \<Rightarrow> nat \<Rightarrow> u32" where
  "key_byte k i n = (if i < length k then push_bit n (ucast (k ! i)) else 0)"

definition key_word :: "bytes \<Rightarrow> nat \<Rightarrow> u32" where
  "key_word k i = key_byte k i 0 + key_byte k (i + 1) 8 + key_byte k (i + 2) 16 + key_byte k (i + 3) 24"

definition jhash_mix :: "u32 \<times> u32 \<times> u32 \<Rightarrow> u32 \<times> u32 \<times> u32" where
  "jhash_mix s =
     (let (a, b, c) = s;
          a = a - c; a = a XOR rol32 4 c; c = c + b;
          b = b - a; b = b XOR rol32 6 a; a = a + c;
          c = c - b; c = c XOR rol32 8 b; b = b + a;
          a = a - c; a = a XOR rol32 16 c; c = c + b;
          b = b - a; b = b XOR rol32 19 a; a = a + c;
          c = c - b; c = c XOR rol32 4 b; b = b + a
      in (a, b, c))"

definition jhash_final :: "u32 \<times> u32 \<times> u32 \<Rightarrow> u32" where
  "jhash_final s =
     (let (a, b, c) = s;
          c = c XOR b; c = c - rol32 14 b;
          a = a XOR c; a = a - rol32 11 c;
          b = b XOR a; b = b - rol32 25 a;
          c = c XOR b; c = c - rol32 16 b;
          a = a XOR c; a = a - rol32 4 c;
          b = b XOR a; b = b - rol32 14 a;
          c = c XOR b; c = c - rol32 24 b
      in c)"

text \<open>
  The loop takes 12 bytes at a time while more than 12 are left; the \<open>switch\<close> that falls through adds
  the bytes that remain.
\<close>

function jhash_loop :: "bytes \<Rightarrow> u32 \<times> u32 \<times> u32 \<Rightarrow> bytes \<times> (u32 \<times> u32 \<times> u32)" where
  "jhash_loop k (a, b, c) =
     (if length k > 12
      then jhash_loop (drop 12 k) (jhash_mix (a + key_word k 0, b + key_word k 4, c + key_word k 8))
      else (k, (a, b, c)))"
  by pat_completeness auto
termination by (relation "measure (\<lambda>(k, _). length k)") auto

definition jhash :: "bytes \<Rightarrow> u32 \<Rightarrow> u32" where
  "jhash key initval =
     (let a = 0xdeadbeef + word_of_nat (length key) + initval;
          (k, (a, b, c)) = jhash_loop key (a, a, a);
          c' = c + key_word k 8; b' = b + key_word k 4; a' = a + key_word k 0
      in if length k = 0 then c else jhash_final (a', b', c'))"

text \<open>The djb2 hash with the seed of the hash function and the final mixing.\<close>

definition djb2 :: "bytes \<Rightarrow> u32 \<Rightarrow> u32" where
  "djb2 data init =
     (let hash = foldl (\<lambda>hash d. (push_bit 5 hash + hash) + ucast d) init data;
          hash = hash XOR drop_bit 16 hash;
          hash = hash * 0x85ebca6b;
          hash = hash XOR drop_bit 13 hash;
          hash = hash * 0xc2b2ae35;
          hash = hash XOR drop_bit 16 hash
      in hash)"

section \<open>The filter\<close>

datatype bloom_hash_algorithm = DJB2 | JHASH

record bloom_filter =
  bf_value_size :: nat
  bf_max_entries :: nat
  bf_nr_hashes :: nat
  bf_hash_algorithm :: bloom_hash_algorithm
  bf_hash_seed :: u32
  bf_bit_array_size_bits :: nat
  bf_bit_array_size_bytes :: nat
  bf_bit_array_mask :: u32
  bf_bit_array :: bytes

text \<open>
  \<open>rd\<close> is the pair of numbers of \<open>std::random_device\<close>, or \<open>None\<close> when it throws; \<open>ns\<close> the nanoseconds
  of the clock.
\<close>

definition generate_random_seed :: "(u32 \<times> u32) option \<Rightarrow> u64 \<Rightarrow> u32" where
  "generate_random_seed rd ns =
     (case rd of
        Some (v1, v2) \<Rightarrow> v1 XOR (push_bit 1 v2 OR drop_bit 31 v2)
      | None \<Rightarrow> ucast ns XOR ucast (drop_bit 32 ns) XOR 0x9e3779b9)"

definition calculate_optimal_bit_array_size :: "nat \<Rightarrow> nat \<Rightarrow> nat" where
  "calculate_optimal_bit_array_size max_entries nr_hashes =
     (let optimal_size = wrap64 (wrap64 (max_entries * nr_hashes) * 7) div 5;
          optimal_size = (if optimal_size < 64 then 64 else optimal_size);
          optimal_size = (if optimal_size > 2 ^ 31 then 2 ^ 31 else optimal_size)
      in optimal_size)"

text \<open>The loop that doubles \<open>power_of_2_bits\<close>, which is \<open>2 ^ e\<close> after \<open>e\<close> rounds.\<close>

function power_of_2_loop :: "nat \<Rightarrow> nat \<Rightarrow> nat" where
  "power_of_2_loop e bits = (if 2 ^ e < bits then power_of_2_loop (Suc e) bits else 2 ^ e)"
  by pat_completeness auto
termination
proof (relation "measure (\<lambda>(e, bits). bits - e)")
  fix e bits :: nat
  assume "2 ^ e < bits"
  with less_exp [of e] have "e < bits" by (rule less_trans)
  then show "((Suc e, bits), e, bits) \<in> measure (\<lambda>(e, bits). bits - e)" by simp
qed simp

declare power_of_2_loop.simps [simp del]
declare jhash_loop.simps [simp del]

definition bloom_filter_map_impl ::
  "(u32 \<times> u32) option \<Rightarrow> u64 \<Rightarrow> nat \<Rightarrow> nat \<Rightarrow> nat \<Rightarrow> bloom_hash_algorithm \<Rightarrow> bloom_filter res" where
  "bloom_filter_map_impl rd ns value_size max_entries nr_hashes hash_algorithm =
     (if value_size = 0 \<or> max_entries = 0 then Inl Throw
      else if nr_hashes = 0 \<or> nr_hashes > 15 then Inl Throw
      else
        let bits = power_of_2_loop 0 (calculate_optimal_bit_array_size max_entries nr_hashes);
            nbytes = (bits + 7) div 8
        in Inr \<lparr>bf_value_size = value_size, bf_max_entries = max_entries, bf_nr_hashes = nr_hashes,
                bf_hash_algorithm = hash_algorithm, bf_hash_seed = generate_random_seed rd ns,
                bf_bit_array_size_bits = bits, bf_bit_array_size_bytes = nbytes,
                bf_bit_array_mask = word_of_nat (bits - 1), bf_bit_array = replicate nbytes 0\<rparr>)"

definition bloom_hash_value :: "bloom_filter \<Rightarrow> bytes \<Rightarrow> nat \<Rightarrow> nat" where
  "bloom_hash_value f data hash_index =
     (let hash = (case bf_hash_algorithm f of
                    JHASH \<Rightarrow> jhash data (bf_hash_seed f + word_of_nat hash_index)
                  | DJB2 \<Rightarrow> djb2 data (bf_hash_seed f + word_of_nat hash_index * 0x9e3779b9))
      in unat (hash AND bf_bit_array_mask f))"

definition bloom_set_bit :: "bloom_filter \<Rightarrow> nat \<Rightarrow> bloom_filter" where
  "bloom_set_bit f bit_index =
     (let byte_index = bit_index div 8; bit_offset = bit_index mod 8; arr = bf_bit_array f
      in if byte_index < length arr
         then f\<lparr>bf_bit_array := arr[byte_index := (arr ! byte_index) OR push_bit bit_offset 1]\<rparr>
         else f)"

definition bloom_test_bit :: "bloom_filter \<Rightarrow> nat \<Rightarrow> bool" where
  "bloom_test_bit f bit_index =
     (let byte_index = bit_index div 8; bit_offset = bit_index mod 8; arr = bf_bit_array f
      in if byte_index < length arr then (arr ! byte_index) AND push_bit bit_offset 1 \<noteq> 0 else False)"

definition bloom_elem_lookup :: "bloom_filter \<Rightarrow> ptr \<Rightarrow> nat res" where
  "bloom_elem_lookup f key = Inl (Errno EOPNOTSUPP)"

text \<open>The loop over the hash functions that sets the bits of a value.\<close>

definition bloom_add_upto :: "bloom_filter \<Rightarrow> bytes \<Rightarrow> nat \<Rightarrow> bloom_filter" where
  "bloom_add_upto f data n = foldl (\<lambda>f i. bloom_set_bit f (bloom_hash_value f data i)) f [0..<n]"

definition bloom_add :: "bloom_filter \<Rightarrow> bytes \<Rightarrow> bloom_filter" where
  "bloom_add f data = bloom_add_upto f data (bf_nr_hashes f)"

definition bloom_elem_update :: "bloom_filter \<Rightarrow> ptr \<Rightarrow> ptr \<Rightarrow> nat \<Rightarrow> bloom_filter res" where
  "bloom_elem_update f key value flags =
     (if value = None then Inl (Errno EINVAL)
      else if flags \<noteq> BPF_ANY then Inl (Errno EINVAL)
      else bind_res (arg_bytes value (bf_value_size f)) (\<lambda>v. Inr (bloom_add f v)))"

definition bloom_elem_delete :: "bloom_filter \<Rightarrow> ptr \<Rightarrow> bloom_filter res" where
  "bloom_elem_delete f key = Inl (Errno EOPNOTSUPP)"

definition bloom_map_get_next_key :: "bloom_filter \<Rightarrow> ptr \<Rightarrow> bytes res" where
  "bloom_map_get_next_key f key = Inl (Errno EOPNOTSUPP)"

definition bloom_map_push_elem :: "bloom_filter \<Rightarrow> ptr \<Rightarrow> nat \<Rightarrow> bloom_filter res" where
  "bloom_map_push_elem f value flags =
     (if value = None then Inl (Errno EINVAL)
      else if flags \<noteq> BPF_ANY then Inl (Errno EINVAL)
      else bind_res (arg_bytes value (bf_value_size f)) (\<lambda>v. Inr (bloom_add f v)))"

definition bloom_map_pop_elem :: "bloom_filter \<Rightarrow> ptr \<Rightarrow> bytes res" where
  "bloom_map_pop_elem f value = Inl (Errno EOPNOTSUPP)"

definition bloom_map_peek_elem :: "bloom_filter \<Rightarrow> ptr \<Rightarrow> unit res" where
  "bloom_map_peek_elem f value =
     (if value = None then Inl (Errno EINVAL)
      else
        bind_res (arg_bytes value (bf_value_size f)) (\<lambda>v.
        if \<forall>i \<in> set [0..<bf_nr_hashes f]. bloom_test_bit f (bloom_hash_value f v i)
        then Inr () else Inl (Errno ENOENT)))"

section \<open>The size of the bit array\<close>

lemma power_of_2_loop_ge: "bits \<le> power_of_2_loop e bits"
proof (induction e bits rule: power_of_2_loop.induct)
  case (1 e bits)
  then show ?case by (subst power_of_2_loop.simps) auto
qed

lemma power_of_2_loop_power: "\<exists>k \<ge> e. power_of_2_loop e bits = 2 ^ k"
proof (induction e bits rule: power_of_2_loop.induct)
  case (1 e bits)
  then show ?case by (subst power_of_2_loop.simps) (auto intro: Suc_leD)
qed

lemma power_of_2_loop_le: "bits \<le> 2 ^ k \<Longrightarrow> e \<le> k \<Longrightarrow> power_of_2_loop e bits \<le> 2 ^ k"
proof (induction e bits rule: power_of_2_loop.induct)
  case (1 e bits)
  show ?case
  proof (cases "2 ^ e < bits")
    case True
    then have "(2 :: nat) ^ e < 2 ^ k" using "1.prems" by linarith
    then have "Suc e \<le> k" by simp
    with 1 True show ?thesis by (subst power_of_2_loop.simps) simp
  next
    case False
    with 1 show ?thesis by (subst power_of_2_loop.simps) simp
  qed
qed

lemma optimal_size_bounds:
  "64 \<le> calculate_optimal_bit_array_size n k" "calculate_optimal_bit_array_size n k \<le> 2 ^ 31"
  by (simp_all add: calculate_optimal_bit_array_size_def Let_def)

definition bloom_wf :: "bloom_filter \<Rightarrow> bool" where
  "bloom_wf f \<longleftrightarrow>
     0 < bf_value_size f \<and> 0 < bf_nr_hashes f \<and> bf_nr_hashes f \<le> 15 \<and>
     (\<exists>k. 6 \<le> k \<and> k \<le> 31 \<and> bf_bit_array_size_bits f = 2 ^ k) \<and>
     bf_bit_array_mask f = word_of_nat (bf_bit_array_size_bits f - 1) \<and>
     8 * length (bf_bit_array f) = bf_bit_array_size_bits f"

lemma bloom_wf_init:
  assumes "bloom_filter_map_impl rd ns vs n nh alg = Inr f"
  shows "bloom_wf f" and "bf_bit_array f = replicate (length (bf_bit_array f)) 0" and "bf_value_size f = vs"
proof -
  let ?b = "power_of_2_loop 0 (calculate_optimal_bit_array_size n nh)"
  obtain k where k: "?b = 2 ^ k" using power_of_2_loop_power by blast
  have "(2 :: nat) ^ 6 \<le> 2 ^ k" using optimal_size_bounds(1) [of n nh] power_of_2_loop_ge [of "calculate_optimal_bit_array_size n nh" 0] k by simp
  then have lo: "6 \<le> k" by (simp only: power_increasing_iff)
  have "(2 :: nat) ^ k \<le> 2 ^ 31" using power_of_2_loop_le [OF optimal_size_bounds(2), of 0 n nh] k by simp
  then have hi: "k \<le> 31" by (simp only: power_increasing_iff)
  have "3 \<le> k" using lo by simp
  then obtain j where "k = 3 + j" using le_Suc_ex by blast
  then have "8 * ((?b + 7) div 8) = ?b" using k by (simp add: power_add)
  then show "bloom_wf f" "bf_bit_array f = replicate (length (bf_bit_array f)) 0" "bf_value_size f = vs"
    using assms k lo hi by (auto simp: bloom_filter_map_impl_def bloom_wf_def Let_def split: if_splits)
qed

section \<open>Bits\<close>

lemma word_of_nat_mask: "word_of_nat (2 ^ k - 1) = (mask k :: 'a :: len word)"
  by (simp add: mask_eq_exp_minus_1 of_nat_diff)

lemma bloom_hash_in_range:
  assumes "bloom_wf f"
  shows "bloom_hash_value f v i < bf_bit_array_size_bits f"
proof -
  obtain k where k: "bf_bit_array_size_bits f = 2 ^ k" and m: "bf_bit_array_mask f = mask k"
    using assms word_of_nat_mask by (auto simp: bloom_wf_def)
  have "unat (x AND mask k) < 2 ^ k" for x :: u32
    by (simp add: take_bit_eq_mask [symmetric] unsigned_take_bit_eq)
  then show ?thesis by (simp add: bloom_hash_value_def Let_def k m)
qed

lemma bloom_set_bit_keep [simp]:
  "bf_value_size (bloom_set_bit f b) = bf_value_size f" "bf_nr_hashes (bloom_set_bit f b) = bf_nr_hashes f"
  "bf_hash_algorithm (bloom_set_bit f b) = bf_hash_algorithm f" "bf_hash_seed (bloom_set_bit f b) = bf_hash_seed f"
  "bf_bit_array_mask (bloom_set_bit f b) = bf_bit_array_mask f"
  "bf_bit_array_size_bits (bloom_set_bit f b) = bf_bit_array_size_bits f"
  "length (bf_bit_array (bloom_set_bit f b)) = length (bf_bit_array f)"
  by (simp_all add: bloom_set_bit_def Let_def)

lemma bloom_set_bit_hash [simp]: "bloom_hash_value (bloom_set_bit f b) v i = bloom_hash_value f v i"
  by (cases "bf_hash_algorithm f") (simp_all add: bloom_hash_value_def)

lemma bloom_set_bit_wf [simp]: "bloom_wf (bloom_set_bit f b) = bloom_wf f"
  by (simp add: bloom_wf_def)

lemma bloom_test_bit_iff:
  "bloom_test_bit f c \<longleftrightarrow> c div 8 < length (bf_bit_array f) \<and> bit (bf_bit_array f ! (c div 8)) (c mod 8)"
  by (simp add: bloom_test_bit_def Let_def bit_iff_and_push_bit_not_eq_0)

lemma bloom_test_set:
  assumes "b < 8 * length (bf_bit_array f)"
  shows "bloom_test_bit (bloom_set_bit f b) c \<longleftrightarrow> c = b \<or> bloom_test_bit f c"
proof -
  have b: "b div 8 < length (bf_bit_array f)" using assms by (simp add: less_mult_imp_div_less mult.commute)
  have same: "c div 8 = b div 8 \<and> c mod 8 = b mod 8 \<longleftrightarrow> c = b" by (metis div_mult_mod_eq)
  have "bit (bf_bit_array (bloom_set_bit f b) ! (c div 8)) (c mod 8) \<longleftrightarrow>
      c = b \<or> bit (bf_bit_array f ! (c div 8)) (c mod 8)" if "c div 8 < length (bf_bit_array f)"
    using b that same
    by (cases "c div 8 = b div 8") (auto simp: bloom_set_bit_def Let_def bit_or_iff bit_exp_iff)
  then show ?thesis using b by (auto simp: bloom_test_bit_iff)
qed

lemma bloom_add_upto_simps:
  assumes "bloom_wf f"
  shows "bloom_wf (bloom_add_upto f v n)" and "bf_value_size (bloom_add_upto f v n) = bf_value_size f" and "bf_nr_hashes (bloom_add_upto f v n) = bf_nr_hashes f"
    and "bloom_hash_value (bloom_add_upto f v n) = bloom_hash_value f"
    and "bloom_test_bit (bloom_add_upto f v n) c \<longleftrightarrow> bloom_test_bit f c \<or> (\<exists>i < n. bloom_hash_value f v i = c)"
proof (induction n)
  case 0
  show "bloom_wf (bloom_add_upto f v 0)" "bf_value_size (bloom_add_upto f v 0) = bf_value_size f" "bf_nr_hashes (bloom_add_upto f v 0) = bf_nr_hashes f"
    "bloom_hash_value (bloom_add_upto f v 0) = bloom_hash_value f"
    "bloom_test_bit (bloom_add_upto f v 0) c \<longleftrightarrow> bloom_test_bit f c \<or> (\<exists>i < 0. bloom_hash_value f v i = c)"
    using assms(1) by (simp_all add: bloom_add_upto_def)
next
  case (Suc n)
  have g: "bloom_add_upto f v (Suc n) = bloom_set_bit (bloom_add_upto f v n) (bloom_hash_value f v n)"
    using Suc.IH(4) by (simp add: bloom_add_upto_def)
  have r: "bloom_hash_value f v n < 8 * length (bf_bit_array (bloom_add_upto f v n))"
    using bloom_hash_in_range [OF Suc.IH(1), of v n] Suc.IH(1,4) by (simp add: bloom_wf_def)
  show "bloom_wf (bloom_add_upto f v (Suc n))" "bf_value_size (bloom_add_upto f v (Suc n)) = bf_value_size f"
    "bf_nr_hashes (bloom_add_upto f v (Suc n)) = bf_nr_hashes f" "bloom_hash_value (bloom_add_upto f v (Suc n)) = bloom_hash_value f"
    using Suc.IH by (simp_all add: g fun_eq_iff)
  show "bloom_test_bit (bloom_add_upto f v (Suc n)) c \<longleftrightarrow> bloom_test_bit f c \<or> (\<exists>i < Suc n. bloom_hash_value f v i = c)"
    using Suc.IH(5) by (auto simp: g bloom_test_set [OF r] less_Suc_eq)
qed

lemmas bloom_add_simps = bloom_add_upto_simps [where n = "bf_nr_hashes f" and f = f for f, folded bloom_add_def]

section \<open>Membership\<close>

fun bloom_pushes :: "bloom_filter \<Rightarrow> bytes list \<Rightarrow> bloom_filter res" where
  "bloom_pushes f [] = Inr f"
| "bloom_pushes f (v # vs) = bind_res (bloom_map_push_elem f (Some v) BPF_ANY) (\<lambda>f. bloom_pushes f vs)"

lemma bloom_pushes_bits:
  assumes "bloom_wf f" and "\<forall>v \<in> set vs. length v = bf_value_size f"
  shows "\<exists>f'. bloom_pushes f vs = Inr f' \<and> bloom_wf f' \<and> bf_value_size f' = bf_value_size f \<and>
    bf_nr_hashes f' = bf_nr_hashes f \<and> bloom_hash_value f' = bloom_hash_value f \<and>
    (\<forall>c. bloom_test_bit f' c \<longleftrightarrow>
       bloom_test_bit f c \<or> (\<exists>v \<in> set vs. \<exists>i < bf_nr_hashes f. bloom_hash_value f v i = c))"
  using assms
proof (induction vs arbitrary: f)
  case Nil
  then show ?case by simp
next
  case (Cons v vs)
  note add = bloom_add_simps [OF Cons.prems(1), of v]
  have push: "bloom_map_push_elem f (Some v) BPF_ANY = Inr (bloom_add f v)"
    using Cons.prems(2) by (simp add: bloom_map_push_elem_def arg_bytes_Some)
  have "\<forall>v \<in> set vs. length v = bf_value_size (bloom_add f v')" for v'
    using Cons.prems bloom_add_simps(2) [OF Cons.prems(1)] by simp
  from Cons.IH [OF add(1) this] show ?case
    by (auto simp: push add)
qed

lemma bloom_peek_iff:
  assumes "length w = bf_value_size f"
  shows "bloom_map_peek_elem f (Some w) =
    (if \<forall>i < bf_nr_hashes f. bloom_test_bit f (bloom_hash_value f w i) then Inr () else Inl (Errno ENOENT))"
  using assms by (auto simp: bloom_map_peek_elem_def arg_bytes_Some)

text \<open>
  C16. The bloom filter never gives a false negative, and its false positives are exactly the
  collisions of hash bits: after any sequence of pushes on a new filter, with either hash function
  and any seed, a peek succeeds if and only if each hash bit of the value is a hash bit of some
  pushed value; in particular every pushed value is found and an empty filter finds nothing.
\<close>

theorem bloom_membership:
  assumes "bloom_filter_map_impl rd ns vsz n nh alg = Inr f" and "\<forall>v \<in> set vs. length v = vsz"
  shows "\<exists>f'. bloom_pushes f vs = Inr f' \<and>
    (\<forall>w. length w = vsz \<longrightarrow>
       (bloom_map_peek_elem f' (Some w) = Inr () \<longleftrightarrow>
          (\<forall>i < bf_nr_hashes f. \<exists>v \<in> set vs. \<exists>j < bf_nr_hashes f.
             bloom_hash_value f v j = bloom_hash_value f w i))) \<and>
    (\<forall>v \<in> set vs. bloom_map_peek_elem f' (Some v) = Inr ())"
proof -
  note init = bloom_wf_init [OF assms(1)]
  have empty: "\<not> bloom_test_bit f c" for c
    using init(2) unfolding bloom_test_bit_iff by (metis bit_0_eq bot_apply bot_bool_def nth_replicate)
  have "\<forall>v \<in> set vs. length v = bf_value_size f" using assms(2) init(3) by simp
  from bloom_pushes_bits [OF init(1) this] obtain f' where f': "bloom_pushes f vs = Inr f'"
    "bf_value_size f' = bf_value_size f" "bf_nr_hashes f' = bf_nr_hashes f" "bloom_hash_value f' = bloom_hash_value f"
    "\<And>c. bloom_test_bit f' c \<longleftrightarrow> (\<exists>v \<in> set vs. \<exists>i < bf_nr_hashes f. bloom_hash_value f v i = c)"
    using empty by auto
  then show ?thesis
    using assms(2) init(3) by (intro exI [of _ f']) (auto simp: bloom_peek_iff)
qed

theorem bloom_membership_witness:
  "\<exists>f f'. bloom_filter_map_impl (Some (1, 2)) 0 1 10 3 JHASH = Inr f \<and> bloom_pushes f [[5], [7]] = Inr f' \<and>
     bloom_map_peek_elem f' (Some [7]) = Inr ()"
proof -
  obtain f where f: "bloom_filter_map_impl (Some (1, 2)) 0 1 10 3 JHASH = Inr f"
    by (simp add: bloom_filter_map_impl_def Let_def)
  from bloom_membership [OF f, of "[[5], [7]]"] f show ?thesis by auto
qed

text \<open>
  C38. The bit array is a power of two between \<open>2 ^ 6\<close> and \<open>2 ^ 31\<close> bits, not smaller than the computed
  optimal size, the mask is its last index, and every hash value of every value is an index inside
  the array, so no bit is silently dropped by the range check of \<open>set_bit\<close>.
\<close>

theorem bloom_bits_in_range:
  assumes "bloom_filter_map_impl rd ns vsz n nh alg = Inr f"
  shows "\<exists>k. 6 \<le> k \<and> k \<le> 31 \<and> bf_bit_array_size_bits f = 2 ^ k \<and>
    calculate_optimal_bit_array_size n nh \<le> 2 ^ k \<and> bf_bit_array_mask f = mask k \<and>
    8 * length (bf_bit_array f) = 2 ^ k \<and> (\<forall>v i. bloom_hash_value f v i < 2 ^ k)"
proof -
  have wf: "bloom_wf f" using bloom_wf_init(1) [OF assms] .
  have "calculate_optimal_bit_array_size n nh \<le> bf_bit_array_size_bits f"
    using assms power_of_2_loop_ge by (auto simp: bloom_filter_map_impl_def Let_def split: if_splits)
  moreover obtain k where k: "6 \<le> k" "k \<le> 31" "bf_bit_array_size_bits f = 2 ^ k" "bf_bit_array_mask f = mask k"
    "8 * length (bf_bit_array f) = 2 ^ k"
    using wf word_of_nat_mask by (auto simp: bloom_wf_def)
  ultimately show ?thesis using bloom_hash_in_range [OF wf] by (intro exI [of _ k]) simp
qed

theorem bloom_bits_in_range_witness:
  "\<exists>f k. bloom_filter_map_impl None 0 1 1000 5 DJB2 = Inr f \<and> bf_bit_array_size_bits f = 2 ^ k \<and>
     7000 \<le> (2 :: nat) ^ k"
proof -
  obtain f where f: "bloom_filter_map_impl None 0 1 1000 5 DJB2 = Inr f"
    by (simp add: bloom_filter_map_impl_def Let_def)
  have "calculate_optimal_bit_array_size 1000 5 = 7000"
    by (simp add: calculate_optimal_bit_array_size_def wrap64_def)
  with bloom_bits_in_range [OF f] f show ?thesis by auto
qed

end
