(* ===== verification/Lpm_Trie.thy ===== *)
theory Lpm_Trie
  imports Map_Contracts "HOL-Library.Sublist"
begin

text \<open>
  The longest-prefix-match trie map (\<open>src/runtime/src/bpf_map/userspace/lpm_trie_map.cpp\<close>).  A key is a
  prefix length and data bytes; bits are counted from the most significant one.  A node holds its
  prefix, and its value unless it is intermediate; a deletion turns a node into an intermediate one.
  The trie is abstracted to a finite map from bit strings to values.  Allocation in the shared
  memory segment is taken to succeed, and the spin lock makes every operation atomic.
\<close>

section \<open>The operations\<close>

datatype lpm_node =
    Null
  | Node (prefixlen: nat) (is_intermediate: bool) (node_data: bytes) (child0: lpm_node) (child1: lpm_node)

record lpm_trie =
  lp_key_size :: nat
  lp_value_size :: nat
  lp_max_entries :: nat
  lp_data_size :: nat
  lp_max_prefixlen :: nat
  lp_root :: lpm_node
  lp_n_entries :: nat

definition LPM_KEY_SIZE_MIN :: nat where "LPM_KEY_SIZE_MIN = 4 + 1"
definition LPM_KEY_SIZE_MAX :: nat where "LPM_KEY_SIZE_MAX = 4 + 256"

definition lpm_trie_map_impl :: "nat \<Rightarrow> nat \<Rightarrow> nat \<Rightarrow> lpm_trie res" where
  "lpm_trie_map_impl key_size value_size max_entries =
     (if key_size < LPM_KEY_SIZE_MIN \<or> key_size > LPM_KEY_SIZE_MAX then Inl Throw
      else if value_size = 0 \<or> max_entries = 0 then Inl Throw
      else Inr \<lparr>lp_key_size = key_size, lp_value_size = value_size, lp_max_entries = max_entries,
                lp_data_size = key_size - 4, lp_max_prefixlen = (key_size - 4) * 8,
                lp_root = Null, lp_n_entries = 0\<rparr>)"

text \<open>The first argument is \<open>_data_size\<close>; the bit is a Boolean.\<close>

definition extract_bit :: "nat \<Rightarrow> bytes \<Rightarrow> nat \<Rightarrow> bool" where
  "extract_bit ds data index =
     (if index \<ge> ds * 8 then False else bit (data ! (index div 8)) (7 - index mod 8))"

definition longest_prefix_match :: "nat \<Rightarrow> nat \<Rightarrow> bytes \<Rightarrow> nat \<Rightarrow> bytes \<Rightarrow> nat" where
  "longest_prefix_match ds pl data kpl kdata =
     length (takeWhile (\<lambda>i. extract_bit ds data i = extract_bit ds kdata i) [0..<min pl kpl])"

text \<open>\<open>create_node\<close> with \<open>copy_key_data\<close> and \<open>copy_value_data\<close>: a node with a value, an intermediate node.\<close>

definition lpm_value_node :: "nat \<Rightarrow> bytes \<Rightarrow> bytes \<Rightarrow> lpm_node \<Rightarrow> lpm_node \<Rightarrow> lpm_node" where
  "lpm_value_node kpl kdata v c0 c1 = Node kpl False (kdata @ v) c0 c1"

definition lpm_intermediate_node :: "nat \<Rightarrow> bytes \<Rightarrow> lpm_node \<Rightarrow> lpm_node \<Rightarrow> lpm_node" where
  "lpm_intermediate_node pl kdata c0 c1 = Node pl True kdata c0 c1"

definition get_node_value_data :: "nat \<Rightarrow> bool \<times> bytes \<Rightarrow> bytes option" where
  "get_node_value_data ds n = (if fst n then None else Some (drop ds (snd n)))"

text \<open>
  The loop of \<open>elem_lookup\<close>: \<open>found\<close> is the candidate so far, a node's \<open>is_intermediate\<close> and data.
\<close>

fun lpm_walk :: "nat \<Rightarrow> nat \<Rightarrow> nat \<Rightarrow> bytes \<Rightarrow> lpm_node \<Rightarrow> (bool \<times> bytes) option \<Rightarrow> (bool \<times> bytes) option" where
  "lpm_walk ds mx kpl kdata Null found = found"
| "lpm_walk ds mx kpl kdata (Node pl im data c0 c1) found =
     (let matchlen = longest_prefix_match ds pl data kpl kdata
      in if matchlen = mx then Some (im, data)
         else if matchlen < pl then found
         else
           let found' = (if \<not> im then Some (im, data) else found)
           in if matchlen < kpl
              then lpm_walk ds mx kpl kdata (if extract_bit ds kdata pl then c1 else c0) found'
              else found')"

text \<open>The key argument: \<open>prefixlen\<close> and the data bytes.\<close>

definition lpm_key :: "lpm_trie \<Rightarrow> ptr \<Rightarrow> (nat \<times> bytes) res" where
  "lpm_key m key =
     bind_res (arg_bytes key (lp_key_size m)) (\<lambda>k. Inr (load_u32 (take 4 k), drop 4 k))"

definition lpm_elem_lookup :: "lpm_trie \<Rightarrow> ptr \<Rightarrow> bytes res" where
  "lpm_elem_lookup m key =
     (if key = None then Inl (Errno EINVAL)
      else
        bind_res (lpm_key m key) (\<lambda>(kpl, kdata).
        if kpl > lp_max_prefixlen m then Inl (Errno EINVAL)
        else
          case lpm_walk (lp_data_size m) (lp_max_prefixlen m) kpl kdata (lp_root m) None of
            None \<Rightarrow> Inl (Errno ENOENT)
          | Some found \<Rightarrow>
              (case get_node_value_data (lp_data_size m) found of
                 None \<Rightarrow> Inl (Errno ENOENT)
               | Some src \<Rightarrow> of_opt (load src 0 (lp_value_size m)))))"

text \<open>
  The checks before a new entry is created, and the two ways a new node is put at a slot that holds
  a node: below a new intermediate node, or as its ancestor.
\<close>

definition lpm_may_add :: "lpm_trie \<Rightarrow> nat \<Rightarrow> fail option" where
  "lpm_may_add m flags =
     (if flags = 2 then Some (Errno ENOENT)
      else if lp_n_entries m \<ge> lp_max_entries m then Some (Errno ENOSPC) else None)"

definition lpm_split :: "nat \<Rightarrow> nat \<Rightarrow> nat \<Rightarrow> bytes \<Rightarrow> bytes \<Rightarrow> lpm_node \<Rightarrow> lpm_node" where
  "lpm_split ds matchlen kpl kdata v slot =
     (let new_node = lpm_value_node kpl kdata v Null Null
      in if extract_bit ds kdata matchlen
         then lpm_intermediate_node matchlen kdata slot new_node
         else lpm_intermediate_node matchlen kdata new_node slot)"

definition lpm_ancestor :: "nat \<Rightarrow> nat \<Rightarrow> nat \<Rightarrow> bytes \<Rightarrow> bytes \<Rightarrow> lpm_node \<Rightarrow> lpm_node" where
  "lpm_ancestor ds matchlen kpl kdata v slot =
     (if extract_bit ds (node_data slot) matchlen
      then lpm_value_node kpl kdata v Null slot
      else lpm_value_node kpl kdata v slot Null)"

text \<open>
  The walk of \<open>elem_update\<close> to a slot and the four cases there.  The result is the new contents of the
  slot and whether \<open>n_entries\<close> grows.  \<open>elem_update\<close> below reads the value before the walk; the code reads
  it when the node is written, which a caller with a readable value cannot tell apart.
\<close>

definition lpm_new_entry :: "lpm_trie \<Rightarrow> nat \<Rightarrow> lpm_node \<Rightarrow> (lpm_node \<times> bool) res" where
  "lpm_new_entry m flags t = (case lpm_may_add m flags of Some e \<Rightarrow> Inl e | None \<Rightarrow> Inr (t, True))"

definition lpm_set_value :: "lpm_trie \<Rightarrow> bytes \<Rightarrow> nat \<Rightarrow> lpm_node \<Rightarrow> (lpm_node \<times> bool) res" where
  "lpm_set_value m v flags node =
     (let exists_real = \<not> is_intermediate node
      in if flags = 1 then Inl (Errno EEXIST)
         else if flags = 2 \<and> \<not> exists_real then Inl (Errno ENOENT)
         else if \<not> exists_real \<and> lp_n_entries m \<ge> lp_max_entries m then Inl (Errno ENOSPC)
         else Inr (Node (prefixlen node) False (take (lp_data_size m) (node_data node) @ v)
                     (child0 node) (child1 node), \<not> exists_real))"

definition lpm_update_here ::
  "lpm_trie \<Rightarrow> nat \<Rightarrow> bytes \<Rightarrow> bytes \<Rightarrow> nat \<Rightarrow> nat \<Rightarrow> lpm_node \<Rightarrow> (lpm_node \<times> bool) res" where
  "lpm_update_here m kpl kdata v flags matchlen node =
     (if prefixlen node = kpl
      then if matchlen = kpl then lpm_set_value m v flags node
           else lpm_new_entry m flags (lpm_split (lp_data_size m) matchlen kpl kdata v node)
      else if matchlen = kpl
      then lpm_new_entry m flags (lpm_ancestor (lp_data_size m) matchlen kpl kdata v node)
      else lpm_new_entry m flags (lpm_split (lp_data_size m) matchlen kpl kdata v node))"

primrec lpm_update_slot :: "lpm_trie \<Rightarrow> nat \<Rightarrow> bytes \<Rightarrow> bytes \<Rightarrow> nat \<Rightarrow> lpm_node \<Rightarrow> (lpm_node \<times> bool) res" where
  "lpm_update_slot m kpl kdata v flags Null =
     lpm_new_entry m flags (lpm_value_node kpl kdata v Null Null)"
| "lpm_update_slot m kpl kdata v flags (Node pl im data c0 c1) =
     (let matchlen = longest_prefix_match (lp_data_size m) pl data kpl kdata
      in if pl \<noteq> matchlen \<or> pl = kpl \<or> pl = lp_max_prefixlen m
         then lpm_update_here m kpl kdata v flags matchlen (Node pl im data c0 c1)
         else if extract_bit (lp_data_size m) kdata pl
         then bind_res (lpm_update_slot m kpl kdata v flags c1) (\<lambda>(c, new). Inr (Node pl im data c0 c, new))
         else bind_res (lpm_update_slot m kpl kdata v flags c0) (\<lambda>(c, new). Inr (Node pl im data c c1, new)))"

definition lpm_elem_update :: "lpm_trie \<Rightarrow> ptr \<Rightarrow> ptr \<Rightarrow> nat \<Rightarrow> lpm_trie res" where
  "lpm_elem_update m key value flags =
     (if key = None \<or> value = None then Inl (Errno EINVAL)
      else if flags \<noteq> 0 \<and> flags \<noteq> 1 \<and> flags \<noteq> 2 then Inl (Errno EINVAL)
      else
        bind_res (lpm_key m key) (\<lambda>(kpl, kdata).
        if kpl > lp_max_prefixlen m then Inl (Errno EINVAL)
        else
          bind_res (arg_bytes value (lp_value_size m)) (\<lambda>v.
          bind_res (lpm_update_slot m kpl kdata v flags (lp_root m)) (\<lambda>(t, new).
          Inr (m\<lparr>lp_root := t, lp_n_entries := lp_n_entries m + (if new then 1 else 0)\<rparr>)))))"

text \<open>The walk of \<open>elem_delete\<close> and the logical deletion; \<open>None\<close> when there is no such entry.\<close>

primrec lpm_delete_slot :: "nat \<Rightarrow> nat \<Rightarrow> bytes \<Rightarrow> lpm_node \<Rightarrow> lpm_node option" where
  "lpm_delete_slot ds kpl kdata Null = None"
| "lpm_delete_slot ds kpl kdata (Node pl im data c0 c1) =
     (let matchlen = longest_prefix_match ds pl data kpl kdata
      in if pl \<noteq> matchlen \<or> pl = kpl
         then if pl \<noteq> kpl \<or> matchlen \<noteq> pl \<or> im then None
              else Some (Node pl True (take ds data) c0 c1)
         else if extract_bit ds kdata pl
         then map_option (\<lambda>c. Node pl im data c0 c) (lpm_delete_slot ds kpl kdata c1)
         else map_option (\<lambda>c. Node pl im data c c1) (lpm_delete_slot ds kpl kdata c0))"

definition lpm_elem_delete :: "lpm_trie \<Rightarrow> ptr \<Rightarrow> lpm_trie res" where
  "lpm_elem_delete m key =
     (if key = None then Inl (Errno EINVAL)
      else
        bind_res (lpm_key m key) (\<lambda>(kpl, kdata).
        if kpl > lp_max_prefixlen m then Inl (Errno EINVAL)
        else
          case lpm_delete_slot (lp_data_size m) kpl kdata (lp_root m) of
            None \<Rightarrow> Inl (Errno ENOENT)
          | Some t \<Rightarrow>
              Inr (m\<lparr>lp_root := t,
                     lp_n_entries := (if lp_n_entries m > 0 then lp_n_entries m - 1 else lp_n_entries m)\<rparr>)))"

primrec lpm_first :: "nat \<Rightarrow> lpm_node \<Rightarrow> (nat \<times> bytes) option" where
  "lpm_first ds Null = None"
| "lpm_first ds (Node pl im data c0 c1) =
     (if \<not> im then Some (pl, take ds data)
      else if c0 \<noteq> Null then lpm_first ds c0 else lpm_first ds c1)"

definition lpm_map_get_next_key :: "lpm_trie \<Rightarrow> ptr \<Rightarrow> bool \<Rightarrow> bytes res" where
  "lpm_map_get_next_key m key next_key =
     (if \<not> next_key then Inl (Errno EINVAL)
      else if lp_root m = Null then Inl (Errno ENOENT)
      else if key = None
      then (case lpm_first (lp_data_size m) (lp_root m) of
              None \<Rightarrow> Inl (Errno ENOENT)
            | Some (pl, data) \<Rightarrow> Inr (store_u32 pl @ data))
      else Inl (Errno ENOENT))"

definition lpm_map_push_elem :: "lpm_trie \<Rightarrow> ptr \<Rightarrow> nat \<Rightarrow> lpm_trie res" where
  "lpm_map_push_elem m value flags = Inl (Errno ENOTSUP)"

definition lpm_map_pop_elem :: "lpm_trie \<Rightarrow> bool \<Rightarrow> bytes res" where
  "lpm_map_pop_elem m value = Inl (Errno ENOTSUP)"

definition lpm_map_peek_elem :: "lpm_trie \<Rightarrow> bool \<Rightarrow> bytes res" where
  "lpm_map_peek_elem m value = Inl (Errno ENOTSUP)"

section \<open>Bit strings\<close>

definition bits :: "nat \<Rightarrow> bytes \<Rightarrow> nat \<Rightarrow> bool list" where
  "bits ds data n = map (extract_bit ds data) [0..<n]"

lemma length_bits [simp]: "length (bits ds data n) = n"
  by (simp add: bits_def)

lemma nth_bits [simp]: "i < n \<Longrightarrow> bits ds data n ! i = extract_bit ds data i"
  by (simp add: bits_def)

lemma take_bits: "k \<le> n \<Longrightarrow> take k (bits ds data n) = bits ds data k"
  by (simp add: bits_def take_map min_def)

lemma bits_append: "ds \<le> length data \<Longrightarrow> bits ds (data @ v) n = bits ds data n"
  by (rule nth_equalityI) (auto simp: extract_bit_def nth_append)

lemma bits_take: "ds \<le> length data \<Longrightarrow> bits ds (take ds data) n = bits ds data n"
proof (rule nth_equalityI)
  fix i
  assume "i < length (bits ds (take ds data) n)"
  then show "bits ds (take ds data) n ! i = bits ds data n ! i"
    by (cases "i < ds * 8") (auto simp: extract_bit_def)
qed simp

text \<open>What the match length says about the two bit strings.\<close>

lemma match_facts:
  fixes ds pl :: nat and data :: bytes and kpl :: nat and kdata :: bytes
  defines "m \<equiv> longest_prefix_match ds pl data kpl kdata"
  shows "m \<le> pl" and "m \<le> kpl" and "bits ds data m = bits ds kdata m"
    and "m < pl \<Longrightarrow> m < kpl \<Longrightarrow> extract_bit ds data m \<noteq> extract_bit ds kdata m"
proof -
  let ?P = "\<lambda>i. extract_bit ds data i = extract_bit ds kdata i"
  let ?t = "takeWhile ?P [0..<min pl kpl]"
  have m: "m = length ?t" by (simp add: m_def longest_prefix_match_def)
  have "m \<le> min pl kpl" unfolding m by (rule order_trans [OF length_takeWhile_le]) simp
  then show "m \<le> pl" "m \<le> kpl" by auto
  have "?P i" if "i < m" for i
    using that m nth_mem [of i ?t] takeWhile_nth [of i ?P "[0..<min pl kpl]"] \<open>m \<le> min pl kpl\<close>
    by (auto dest: set_takeWhileD)
  then show "bits ds data m = bits ds kdata m" by (simp add: bits_def)
  assume "m < pl" "m < kpl"
  then have "\<not> ?P ([0..<min pl kpl] ! m)" unfolding m by (intro nth_length_takeWhile) simp
  then show "extract_bit ds data m \<noteq> extract_bit ds kdata m" using \<open>m < pl\<close> \<open>m < kpl\<close> by simp
qed

lemma match_prefix:
  "longest_prefix_match ds pl data kpl kdata = pl \<longleftrightarrow> prefix (bits ds data pl) (bits ds kdata kpl)"
proof
  assume eq: "longest_prefix_match ds pl data kpl kdata = pl"
  have "bits ds data pl = take pl (bits ds kdata kpl)"
    using match_facts(2,3) [where ds = ds and pl = pl and data = data and kpl = kpl and kdata = kdata] eq by (simp add: take_bits)
  then show "prefix (bits ds data pl) (bits ds kdata kpl)" by (metis take_is_prefix)
next
  assume p: "prefix (bits ds data pl) (bits ds kdata kpl)"
  then have le: "pl \<le> kpl" using prefix_length_le by fastforce
  show "longest_prefix_match ds pl data kpl kdata = pl"
  proof (rule ccontr)
    let ?m = "longest_prefix_match ds pl data kpl kdata"
    assume "?m \<noteq> pl"
    then have "?m < pl" "?m < kpl" using match_facts(1) [where ds = ds and pl = pl and data = data and kpl = kpl and kdata = kdata] le by auto
    moreover have "bits ds data pl = take pl (bits ds kdata kpl)" using p by (metis length_bits prefix_def append_eq_conv_conj)
    then have "bits ds data pl ! ?m = bits ds kdata kpl ! ?m" using \<open>?m < pl\<close> by simp
    ultimately show False using match_facts(4) [where ds = ds and pl = pl and data = data and kpl = kpl and kdata = kdata] by simp
  qed
qed

section \<open>The trie as a map from bit strings\<close>

text \<open>
  What a bit string holds: nothing, a value, or the mark a deleted prefix of full length leaves behind
  (the only intermediate node a lookup can stop at).
\<close>

datatype lpm_cell = Absent | Tomb | is_Val: Val bytes

fun lpm_view :: "nat \<Rightarrow> lpm_node \<Rightarrow> bool list \<Rightarrow> lpm_cell" where
  "lpm_view ds Null x = Absent"
| "lpm_view ds (Node pl im data c0 c1) x =
     (if x = bits ds data pl
      then if \<not> im then Val (drop ds data) else if pl = 8 * ds then Tomb else Absent
      else if strict_prefix (bits ds data pl) x then lpm_view ds (if x ! pl then c1 else c0) x
      else Absent)"

text \<open>The well-formed tries below the bit string \<open>p\<close>.\<close>

primrec lpm_wf :: "nat \<Rightarrow> nat \<Rightarrow> bool list \<Rightarrow> lpm_node \<Rightarrow> bool" where
  "lpm_wf ds vs p Null = True"
| "lpm_wf ds vs p (Node pl im data c0 c1) =
     (prefix p (bits ds data pl) \<and> pl \<le> 8 * ds \<and> length data = ds + (if im then 0 else vs) \<and>
      (if pl < 8 * ds
       then lpm_wf ds vs (bits ds data pl @ [False]) c0 \<and> lpm_wf ds vs (bits ds data pl @ [True]) c1
       else c0 = Null \<and> c1 = Null))"

lemma lpm_wf_prefix: "lpm_wf ds vs p t \<Longrightarrow> prefix q p \<Longrightarrow> lpm_wf ds vs q t"
  by (cases t) (auto intro: prefix_order.trans)

lemma lpm_view_below: "lpm_wf ds vs p t \<Longrightarrow> \<not> prefix p x \<Longrightarrow> lpm_view ds t x = Absent"
proof (induction t arbitrary: p)
  case (Node pl im data c0 c1)
  then have "prefix p (bits ds data pl)" by simp
  then have "\<not> prefix (bits ds data pl) x" using Node.prems(2) prefix_order.trans by blast
  then show ?case by (auto simp: strict_prefix_def)
qed simp

lemma strict_prefix_bits:
  "strict_prefix (bits ds data pl) x \<longleftrightarrow> pl < length x \<and> take pl x = bits ds data pl"
  by (metis append_take_drop_id length_bits prefix_length_less prefix_length_prefix prefixI
      strict_prefix_def append_eq_conv_conj prefix_def order_less_irrefl)

lemma prefix_child:
  assumes "prefix (bits ds data pl) (bits ds kdata kpl)" and "pl < kpl"
  shows "prefix (bits ds data pl @ [extract_bit ds kdata pl]) (bits ds kdata kpl)"
proof -
  have "bits ds data pl = take pl (bits ds kdata kpl)"
    using assms(1) by (metis length_bits append_eq_conv_conj prefix_def)
  then have "bits ds data pl @ [extract_bit ds kdata pl] = take (Suc pl) (bits ds kdata kpl)"
    using assms(2) by (simp add: take_Suc_conv_app_nth)
  then show ?thesis by (metis take_is_prefix)
qed

section \<open>Lookup is longest prefix match\<close>

text \<open>
  The value a lookup of \<open>K\<close> gives: the prefixes of \<open>K\<close> are visited from the shortest, each value
  replaces the candidate so far, and so does the mark of a deleted full-length prefix.
\<close>

definition lpm_pick :: "(bool list \<Rightarrow> lpm_cell) \<Rightarrow> bool list \<Rightarrow> bytes option \<Rightarrow> nat \<Rightarrow> bytes option" where
  "lpm_pick S K best l = (case S (take l K) of Absent \<Rightarrow> best | Tomb \<Rightarrow> None | Val v \<Rightarrow> Some v)"

definition longest_match :: "(bool list \<Rightarrow> lpm_cell) \<Rightarrow> bool list \<Rightarrow> bytes option" where
  "longest_match S K = foldl (lpm_pick S K) None [0..<Suc (length K)]"

lemma pick_none:
  assumes "\<And>l. l \<in> set ls \<Longrightarrow> S (take l K) = Absent"
  shows "foldl (lpm_pick S K) b ls = b"
  using assms by (induction ls arbitrary: b) (auto simp: lpm_pick_def)

lemma pick_cong:
  assumes "\<And>l. l \<in> set ls \<Longrightarrow> S (take l K) = S' (take l K)"
  shows "foldl (lpm_pick S K) b ls = foldl (lpm_pick S' K) b ls"
  using assms by (induction ls arbitrary: b) (auto simp: lpm_pick_def)

text \<open>The longest prefix with a cell decides.\<close>

lemma pick_last:
  assumes "lo \<le> l" and "l < hi" and "S (take l K) \<noteq> Absent" and "\<And>l'. l < l' \<Longrightarrow> l' < hi \<Longrightarrow> S (take l' K) = Absent"
  shows "foldl (lpm_pick S K) b [lo..<hi] = (case S (take l K) of Val v \<Rightarrow> Some v | _ \<Rightarrow> None)"
proof -
  have "[lo..<hi] = [lo..<l] @ l # [Suc l..<hi]"
    using upt_add_eq_append [of lo l "hi - l"] assms(1,2) by (simp add: upt_conv_Cons)
  moreover have "foldl (lpm_pick S K) c [Suc l..<hi] = c" for c
    using assms(4) by (intro pick_none) auto
  ultimately show ?thesis
    using assms(3) by (simp add: lpm_pick_def split: lpm_cell.splits)
qed

lemma longest_match_Some:
  assumes "\<And>x. S x = Tomb \<Longrightarrow> length x > length K"
  shows "longest_match S K = Some v \<longleftrightarrow>
    (\<exists>l \<le> length K. S (take l K) = Val v \<and> (\<forall>l'. l < l' \<and> l' \<le> length K \<longrightarrow> S (take l' K) = Absent))"
proof (cases "\<exists>l \<le> length K. S (take l K) \<noteq> Absent")
  case True
  define L where "L = Max {l. l \<le> length K \<and> S (take l K) \<noteq> Absent}"
  have fin: "finite {l. l \<le> length K \<and> S (take l K) \<noteq> Absent}" by simp
  then have L: "L \<le> length K" "S (take L K) \<noteq> Absent"
    using Max_in [OF fin] True unfolding L_def by auto
  have top: "S (take l' K) = Absent" if "L < l'" "l' \<le> length K" for l'
    using Max_ge [OF fin, of l'] that unfolding L_def by fastforce
  have "longest_match S K = (case S (take L K) of Val v \<Rightarrow> Some v | _ \<Rightarrow> None)"
    unfolding longest_match_def using L top by (intro pick_last) auto
  moreover have "S (take L K) \<noteq> Tomb" using assms [of "take L K"] by auto
  ultimately show ?thesis using L top
    by (auto split: lpm_cell.splits) (metis lpm_cell.distinct(3) lpm_cell.inject linorder_neqE_nat)+
next
  case False
  then have "longest_match S K = None" unfolding longest_match_def by (intro pick_none) auto
  with False show ?thesis by auto
qed

abbreviation lpm_found :: "nat \<Rightarrow> (bool \<times> bytes) option \<Rightarrow> bytes option" where
  "lpm_found ds f \<equiv> Option.bind f (get_node_value_data ds)"

lemma node_value_pair [simp]: "get_node_value_data ds (im, data) = (if im then None else Some (drop ds data))"
  by (simp add: get_node_value_data_def)

lemma view_node_take:
  assumes "prefix (bits ds data pl) K" and "l \<le> length K"
  shows "lpm_view ds (Node pl im data c0 c1) (take l K) =
    (if l < pl then Absent
     else if l = pl then if \<not> im then Val (drop ds data) else if pl = 8 * ds then Tomb else Absent
     else lpm_view ds (if K ! pl then c1 else c0) (take l K))"
proof -
  have N: "take pl K = bits ds data pl" using assms(1) by (metis length_bits append_eq_conv_conj prefix_def)
  consider "l < pl" | "l = pl" | "pl < l" by linarith
  then show ?thesis
  proof cases
    case 1
    then have "length (take l K) < length (bits ds data pl)" by simp
    then have "take l K \<noteq> bits ds data pl" "\<not> strict_prefix (bits ds data pl) (take l K)"
      using prefix_length_less by fastforce+
    with 1 show ?thesis by simp
  next
    case 2
    then show ?thesis using N by simp
  next
    case 3
    then have "length (take l K) > length (bits ds data pl)" using assms(2) by simp
    then have "take l K \<noteq> bits ds data pl" by (metis less_irrefl)
    moreover have "strict_prefix (bits ds data pl) (take l K)"
      unfolding strict_prefix_bits using 3 assms(2) N by (simp add: min_def)
    ultimately show ?thesis using 3 by simp
  qed
qed

lemma walk_pick:
  assumes "lpm_wf ds vs p t" and "prefix p (bits ds kdata kpl)" and "kpl \<le> 8 * ds"
  shows "lpm_found ds (lpm_walk ds (8 * ds) kpl kdata t found) =
    foldl (lpm_pick (lpm_view ds t) (bits ds kdata kpl)) (lpm_found ds found) [length p..<Suc kpl]"
  using assms
proof (induction t arbitrary: p found)
  case Null
  then show ?case by (simp add: pick_none)
next
  case (Node pl im data c0 c1)
  let ?K = "bits ds kdata kpl" and ?N = "bits ds data pl"
  let ?S = "lpm_view ds (Node pl im data c0 c1)" and ?c = "if extract_bit ds kdata pl then c1 else c0"
  let ?m = "longest_prefix_match ds pl data kpl kdata"
  note lpm_view.simps(2) [simp del]
  note le = match_facts(1,2) [where ds = ds and pl = pl and data = data and kpl = kpl and kdata = kdata]
  have p: "length p \<le> pl" using Node.prems(1) prefix_length_le by fastforce
  show ?case
  proof (cases "?m = pl")
    case False
    then have np: "\<not> prefix ?N ?K" using match_prefix by blast
    have "?S (take l ?K) = Absent" for l
    proof -
      have "\<not> prefix ?N (take l ?K)" using np by (meson prefix_order.trans take_is_prefix)
      then show ?thesis by (auto simp: lpm_view.simps strict_prefix_def)
    qed
    moreover have "?m < pl" "?m \<noteq> 8 * ds" using False le Node.prems by auto
    ultimately show ?thesis by (simp add: pick_none)
  next
    case True
    then have pre: "prefix ?N ?K" using match_prefix by blast
    then have pk: "pl \<le> kpl" using prefix_length_le by fastforce
    note view = view_node_take [OF pre, unfolded length_bits]
    note full = view [where l = kpl and im = im and ?c0.0 = c0 and ?c1.0 = c1, simplified take_all length_bits order_refl]
    let ?f = "if im then found else Some (im, data)"
    have "[length p..<Suc kpl] = [length p..<pl] @ pl # [Suc pl..<Suc kpl]"
      using upt_add_eq_append [of "length p" pl "Suc kpl - pl"] p pk by (simp add: upt_conv_Cons)
    moreover have "foldl (lpm_pick ?S ?K) b [length p..<pl] = b" for b
      using pk by (intro pick_none) (auto simp: view)
    ultimately have fold: "foldl (lpm_pick ?S ?K) b [length p..<Suc kpl] =
        foldl (lpm_pick ?S ?K) (lpm_pick ?S ?K b pl) [Suc pl..<Suc kpl]" for b by simp
    show ?thesis
    proof (cases "pl < kpl")
      case True
      have pick: "lpm_pick ?S ?K (lpm_found ds found) pl = lpm_found ds ?f"
        using True Node.prems by (auto simp: lpm_pick_def view pk)
      have c: "lpm_wf ds vs (?N @ [extract_bit ds kdata pl]) ?c" using Node.prems True by auto
      have "lpm_found ds (lpm_walk ds (8 * ds) kpl kdata ?c ?f) =
          foldl (lpm_pick (lpm_view ds ?c) ?K) (lpm_found ds ?f) [Suc pl..<Suc kpl]"
        using Node.IH(1,2) [OF _ prefix_child [OF pre True] Node.prems(3), of ?f] c by (auto split: if_splits)
      also have "\<dots> = foldl (lpm_pick ?S ?K) (lpm_found ds ?f) [Suc pl..<Suc kpl]"
        using True full by (intro pick_cong) (auto simp: view)
      finally show ?thesis
        using \<open>?m = pl\<close> True Node.prems unfolding fold pick
        by (cases im; cases "extract_bit ds kdata pl") (simp_all del: upt_Suc)
    next
      case False
      then have "kpl = pl" using pk by simp
      with \<open>?m = pl\<close> Node.prems full show ?thesis unfolding fold
        by (auto simp: lpm_pick_def view)
    qed
  qed
qed

section \<open>Update and deletion of one prefix\<close>

lemma prefix_snoc_nth: "prefix (N @ [b]) x \<longleftrightarrow> strict_prefix N x \<and> x ! length N = b"
proof
  assume "prefix (N @ [b]) x"
  then show "strict_prefix N x \<and> x ! length N = b"
    by (auto simp: prefix_def strict_prefix_def nth_append)
next
  assume a: "strict_prefix N x \<and> x ! length N = b"
  then obtain y ys where "x = N @ y # ys" by (auto elim: strict_prefixE')
  with a show "prefix (N @ [b]) x" by simp
qed

lemma view_leaf:
  "ds = length kdata \<Longrightarrow>
     lpm_view ds (lpm_value_node kpl kdata v Null Null) = (\<lambda>x. if x = bits ds kdata kpl then Val v else Absent)"
  by (rule ext) (simp add: lpm_value_node_def bits_append)

lemma view_join:
  assumes "lpm_wf ds vs (bits ds kd n @ [b]) new" and "lpm_wf ds vs (bits ds kd n @ [\<not> b]) slot" and "n < 8 * ds"
  shows "lpm_view ds (if b then Node n True kd slot new else Node n True kd new slot) x =
    (if prefix (bits ds kd n @ [b]) x then lpm_view ds new x else lpm_view ds slot x)"
  using lpm_view_below [OF assms(1), of x] lpm_view_below [OF assms(2), of x] assms(3)
  by (auto simp: prefix_snoc_nth)

lemma view_ancestor:
  assumes "lpm_wf ds vs (bits ds kdata kpl @ [b]) slot" and "ds = length kdata"
  shows "lpm_view ds (if b then lpm_value_node kpl kdata v Null slot else lpm_value_node kpl kdata v slot Null) =
    (lpm_view ds slot)(bits ds kdata kpl := Val v)"
  by (rule ext) (use assms lpm_view_below [OF assms(1)] in
      \<open>auto simp: prefix_snoc_nth lpm_value_node_def bits_append\<close>)

lemma split_update:
  fixes ds pl :: nat and data :: bytes and kpl :: nat and kdata :: bytes
  defines "mm \<equiv> longest_prefix_match ds pl data kpl kdata"
  assumes wf: "lpm_wf ds vs p (Node pl im data c0 c1)" and p: "prefix p (bits ds kdata kpl)"
    and len: "length kdata = ds" "length v = vs" "kpl \<le> 8 * ds" and m: "mm < pl" "mm < kpl"
  shows "lpm_wf ds vs p (lpm_split ds mm kpl kdata v (Node pl im data c0 c1))" (is ?W)
    and "lpm_view ds (lpm_split ds mm kpl kdata v (Node pl im data c0 c1)) =
      (lpm_view ds (Node pl im data c0 c1))(bits ds kdata kpl := Val v)" (is ?V)
    and "lpm_view ds (Node pl im data c0 c1) (bits ds kdata kpl) = Absent" (is ?A)
proof -
  let ?b = "extract_bit ds kdata mm" and ?C = "bits ds kdata mm" and ?slot = "Node pl im data c0 c1"
  let ?new = "lpm_value_node kpl kdata v Null Null"
  note facts = match_facts [where ds = ds and pl = pl and data = data and kpl = kpl and kdata = kdata, folded mm_def]
  have C: "?C = bits ds data mm" using facts(3) by simp
  have k: "prefix (?C @ [?b]) (bits ds kdata kpl)"
    using take_bits [of "Suc mm" kpl ds kdata] m take_is_prefix [of "Suc mm" "bits ds kdata kpl"]
    by (simp add: bits_def)
  have s: "prefix (?C @ [\<not> ?b]) (bits ds data pl)"
    using take_bits [of "Suc mm" pl ds data] m take_is_prefix [of "Suc mm" "bits ds data pl"] facts(4) unfolding C
    by (simp add: bits_def)
  have wn: "lpm_wf ds vs (?C @ [?b]) ?new"
    using k len by (simp add: lpm_value_node_def bits_append)
  have ws: "lpm_wf ds vs (?C @ [\<not> ?b]) ?slot" using wf s by simp
  have "prefix p (bits ds data pl)" using wf by simp
  then have pC: "prefix p ?C"
  proof -
    have "length p \<le> mm"
    proof (rule ccontr)
      assume "\<not> length p \<le> mm"
      then have "prefix (?C @ [\<not> ?b]) p" "prefix (?C @ [?b]) p"
        using prefix_length_prefix [OF s \<open>prefix p (bits ds data pl)\<close>] prefix_length_prefix [OF k p] by simp_all
      then show False by (simp add: prefix_snoc_nth)
    qed
    then show ?thesis using prefix_length_prefix [OF p, of ?C] k by (simp add: append_prefixD)
  qed
  show ?A using lpm_view_below [OF ws] k by (auto simp: prefix_snoc_nth)
  show ?W using wn ws pC len m by (cases ?b) (simp_all add: lpm_split_def lpm_intermediate_node_def Let_def)
  have split: "lpm_split ds mm kpl kdata v ?slot = (if ?b then Node mm True kdata ?slot ?new else Node mm True kdata ?new ?slot)"
    by (simp add: lpm_split_def lpm_intermediate_node_def Let_def)
  have "mm < 8 * ds" using m len by simp
  note join = view_join [OF wn ws this, folded split] and leaf = view_leaf [OF len(1) [symmetric]]
  show ?V
  proof (rule ext)
    fix x
    show "lpm_view ds (lpm_split ds mm kpl kdata v ?slot) x = ((lpm_view ds ?slot)(bits ds kdata kpl := Val v)) x"
    proof (cases "prefix (?C @ [?b]) x")
      case True
      then have "lpm_view ds ?slot x = Absent" using lpm_view_below [OF ws, of x] unfolding prefix_snoc_nth by blast
      with True show ?thesis unfolding join leaf by simp
    next
      case False
      then have "x \<noteq> bits ds kdata kpl" using k by blast
      with False show ?thesis unfolding join by simp
    qed
  qed
qed

lemma ancestor_update:
  assumes wf: "lpm_wf ds vs p (Node pl im data c0 c1)" and p: "prefix p (bits ds kdata kpl)"
    and len: "length kdata = ds" "length v = vs" and m: "longest_prefix_match ds pl data kpl kdata = kpl" "kpl < pl"
  shows "lpm_wf ds vs p (lpm_ancestor ds kpl kpl kdata v (Node pl im data c0 c1))" (is ?W)
    and "lpm_view ds (lpm_ancestor ds kpl kpl kdata v (Node pl im data c0 c1)) =
      (lpm_view ds (Node pl im data c0 c1))(bits ds kdata kpl := Val v)" (is ?V)
    and "lpm_view ds (Node pl im data c0 c1) (bits ds kdata kpl) = Absent" (is ?A)
proof -
  let ?b = "extract_bit ds data kpl" and ?K = "bits ds kdata kpl" and ?slot = "Node pl im data c0 c1"
  have K: "?K = bits ds data kpl"
    using match_facts(3) [where ds = ds and pl = pl and data = data and kpl = kpl and kdata = kdata] m by simp
  have "prefix (?K @ [?b]) (bits ds data pl)"
    using take_bits [of "Suc kpl" pl ds data] m take_is_prefix [of "Suc kpl" "bits ds data pl"] unfolding K
    by (simp add: bits_def)
  then have ws: "lpm_wf ds vs (?K @ [?b]) ?slot" using wf by simp
  show ?A using lpm_view_below [OF ws] by (simp add: prefix_snoc_nth)
  show ?V using view_ancestor [OF ws] len by (auto simp: lpm_ancestor_def)
  show ?W using ws wf p len m
    by (cases ?b) (simp_all add: lpm_ancestor_def lpm_value_node_def bits_append)
qed

text \<open>
  What an update does to the trie: it succeeds unless one of the code's checks fails, and then the
  key's bit string holds the value and every other bit string holds what it did.
\<close>

definition lpm_update_result ::
  "lpm_trie \<Rightarrow> bool list \<Rightarrow> bytes \<Rightarrow> nat \<Rightarrow> lpm_node \<Rightarrow> (lpm_node \<times> bool) res \<Rightarrow> bool" where
  "lpm_update_result m K v flags t r \<longleftrightarrow>
     (case r of
        Inl e \<Rightarrow> \<not> is_Val (lpm_view (lp_data_size m) t K) \<and> lpm_may_add m flags = Some e \<or>
               flags = 1 \<and> e = Errno EEXIST
      | Inr (t', new) \<Rightarrow>
          lpm_view (lp_data_size m) t' = (lpm_view (lp_data_size m) t)(K := Val v) \<and>
          (new \<longleftrightarrow> \<not> is_Val (lpm_view (lp_data_size m) t K)) \<and>
          (new \<longrightarrow> lpm_may_add m flags = None) \<and> (\<not> new \<longrightarrow> flags \<noteq> 1))"

lemma new_entry_result:
  assumes "lpm_view (lp_data_size m) t' = (lpm_view (lp_data_size m) t)(K := Val v)"
    and "\<not> is_Val (lpm_view (lp_data_size m) t K)"
  shows "lpm_update_result m K v flags t (lpm_new_entry m flags t')"
  using assms by (auto simp: lpm_update_result_def lpm_new_entry_def split: option.splits)

lemma update_slot_eqs:
  fixes m :: lpm_trie and pl :: nat and data :: bytes and kpl :: nat and kdata :: bytes
  defines "mm \<equiv> longest_prefix_match (lp_data_size m) pl data kpl kdata"
  shows "mm < pl \<Longrightarrow> mm < kpl \<Longrightarrow> lpm_update_slot m kpl kdata v flags (Node pl im data c0 c1) =
      lpm_new_entry m flags (lpm_split (lp_data_size m) mm kpl kdata v (Node pl im data c0 c1))"
    and "mm = kpl \<Longrightarrow> kpl < pl \<Longrightarrow> lpm_update_slot m kpl kdata v flags (Node pl im data c0 c1) =
      lpm_new_entry m flags (lpm_ancestor (lp_data_size m) kpl kpl kdata v (Node pl im data c0 c1))"
    and "mm = kpl \<Longrightarrow> kpl = pl \<Longrightarrow> lpm_update_slot m kpl kdata v flags (Node pl im data c0 c1) =
      lpm_set_value m v flags (Node pl im data c0 c1)"
    and "mm = pl \<Longrightarrow> pl < kpl \<Longrightarrow> pl < lp_max_prefixlen m \<Longrightarrow>
      lpm_update_slot m kpl kdata v flags (Node pl im data c0 c1) =
      bind_res (lpm_update_slot m kpl kdata v flags (if extract_bit (lp_data_size m) kdata pl then c1 else c0))
        (\<lambda>(c, new). Inr (if extract_bit (lp_data_size m) kdata pl then Node pl im data c0 c else Node pl im data c c1, new))"
  by (auto simp: mm_def lpm_update_here_def Let_def)

lemma slot_cases:
  assumes "lpm_wf ds vs p (Node pl im data c0 c1)" and "kpl \<le> 8 * ds"
  obtains (split) "longest_prefix_match ds pl data kpl kdata < pl" "longest_prefix_match ds pl data kpl kdata < kpl"
    | (ancestor) "longest_prefix_match ds pl data kpl kdata = kpl" "kpl < pl"
    | (exact) "longest_prefix_match ds pl data kpl kdata = kpl" "kpl = pl"
    | (down) "longest_prefix_match ds pl data kpl kdata = pl" "pl < kpl" "pl < 8 * ds"
  using match_facts(1,2) [where ds = ds and pl = pl and data = data and kpl = kpl and kdata = kdata] assms(2)
  by linarith

lemma new_entry_eq_Inr: "lpm_new_entry m flags t = Inr (t', new) \<longleftrightarrow> lpm_may_add m flags = None \<and> t' = t \<and> new"
  by (auto simp: lpm_new_entry_def split: option.splits)

lemma new_value_data:
  assumes "lpm_wf ds vs p (Node pl im data c0 c1)"
  shows "bits ds (take ds data @ v) n = bits ds data n" and "length (take ds data) = ds"
  using assms by (simp_all add: bits_append bits_take)

lemma update_slot_wf:
  assumes "lpm_wf (lp_data_size m) vs p t" and "prefix p (bits (lp_data_size m) kdata kpl)"
    and "length kdata = lp_data_size m" and "length v = vs" and "kpl \<le> 8 * lp_data_size m"
    and "lp_max_prefixlen m = 8 * lp_data_size m"
    and "lpm_update_slot m kpl kdata v flags t = Inr (t', new)"
  shows "lpm_wf (lp_data_size m) vs p t'"
  using assms
proof (induction t arbitrary: p t')
  case Null
  then show ?case by (auto simp: new_entry_eq_Inr lpm_value_node_def bits_append)
next
  case (Node pl im data c0 c1)
  let ?ds = "lp_data_size m"
  note upd = Node.prems(7)
  from Node.prems(1,5) show ?case
  proof (cases rule: slot_cases [where kdata = kdata])
    case split
    with upd split_update(1) [OF Node.prems(1-5) split] show ?thesis
      unfolding update_slot_eqs(1) [OF split] new_entry_eq_Inr by simp
  next
    case ancestor
    with upd ancestor_update(1) [OF Node.prems(1-4) ancestor] show ?thesis
      unfolding update_slot_eqs(2) [OF ancestor] new_entry_eq_Inr by simp
  next
    case exact
    with upd new_value_data [OF Node.prems(1)] Node.prems(1-5) show ?thesis
      unfolding update_slot_eqs(3) [OF exact] by (auto simp: lpm_set_value_def split: if_splits)
  next
    case down
    then have c: "prefix (bits ?ds data pl @ [extract_bit ?ds kdata pl]) (bits ?ds kdata kpl)"
      using match_prefix prefix_child by metis
    from down Node.prems(6) have "pl < lp_max_prefixlen m" by simp
    note eq = update_slot_eqs(4) [OF down(1,2) this]
    show ?thesis
    proof (cases "extract_bit ?ds kdata pl")
      case True
      with upd obtain c' where "lpm_update_slot m kpl kdata v flags c1 = Inr (c', new)" "t' = Node pl im data c0 c'"
        unfolding eq by (auto simp: bind_res_eq_Inr)
      with True Node.IH(2) [OF _ _ Node.prems(3-6), of "bits ?ds data pl @ [True]" c'] Node.prems(1) c down(3)
      show ?thesis by simp
    next
      case False
      with upd obtain c' where "lpm_update_slot m kpl kdata v flags c0 = Inr (c', new)" "t' = Node pl im data c' c1"
        unfolding eq by (auto simp: bind_res_eq_Inr)
      with False Node.IH(1) [OF _ _ Node.prems(3-6), of "bits ?ds data pl @ [False]" c'] Node.prems(1) c down(3)
      show ?thesis by simp
    qed
  qed
qed

lemma view_down:
  assumes "prefix (bits ds data pl @ [b]) K"
  shows "lpm_view ds (Node pl im data c0 c1) K = lpm_view ds (if b then c1 else c0) K"
    and "lpm_view ds c = (lpm_view ds (if b then c1 else c0))(K := y) \<Longrightarrow>
      lpm_view ds (if b then Node pl im data c0 c else Node pl im data c c1) = (lpm_view ds (Node pl im data c0 c1))(K := y)"
proof -
  have K: "strict_prefix (bits ds data pl) K" "K ! pl = b" "K \<noteq> bits ds data pl"
    using assms by (auto simp: prefix_snoc_nth)
  then show "lpm_view ds (Node pl im data c0 c1) K = lpm_view ds (if b then c1 else c0) K" by simp
  assume "lpm_view ds c = (lpm_view ds (if b then c1 else c0))(K := y)"
  then show "lpm_view ds (if b then Node pl im data c0 c else Node pl im data c c1) =
      (lpm_view ds (Node pl im data c0 c1))(K := y)"
    using K by (cases b) (auto simp: fun_eq_iff)
qed

lemma update_slot_result:
  assumes "lpm_wf (lp_data_size m) vs p t" and "prefix p (bits (lp_data_size m) kdata kpl)"
    and "length kdata = lp_data_size m" and "length v = vs" and "kpl \<le> 8 * lp_data_size m"
    and "lp_max_prefixlen m = 8 * lp_data_size m"
  shows "lpm_update_result m (bits (lp_data_size m) kdata kpl) v flags t (lpm_update_slot m kpl kdata v flags t)"
  using assms
proof (induction t arbitrary: p)
  case Null
  then show ?case unfolding lpm_update_slot.simps
    by (intro new_entry_result) (auto simp: view_leaf)
next
  case (Node pl im data c0 c1)
  let ?ds = "lp_data_size m"
  from Node.prems(1,5) show ?case
  proof (cases rule: slot_cases [where kdata = kdata])
    case split
    from split_update(2,3) [OF Node.prems(1-5) split] show ?thesis
      unfolding update_slot_eqs(1) [OF split] by (intro new_entry_result) (simp_all del: lpm_view.simps)
  next
    case ancestor
    from ancestor_update(2,3) [OF Node.prems(1-4) ancestor] show ?thesis
      unfolding update_slot_eqs(2) [OF ancestor] by (intro new_entry_result) (simp_all del: lpm_view.simps)
  next
    case exact
    then have K: "bits ?ds kdata kpl = bits ?ds data pl"
      using match_facts(3) [where ds = ?ds and pl = pl and data = data and kpl = kpl and kdata = kdata] by simp
    then have "is_Val (lpm_view ?ds (Node pl im data c0 c1) (bits ?ds kdata kpl)) \<longleftrightarrow> \<not> im" by simp
    moreover have "lpm_view ?ds (Node pl False (take ?ds data @ v) c0 c1) =
        (lpm_view ?ds (Node pl im data c0 c1))(bits ?ds kdata kpl := Val v)"
      using new_value_data [OF Node.prems(1)] by (intro ext) (simp add: K)
    ultimately show ?thesis
      unfolding update_slot_eqs(3) [OF exact]
      by (cases im) (simp_all add: lpm_set_value_def lpm_update_result_def lpm_may_add_def Let_def del: lpm_view.simps)
  next
    case down
    let ?b = "extract_bit ?ds kdata pl"
    have c: "prefix (bits ?ds data pl @ [?b]) (bits ?ds kdata kpl)"
      using down match_prefix prefix_child by metis
    from down Node.prems(6) have "pl < lp_max_prefixlen m" by simp
    note eq = update_slot_eqs(4) [OF down(1,2) this]
    have "lpm_wf ?ds vs (bits ?ds data pl @ [?b]) (if ?b then c1 else c0)" using Node.prems(1) down(3) by simp
    then have IH: "lpm_update_result m (bits ?ds kdata kpl) v flags (if ?b then c1 else c0)
        (lpm_update_slot m kpl kdata v flags (if ?b then c1 else c0))"
      using Node.IH [OF _ c Node.prems(3-6)] by (cases ?b) simp_all
    then show ?thesis unfolding eq
      by (cases "lpm_update_slot m kpl kdata v flags (if ?b then c1 else c0)")
        (auto simp: lpm_update_result_def view_down(1) [OF c] view_down(2) [OF c]
          simp del: lpm_view.simps)
  qed
qed

lemma delete_slot_result:
  assumes "lpm_wf ds vs p t" and "prefix p (bits ds kdata kpl)" and "kpl \<le> 8 * ds"
  shows "case lpm_delete_slot ds kpl kdata t of
      None \<Rightarrow> \<not> is_Val (lpm_view ds t (bits ds kdata kpl))
    | Some t' \<Rightarrow> is_Val (lpm_view ds t (bits ds kdata kpl)) \<and> lpm_wf ds vs p t' \<and>
        lpm_view ds t' = (lpm_view ds t)(bits ds kdata kpl := if kpl = 8 * ds then Tomb else Absent)"
  using assms
proof (induction t arbitrary: p)
  case Null
  then show ?case by simp
next
  case (Node pl im data c0 c1)
  let ?K = "bits ds kdata kpl" and ?b = "extract_bit ds kdata pl"
  show ?case
  proof (cases "longest_prefix_match ds pl data kpl kdata = pl")
    case False
    then have "\<not> prefix (bits ds data pl) ?K" using match_prefix by blast
    with False show ?thesis by (auto simp: strict_prefix_def)
  next
    case True
    then have pre: "prefix (bits ds data pl) ?K" using match_prefix by blast
    show ?thesis
    proof (cases "pl < kpl")
      case pk: True
      note c = prefix_child [OF pre pk]
      have wf: "lpm_wf ds vs (bits ds data pl @ [?b]) (if ?b then c1 else c0)" using Node.prems pk by simp
      then have IH: "case lpm_delete_slot ds kpl kdata (if ?b then c1 else c0) of
          None \<Rightarrow> \<not> is_Val (lpm_view ds (if ?b then c1 else c0) ?K)
        | Some t' \<Rightarrow> is_Val (lpm_view ds (if ?b then c1 else c0) ?K) \<and>
            lpm_wf ds vs (bits ds data pl @ [?b]) t' \<and> lpm_view ds t' =
            (lpm_view ds (if ?b then c1 else c0))(?K := if kpl = 8 * ds then Tomb else Absent)"
        using Node.IH [OF _ c Node.prems(3)] by (cases ?b) simp_all
      have eq: "lpm_delete_slot ds kpl kdata (Node pl im data c0 c1) =
          map_option (\<lambda>c. if ?b then Node pl im data c0 c else Node pl im data c c1)
            (lpm_delete_slot ds kpl kdata (if ?b then c1 else c0))"
        using True pk by (simp add: Let_def)
      show ?thesis
      proof (cases "lpm_delete_slot ds kpl kdata (if ?b then c1 else c0)")
        case None
        with IH show ?thesis unfolding eq by (simp only: view_down(1) [OF c]) simp
      next
        case (Some c')
        with IH have v: "lpm_view ds c' = (lpm_view ds (if ?b then c1 else c0))(?K := if kpl = 8 * ds then Tomb else Absent)"
          and "lpm_wf ds vs (bits ds data pl @ [?b]) c'" and "is_Val (lpm_view ds (if ?b then c1 else c0) ?K)"
          by simp_all
        then show ?thesis unfolding eq Some option.map option.case view_down(1) [OF c] view_down(2) [OF c v]
          using Node.prems(1) pk Node.prems(3) by auto
      qed
    next
      case False
      then have k: "pl = kpl" using pre prefix_length_le by fastforce
      obtain zs where zs: "?K = bits ds data pl @ zs" using pre by (auto simp: prefix_def)
      have "kpl = pl + length zs" using arg_cong [OF zs, of length] by (simp only: length_bits length_append)
      with k zs have K: "?K = bits ds data pl" by simp
      show ?thesis
      proof (cases im)
        case im: True
        then show ?thesis using True k K by simp
      next
        case im: False
        have "bits ds (take ds data) pl = bits ds data pl" using Node.prems(1) by (simp add: bits_take)
        then have "lpm_view ds (Node pl True (take ds data) c0 c1) =
            (lpm_view ds (Node pl im data c0 c1))(?K := if kpl = 8 * ds then Tomb else Absent)"
          using k K by (intro ext) auto
        then show ?thesis using True k K im Node.prems(1) by (simp add: Let_def bits_take del: lpm_view.simps) simp
      qed
    qed
  qed
qed

section \<open>Refinement of a map from prefixes to values\<close>

text \<open>
  The map as a machine.  The Boolean of an update says whether the flag is \<open>BPF_EXIST\<close> or \<open>BPF_ANY\<close>
  (\<open>BPF_NOEXIST\<close> is treated below).
\<close>

datatype lpm_op = LLookup ptr | LUpdate ptr ptr bool | LDelete ptr

fun lpm_step :: "lpm_trie \<Rightarrow> lpm_op \<Rightarrow> lpm_trie \<times> answer" where
  "lpm_step m (LLookup key) = answer_of m (bind_res (lpm_elem_lookup m key) (\<lambda>v. Inr (m, Value v)))"
| "lpm_step m (LUpdate key val exist) =
     answer_of m (bind_res (lpm_elem_update m key val (if exist then BPF_EXIST else BPF_ANY)) (\<lambda>m'. Inr (m', Done)))"
| "lpm_step m (LDelete key) = answer_of m (bind_res (lpm_elem_delete m key) (\<lambda>m'. Inr (m', Done)))"

record lpm_spec =
  ls_data_size :: nat
  ls_value_size :: nat
  ls_max_entries :: nat
  ls_cells :: "bool list \<Rightarrow> lpm_cell"

definition lpm_entries :: "(bool list \<Rightarrow> lpm_cell) \<Rightarrow> bool list set" where
  "lpm_entries S = {x. is_Val (S x)}"

text \<open>The bit string a key argument stands for.\<close>

definition lpm_arg :: "nat \<Rightarrow> ptr \<Rightarrow> bool list res" where
  "lpm_arg ds key =
     (if key = None then Inl (Errno EINVAL)
      else bind_res (arg_bytes key (4 + ds)) (\<lambda>k.
        if load_u32 k > 8 * ds then Inl (Errno EINVAL) else Inr (bits ds (drop 4 k) (load_u32 k))))"

fun lpm_spec_step :: "lpm_spec \<Rightarrow> lpm_op \<Rightarrow> lpm_spec \<times> answer" where
  "lpm_spec_step s (LLookup key) =
     (case lpm_arg (ls_data_size s) key of
        Inl e \<Rightarrow> (s, Failed e)
      | Inr K \<Rightarrow>
          (case longest_match (ls_cells s) K of
             None \<Rightarrow> (s, Failed (Errno ENOENT))
           | Some v \<Rightarrow> (s, Value v)))"
| "lpm_spec_step s (LUpdate key val exist) =
     (if val = None then (s, Failed (Errno EINVAL))
      else case lpm_arg (ls_data_size s) key of
        Inl e \<Rightarrow> (s, Failed e)
      | Inr K \<Rightarrow>
          (case arg_bytes val (ls_value_size s) of
             Inl e \<Rightarrow> (s, Failed e)
           | Inr v \<Rightarrow>
               if \<not> is_Val (ls_cells s K) \<and> exist then (s, Failed (Errno ENOENT))
               else if \<not> is_Val (ls_cells s K) \<and> card (lpm_entries (ls_cells s)) \<ge> ls_max_entries s
               then (s, Failed (Errno ENOSPC))
               else (s\<lparr>ls_cells := (ls_cells s)(K := Val v)\<rparr>, Done)))"
| "lpm_spec_step s (LDelete key) =
     (case lpm_arg (ls_data_size s) key of
        Inl e \<Rightarrow> (s, Failed e)
      | Inr K \<Rightarrow>
          if \<not> is_Val (ls_cells s K) then (s, Failed (Errno ENOENT))
          else (s\<lparr>ls_cells := (ls_cells s)(K := if length K = 8 * ls_data_size s then Tomb else Absent)\<rparr>, Done))"

definition lpm_abs :: "lpm_trie \<Rightarrow> lpm_spec" where
  "lpm_abs m = \<lparr>ls_data_size = lp_data_size m, ls_value_size = lp_value_size m, ls_max_entries = lp_max_entries m,
     ls_cells = lpm_view (lp_data_size m) (lp_root m)\<rparr>"

definition lpm_inv :: "lpm_trie \<Rightarrow> bool" where
  "lpm_inv m \<longleftrightarrow>
     lp_key_size m = 4 + lp_data_size m \<and> lp_max_prefixlen m = 8 * lp_data_size m \<and>
     lpm_wf (lp_data_size m) (lp_value_size m) [] (lp_root m) \<and>
     finite (lpm_entries (lpm_view (lp_data_size m) (lp_root m))) \<and>
     lp_n_entries m = card (lpm_entries (lpm_view (lp_data_size m) (lp_root m))) \<and>
     lp_n_entries m \<le> lp_max_entries m"

lemma entries_update:
  "lpm_entries (S(K := c)) = (if is_Val c then insert K (lpm_entries S) else lpm_entries S - {K})"
  by (auto simp: lpm_entries_def)

lemma load_u32_take: "load_u32 (take 4 k) = load_u32 k"
  by (simp add: load_u32_def)

text \<open>Each operation first turns its key argument into a bit string.\<close>

definition checked_key :: "lpm_trie \<Rightarrow> ptr \<Rightarrow> (nat \<times> bytes) res" where
  "checked_key m key =
     (if key = None then Inl (Errno EINVAL)
      else bind_res (lpm_key m key) (\<lambda>(kpl, kdata). if kpl > lp_max_prefixlen m then Inl (Errno EINVAL) else Inr (kpl, kdata)))"

lemma checked_key_cases:
  assumes "lpm_inv m"
  obtains (bad) e where "lpm_arg (lp_data_size m) key = Inl e" "checked_key m key = Inl e"
    | (good) kpl kdata where "lpm_arg (lp_data_size m) key = Inr (bits (lp_data_size m) kdata kpl)"
        "kpl \<le> 8 * lp_data_size m" "length kdata = lp_data_size m" "checked_key m key = Inr (kpl, kdata)"
proof (cases "key = None \<or> arg_bytes key (4 + lp_data_size m) = Inl Fault")
  case True
  then show ?thesis
    using that(1) [of "if key = None then Errno EINVAL else Fault"] assms
    by (auto simp: lpm_arg_def checked_key_def lpm_key_def lpm_inv_def)
next
  case False
  then obtain k where k: "key \<noteq> None" "arg_bytes key (4 + lp_data_size m) = Inr k"
    by (cases "arg_bytes key (4 + lp_data_size m)") (auto simp: arg_bytes_def of_opt_eq_Inl)
  then have "length k = 4 + lp_data_size m" by (auto dest: length_arg_bytes)
  moreover have "lp_key_size m = 4 + lp_data_size m" "lp_max_prefixlen m = 8 * lp_data_size m"
    using assms by (simp_all add: lpm_inv_def)
  ultimately show ?thesis
    using that(2) [of "drop 4 k" "load_u32 k"] that(1) [of "Errno EINVAL"] k
    by (cases "load_u32 k \<le> 8 * lp_data_size m") (simp_all add: lpm_arg_def checked_key_def lpm_key_def load_u32_take)
qed

lemma elem_checked:
  "lpm_elem_lookup m key =
     bind_res (checked_key m key) (\<lambda>(kpl, kdata).
       case lpm_walk (lp_data_size m) (lp_max_prefixlen m) kpl kdata (lp_root m) None of
            None \<Rightarrow> Inl (Errno ENOENT)
          | Some found \<Rightarrow>
              (case get_node_value_data (lp_data_size m) found of
                 None \<Rightarrow> Inl (Errno ENOENT)
               | Some src \<Rightarrow> of_opt (load src 0 (lp_value_size m))))"
  "lpm_elem_delete m key =
     bind_res (checked_key m key) (\<lambda>(kpl, kdata).
       case lpm_delete_slot (lp_data_size m) kpl kdata (lp_root m) of
            None \<Rightarrow> Inl (Errno ENOENT)
          | Some t \<Rightarrow>
              Inr (m\<lparr>lp_root := t,
                     lp_n_entries := (if lp_n_entries m > 0 then lp_n_entries m - 1 else lp_n_entries m)\<rparr>))"
  "val \<noteq> None \<Longrightarrow> is_good_update_flag flags \<Longrightarrow> lpm_elem_update m key val flags =
     bind_res (checked_key m key) (\<lambda>(kpl, kdata).
          bind_res (arg_bytes val (lp_value_size m)) (\<lambda>v.
          bind_res (lpm_update_slot m kpl kdata v flags (lp_root m)) (\<lambda>(t, new).
          Inr (m\<lparr>lp_root := t, lp_n_entries := lp_n_entries m + (if new then 1 else 0)\<rparr>))))"
  by (cases "lpm_key m key"; auto simp: lpm_elem_lookup_def lpm_elem_delete_def lpm_elem_update_def checked_key_def
      is_good_update_flag_def flag_defs)+

lemma view_length: "lpm_wf ds vs p t \<Longrightarrow> lpm_view ds t x = Val v \<Longrightarrow> length v = vs"
  by (induction t arbitrary: p) (auto split: if_splits)

lemma pick_value: "foldl (lpm_pick S K) b ls = Some v \<Longrightarrow> b = Some v \<or> (\<exists>l. S (take l K) = Val v)"
  by (induction ls arbitrary: b) (fastforce simp: lpm_pick_def split: lpm_cell.splits)+

lemma walk_longest:
  assumes wf: "lpm_wf ds vs [] t" and "kpl \<le> 8 * ds"
  shows "(case lpm_walk ds (8 * ds) kpl kdata t None of
        None \<Rightarrow> Inl (Errno ENOENT)
      | Some found \<Rightarrow>
          (case get_node_value_data ds found of
             None \<Rightarrow> Inl (Errno ENOENT) | Some src \<Rightarrow> of_opt (load src 0 vs))) =
      (case longest_match (lpm_view ds t) (bits ds kdata kpl) of None \<Rightarrow> Inl (Errno ENOENT) | Some v \<Rightarrow> Inr v)"
proof -
  have eq: "lpm_found ds (lpm_walk ds (8 * ds) kpl kdata t None) = longest_match (lpm_view ds t) (bits ds kdata kpl)"
    using walk_pick [OF wf _ assms(2), of kdata None] by (simp add: longest_match_def del: upt_Suc)
  have "load v 0 vs = Some v" if "longest_match (lpm_view ds t) (bits ds kdata kpl) = Some v" for v
    using pick_value [OF that [unfolded longest_match_def]] view_length [OF wf] by (auto simp: load_def)
  then show ?thesis unfolding eq [symmetric]
    by (auto split: option.splits simp del: node_value_pair)
qed

lemma update_refines:
  assumes inv: "lpm_inv m" and K: "kpl \<le> 8 * lp_data_size m" "length kdata = lp_data_size m"
    and v: "length v = lp_value_size m"
  shows "case lpm_update_slot m kpl kdata v flags (lp_root m) of
      Inl e \<Rightarrow> \<not> is_Val (lpm_view (lp_data_size m) (lp_root m) (bits (lp_data_size m) kdata kpl)) \<and> lpm_may_add m flags = Some e
        \<or> flags = 1 \<and> e = Errno EEXIST
    | Inr (t, new) \<Rightarrow>
        let m' = m\<lparr>lp_root := t, lp_n_entries := lp_n_entries m + (if new then 1 else 0)\<rparr>
        in lpm_inv m' \<and>
           lpm_abs m' = lpm_abs m\<lparr>ls_cells := (ls_cells (lpm_abs m))(bits (lp_data_size m) kdata kpl := Val v)\<rparr> \<and>
           (new \<longleftrightarrow> \<not> is_Val (lpm_view (lp_data_size m) (lp_root m) (bits (lp_data_size m) kdata kpl))) \<and>
           (new \<longrightarrow> lpm_may_add m flags = None) \<and> (\<not> new \<longrightarrow> flags \<noteq> 1)"
proof -
  let ?ds = "lp_data_size m" and ?K = "bits (lp_data_size m) kdata kpl"
  have wf: "lpm_wf ?ds (lp_value_size m) [] (lp_root m)" and mx: "lp_max_prefixlen m = 8 * ?ds"
    and n: "lp_n_entries m = card (lpm_entries (lpm_view ?ds (lp_root m)))"
    and fin: "finite (lpm_entries (lpm_view ?ds (lp_root m)))"
    and ks: "lp_key_size m = 4 + ?ds" and cap: "lp_n_entries m \<le> lp_max_entries m"
    using inv by (simp_all add: lpm_inv_def)
  note res = update_slot_result [OF wf Nil_prefix K(2) v K(1) mx, of flags]
  show ?thesis
  proof (cases "lpm_update_slot m kpl kdata v flags (lp_root m)")
    case (Inl e)
    with res show ?thesis by (simp add: lpm_update_result_def)
  next
    case (Inr r)
    obtain t new where r: "r = (t, new)" by (cases r)
    from update_slot_wf [OF wf Nil_prefix K(2) v K(1) mx Inr [unfolded r]]
    have wf': "lpm_wf ?ds (lp_value_size m) [] t" .
    have view: "lpm_view ?ds t = (lpm_view ?ds (lp_root m))(?K := Val v)"
      and new: "new \<longleftrightarrow> \<not> is_Val (lpm_view ?ds (lp_root m) ?K)"
      and rest: "new \<longrightarrow> lpm_may_add m flags = None" "\<not> new \<longrightarrow> flags \<noteq> 1"
      using res Inr r by (simp_all add: lpm_update_result_def)
    have "lpm_entries (lpm_view ?ds t) = insert ?K (lpm_entries (lpm_view ?ds (lp_root m)))"
      unfolding view entries_update by simp
    moreover have "?K \<in> lpm_entries (lpm_view ?ds (lp_root m)) \<longleftrightarrow> \<not> new" using new by (simp add: lpm_entries_def)
    ultimately have "card (lpm_entries (lpm_view ?ds t)) = lp_n_entries m + (if new then 1 else 0)"
      "finite (lpm_entries (lpm_view ?ds t))"
      using n fin by (auto simp: card_insert_if)
    moreover have "lp_n_entries m + (if new then 1 else 0) \<le> lp_max_entries m"
      using rest(1) cap by (auto simp: lpm_may_add_def split: if_splits)
    ultimately show ?thesis
      using wf' view new rest unfolding Inr r by (simp add: lpm_inv_def lpm_abs_def mx ks Let_def)
  qed
qed

lemma delete_refines:
  assumes inv: "lpm_inv m" and K: "kpl \<le> 8 * lp_data_size m"
    and t: "lpm_delete_slot (lp_data_size m) kpl kdata (lp_root m) = Some t"
  shows "lpm_inv (m\<lparr>lp_root := t, lp_n_entries := (if lp_n_entries m > 0 then lp_n_entries m - 1 else lp_n_entries m)\<rparr>)"
proof -
  let ?ds = "lp_data_size m" and ?K = "bits (lp_data_size m) kdata kpl"
  have wf: "lpm_wf ?ds (lp_value_size m) [] (lp_root m)" using inv by (simp add: lpm_inv_def)
  from delete_slot_result [OF wf Nil_prefix K, of kdata] t
  have d: "is_Val (lpm_view ?ds (lp_root m) ?K)" "lpm_wf ?ds (lp_value_size m) [] t"
    "lpm_view ?ds t = (lpm_view ?ds (lp_root m))(?K := if kpl = 8 * ?ds then Tomb else Absent)"
    by simp_all
  have "lpm_entries (lpm_view ?ds t) = lpm_entries (lpm_view ?ds (lp_root m)) - {?K}"
    unfolding d(3) entries_update by simp
  moreover have "?K \<in> lpm_entries (lpm_view ?ds (lp_root m))" using d(1) by (simp add: lpm_entries_def)
  moreover have fin: "finite (lpm_entries (lpm_view ?ds (lp_root m)))"
    and n: "lp_n_entries m = card (lpm_entries (lpm_view ?ds (lp_root m)))" and le: "lp_n_entries m \<le> lp_max_entries m"
    using inv by (simp_all add: lpm_inv_def)
  ultimately have "card (lpm_entries (lpm_view ?ds t)) = lp_n_entries m - 1" "finite (lpm_entries (lpm_view ?ds t))"
    "0 < lp_n_entries m"
    by (simp_all add: card_gt_0_iff) blast
  moreover have "card (lpm_entries (lpm_view ?ds (lp_root m))) - Suc 0 \<le> lp_max_entries m" using le n by simp
  ultimately show ?thesis using d(2) inv by (simp add: lpm_inv_def)
qed

lemma lpm_step_refines:
  assumes inv: "lpm_inv m"
  shows "lpm_inv (fst (lpm_step m op)) \<and>
    (lpm_abs (fst (lpm_step m op)), snd (lpm_step m op)) = lpm_spec_step (lpm_abs m) op"
proof (cases op)
  case op: (LLookup key)
  have wf: "lpm_wf (lp_data_size m) (lp_value_size m) [] (lp_root m)" and mx: "lp_max_prefixlen m = 8 * lp_data_size m"
    using inv by (simp_all add: lpm_inv_def)
  from inv show ?thesis
    by (cases rule: checked_key_cases [where key = key])
      (auto simp: op elem_checked mx walk_longest [OF wf] inv lpm_abs_def split: option.splits)
next
  case op: (LDelete key)
  have wf: "lpm_wf (lp_data_size m) (lp_value_size m) [] (lp_root m)" using inv by (simp add: lpm_inv_def)
  from inv show ?thesis
  proof (cases rule: checked_key_cases [where key = key])
    case (good kpl kdata)
    from delete_slot_result [OF wf Nil_prefix good(2), of kdata] good delete_refines [OF inv good(2), of kdata]
    show ?thesis
      by (cases "lpm_delete_slot (lp_data_size m) kpl kdata (lp_root m)")
        (simp_all add: op elem_checked inv lpm_abs_def)
  qed (simp add: op elem_checked inv lpm_abs_def)
next
  case op: (LUpdate key val exist)
  let ?flags = "if exist then BPF_EXIST else BPF_ANY"
  have good: "is_good_update_flag ?flags" and no: "?flags \<noteq> 1" "?flags = 2 \<longleftrightarrow> exist" by (simp_all add: is_good_update_flag_def flag_defs)
  show ?thesis
  proof (cases "val = None")
    case True
    then show ?thesis using inv by (simp add: op lpm_elem_update_def)
  next
    case False
    note upd = elem_checked(3) [OF False good]
    from inv show ?thesis
    proof (cases rule: checked_key_cases [where key = key])
      case K: (good kpl kdata)
      show ?thesis
      proof (cases "arg_bytes val (lp_value_size m)")
        case (Inl e)
        then show ?thesis using K(1,4) False inv by (auto simp: op upd lpm_abs_def)
      next
        case (Inr v)
        then have "length v = lp_value_size m" by (rule length_arg_bytes)
        note r = update_refines [OF inv K(2,3) this, of ?flags]
        have n: "lp_n_entries m = card (lpm_entries (lpm_view (lp_data_size m) (lp_root m)))" using inv by (simp add: lpm_inv_def)
        show ?thesis
        proof (cases "lpm_update_slot m kpl kdata v ?flags (lp_root m)")
          case e: (Inl e)
          with r no show ?thesis using K(1,4) False inv Inr n
            by (auto simp: op upd lpm_abs_def lpm_may_add_def split: if_splits)
        next
          case e: (Inr tn)
          obtain t new where "tn = (t, new)" by (cases tn)
          with e r no show ?thesis using K(1,4) False inv Inr n
            by (auto simp: op upd lpm_abs_def lpm_may_add_def Let_def split: if_splits)
        qed
      qed
    qed (use False inv in \<open>auto simp: op upd lpm_abs_def\<close>)
  qed
qed

interpretation lpm_sim: simulation lpm_inv lpm_abs lpm_step lpm_spec_step
proof
  fix m op
  assume "lpm_inv m"
  from lpm_step_refines [OF this, of op] show "lpm_inv (fst (lpm_step m op))"
    "lpm_abs (fst (lpm_step m op)) = fst (lpm_spec_step (lpm_abs m) op)"
    "snd (lpm_step m op) = snd (lpm_spec_step (lpm_abs m) op)"
    by (metis fst_conv snd_conv)+
qed

lemma lpm_init:
  assumes "lpm_trie_map_impl ks vs me = Inr m"
  shows "lpm_inv m"
    and "lpm_abs m = \<lparr>ls_data_size = ks - 4, ls_value_size = vs, ls_max_entries = me, ls_cells = (\<lambda>_. Absent)\<rparr>"
  using assms
  by (auto simp: lpm_trie_map_impl_def lpm_inv_def lpm_abs_def lpm_entries_def LPM_KEY_SIZE_MIN_def split: if_splits)

lemma spec_keeps_sizes:
  "ls_data_size (fst (run_ops lpm_spec_step s ops)) = ls_data_size s \<and>
   ls_value_size (fst (run_ops lpm_spec_step s ops)) = ls_value_size s \<and>
   ls_max_entries (fst (run_ops lpm_spec_step s ops)) = ls_max_entries s"
proof (induction ops arbitrary: s)
  case (Cons op ops)
  have "ls_data_size (fst (lpm_spec_step s op)) = ls_data_size s \<and> ls_value_size (fst (lpm_spec_step s op)) = ls_value_size s \<and>
      ls_max_entries (fst (lpm_spec_step s op)) = ls_max_entries s"
    by (cases op) (auto split: sum.splits option.splits)
  with Cons show ?case by simp
qed simp

lemma lpm_run:
  assumes "lpm_trie_map_impl ks vs me = Inr m"
  shows "lpm_inv (fst (run_ops lpm_step m ops))" and "lp_data_size (fst (run_ops lpm_step m ops)) = ks - 4"
    and "lp_max_entries (fst (run_ops lpm_step m ops)) = me" and "lp_value_size (fst (run_ops lpm_step m ops)) = vs"
proof -
  note init = lpm_init [OF assms]
  show "lpm_inv (fst (run_ops lpm_step m ops))" by (rule lpm_sim.run_inv [OF init(1)])
  have "lpm_abs (fst (run_ops lpm_step m ops)) = fst (run_ops lpm_spec_step (lpm_abs m) ops)"
    using lpm_sim.run_refines [OF init(1)] by blast
  with spec_keeps_sizes [of "lpm_abs m" ops] init(2)
  have "ls_data_size (lpm_abs (fst (run_ops lpm_step m ops))) = ks - 4"
    "ls_max_entries (lpm_abs (fst (run_ops lpm_step m ops))) = me"
    "ls_value_size (lpm_abs (fst (run_ops lpm_step m ops))) = vs" by simp_all
  then show "lp_data_size (fst (run_ops lpm_step m ops)) = ks - 4" "lp_max_entries (fst (run_ops lpm_step m ops)) = me"
    "lp_value_size (fst (run_ops lpm_step m ops)) = vs"
    by (simp_all add: lpm_abs_def)
qed

text \<open>
  C8.  Every sequence of lookups, updates with \<open>BPF_ANY\<close> or \<open>BPF_EXIST\<close> and deletions on a new trie
  answers as a map from bit strings to values does in which a lookup gives the value of the longest
  stored prefix of the key, except that a deleted prefix of full length keeps shadowing the shorter
  ones; the entry counter is the number of stored prefixes and stays within \<open>max_entries\<close>.
\<close>

theorem lpm_refines_prefix_map:
  assumes "lpm_trie_map_impl ks vs me = Inr m"
  shows "snd (run_ops lpm_step m ops) =
      snd (run_ops lpm_spec_step
        \<lparr>ls_data_size = ks - 4, ls_value_size = vs, ls_max_entries = me, ls_cells = (\<lambda>_. Absent)\<rparr> ops) \<and>
    (let m' = fst (run_ops lpm_step m ops)
     in lp_n_entries m' = card (lpm_entries (lpm_view (lp_data_size m') (lp_root m'))) \<and> lp_n_entries m' \<le> me)"
  using lpm_sim.run_refines [OF lpm_init(1) [OF assms], of ops] lpm_run [OF assms, of ops] lpm_init(2) [OF assms]
  by (simp add: lpm_inv_def Let_def)

lemma view_tomb: "lpm_wf ds vs p t \<Longrightarrow> lpm_view ds t x = Tomb \<Longrightarrow> length x = 8 * ds"
  by (induction t arbitrary: p) (auto split: if_splits)

text \<open>
  C11.  In every state reached so, a lookup of a key shorter than the full length gives \<open>v\<close> exactly
  when \<open>v\<close> is stored at a prefix of the key and no longer prefix of the key is stored.
\<close>

theorem lpm_lookup_longest:
  assumes "lpm_trie_map_impl ks vs me = Inr m" and "m' = fst (run_ops lpm_step m ops)"
    and "lpm_arg (ks - 4) key = Inr K" and "length K < 8 * (ks - 4)"
  shows "lpm_elem_lookup m' key = Inr v \<longleftrightarrow>
    (\<exists>l \<le> length K. lpm_view (ks - 4) (lp_root m') (take l K) = Val v \<and>
      (\<forall>l'. l < l' \<and> l' \<le> length K \<longrightarrow> lpm_view (ks - 4) (lp_root m') (take l' K) = Absent))"
proof -
  note run = lpm_run(1,2) [OF assms(1), of ops, folded assms(2)]
  have "lpm_wf (ks - 4) (lp_value_size m') [] (lp_root m')" using run by (simp add: lpm_inv_def)
  then have tomb: "\<And>x. lpm_view (ks - 4) (lp_root m') x = Tomb \<Longrightarrow> length x > length K"
    using view_tomb assms(4) by metis
  have "snd (lpm_step m' (LLookup key)) = snd (lpm_spec_step (lpm_abs m') (LLookup key))"
    using lpm_sim.step_answer [OF run(1)] .
  then have "lpm_elem_lookup m' key = Inr v \<longleftrightarrow> longest_match (lpm_view (ks - 4) (lp_root m')) K = Some v"
    using assms(3) run(2) by (cases "lpm_elem_lookup m' key") (auto simp: lpm_abs_def split: option.splits)
  then show ?thesis using longest_match_Some [OF tomb] by simp
qed

lemma delete_slot_node:
  assumes "lpm_delete_slot ds kpl kdata t = Some t'" and "lp_data_size m = ds" and "lp_max_prefixlen m = 8 * ds"
    and "lpm_wf ds vs p t" and "kpl \<le> 8 * ds"
  shows "lpm_update_slot m kpl kdata v 1 t' = Inl (Errno EEXIST)"
  using assms
proof (induction t arbitrary: t' p)
  case Null
  then show ?case by simp
next
  case (Node pl im data c0 c1)
  let ?m = "longest_prefix_match ds pl data kpl kdata"
  show ?case
  proof (cases "?m = pl \<and> pl \<noteq> kpl")
    case True
    then have "pl < kpl" using match_facts(2) [where ds = ds and pl = pl and data = data and kpl = kpl and kdata = kdata] by simp
    with True Node.prems have "pl < 8 * ds" "pl \<noteq> 8 * ds" by auto
    with True Node show ?thesis by (auto simp: Let_def split: if_splits)
  next
    case False
    with Node.prems have t': "t' = Node pl True (take ds data) c0 c1" "kpl = pl" "?m = kpl"
      by (auto simp: Let_def split: if_splits)
    have "bits ds (take ds data) pl = bits ds data pl" using Node.prems(4) by (simp add: bits_take)
    then have "longest_prefix_match ds pl (take ds data) kpl kdata = pl"
      using t' match_prefix by metis
    then show ?thesis unfolding t'(1) using t' Node.prems(2)
      by (subst update_slot_eqs(3)) (auto simp: lpm_set_value_def)
  qed
qed

lemma delete_leaves_node:
  assumes "lpm_trie_map_impl ks vs me = Inr m" and "m' = fst (run_ops lpm_step m ops)"
    and "lpm_elem_delete m' key = Inr d" and "vs \<le> length val" and "lpm_arg (ks - 4) key = Inr K"
  shows "lpm_elem_update d key (Some val) BPF_NOEXIST = Inl (Errno EEXIST)"
    and "length K = 8 * (ks - 4) \<Longrightarrow> lpm_elem_lookup d key = Inl (Errno ENOENT)"
proof -
  note run = lpm_run [OF assms(1), of ops, folded assms(2)]
  have d: "lpm_inv d" and del: "lpm_spec_step (lpm_abs m') (LDelete key) = (lpm_abs d, Done)"
    using lpm_step_refines [OF run(1), of "LDelete key"] assms(3) by simp_all
  from run(1) show "lpm_elem_update d key (Some val) BPF_NOEXIST = Inl (Errno EEXIST)"
  proof (cases rule: checked_key_cases [where key = key])
    case (bad e)
    then show ?thesis using assms(3) by (simp add: elem_checked)
  next
    case (good kpl kdata)
    with assms(3) run(2) obtain t n where t: "lpm_delete_slot (ks - 4) kpl kdata (lp_root m') = Some t"
      and m: "d = m'\<lparr>lp_root := t, lp_n_entries := n\<rparr>"
      by (auto simp: elem_checked split: option.splits)
    have same: "lp_data_size d = ks - 4" "lp_max_prefixlen d = 8 * (ks - 4)" "lp_value_size d = vs"
      and root: "lp_root d = t" and "checked_key d key = checked_key m' key"
      using run by (simp_all add: m lpm_inv_def checked_key_def lpm_key_def)
    note good = good this(5)
    have "lpm_update_slot d kpl kdata v 1 t = Inl (Errno EEXIST)" for v
      using delete_slot_node [OF t same(1,2)] run(1,2) good(2) by (metis lpm_inv_def)
    then show ?thesis
      using elem_checked(3) [of "Some val" BPF_NOEXIST d key] same good(4,5) assms(4) root
      by (simp add: is_good_update_flag_def flag_defs arg_bytes_Some)
  qed
  show "lpm_elem_lookup d key = Inl (Errno ENOENT)" if "length K = 8 * (ks - 4)"
  proof -
    have cells: "ls_cells (lpm_abs d) = (ls_cells (lpm_abs m'))(K := Tomb)" and size: "lp_data_size d = ks - 4"
      using del assms(5) that run(2) by (auto simp: lpm_abs_def split: if_splits)
    have "longest_match (ls_cells (lpm_abs d)) K = None"
      unfolding longest_match_def cells by (subst pick_last [where l = "length K"]) simp_all
    with lpm_sim.step_answer [OF d, of "LLookup key"] assms(5) size show ?thesis
      by (cases "lpm_elem_lookup d key") (auto simp: lpm_abs_def)
  qed
qed

text \<open>
  C37.  A deleted entry still blocks: right after a successful deletion an update of the same key with
  \<open>BPF_NOEXIST\<close> fails with \<open>EEXIST\<close>, and for a key of full length a lookup fails with \<open>ENOENT\<close> even
  when a shorter prefix of the key is stored.
\<close>

theorem lpm_delete_blocks:
  assumes "lpm_trie_map_impl ks vs me = Inr m" and "m' = fst (run_ops lpm_step m ops)"
    and "lpm_elem_delete m' key = Inr d" and "vs \<le> length val" and "lpm_arg (ks - 4) key = Inr K"
  shows "lpm_elem_update d key (Some val) BPF_NOEXIST = Inl (Errno EEXIST) \<and>
    (length K = 8 * (ks - 4) \<longrightarrow> lpm_elem_lookup d key = Inl (Errno ENOENT))"
  using delete_leaves_node [OF assms] by blast

section \<open>A trie with a default route and a host route\<close>

abbreviation lpm_demo :: lpm_trie where
  "lpm_demo \<equiv> \<lparr>lp_key_size = 5, lp_value_size = 1, lp_max_entries = 2, lp_data_size = 1, lp_max_prefixlen = 8,
     lp_root = Null, lp_n_entries = 0\<rparr>"

abbreviation demo_ops :: "lpm_op list" where
  "demo_ops \<equiv> [LUpdate (Some [0, 0, 0, 0, 0]) (Some [7]) False, LUpdate (Some [8, 0, 0, 0, 160]) (Some [9]) False]"

lemma demo_init: "lpm_trie_map_impl 5 1 2 = Inr lpm_demo"
  by code_simp

lemma demo_run: "fst (run_ops lpm_step lpm_demo demo_ops) =
   lpm_demo\<lparr>lp_root := Node 0 False [0, 7] Null (Node 8 False [160, 9] Null Null), lp_n_entries := 2\<rparr>"
  by code_simp

lemma demo_eval:
  "snd (run_ops lpm_step lpm_demo (demo_ops @ [LLookup (Some [8, 0, 0, 0, 160]), LLookup (Some [7, 0, 0, 0, 160])])) =
     [Done, Done, Value [9], Value [7]]"
  "lpm_arg 1 (Some [7, 0, 0, 0, 160]) = Inr [True, False, True, False, False, False, False]"
  "lpm_arg 1 (Some [8, 0, 0, 0, 160]) = Inr [True, False, True, False, False, False, False, False]"
  by code_simp+

lemma demo_delete:
  "lpm_elem_delete (lpm_demo\<lparr>lp_root := Node 0 False [0, 7] Null (Node 8 False [160, 9] Null Null), lp_n_entries := 2\<rparr>)
     (Some [8, 0, 0, 0, 160]) =
   Inr (lpm_demo\<lparr>lp_root := Node 0 False [0, 7] Null (Node 8 True [160] Null Null), lp_n_entries := 1\<rparr>)"
  by code_simp

theorem lpm_refines_prefix_map_witness:
  "\<exists>m. lpm_trie_map_impl 5 1 2 = Inr m \<and>
     snd (run_ops lpm_spec_step
       \<lparr>ls_data_size = 5 - 4, ls_value_size = 1, ls_max_entries = 2, ls_cells = (\<lambda>_. Absent)\<rparr>
       (demo_ops @ [LLookup (Some [8, 0, 0, 0, 160]), LLookup (Some [7, 0, 0, 0, 160])])) =
     [Done, Done, Value [9], Value [7]]"
  using lpm_refines_prefix_map [OF demo_init, of "demo_ops @ [LLookup (Some [8, 0, 0, 0, 160]), LLookup (Some [7, 0, 0, 0, 160])]"]
    demo_init demo_eval(1) by metis

theorem lpm_lookup_longest_witness:
  "\<exists>m v. m = fst (run_ops lpm_step lpm_demo demo_ops) \<and> lpm_elem_lookup m (Some [7, 0, 0, 0, 160]) = Inr v \<and>
     (\<exists>l \<le> 7. lpm_view 1 (lp_root m) (take l [True, False, True, False, False, False, False]) = Val v)"
proof -
  let ?m = "fst (run_ops lpm_step lpm_demo demo_ops)" and ?K = "[True, False, True, False, False, False, False]"
  have "lpm_elem_lookup ?m (Some [7, 0, 0, 0, 160]) = Inr [7]" unfolding demo_run by code_simp
  moreover have "lpm_arg (5 - 4) (Some [7, 0, 0, 0, 160]) = Inr ?K" "length ?K < 8 * (5 - 4)"
    using demo_eval(2) by simp_all
  note lpm_lookup_longest [OF demo_init refl this, of demo_ops "[7]"]
  ultimately show ?thesis by fastforce
qed

theorem lpm_delete_blocks_witness:
  "\<exists>d. lpm_elem_delete (fst (run_ops lpm_step lpm_demo demo_ops)) (Some [8, 0, 0, 0, 160]) = Inr d \<and>
     lpm_elem_update d (Some [8, 0, 0, 0, 160]) (Some [1]) BPF_NOEXIST = Inl (Errno EEXIST) \<and>
     lpm_elem_lookup d (Some [8, 0, 0, 0, 160]) = Inl (Errno ENOENT) \<and>
     lpm_elem_lookup d (Some [7, 0, 0, 0, 160]) = Inr [7]"
proof -
  let ?d = "lpm_demo\<lparr>lp_root := Node 0 False [0, 7] Null (Node 8 True [160] Null Null), lp_n_entries := 1\<rparr>"
  have seven: "lpm_elem_lookup ?d (Some [7, 0, 0, 0, 160]) = Inr [7]" by code_simp
  have arg: "lpm_arg (5 - 4) (Some [8, 0, 0, 0, 160]) = Inr [True, False, True, False, False, False, False, False]"
    using demo_eval(3) by simp
  have del: "lpm_elem_delete (fst (run_ops lpm_step lpm_demo demo_ops)) (Some [8, 0, 0, 0, 160]) = Inr ?d"
    unfolding demo_run by (rule demo_delete)
  from lpm_delete_blocks [OF demo_init refl del _ arg, of "[1]"] del seven
  show ?thesis by auto
qed

text \<open>Iteration gives at most one key: with a key argument \<open>map_get_next_key\<close> always fails.\<close>

lemma lpm_iteration_one_key:
  "walk_keys (\<lambda>k. lpm_map_get_next_key m k True) n None = Some (ks, e) \<Longrightarrow> length ks \<le> 1"
proof (cases n)
  case (Suc n')
  assume "walk_keys (\<lambda>k. lpm_map_get_next_key m k True) n None = Some (ks, e)"
  then show ?thesis unfolding Suc
    by (cases n') (auto simp: lpm_map_get_next_key_def split: sum.splits option.splits if_splits)
qed simp

end
