(* ===== verification/Stack_Trace_Map.thy ===== *)
theory Stack_Trace_Map
  imports Unordered_Map
begin

text \<open>
  The stack trace map (\<open>src/runtime/src/bpf_map/userspace/stack_trace_map.cpp\<close>).  Traces are stored in
  a \<open>boost::unordered_map\<close> (the argument \<open>U\<close>) under the hash of the trace modulo \<open>max_entries\<close>; the hash
  is folded with \<open>boost::hash_combine\<close> (the argument \<open>hc\<close>: seed and value to the new seed).  A lookup
  returns a pointer to the vector of the trace; the model returns the vector.
\<close>

section \<open>The operations\<close>

record 'c stack_trace =
  st_max_stack_entries :: nat
  st_max_entries :: nat
  st_data :: 'c
  st_key_buf :: "u64 list"

definition hash_stack_trace :: "(u64 \<Rightarrow> u64 \<Rightarrow> u64) \<Rightarrow> u64 list \<Rightarrow> u64" where
  "hash_stack_trace hc stk = foldl hc (hc 0 (word_of_nat (length stk))) stk"

definition stack_trace_map_impl ::
  "('c, nat, u64 list) umap \<Rightarrow> nat \<Rightarrow> nat \<Rightarrow> nat \<Rightarrow> 'c stack_trace res" where
  "stack_trace_map_impl U key_size value_size max_entries =
     (if key_size \<noteq> 4 then Inl Throw
      else if value_size mod 8 \<noteq> 0 then Inl Throw
      else Inr \<lparr>st_max_stack_entries = value_size div 8, st_max_entries = max_entries, st_data = um_empty U,
                st_key_buf = replicate (value_size div 8) 0\<rparr>)"

definition st_elem_lookup :: "('c, nat, u64 list) umap \<Rightarrow> 'c stack_trace \<Rightarrow> ptr \<Rightarrow> u64 list res" where
  "st_elem_lookup U m key =
     (if key = None then Inl (Errno EINVAL)
      else
        bind_res (arg_u32 key) (\<lambda>index.
        case um_find U (st_data m) index of None \<Rightarrow> Inl (Errno ENOENT) | Some v \<Rightarrow> Inr v))"

definition st_elem_update :: "'c stack_trace \<Rightarrow> ptr \<Rightarrow> ptr \<Rightarrow> nat \<Rightarrow> 'c stack_trace res" where
  "st_elem_update m key value flags = Inl (RetNeg ENOTSUP)"

definition st_elem_delete :: "('c, nat, u64 list) umap \<Rightarrow> 'c stack_trace \<Rightarrow> ptr \<Rightarrow> 'c stack_trace res" where
  "st_elem_delete U m key =
     (if key = None then Inl (Errno EINVAL)
      else
        bind_res (arg_u32 key) (\<lambda>index.
        if um_find U (st_data m) index = None then Inl (Errno ENOENT)
        else Inr (m\<lparr>st_data := um_erase U (st_data m) index\<rparr>)))"

definition st_map_get_next_key :: "'c stack_trace \<Rightarrow> ptr \<Rightarrow> bytes res" where
  "st_map_get_next_key m key = Inl (Errno ENOTSUP)"

text \<open>The \<open>int\<close> that the 64-bit slot number is returned as.\<close>

definition int_of_hash :: "nat \<Rightarrow> int" where
  "int_of_hash n = (let k = n mod 2 ^ 32 in if k < 2 ^ 31 then int k else int k - 2 ^ 32)"

text \<open>
  The comparison of \<open>fill_stack_trace\<close> with the stored trace.  The element-wise comparison stands
  under \<open>if (!equals)\<close>.
\<close>

definition st_equals :: "bool \<Rightarrow> u64 list \<Rightarrow> u64 list \<Rightarrow> bool" where
  "st_equals compare_only_by_hash old stk =
     (let equals = True
      in if \<not> compare_only_by_hash
         then let equals = equals \<and> length old = length stk
              in if \<not> equals then equals \<and> old = stk else equals
         else equals)"

definition fill_stack_trace ::
  "('c, nat, u64 list) umap \<Rightarrow> (u64 \<Rightarrow> u64 \<Rightarrow> u64) \<Rightarrow> 'c stack_trace \<Rightarrow> u64 list \<Rightarrow> bool \<Rightarrow> bool \<Rightarrow>
   ('c stack_trace \<times> int) res" where
  "fill_stack_trace U hc m stk discard_old_one compare_only_by_hash =
     (if st_max_entries m = 0 then Inl Fault
      else
        let to_put_hash = unat (hash_stack_trace hc stk) mod st_max_entries m;
            m = m\<lparr>st_key_buf := stk\<rparr>
        in case um_find U (st_data m) to_put_hash of
             None \<Rightarrow> Inr (m\<lparr>st_data := um_insert U (st_data m) to_put_hash stk\<rparr>, int_of_hash to_put_hash)
           | Some old \<Rightarrow>
               if st_equals compare_only_by_hash old stk then Inr (m, int_of_hash to_put_hash)
               else if discard_old_one
               then Inr (m\<lparr>st_data := um_assign U (st_data m) to_put_hash stk\<rparr>, int_of_hash to_put_hash)
               else Inr (m, int_of_hash to_put_hash))"

section \<open>What a fill leaves in the map\<close>

lemma st_equals_iff: "st_equals by_hash old stk \<longleftrightarrow> by_hash \<or> length old = length stk"
  by (auto simp: st_equals_def)

definition st_slot :: "(u64 \<Rightarrow> u64 \<Rightarrow> u64) \<Rightarrow> nat \<Rightarrow> u64 list \<Rightarrow> nat" where
  "st_slot hc n stk = unat (hash_stack_trace hc stk) mod n"

lemma int_of_hash_id: "n < 2 ^ 31 \<Longrightarrow> int_of_hash n = int n"
  by (simp add: int_of_hash_def)

lemma st_slot_less: "0 < n \<Longrightarrow> st_slot hc n stk < n"
  by (simp add: st_slot_def)

lemma lookup_slot:
  assumes "i < 2 ^ 32"
  shows "st_elem_lookup U m (Some (store_u32 i)) =
    (case um_find U (st_data m) i of None \<Rightarrow> Inl (Errno ENOENT) | Some v \<Rightarrow> Inr v)"
  using assms by (simp add: st_elem_lookup_def)

text \<open>
  C31.  For a map with at most \<open>2^31\<close> slots, filling in a trace always succeeds and returns a slot below
  \<open>max_entries\<close>.  A lookup of that slot then gives the trace when the slot was free, or when old traces
  are to be discarded, contents are to be compared and the old trace has another length; otherwise it
  gives the old trace.  Every other slot is as before.
\<close>

theorem stack_fill_lookup:
  assumes "unordered_map U" and "0 < st_max_entries m" and "st_max_entries m \<le> 2 ^ 31"
    and "st_slot hc (st_max_entries m) stk = i"
  shows "\<exists>m'. fill_stack_trace U hc m stk discard by_hash = Inr (m', int i) \<and> i < st_max_entries m \<and>
    st_elem_lookup U m' (Some (store_u32 i)) =
      (case um_find U (st_data m) i of
         None \<Rightarrow> Inr stk
       | Some old \<Rightarrow> Inr (if discard \<and> \<not> by_hash \<and> length old \<noteq> length stk then stk else old)) \<and>
    (\<forall>j. j \<noteq> i \<and> j < 2 ^ 32 \<longrightarrow>
       st_elem_lookup U m' (Some (store_u32 j)) = st_elem_lookup U m (Some (store_u32 j)))"
proof -
  note laws = unordered_map.find_insert [OF assms(1)] unordered_map.find_assign [OF assms(1)]
  have i: "i < st_max_entries m" "i < 2 ^ 31" "i < 2 ^ 32"
    using st_slot_less [OF assms(2), of hc stk] assms(3,4) by auto
  have slot: "unat (hash_stack_trace hc stk) mod st_max_entries m = i"
    using assms(4) by (simp add: st_slot_def)
  show ?thesis
  proof (cases "um_find U (st_data m) i")
    case None
    with i assms(2) show ?thesis
      by (simp add: fill_stack_trace_def slot lookup_slot laws int_of_hash_id Let_def)
  next
    case (Some old)
    with i assms(2) show ?thesis
      by (simp add: fill_stack_trace_def slot lookup_slot laws int_of_hash_id Let_def st_equals_iff)
  qed
qed

text \<open>A mixing function for the examples: the seed is shifted by one bit before the value is added.\<close>

definition demo_combine :: "u64 \<Rightarrow> u64 \<Rightarrow> u64" where
  "demo_combine seed x = 2 * seed + x"

theorem stack_fill_lookup_witness:
  "\<exists>m m'. stack_trace_map_impl alist_umap 4 16 4 = Inr m \<and>
     fill_stack_trace alist_umap demo_combine m [5, 6] True False = Inr (m', 0) \<and>
     st_elem_lookup alist_umap m' (Some (store_u32 0)) = Inr [5, 6]"
proof -
  let ?m = "\<lparr>st_max_stack_entries = 2, st_max_entries = 4, st_data = um_empty alist_umap,
     st_key_buf = replicate 2 0\<rparr> :: (nat \<times> u64 list) list stack_trace"
  have "stack_trace_map_impl alist_umap 4 16 4 = Inr ?m" by (simp add: stack_trace_map_impl_def)
  moreover have "st_slot demo_combine (st_max_entries ?m) [5, 6] = 0"
    by (simp add: st_slot_def hash_stack_trace_def demo_combine_def)
  from stack_fill_lookup [OF alist_unordered_map _ _ this, of True False]
  obtain m' where "fill_stack_trace alist_umap demo_combine ?m [5, 6] True False = Inr (m', 0)"
    "st_elem_lookup alist_umap m' (Some (store_u32 0)) = Inr [5, 6]"
    by (auto simp: alist.find_empty)
  ultimately show ?thesis by blast
qed

text \<open>
  A trace is compared by its length only: when the slot of a new trace holds a different trace of
  the same length, \<open>fill_stack_trace\<close> keeps the old one even though contents are to be compared and the
  old entry is to be discarded, and the identifier it returns leads to the old trace.
\<close>

lemma stack_fill_keeps_stale_trace:
  assumes "unordered_map U" and "0 < st_max_entries m" and "st_max_entries m \<le> 2 ^ 31"
    and "um_find U (st_data m) (st_slot hc (st_max_entries m) stk) = Some old" and "length old = length stk" and "old \<noteq> stk"
  shows "\<exists>m' i. fill_stack_trace U hc m stk True False = Inr (m', int i) \<and>
    st_elem_lookup U m' (Some (store_u32 i)) = Inr old \<and> st_elem_lookup U m' (Some (store_u32 i)) \<noteq> Inr stk"
proof -
  let ?i = "st_slot hc (st_max_entries m) stk"
  have "?i < 2 ^ 31" using st_slot_less [OF assms(2), of hc stk] assms(3) by linarith
  with assms show ?thesis
    by (auto simp: fill_stack_trace_def st_slot_def [symmetric] lookup_slot st_equals_iff int_of_hash_id Let_def intro!: exI [of _ ?i])
qed

end
