(* ===== verification/Ringbuf_Map.thy ===== *)
theory Ringbuf_Map
  imports Map_Contracts "HOL-Library.Code_Target_Nat"
begin

text \<open>
  The ring buffer map (\<open>src/runtime/src/bpf_map/userspace/ringbuf_map.cpp\<close>).  A producer reserves a
  record, fills it through the returned pointer and submits or discards it; the consumer takes the
  records in the order of their reservation and stops at the first that is still busy.  The two
  positions are byte counters of 64 bits; the model takes them unbounded.  The data area has twice the
  ring's size, so that a record that starts near the end of the ring can run on.  A pointer into the
  data area is its offset.  The spin lock makes \<open>reserve\<close> atomic; a call of \<open>fetch_data\<close> sees one
  producer position.
\<close>

section \<open>The operations\<close>

definition BPF_RINGBUF_BUSY_BIT :: nat where [flag_defs]: "BPF_RINGBUF_BUSY_BIT = 2147483648"
definition BPF_RINGBUF_DISCARD_BIT :: nat where [flag_defs]: "BPF_RINGBUF_DISCARD_BIT = 1073741824"
definition BPF_RINGBUF_HDR_SZ :: nat where [flag_defs]: "BPF_RINGBUF_HDR_SZ = 8"

definition roundup_len :: "nat \<Rightarrow> nat" where
  "roundup_len len =
     (let len = wrap32 (len * 4); len = len div 4; len = wrap32 (len + BPF_RINGBUF_HDR_SZ)
      in wrap32 (len + 7) div 8 * 8)"

record ringbuf =
  rb_max_ent :: nat
  rb_consumer_pos :: nat
  rb_producer_pos :: nat
  rb_data :: bytes

definition rb_mask :: "ringbuf \<Rightarrow> nat" where
  "rb_mask rb = wrap32 (rb_max_ent rb + (2 ^ 32 - 1))"

definition sub64 :: "nat \<Rightarrow> nat \<Rightarrow> nat" where
  "sub64 a b = wrap64 (a + (2 ^ 64 - wrap64 b))"

text \<open>The constructor; \<open>page_size\<close> is \<open>getpagesize()\<close>.  The size of the buffer is a 32-bit sum.\<close>

definition ringbuf_new :: "nat \<Rightarrow> nat \<Rightarrow> ringbuf res" where
  "ringbuf_new page_size max_ent =
     (let raw = wrap32 (page_size * 2 + max_ent * 2)
      in if page_size < 8 then Inl Throw
         else if raw < page_size * 2 then Inl Fault
         else Inr \<lparr>rb_max_ent = max_ent, rb_consumer_pos = 0, rb_producer_pos = 0,
                   rb_data = replicate (raw - page_size * 2) 0\<rparr>)"

definition rb_has_data :: "ringbuf \<Rightarrow> bool res" where
  "rb_has_data rb =
     (if rb_consumer_pos rb < rb_producer_pos rb
      then bind_res (of_opt (load (rb_data rb) (rb_consumer_pos rb AND rb_mask rb) 4)) (\<lambda>l.
           Inr (load_u32 l AND BPF_RINGBUF_BUSY_BIT = 0))
      else Inr False)"

definition rb_reserve :: "ringbuf \<Rightarrow> nat \<Rightarrow> int \<Rightarrow> (ringbuf \<times> nat) res" where
  "rb_reserve rb sz self_fd =
     (if sz AND (BPF_RINGBUF_BUSY_BIT OR BPF_RINGBUF_DISCARD_BIT) \<noteq> 0 then Inl (Errno E2BIG)
      else
        let cons_pos = rb_consumer_pos rb;
            prod_pos = rb_producer_pos rb;
            avail_size = sub64 (rb_max_ent rb) (sub64 prod_pos cons_pos);
            total_size = wrap64 (wrap64 (sz + BPF_RINGBUF_HDR_SZ) + 7) div 8 * 8
        in if total_size > rb_max_ent rb then Inl (Errno E2BIG)
           else if avail_size < total_size then Inl (Errno ENOSPC)
           else
             bind_res (of_opt (store (rb_data rb) (prod_pos AND rb_mask rb)
                (store_u32 (sz OR BPF_RINGBUF_BUSY_BIT) @ store_i32 self_fd))) (\<lambda>data.
             Inr (rb\<lparr>rb_data := data, rb_producer_pos := prod_pos + total_size\<rparr>,
                  (prod_pos + BPF_RINGBUF_HDR_SZ) AND rb_mask rb)))"

text \<open>\<open>NOT\<close> of the busy bit on a 32-bit value.\<close>

definition clear_busy :: "nat \<Rightarrow> nat" where
  "clear_busy len = len AND (2 ^ 32 - 1 - BPF_RINGBUF_BUSY_BIT)"

definition rb_submit :: "ringbuf \<Rightarrow> nat \<Rightarrow> bool \<Rightarrow> ringbuf res" where
  "rb_submit rb sample discard =
     (let hdr_offset = sub64 (wrap32 (rb_mask rb + 1) + sample) BPF_RINGBUF_HDR_SZ;
          hdr = hdr_offset AND rb_mask rb
      in bind_res (of_opt (load (rb_data rb) hdr 4)) (\<lambda>l.
         let new_len = clear_busy (load_u32 l);
             new_len = (if discard then new_len OR BPF_RINGBUF_DISCARD_BIT else new_len)
         in bind_res (of_opt (store (rb_data rb) hdr (store_u32 new_len))) (\<lambda>data.
            Inr (rb\<lparr>rb_data := data\<rparr>))))"

text \<open>
  The loop of \<open>fetch_data\<close>.  The callback gets the bytes of a sample and its context and returns the
  new context and its result.
\<close>

lemma roundup_len_ge: "8 \<le> roundup_len len"
proof -
  have "wrap32 (len * 4) < 2 ^ 32" by (rule wrap32_less)
  then have "wrap32 (len * 4) div 4 < 2 ^ 30" by simp
  then have "wrap32 (wrap32 (wrap32 (len * 4) div 4 + 8) + 7) = wrap32 (len * 4) div 4 + 15"
    by (simp add: wrap_simps)
  then show ?thesis by (simp add: roundup_len_def flag_defs)
qed

lemma roundup_step: "cons_pos < prod_pos \<Longrightarrow> prod_pos - (cons_pos + roundup_len len) < prod_pos - cons_pos"
  using roundup_len_ge [of len] by linarith

lemma bind_res_cong [fundef_cong]:
  "m = m' \<Longrightarrow> (\<And>x. m' = Inr x \<Longrightarrow> f x = f' x) \<Longrightarrow> bind_res m f = bind_res m' f'"
  by (cases m') auto

function rb_fetch_loop ::
  "ringbuf \<Rightarrow> ('c \<Rightarrow> bytes \<Rightarrow> 'c \<times> int) \<Rightarrow> 'c \<Rightarrow> int \<Rightarrow> nat \<Rightarrow> (ringbuf \<times> 'c \<times> int) res" where
  "rb_fetch_loop rb cb ctx cnt cons_pos =
     (if cons_pos < rb_producer_pos rb
      then
        bind_res (of_opt (load (rb_data rb) (cons_pos AND rb_mask rb) 4)) (\<lambda>l.
        let len = load_u32 l
        in if len AND BPF_RINGBUF_BUSY_BIT \<noteq> 0 then Inr (rb, ctx, cnt)
           else
             let cons_pos' = cons_pos + roundup_len len
             in if len AND BPF_RINGBUF_DISCARD_BIT = 0
                then
                  bind_res (of_opt (load (rb_data rb) ((cons_pos AND rb_mask rb) + BPF_RINGBUF_HDR_SZ) len)) (\<lambda>sample.
                  let (ctx', err) = cb ctx sample
                  in if err < 0 then Inr (rb\<lparr>rb_consumer_pos := cons_pos'\<rparr>, ctx', err)
                     else rb_fetch_loop (rb\<lparr>rb_consumer_pos := cons_pos'\<rparr>) cb ctx' (cnt + 1) cons_pos')
                else rb_fetch_loop (rb\<lparr>rb_consumer_pos := cons_pos'\<rparr>) cb ctx cnt cons_pos')
      else Inr (rb, ctx, cnt))"
  by pat_completeness auto
termination
  by (relation "measure (\<lambda>(rb, _, _, _, cons_pos). rb_producer_pos rb - cons_pos)") (simp_all add: roundup_step)

definition rb_fetch_data :: "ringbuf \<Rightarrow> ('c \<Rightarrow> bytes \<Rightarrow> 'c \<times> int) \<Rightarrow> 'c \<Rightarrow> (ringbuf \<times> 'c \<times> int) res" where
  "rb_fetch_data rb cb ctx = rb_fetch_loop rb cb ctx 0 (rb_consumer_pos rb)"

text \<open>The map operations of \<open>ringbuf_map_impl\<close>.\<close>

definition rb_elem_lookup :: "ringbuf \<Rightarrow> ptr \<Rightarrow> bytes res" where
  "rb_elem_lookup rb key = Inl (Errno ENOTSUP)"

definition rb_elem_update :: "ringbuf \<Rightarrow> ptr \<Rightarrow> ptr \<Rightarrow> nat \<Rightarrow> ringbuf res" where
  "rb_elem_update rb key value flags = Inl (Errno ENOTSUP)"

definition rb_elem_delete :: "ringbuf \<Rightarrow> ptr \<Rightarrow> ringbuf res" where
  "rb_elem_delete rb key = Inl (Errno ENOTSUP)"

definition rb_map_get_next_key :: "ringbuf \<Rightarrow> ptr \<Rightarrow> bytes res" where
  "rb_map_get_next_key rb key = Inl (Errno ENOTSUP)"

declare rb_fetch_loop.simps [simp del]

section \<open>The abstract ring\<close>

text \<open>
  A machine in which a producer reserves a record and fills it, submits or discards it later, and the
  consumer fetches with a callback that collects the samples.  The abstract state is the ring's size,
  the consumer position and the list of records that are not yet consumed.
\<close>

datatype rec_state = Busy | Committed | Discarded

type_synonym ring_rec = "bytes \<times> rec_state"

datatype ring_op = RBegin bytes int | REnd nat bool | RFetch | RHasData

datatype ring_answer = RPtr nat | ROk | RSamples "bytes list" | RBool bool | RFailed fail

definition ring_answer :: "'s \<Rightarrow> ('s \<times> ring_answer) res \<Rightarrow> 's \<times> ring_answer" where
  "ring_answer s r = (case r of Inl e \<Rightarrow> (s, RFailed e) | Inr p \<Rightarrow> p)"

text \<open>Reserve a record of the length of \<open>bs\<close> and copy \<open>bs\<close> to the returned pointer.\<close>

definition rb_begin :: "ringbuf \<Rightarrow> bytes \<Rightarrow> int \<Rightarrow> (ringbuf \<times> nat) res" where
  "rb_begin rb bs fd =
     bind_res (rb_reserve rb (length bs) fd) (\<lambda>(rb', sample).
     bind_res (of_opt (store (rb_data rb') sample bs)) (\<lambda>data.
     Inr (rb'\<lparr>rb_data := data\<rparr>, sample)))"

fun ring_step :: "ringbuf \<Rightarrow> ring_op \<Rightarrow> ringbuf \<times> ring_answer" where
  "ring_step rb (RBegin bs fd) = ring_answer rb (bind_res (rb_begin rb bs fd) (\<lambda>(rb', p). Inr (rb', RPtr p)))"
| "ring_step rb (REnd p discard) = ring_answer rb (bind_res (rb_submit rb p discard) (\<lambda>rb'. Inr (rb', ROk)))"
| "ring_step rb RFetch =
     ring_answer rb (bind_res (rb_fetch_data rb (\<lambda>out bs. (out @ [bs], 0)) []) (\<lambda>(rb', out, _). Inr (rb', RSamples out)))"
| "ring_step rb RHasData = ring_answer rb (bind_res (rb_has_data rb) (\<lambda>b. Inr (rb, RBool b)))"

definition rec_total :: "nat \<Rightarrow> nat" where
  "rec_total n = (n + 15) div 8 * 8"

record ring =
  rg_size :: nat
  rg_cons :: nat
  rg_recs :: "ring_rec list"

definition rg_used :: "ring_rec list \<Rightarrow> nat" where
  "rg_used rs = sum_list (map (\<lambda>r. rec_total (length (fst r))) rs)"

text \<open>The position of the record at an index, and the offset of its sample.\<close>

definition rg_pos :: "ring \<Rightarrow> nat \<Rightarrow> nat" where
  "rg_pos t i = rg_cons t + rg_used (take i (rg_recs t))"

definition rg_sample :: "ring \<Rightarrow> nat \<Rightarrow> nat" where
  "rg_sample t i = (rg_pos t i + 8) mod rg_size t"

definition rg_find :: "ring \<Rightarrow> nat \<Rightarrow> nat option" where
  "rg_find t p = find (\<lambda>i. rg_sample t i = p) [0..<length (rg_recs t)]"

definition not_busy :: "ring_rec \<Rightarrow> bool" where
  "not_busy r \<longleftrightarrow> snd r \<noteq> Busy"

fun ring_spec :: "ring \<Rightarrow> ring_op \<Rightarrow> ring \<times> ring_answer" where
  "ring_spec t (RBegin bs fd) =
     (if length bs \<ge> 2 ^ 30 \<or> rec_total (length bs) > rg_size t then (t, RFailed (Errno E2BIG))
      else if rg_used (rg_recs t) + rec_total (length bs) > rg_size t then (t, RFailed (Errno ENOSPC))
      else (t\<lparr>rg_recs := rg_recs t @ [(bs, Busy)]\<rparr>, RPtr (rg_sample t (length (rg_recs t)))))"
| "ring_spec t (REnd p discard) =
     (case rg_find t p of
        None \<Rightarrow> (t, RFailed Fault)
      | Some i \<Rightarrow> (t\<lparr>rg_recs := (rg_recs t)[i := (fst (rg_recs t ! i), if discard then Discarded else Committed)]\<rparr>, ROk))"
| "ring_spec t RFetch =
     (let taken = takeWhile not_busy (rg_recs t)
      in (t\<lparr>rg_cons := rg_cons t + rg_used taken, rg_recs := dropWhile not_busy (rg_recs t)\<rparr>,
          RSamples (map fst (filter (\<lambda>r. snd r = Committed) taken))))"
| "ring_spec t RHasData = (t, RBool (rg_recs t \<noteq> [] \<and> not_busy (hd (rg_recs t))))"

text \<open>
  What the clients keep: no record starts in the last eight bytes of the ring, and only a busy record is
  submitted.
\<close>

fun ring_guard :: "ring \<Rightarrow> ring_op \<Rightarrow> bool" where
  "ring_guard t (RBegin bs fd) = (length bs < 2 ^ 64 \<and> rg_pos t (length (rg_recs t)) mod rg_size t \<noteq> rg_size t - 8)"
| "ring_guard t (REnd p discard) =
     (case rg_find t p of None \<Rightarrow> False | Some i \<Rightarrow> snd (rg_recs t ! i) = Busy)"
| "ring_guard t op = True"

section \<open>Machine arithmetic of the ring\<close>

lemma and_mask_mod: "n AND (2 ^ k - 1) = n mod 2 ^ k" for n k :: nat
  by (metis mask_eq_exp_minus_1 take_bit_eq_mask take_bit_eq_mod)

lemma rb_mask_pow: "rb_max_ent rb = 2 ^ k \<Longrightarrow> k \<le> 30 \<Longrightarrow> rb_mask rb = 2 ^ k - 1"
proof -
  assume a: "rb_max_ent rb = 2 ^ k" "k \<le> 30"
  have "(2 :: nat) ^ k \<le> 2 ^ 30" using a(2) by (rule power_increasing) simp
  moreover have "(1 :: nat) \<le> 2 ^ k" by simp
  ultimately show "rb_mask rb = 2 ^ k - 1" unfolding rb_mask_def a(1) wrap32_def by (simp add: mod_if)
qed

lemma sub64_diff: "u < 2 ^ 64 \<Longrightarrow> sub64 (c + u) c = u"
proof -
  assume "u < 2 ^ 64"
  have "c mod 2 ^ 64 < (2 :: nat) ^ 64" by simp
  then have "(c + u + (2 ^ 64 - c mod 2 ^ 64)) mod 2 ^ 64 = (u + (c - c mod 2 ^ 64) + 2 ^ 64) mod 2 ^ 64"
    by (simp add: algebra_simps mod_less_eq_dividend)
  also have "\<dots> = u mod 2 ^ 64" by (metis add.assoc minus_mod_eq_mult_div mod_add_self2 mod_mult_self2)
  finally show ?thesis using \<open>u < 2 ^ 64\<close> by (simp add: sub64_def wrap64_def)
qed

lemma sub64_le: "b \<le> a \<Longrightarrow> a < 2 ^ 64 \<Longrightarrow> sub64 a b = a - b"
  using sub64_diff [of "a - b" b] by simp

lemma busy_bits:
  assumes "n < 2 ^ 30"
  shows "(n + 2 ^ 31) AND BPF_RINGBUF_BUSY_BIT \<noteq> 0" "n AND BPF_RINGBUF_BUSY_BIT = 0"
    "(n + 2 ^ 30) AND BPF_RINGBUF_BUSY_BIT = 0"
    "n AND BPF_RINGBUF_DISCARD_BIT = 0" "(n + 2 ^ 30) AND BPF_RINGBUF_DISCARD_BIT \<noteq> 0"
    "clear_busy (n + 2 ^ 31) = n"
proof -
  have b: "BPF_RINGBUF_BUSY_BIT = 2 ^ 31" "BPF_RINGBUF_DISCARD_BIT = 2 ^ 30" by (simp_all add: flag_defs)
  show "(n + 2 ^ 31) AND BPF_RINGBUF_BUSY_BIT \<noteq> 0" "n AND BPF_RINGBUF_BUSY_BIT = 0"
    "(n + 2 ^ 30) AND BPF_RINGBUF_BUSY_BIT = 0"
    "n AND BPF_RINGBUF_DISCARD_BIT = 0" "(n + 2 ^ 30) AND BPF_RINGBUF_DISCARD_BIT \<noteq> 0"
    unfolding b and_exp_eq_0_iff_not_bit bit_iff_odd using assms by (simp_all add: div_add_self2)
  have "clear_busy (n + 2 ^ 31) = (n + 2 ^ 31) AND (2 ^ 31 - 1)" by (simp add: clear_busy_def flag_defs)
  also have "\<dots> = n" unfolding and_mask_mod using assms by simp
  finally show "clear_busy (n + 2 ^ 31) = n" .
qed

lemma or_bit_add: "\<not> bit n k \<Longrightarrow> n OR 2 ^ k = n + 2 ^ k" for n :: nat
  by (metis and_exp_eq_0_iff_not_bit disjunctive_add_eq_or)

lemma bit_small: "n < 2 ^ k \<Longrightarrow> \<not> bit n k" for n :: nat
  by (simp add: bit_iff_odd)

lemma or_bits:
  assumes "n < 2 ^ 30"
  shows "n OR BPF_RINGBUF_BUSY_BIT = n + 2 ^ 31" and "n OR BPF_RINGBUF_DISCARD_BIT = n + 2 ^ 30"
proof -
  have b: "BPF_RINGBUF_BUSY_BIT = 2 ^ 31" "BPF_RINGBUF_DISCARD_BIT = 2 ^ 30" by (simp_all add: flag_defs)
  have n: "\<not> bit n 31" "\<not> bit n 30" using assms bit_small [of n 31] bit_small [of n 30] by simp_all
  show "n OR BPF_RINGBUF_BUSY_BIT = n + 2 ^ 31" unfolding b by (rule or_bit_add [OF n(1)])
  show "n OR BPF_RINGBUF_DISCARD_BIT = n + 2 ^ 30" unfolding b by (rule or_bit_add [OF n(2)])
qed

lemma and_two_bits: "n AND (2 ^ i OR 2 ^ j) = 0 \<longleftrightarrow> \<not> bit n i \<and> \<not> bit n j" for n :: nat
  unfolding bit_eq_iff [of "n AND (2 ^ i OR 2 ^ j)" 0] by (auto simp: bit_and_iff bit_or_iff bit_exp_iff)

lemma size_bits: "n AND (BPF_RINGBUF_BUSY_BIT OR BPF_RINGBUF_DISCARD_BIT) = 0 \<longleftrightarrow> n mod 2 ^ 32 < 2 ^ 30"
proof -
  have b: "BPF_RINGBUF_BUSY_BIT = 2 ^ 31" "BPF_RINGBUF_DISCARD_BIT = 2 ^ 30" by (simp_all add: flag_defs)
  have "n AND (2 ^ 31 OR 2 ^ 30) = 0 \<longleftrightarrow> \<not> bit n 31 \<and> \<not> bit n 30"
    by (rule and_two_bits)
  also have "\<dots> \<longleftrightarrow> \<not> odd (n div 2 ^ 31) \<and> \<not> odd (n div 2 ^ 30)" by (simp only: bit_iff_odd)
  also have "\<dots> \<longleftrightarrow> n mod 2 ^ 32 < 2 ^ 30"
  proof -
    define x where "x = n div 2 ^ 30"
    have "n mod (2 ^ 30 * 4) = 2 ^ 30 * (x mod 4) + n mod 2 ^ 30" unfolding x_def by (rule mod_mult2_eq)
    moreover have "n mod 2 ^ 30 < 2 ^ 30" by simp
    ultimately have "n mod 2 ^ 32 < 2 ^ 30 \<longleftrightarrow> x mod 4 = 0" by (cases "x mod 4") simp_all
    moreover have "n div 2 ^ 31 = x div 2" unfolding x_def by (simp add: div_mult2_eq [symmetric])
    moreover have "\<not> odd (x div 2) \<and> \<not> odd x \<longleftrightarrow> x mod 4 = 0" by presburger
    ultimately show ?thesis unfolding x_def by simp
  qed
  finally show ?thesis unfolding b .
qed

lemma rec_total_ge: "n + 8 \<le> rec_total n" "rec_total n \<le> n + 15" "8 dvd rec_total n"
  unfolding rec_total_def by presburger+

lemma roundup_total:
  assumes "n < 2 ^ 30"
  shows "roundup_len n = rec_total n" and "roundup_len (n + 2 ^ 30) = rec_total n"
proof -
  have "wrap32 (n * 4) = n * 4" "wrap32 ((n + 2 ^ 30) * 4) = n * 4"
    using assms by (simp_all add: wrap32_def)
  then show "roundup_len n = rec_total n" "roundup_len (n + 2 ^ 30) = rec_total n"
    using assms by (simp_all add: roundup_len_def rec_total_def flag_defs wrap32_def)
qed

lemma total_size:
  assumes "n < 2 ^ 64" and "n mod 2 ^ 32 < 2 ^ 30"
  shows "wrap64 (wrap64 (n + BPF_RINGBUF_HDR_SZ) + 7) div 8 * 8 = rec_total n"
proof -
  define q r where "q = n div 2 ^ 32" and "r = n mod 2 ^ 32"
  have "q \<le> 2 ^ 32 - 1" using less_mult_imp_div_less [of n "2 ^ 32" "2 ^ 32"] assms(1) by (simp add: q_def)
  moreover have "n = q * 2 ^ 32 + r" by (simp add: q_def r_def)
  moreover have "r < 2 ^ 30" using assms(2) by (simp add: r_def)
  ultimately have "n + 15 < 2 ^ 64" by simp
  then show ?thesis by (simp add: wrap64_def flag_defs rec_total_def)
qed

lemma too_big:
  assumes "n < 2 ^ 64" and "M \<le> 2 ^ 30"
  shows "n mod 2 ^ 32 \<ge> 2 ^ 30 \<or> rec_total n > M \<longleftrightarrow> n \<ge> 2 ^ 30 \<or> rec_total n > M"
  using assms rec_total_ge(1) [of n] by (cases "n < 2 ^ 30") auto

section \<open>Records in memory\<close>

definition rec_hdr :: "ring_rec \<Rightarrow> nat" where
  "rec_hdr r = length (fst r) + (case snd r of Busy \<Rightarrow> 2 ^ 31 | Committed \<Rightarrow> 0 | Discarded \<Rightarrow> 2 ^ 30)"

text \<open>The record \<open>r\<close> lies at position \<open>p\<close>: its header says so and its sample follows the header.\<close>

definition rec_at :: "bytes \<Rightarrow> nat \<Rightarrow> nat \<Rightarrow> ring_rec \<Rightarrow> bool" where
  "rec_at data M p r \<longleftrightarrow>
     p mod M \<noteq> M - 8 \<and> load_u32 (slice data (p mod M) 4) = rec_hdr r \<and>
     slice data (p mod M + 8) (length (fst r)) = fst r"

abbreviation rec_size :: "ring_rec \<Rightarrow> nat" where
  "rec_size r \<equiv> rec_total (length (fst r))"

definition ring_rel :: "ringbuf \<Rightarrow> ring \<Rightarrow> bool" where
  "ring_rel rb t \<longleftrightarrow>
     (\<exists>k. 3 \<le> k \<and> k \<le> 30 \<and> rg_size t = 2 ^ k) \<and> rb_max_ent rb = rg_size t \<and>
     rb_consumer_pos rb = rg_cons t \<and> rb_producer_pos rb = rg_cons t + rg_used (rg_recs t) \<and>
     8 dvd rg_cons t \<and> rg_used (rg_recs t) \<le> rg_size t \<and> length (rb_data rb) = 2 * rg_size t \<and>
     (\<forall>i < length (rg_recs t). rec_at (rb_data rb) (rg_size t) (rg_pos t i) (rg_recs t ! i))"

lemma rg_used_simps [simp]:
  "rg_used [] = 0" "rg_used (r # rs) = rec_size r + rg_used rs" "rg_used (xs @ ys) = rg_used xs + rg_used ys"
  by (simp_all add: rg_used_def)

lemma rg_used_dvd: "8 dvd rg_used rs"
  by (induction rs) (simp_all add: rec_total_ge)

lemma rg_used_take: "i < length rs \<Longrightarrow> rg_used (take (Suc i) rs) = rg_used (take i rs) + rec_size (rs ! i)"
  by (simp add: take_Suc_conv_app_nth)

lemma rg_used_mono: "i \<le> j \<Longrightarrow> rg_used (take i rs) \<le> rg_used (take j rs)"
proof -
  assume "i \<le> j"
  then obtain d where "j = i + d" using le_Suc_ex by blast
  then show ?thesis by (simp add: take_add)
qed

lemma ring_apart:
  fixes p p' t t' M :: nat
  assumes "p + t \<le> p'" and "p' + t' \<le> p + M" and "0 < M" and "0 < t'"
  shows "p mod M + t \<le> p' mod M \<or> p' mod M + t' \<le> p mod M"
proof -
  define d where "d = p' - p"
  have d: "p' = p + d" "t \<le> d" "d + t' \<le> M" using assms by (auto simp: d_def)
  then have m: "p' mod M = (p mod M + d) mod M" by (simp add: mod_add_left_eq)
  have "p mod M < M" using assms(3) by simp
  show ?thesis
  proof (cases "p mod M + d < M")
    case True
    then show ?thesis using m d by simp
  next
    case False
    then have "p' mod M = (p mod M + d - M) mod M" unfolding m by (intro le_mod_geq) simp
    then have "p' mod M = p mod M + d - M" using d \<open>p mod M < M\<close> assms(4) by simp
    then show ?thesis using d(2,3) False by linarith
  qed
qed

lemma store_poke: "off + length bs \<le> length v \<Longrightarrow> store v off bs = Some (poke v off bs)"
  by (simp add: poke_def store_def)

lemma load_slice: "off + n \<le> length v \<Longrightarrow> load v off n = Some (slice v off n)"
  by (simp add: load_def slice_def)

lemma slice_poke_prefix:
  "off + length bs \<le> length v \<Longrightarrow> n \<le> length bs \<Longrightarrow> slice (poke v off bs) off n = take n bs"
  by (simp add: slice_def poke_def store_def)

lemma rec_at_poke:
  assumes "rec_at data M p r" and "off + length bs \<le> length data"
    and "p mod M + rec_size r \<le> off \<or> off + length bs \<le> p mod M" and "p mod M + rec_size r \<le> length data"
  shows "rec_at (poke data off bs) M p r"
proof -
  note size = rec_total_ge(1) [of "length (fst r)"]
  have "slice (poke data off bs) (p mod M) 4 = slice data (p mod M) 4"
    "slice (poke data off bs) (p mod M + 8) (length (fst r)) = slice data (p mod M + 8) (length (fst r))"
    using assms(2-4) size by (auto intro!: slice_poke_other)
  with assms(1) show ?thesis by (simp add: rec_at_def)
qed

lemma aligned_place:
  fixes p M k :: nat
  assumes "8 dvd p" and "M = 2 ^ k" and "3 \<le> k" and "p mod M \<noteq> M - 8"
  shows "(p + 8) mod M = p mod M + 8" and "p mod M + 16 \<le> M"
proof -
  have "(2 :: nat) ^ 3 dvd M" unfolding assms(2) by (rule le_imp_power_dvd [OF assms(3)])
  then have "8 dvd M" by simp
  then have "8 dvd p mod M" using assms(1) by (simp add: dvd_mod_iff)
  then obtain a b where ab: "p mod M = 8 * a" "M = 8 * b" using \<open>8 dvd M\<close> by (auto elim!: dvdE)
  have "p mod M < M" using assms(2) by simp
  with ab assms(4) have "a + 2 \<le> b" by simp
  then show "p mod M + 16 \<le> M" using ab by simp
  then show "(p + 8) mod M = p mod M + 8" using mod_add_left_eq [of p M 8] by simp
qed

section \<open>The steps of the ring\<close>

text \<open>What the relation gives for the record at an index.\<close>

lemma rel_facts:
  assumes "ring_rel rb t"
  obtains k where "3 \<le> k" "k \<le> 30" "rg_size t = 2 ^ k" "rb_max_ent rb = 2 ^ k" "rb_mask rb = 2 ^ k - 1"
    "rg_size t \<le> 2 ^ 30" "0 < rg_size t"
proof -
  from assms obtain k where k: "3 \<le> k" "k \<le> 30" "rg_size t = 2 ^ k" "rb_max_ent rb = 2 ^ k"
    by (auto simp: ring_rel_def)
  have "(2 :: nat) ^ k \<le> 2 ^ 30" using k(2) by (rule power_increasing) simp
  with k that rb_mask_pow [OF k(4,2)] show ?thesis by simp
qed

lemma rel_record:
  assumes rel: "ring_rel rb t" and i: "i < length (rg_recs t)"
  shows "8 dvd rg_pos t i" and "rg_pos t i + rec_size (rg_recs t ! i) \<le> rg_cons t + rg_used (rg_recs t)"
    and "rg_cons t \<le> rg_pos t i"
    and "rec_at (rb_data rb) (rg_size t) (rg_pos t i) (rg_recs t ! i)"
    and "rg_pos t i mod rg_size t + 16 \<le> rg_size t"
    and "(rg_pos t i + 8) mod rg_size t = rg_pos t i mod rg_size t + 8"
    and "rg_pos t i mod rg_size t + rec_size (rg_recs t ! i) \<le> length (rb_data rb)"
    and "length (fst (rg_recs t ! i)) < 2 ^ 30"
proof -
  obtain k where k: "3 \<le> k" "rg_size t = 2 ^ k" "rg_size t \<le> 2 ^ 30" using rel_facts [OF rel] by metis
  show dvd: "8 dvd rg_pos t i" using rel rg_used_dvd by (simp add: ring_rel_def rg_pos_def)
  have "rg_used (take (Suc i) (rg_recs t)) \<le> rg_used (rg_recs t)"
    using rg_used_mono [of "Suc i" "length (rg_recs t)" "rg_recs t"] i by simp
  then show hi: "rg_pos t i + rec_size (rg_recs t ! i) \<le> rg_cons t + rg_used (rg_recs t)"
    using rg_used_take [OF i] by (simp add: rg_pos_def)
  show lo: "rg_cons t \<le> rg_pos t i" by (simp add: rg_pos_def)
  show at: "rec_at (rb_data rb) (rg_size t) (rg_pos t i) (rg_recs t ! i)" using rel i by (simp add: ring_rel_def)
  then have "rg_pos t i mod rg_size t \<noteq> rg_size t - 8" by (simp add: rec_at_def)
  from aligned_place [OF dvd k(2,1) this] show place: "rg_pos t i mod rg_size t + 16 \<le> rg_size t"
    and "(rg_pos t i + 8) mod rg_size t = rg_pos t i mod rg_size t + 8" by simp_all
  have used: "rg_used (rg_recs t) \<le> rg_size t" and len: "length (rb_data rb) = 2 * rg_size t" using rel by (simp_all add: ring_rel_def)
  with hi lo have "rec_size (rg_recs t ! i) \<le> rg_size t" by linarith
  with place len show "rg_pos t i mod rg_size t + rec_size (rg_recs t ! i) \<le> length (rb_data rb)" by linarith
  from \<open>rec_size (rg_recs t ! i) \<le> rg_size t\<close> k(3) rec_total_ge(1) [of "length (fst (rg_recs t ! i))"]
  show "length (fst (rg_recs t ! i)) < 2 ^ 30" by linarith
qed

text \<open>Writing inside one stretch of the ring leaves every record outside the stretch alone.\<close>

lemma rel_other:
  assumes rel: "ring_rel rb t" and i: "i < length (rg_recs t)" and q: "rg_cons t \<le> q" "q + n \<le> rg_cons t + rg_size t" "0 < n"
    and apart: "q + n \<le> rg_pos t i \<or> rg_pos t i + rec_size (rg_recs t ! i) \<le> q"
    and off: "q mod rg_size t \<le> off" "off + length bs \<le> q mod rg_size t + n" "off + length bs \<le> length (rb_data rb)"
  shows "rec_at (poke (rb_data rb) off bs) (rg_size t) (rg_pos t i) (rg_recs t ! i)"
proof -
  note r = rel_record [OF rel i]
  have M: "0 < rg_size t" using rel_facts [OF rel] by metis
  have used: "rg_used (rg_recs t) \<le> rg_size t" using rel by (simp add: ring_rel_def)
  have pos: "0 < rec_size (rg_recs t ! i)" using rec_total_ge(1) [of "length (fst (rg_recs t ! i))"] by linarith
  have "rg_pos t i mod rg_size t + rec_size (rg_recs t ! i) \<le> q mod rg_size t \<or> q mod rg_size t + n \<le> rg_pos t i mod rg_size t"
    using apart
  proof
    assume "q + n \<le> rg_pos t i"
    from ring_apart [OF this _ M pos] r(2) used q(1) show ?thesis by auto
  next
    assume "rg_pos t i + rec_size (rg_recs t ! i) \<le> q"
    from ring_apart [OF this _ M q(3)] r(3) q(2) show ?thesis by auto
  qed
  then show ?thesis using off r(7) by (intro rec_at_poke [OF r(4) off(3)]) auto
qed

lemma reserve_eval:
  assumes rel: "ring_rel rb t" and n: "n < 2 ^ 64"
  shows "rb_reserve rb n fd =
    (let p = rg_cons t + rg_used (rg_recs t)
     in if n \<ge> 2 ^ 30 \<or> rec_total n > rg_size t then Inl (Errno E2BIG)
        else if rg_used (rg_recs t) + rec_total n > rg_size t then Inl (Errno ENOSPC)
        else Inr (rb\<lparr>rb_data := poke (rb_data rb) (p mod rg_size t) (store_u32 (n + 2 ^ 31) @ store_i32 fd),
                     rb_producer_pos := p + rec_total n\<rparr>, (p + 8) mod rg_size t))"
proof -
  obtain k where k: "3 \<le> k" "rg_size t = 2 ^ k" "rb_mask rb = 2 ^ k - 1" "rb_max_ent rb = 2 ^ k" "rg_size t \<le> 2 ^ 30"
    using rel_facts [OF rel] by metis
  let ?u = "rg_used (rg_recs t)" and ?p = "rg_cons t + rg_used (rg_recs t)"
  have pos: "rb_consumer_pos rb = rg_cons t" "rb_producer_pos rb = ?p" "?u \<le> 2 ^ k" "length (rb_data rb) = 2 * 2 ^ k"
    using rel k by (simp_all add: ring_rel_def)
  have sub: "sub64 (2 ^ k) (sub64 ?p (rg_cons t)) = 2 ^ k - ?u"
    using pos(3) k(2,5) by (simp add: sub64_diff sub64_le)
  show ?thesis
  proof (cases "n mod 2 ^ 32 < 2 ^ 30")
    case False
    then have "n \<ge> 2 ^ 30" by (metis leI mod_less_eq_dividend order_le_less_trans)
    with False show ?thesis by (simp add: rb_reserve_def size_bits)
  next
    case True
    have in_range: "?p mod 2 ^ k + length (store_u32 (n + 2 ^ 31) @ store_i32 fd) \<le> length (rb_data rb)"
    proof -
      have "?p mod 2 ^ k < 2 ^ k" by simp
      moreover have "8 \<le> (2 :: nat) ^ k" using power_increasing [OF k(1), of "2 :: nat"] by simp
      moreover have "length (store_u32 (n + 2 ^ 31) @ store_i32 fd) = 8" by (simp add: store_u32_def store_i32_def)
      ultimately show ?thesis using pos(4) by linarith
    qed
    have E: "rb_reserve rb n fd =
      (if rec_total n > 2 ^ k then Inl (Errno E2BIG)
       else if 2 ^ k - ?u < rec_total n then Inl (Errno ENOSPC)
       else bind_res (of_opt (store (rb_data rb) (?p mod 2 ^ k) (store_u32 (n OR BPF_RINGBUF_BUSY_BIT) @ store_i32 fd)))
         (\<lambda>data. Inr (rb\<lparr>rb_data := data, rb_producer_pos := ?p + rec_total n\<rparr>, (?p + 8) mod 2 ^ k)))"
      unfolding rb_reserve_def Let_def total_size [OF n True] pos k(3,4) sub and_mask_mod
      using size_bits [THEN iffD2, OF True] by (simp add: BPF_RINGBUF_HDR_SZ_def)
    have c1: "rec_total n > 2 ^ k \<longleftrightarrow> n \<ge> 2 ^ 30 \<or> rec_total n > rg_size t"
      using too_big [OF n k(5)] True k(2) by auto
    have c2: "2 ^ k - ?u < rec_total n \<longleftrightarrow> ?u + rec_total n > rg_size t" using pos(3) k(2) by auto
    have "n OR BPF_RINGBUF_BUSY_BIT = n + 2 ^ 31" if "\<not> n \<ge> 2 ^ 30" using that by (intro or_bits) simp
    then have st: "store (rb_data rb) (?p mod 2 ^ k) (store_u32 (n OR BPF_RINGBUF_BUSY_BIT) @ store_i32 fd) =
        Some (poke (rb_data rb) (?p mod 2 ^ k) (store_u32 (n + 2 ^ 31) @ store_i32 fd))" if "\<not> n \<ge> 2 ^ 30"
      using that store_poke [OF in_range] by metis
    show ?thesis unfolding E c1 c2 Let_def unfolding k(2)
      by (intro if_cong refl) (subst st, blast, simp only: of_opt_simps bind_res.simps)
  qed
qed

text \<open>Writing a header and a sample at the end of the ring appends a busy record.\<close>

lemma append_record:
  fixes rb t bs fd
  defines "p \<equiv> rg_cons t + rg_used (rg_recs t)"
  defines "d1 \<equiv> poke (rb_data rb) (p mod rg_size t) (store_u32 (length bs + 2 ^ 31) @ store_i32 fd)"
  defines "d2 \<equiv> poke d1 (p mod rg_size t + 8) bs"
  assumes rel: "ring_rel rb t" and place: "p mod rg_size t \<noteq> rg_size t - 8"
    and n: "length bs < 2 ^ 30" and room: "rg_used (rg_recs t) + rec_total (length bs) \<le> rg_size t"
  shows "ring_rel (rb\<lparr>rb_data := d2, rb_producer_pos := p + rec_total (length bs)\<rparr>) (t\<lparr>rg_recs := rg_recs t @ [(bs, Busy)]\<rparr>)"
    and "store d1 (p mod rg_size t + 8) bs = Some d2" and "(p + 8) mod rg_size t = p mod rg_size t + 8"
proof -
  let ?M = "rg_size t" and ?n = "length bs"
  obtain k where k: "3 \<le> k" "?M = 2 ^ k" using rel_facts [OF rel] by metis
  have "8 dvd p" using rel rg_used_dvd by (simp add: ring_rel_def p_def)
  note off = aligned_place [OF this k(2,1) place]
  note total = rec_total_ge [of ?n]
  have len: "length (rb_data rb) = 2 * ?M" using rel by (simp add: ring_rel_def)
  have h: "length (store_u32 (?n + 2 ^ 31) @ store_i32 fd) = 8" by (simp add: store_u32_def store_i32_def)
  have r1: "p mod ?M + 8 \<le> length (rb_data rb)" "p mod ?M + 8 + ?n \<le> length (rb_data rb)"
    using off(2) len total room by linarith+
  show "store d1 (p mod ?M + 8) bs = Some d2" unfolding d2_def using r1 by (intro store_poke) (simp add: d1_def)
  show "(p + 8) mod ?M = p mod ?M + 8" by (rule off(1))
  have old: "rec_at d2 ?M (rg_pos t i) (rg_recs t ! i)" if i: "i < length (rg_recs t)" for i
  proof -
    have apart: "rg_pos t i + rec_size (rg_recs t ! i) \<le> p" unfolding p_def by (rule rel_record(2) [OF rel i])
    have one: "rec_at d1 ?M (rg_pos t i) (rg_recs t ! i)"
      unfolding d1_def by (rule rel_other [OF rel i, of p "rec_total ?n"]) (use apart room total h r1 in \<open>auto simp: p_def\<close>)
    have "rg_pos t i mod ?M + rec_size (rg_recs t ! i) \<le> p mod ?M \<or> p mod ?M + rec_total ?n \<le> rg_pos t i mod ?M"
      using ring_apart [OF apart, of "rec_total ?n" ?M] rel_record(3) [OF rel i] room total k(2) by (auto simp: p_def)
    then show ?thesis unfolding d2_def
      using rel_record(7) [OF rel i] total r1 by (intro rec_at_poke [OF one]) (auto simp: d1_def)
  qed
  have "slice d2 (p mod ?M) 4 = slice d1 (p mod ?M) 4"
    unfolding d2_def using r1 by (intro slice_poke_other) (auto simp: d1_def)
  also have "\<dots> = store_u32 (?n + 2 ^ 31)"
    unfolding d1_def using r1 h by (subst slice_poke_prefix) (auto simp: store_u32_def)
  finally have "load_u32 (slice d2 (p mod ?M) 4) = ?n + 2 ^ 31" using n by (simp add: load_u32_store_u32)
  moreover have "slice d2 (p mod ?M + 8) ?n = bs"
    unfolding d2_def using r1 by (intro slice_poke_same) (auto simp: d1_def)
  ultimately have new: "rec_at d2 ?M p (bs, Busy)" using place by (simp add: rec_at_def rec_hdr_def)
  show "ring_rel (rb\<lparr>rb_data := d2, rb_producer_pos := p + rec_total ?n\<rparr>) (t\<lparr>rg_recs := rg_recs t @ [(bs, Busy)]\<rparr>)"
    using rel room old new by (auto simp: ring_rel_def rg_pos_def nth_append less_Suc_eq d2_def d1_def p_def)
qed

lemma begin_refines:
  assumes rel: "ring_rel rb t" and n: "length bs < 2 ^ 64"
    and place: "rg_pos t (length (rg_recs t)) mod rg_size t \<noteq> rg_size t - 8"
  shows "ring_rel (fst (ring_step rb (RBegin bs fd))) (fst (ring_spec t (RBegin bs fd))) \<and>
    snd (ring_step rb (RBegin bs fd)) = snd (ring_spec t (RBegin bs fd))"
proof -
  let ?M = "rg_size t" and ?p = "rg_cons t + rg_used (rg_recs t)" and ?n = "length bs"
  note eval = reserve_eval [OF rel n, of fd]
  show ?thesis
  proof (cases "?n \<ge> 2 ^ 30 \<or> rec_total ?n > ?M \<or> rg_used (rg_recs t) + rec_total ?n > ?M")
    case True
    then show ?thesis using rel by (auto simp: rb_begin_def eval ring_answer_def Let_def)
  next
    case False
    have p: "?p mod ?M \<noteq> ?M - 8" using place by (simp add: rg_pos_def)
    from False have small: "?n < 2 ^ 30" "rg_used (rg_recs t) + rec_total ?n \<le> ?M" by simp_all
    note new = append_record(1,2) [OF rel p small, where fd = fd] append_record(3) [OF rel p small]
    have "rb_reserve rb ?n fd = Inr (rb\<lparr>rb_data := poke (rb_data rb) (?p mod ?M) (store_u32 (?n + 2 ^ 31) @ store_i32 fd),
        rb_producer_pos := ?p + rec_total ?n\<rparr>, (?p + 8) mod ?M)" unfolding eval Let_def using False by auto
    with new(2,3) have "ring_step rb (RBegin bs fd) =
        (rb\<lparr>rb_data := poke (poke (rb_data rb) (?p mod ?M) (store_u32 (?n + 2 ^ 31) @ store_i32 fd)) (?p mod ?M + 8) bs,
            rb_producer_pos := ?p + rec_total ?n\<rparr>, RPtr ((?p + 8) mod ?M))"
      by (simp add: rb_begin_def ring_answer_def)
    moreover have "ring_spec t (RBegin bs fd) = (t\<lparr>rg_recs := rg_recs t @ [(bs, Busy)]\<rparr>, RPtr ((?p + 8) mod ?M))"
      using False by (simp add: rg_sample_def rg_pos_def)
    ultimately show ?thesis using new(1) by (simp only: fst_conv snd_conv simp_thms)
  qed
qed

lemma hdr_state:
  assumes "length bs < 2 ^ 30"
  shows "rec_hdr (bs, st) AND BPF_RINGBUF_BUSY_BIT = 0 \<longleftrightarrow> st \<noteq> Busy"
    and "st \<noteq> Busy \<Longrightarrow> rec_hdr (bs, st) AND BPF_RINGBUF_DISCARD_BIT = 0 \<longleftrightarrow> st = Committed"
    and "st \<noteq> Busy \<Longrightarrow> roundup_len (rec_hdr (bs, st)) = rec_total (length bs)"
    and "(let l = clear_busy (rec_hdr (bs, Busy)) in if discard then l OR BPF_RINGBUF_DISCARD_BIT else l) =
      rec_hdr (bs, if discard then Discarded else Committed)"
    and "rec_hdr (bs, st) < 2 ^ 32"
  using busy_bits [OF assms] roundup_total [OF assms] or_bits(2) [OF assms] assms
  by (cases st; simp add: rec_hdr_def)+

lemma rg_find_Some: "rg_find t p = Some i \<Longrightarrow> i < length (rg_recs t) \<and> rg_sample t i = p"
  by (auto simp: rg_find_def find_Some_iff)

lemma rg_pos_update:
  "i < length (rg_recs t) \<Longrightarrow> fst r = fst (rg_recs t ! i) \<Longrightarrow> rg_pos (t\<lparr>rg_recs := (rg_recs t)[i := r]\<rparr>) j = rg_pos t j"
  "i < length (rg_recs t) \<Longrightarrow> fst r = fst (rg_recs t ! i) \<Longrightarrow> rg_used ((rg_recs t)[i := r]) = rg_used (rg_recs t)"
proof -
  assume a: "i < length (rg_recs t)" "fst r = fst (rg_recs t ! i)"
  have m: "map (\<lambda>r. rec_size r) ((rg_recs t)[i := r]) = map (\<lambda>r. rec_size r) (rg_recs t)"
    using a by (simp add: map_update list_update_same_conv)
  then show "rg_used ((rg_recs t)[i := r]) = rg_used (rg_recs t)" by (simp add: rg_used_def)
  from m show "rg_pos (t\<lparr>rg_recs := (rg_recs t)[i := r]\<rparr>) j = rg_pos t j"
    unfolding rg_pos_def rg_used_def take_map [symmetric] by simp
qed

lemma records_apart:
  assumes "i < j" and "j < length (rg_recs t)"
  shows "rg_pos t i + rec_size (rg_recs t ! i) \<le> rg_pos t j"
  using rg_used_mono [of "Suc i" j "rg_recs t"] rg_used_take [of i "rg_recs t"] assms by (simp add: rg_pos_def)

lemma end_refines:
  assumes rel: "ring_rel rb t" and find: "rg_find t p = Some i" and busy: "snd (rg_recs t ! i) = Busy"
  shows "ring_rel (fst (ring_step rb (REnd p discard))) (fst (ring_spec t (REnd p discard))) \<and>
    snd (ring_step rb (REnd p discard)) = snd (ring_spec t (REnd p discard))"
proof -
  from rg_find_Some [OF find] have i: "i < length (rg_recs t)" and p: "rg_sample t i = p" by auto
  note r = rel_record [OF rel i]
  obtain k where k: "rg_size t = 2 ^ k" "rb_mask rb = 2 ^ k - 1" "rg_size t \<le> 2 ^ 30" "0 < rg_size t"
    using rel_facts [OF rel] by metis
  let ?a = "rg_pos t i mod rg_size t" and ?st = "if discard then Discarded else Committed" and ?bs = "fst (rg_recs t ! i)"
  define d where "d = poke (rb_data rb) ?a (store_u32 (rec_hdr (?bs, ?st)))"
  have len: "length (rb_data rb) = 2 * rg_size t" using rel by (simp add: ring_rel_def)
  have pa: "p = ?a + 8" using p r(6) by (simp add: rg_sample_def)
  have "sub64 (wrap32 (rb_mask rb + 1) + p) BPF_RINGBUF_HDR_SZ = rg_size t + ?a"
    using k r(5) by (simp add: pa wrap32_def flag_defs sub64_le)
  then have off: "sub64 (wrap32 (rb_mask rb + 1) + p) BPF_RINGBUF_HDR_SZ AND rb_mask rb = ?a"
    using k by (simp add: and_mask_mod [unfolded One_nat_def])
  have four: "length (store_u32 n) = 4" for n by (simp add: store_u32_def)
  have "load_u32 (slice (rb_data rb) ?a 4) = rec_hdr (?bs, Busy)"
    using r(4) busy by (cases "rg_recs t ! i") (simp add: rec_at_def)
  then have "rb_submit rb p discard = Inr (rb\<lparr>rb_data := d\<rparr>)"
    unfolding rb_submit_def Let_def off d_def hdr_state(4) [OF r(8), of discard, symmetric]
    using r(5) len four by (simp add: load_slice store_poke)
  then have impl: "ring_step rb (REnd p discard) = (rb\<lparr>rb_data := d\<rparr>, ROk)" by (simp add: ring_answer_def)
  let ?t = "t\<lparr>rg_recs := (rg_recs t)[i := (?bs, ?st)]\<rparr>"
  have rec: "rec_at d (rg_size t) (rg_pos t j) ((rg_recs t)[i := (?bs, ?st)] ! j)" if j: "j < length (rg_recs t)" for j
  proof (cases "j = i")
    case True
    have "slice d ?a 4 = store_u32 (rec_hdr (?bs, ?st))" unfolding d_def using r(5) len four by (intro slice_poke_same) auto
    then have "load_u32 (slice d ?a 4) = rec_hdr (?bs, ?st)"
      using hdr_state(5) [OF r(8), of ?st] by (simp add: load_u32_store_u32)
    moreover have "slice d (?a + 8) (length ?bs) = ?bs"
      unfolding d_def using r(4,5,7) len four rec_total_ge(1) [of "length ?bs"]
      by (subst slice_poke_other) (auto simp: rec_at_def)
    ultimately show ?thesis using True i r(4) by (simp add: rec_at_def)
  next
    case False
    have "rec_at d (rg_size t) (rg_pos t j) (rg_recs t ! j)"
      unfolding d_def
    proof (rule rel_other [OF rel j, of "rg_pos t i" "rec_size (rg_recs t ! i)"])
      show "rg_pos t i + rec_size (rg_recs t ! i) \<le> rg_pos t j \<or> rg_pos t j + rec_size (rg_recs t ! j) \<le> rg_pos t i"
        using False records_apart [of i j t] records_apart [of j i t] i j by linarith
    qed (use r rec_total_ge(1) [of "length ?bs"] four rel len in \<open>auto simp: ring_rel_def\<close>)
    then show ?thesis using False by simp
  qed
  have "ring_rel (rb\<lparr>rb_data := d\<rparr>) ?t"
    using rel rec rg_pos_update [OF i, of "(?bs, ?st)"] by (simp add: ring_rel_def d_def)
  then show ?thesis using impl find by simp
qed

text \<open>The records of a list, one after the other from position \<open>p\<close>.\<close>

primrec placed :: "bytes \<Rightarrow> nat \<Rightarrow> nat \<Rightarrow> ring_rec list \<Rightarrow> bool" where
  "placed data M p [] = True"
| "placed data M p (r # rs) =
     (rec_at data M p r \<and> p mod M + rec_size r \<le> length data \<and> length (fst r) < 2 ^ 30 \<and>
      placed data M (p + rec_size r) rs)"

lemma placedI:
  "(\<And>i. i < length rs \<Longrightarrow> rec_at data M (p + rg_used (take i rs)) (rs ! i) \<and>
      (p + rg_used (take i rs)) mod M + rec_size (rs ! i) \<le> length data \<and> length (fst (rs ! i)) < 2 ^ 30) \<Longrightarrow>
    placed data M p rs"
proof (induction rs arbitrary: p)
  case (Cons r rs)
  have "placed data M (p + rec_size r) rs"
    by (rule Cons.IH) (use Cons.prems [of "Suc _"] in \<open>simp add: algebra_simps\<close>)
  with Cons.prems [of 0] show ?case by simp
qed simp

lemma rel_placed: "ring_rel rb t \<Longrightarrow> placed (rb_data rb) (rg_size t) (rg_cons t) (rg_recs t)"
  using rel_record(4,7,8) by (intro placedI) (simp add: rg_pos_def)

abbreviation rb_collect :: "bytes list \<Rightarrow> bytes \<Rightarrow> bytes list \<times> int" where
  "rb_collect out bs \<equiv> (out @ [bs], 0)"

lemma fetch_records:
  assumes "placed (rb_data rb) (2 ^ k) p rs" and "rb_mask rb = 2 ^ k - 1" and "rb_max_ent rb = m"
    and "rb_consumer_pos rb = p" and "rb_producer_pos rb = p + rg_used rs"
  shows "\<exists>cnt'. rb_fetch_loop rb rb_collect out cnt p =
    Inr (rb\<lparr>rb_consumer_pos := p + rg_used (takeWhile not_busy rs)\<rparr>,
         out @ map fst (filter (\<lambda>r. snd r = Committed) (takeWhile not_busy rs)), cnt')"
  using assms
proof (induction rs arbitrary: rb p out cnt)
  case Nil
  then show ?case by (subst rb_fetch_loop.simps) auto
next
  case (Cons r rs)
  obtain bs st where r: "r = (bs, st)" by (cases r)
  have bs: "length bs < 2 ^ 30" and at: "rec_at (rb_data rb) (2 ^ k) p (bs, st)"
    and size: "p mod 2 ^ k + rec_total (length bs) \<le> length (rb_data rb)"
    and rest: "placed (rb_data rb) (2 ^ k) (p + rec_total (length bs)) rs"
    using Cons.prems(1) by (simp_all add: r)
  note total = rec_total_ge(1) [of "length bs"]
  have off: "p AND rb_mask rb = p mod 2 ^ k" unfolding Cons.prems(2) by (rule and_mask_mod)
  have lt: "p < rb_producer_pos rb" using Cons.prems(5) total by (simp add: r)
  have hdr: "load (rb_data rb) (p mod 2 ^ k) 4 = Some (slice (rb_data rb) (p mod 2 ^ k) 4)"
    using size total by (intro load_slice) linarith
  have len: "load_u32 (slice (rb_data rb) (p mod 2 ^ k) 4) = rec_hdr (bs, st)" using at by (simp add: rec_at_def)
  show ?case
  proof (cases "st = Busy")
    case True
    with hdr_state(1) [OF bs, of st] show ?thesis
      using Cons.prems(4) lt by (subst rb_fetch_loop.simps) (auto simp: off hdr len r not_busy_def Let_def)
  next
    case False
    let ?rb = "rb\<lparr>rb_consumer_pos := p + rec_total (length bs)\<rparr>"
    have IH: "\<exists>cnt'. rb_fetch_loop ?rb rb_collect out' c (p + rec_total (length bs)) =
      Inr (?rb\<lparr>rb_consumer_pos := p + rec_total (length bs) + rg_used (takeWhile not_busy rs)\<rparr>,
         out' @ map fst (filter (\<lambda>r. snd r = Committed) (takeWhile not_busy rs)), cnt')" for out' c
      using Cons.prems rest by (intro Cons.IH) (simp_all add: rb_mask_def r)
    have sample: "load (rb_data rb) (p mod 2 ^ k + 8) (length bs) = Some bs"
      using at size total by (subst load_slice) (auto simp: rec_at_def)
    have "rec_hdr (bs, Committed) = length bs" by (simp add: rec_hdr_def)
    then show ?thesis
      using IH [of "out @ [bs]" "cnt + 1"] IH [of out cnt] hdr_state(1-3) [OF bs, of st] False lt
      by (subst rb_fetch_loop.simps, cases st)
        (auto simp: off hdr len r not_busy_def Let_def sample BPF_RINGBUF_HDR_SZ_def add.assoc)
  qed
qed

lemma fetch_refines:
  assumes rel: "ring_rel rb t"
  shows "ring_rel (fst (ring_step rb RFetch)) (fst (ring_spec t RFetch)) \<and>
    snd (ring_step rb RFetch) = snd (ring_spec t RFetch)"
proof -
  obtain k where k: "rg_size t = 2 ^ k" "rb_mask rb = 2 ^ k - 1" using rel_facts [OF rel] by metis
  define n where "n = length (takeWhile not_busy (rg_recs t))"
  have tw: "takeWhile not_busy (rg_recs t) = take n (rg_recs t)" "dropWhile not_busy (rg_recs t) = drop n (rg_recs t)"
    by (simp_all only: n_def takeWhile_eq_take [symmetric] dropWhile_eq_drop [symmetric])
  have split: "rg_used (rg_recs t) = rg_used (take n (rg_recs t)) + rg_used (drop n (rg_recs t))"
    by (metis append_take_drop_id rg_used_simps(3))
  from fetch_records [of rb k "rg_cons t" "rg_recs t" _ "[]" 0] rel_placed [OF rel] k rel
  obtain c where f: "rb_fetch_data rb rb_collect [] =
      Inr (rb\<lparr>rb_consumer_pos := rg_cons t + rg_used (takeWhile not_busy (rg_recs t))\<rparr>,
         map fst (filter (\<lambda>r. snd r = Committed) (takeWhile not_busy (rg_recs t))), c)"
    by (auto simp: ring_rel_def rb_fetch_data_def)
  have "rec_at (rb_data rb) (rg_size t) (rg_cons t + rg_used (take (n + i) (rg_recs t))) (rg_recs t ! (n + i))"
    if "n + i < length (rg_recs t)" for i
    using rel that by (simp add: ring_rel_def rg_pos_def)
  then have "ring_rel (rb\<lparr>rb_consumer_pos := rg_cons t + rg_used (takeWhile not_busy (rg_recs t))\<rparr>) (fst (ring_spec t RFetch))"
    using rel split rg_used_dvd [of "take n (rg_recs t)"]
    by (auto simp: ring_rel_def rg_pos_def Let_def tw take_add add.assoc)
  then show ?thesis by (simp add: f ring_answer_def Let_def)
qed

lemma has_data_refines:
  assumes rel: "ring_rel rb t"
  shows "ring_step rb RHasData = (rb, snd (ring_spec t RHasData))"
proof (cases "rg_recs t")
  case Nil
  then show ?thesis using rel by (simp add: rb_has_data_def ring_rel_def ring_answer_def)
next
  case (Cons r rs)
  obtain k where k: "rg_size t = 2 ^ k" "rb_mask rb = 2 ^ k - 1" using rel_facts [OF rel] by metis
  obtain bs st where r: "r = (bs, st)" by (cases r)
  have zero: "0 < length (rg_recs t)" "rg_pos t 0 = rg_cons t" "rg_recs t ! 0 = (bs, st)" using Cons r by (simp_all add: rg_pos_def)
  note f = rel_record(4,5,8) [OF rel zero(1), unfolded zero(2,3) fst_conv]
  have "rb_consumer_pos rb < rb_producer_pos rb" "length (rb_data rb) = 2 * rg_size t" "rb_consumer_pos rb = rg_cons t"
    using rel Cons r rec_total_ge(1) [of "length bs"] by (simp_all add: ring_rel_def)
  then show ?thesis
    using f(1,2) hdr_state(1) [OF f(3), of st] k
    by (simp add: rb_has_data_def and_mask_mod [unfolded One_nat_def] load_slice rec_at_def ring_answer_def Cons r not_busy_def)
qed

interpretation ring_sim: guarded_simulation ring_rel ring_guard ring_step ring_spec
proof
  fix rb t op
  assume rel: "ring_rel rb t" and guard: "ring_guard t op"
  have "ring_rel (fst (ring_step rb op)) (fst (ring_spec t op)) \<and> snd (ring_step rb op) = snd (ring_spec t op)"
  proof (cases op)
    case (RBegin bs fd)
    with guard have "length bs < 2 ^ 64" "rg_pos t (length (rg_recs t)) mod rg_size t \<noteq> rg_size t - 8" by simp_all
    from begin_refines [OF rel this] show ?thesis unfolding RBegin .
  next
    case (REnd p discard)
    with guard obtain i where "rg_find t p = Some i" "snd (rg_recs t ! i) = Busy" by (auto split: option.splits)
    from end_refines [OF rel this] show ?thesis unfolding REnd .
  next
    case RFetch
    show ?thesis unfolding RFetch by (rule fetch_refines [OF rel])
  next
    case RHasData
    then show ?thesis using has_data_refines [OF rel] rel by simp
  qed
  then show "ring_rel (fst (ring_step rb op)) (fst (ring_spec t op))" "snd (ring_step rb op) = snd (ring_spec t op)"
    by simp_all
qed

lemma ring_init:
  assumes "ringbuf_new page (2 ^ k) = Inr rb" and "3 \<le> k" and "k \<le> 30" and "page < 2 ^ 30"
  shows "ring_rel rb \<lparr>rg_size = 2 ^ k, rg_cons = 0, rg_recs = []\<rparr>"
proof -
  have "(2 :: nat) ^ k \<le> 2 ^ 30" using assms(3) by (rule power_increasing) simp
  then have "page * 2 + 2 ^ k * 2 < 2 ^ 32" using assms(4) by simp
  with assms show ?thesis by (auto simp: ringbuf_new_def wrap32_def Let_def ring_rel_def split: if_splits)
qed


abbreviation demo_ring :: ringbuf where
  "demo_ring \<equiv> \<lparr>rb_max_ent = 32, rb_consumer_pos = 0, rb_producer_pos = 0, rb_data = replicate 64 0\<rparr>"

abbreviation demo_ring_ops :: "ring_op list" where
  "demo_ring_ops \<equiv> [RBegin [1, 2] 3, RBegin [4] 3, REnd 24 False, RHasData, RFetch, REnd 8 False, RBegin [5] 3, RFetch]"

lemma demo_ring_new: "ringbuf_new 8 (2 ^ 5) = Inr demo_ring"
  by code_simp

lemma demo_ring_guarded: "guarded ring_guard ring_spec \<lparr>rg_size = 2 ^ 5, rg_cons = 0, rg_recs = []\<rparr> demo_ring_ops"
  by code_simp


text \<open>Live records have different sample offsets.\<close>

lemma rg_sample_inj:
  assumes rel: "ring_rel rb t" and "i < j" and j: "j < length (rg_recs t)"
  shows "rg_sample t i \<noteq> rg_sample t j"
proof
  assume same: "rg_sample t i = rg_sample t j"
  have i: "i < length (rg_recs t)" using assms by simp
  note apart = records_apart [OF assms(2) j] and n = rec_total_ge(1) [of "length (fst (rg_recs t ! i))"]
    and m = rec_total_ge(1) [of "length (fst (rg_recs t ! j))"]
  have "rg_pos t j + rec_size (rg_recs t ! j) \<le> rg_pos t i + rg_size t"
    using rel_record(2) [OF rel j] rel_record(3) [OF rel i] rel by (simp add: ring_rel_def)
  then have "rg_pos t i mod rg_size t \<noteq> rg_pos t j mod rg_size t"
    using ring_apart [OF apart, of "rec_size (rg_recs t ! j)" "rg_size t"] m n rel_facts [OF rel] by fastforce
  then show False using same rel_record(6) [OF rel i] rel_record(6) [OF rel j] by (simp add: rg_sample_def)
qed

text \<open>The core of \<open>bpf_ringbuf_output\<close>: reserve, copy, submit.\<close>

definition rb_output :: "ringbuf \<Rightarrow> bytes \<Rightarrow> int \<Rightarrow> ringbuf res" where
  "rb_output rb bs fd = bind_res (rb_begin rb bs fd) (\<lambda>(rb', buf). rb_submit rb' buf False)"

lemma find_last:
  assumes rel: "ring_rel rb t" and "rg_recs t = rs @ [r]"
  shows "rg_find t (rg_sample t (length rs)) = Some (length rs)"
proof -
  have "rg_sample t i \<noteq> rg_sample t (length rs)" if "i < length rs" for i
    using rg_sample_inj [OF rel, of i "length rs"] that assms(2) by simp
  then show ?thesis unfolding rg_find_def find_Some_iff using assms(2)
    by (intro exI [of _ "length rs"]) (auto simp del: upt_Suc)
qed

lemma output_fetch:
  assumes rel: "ring_rel rb t" and guard: "ring_guard t (RBegin bs fd)" and idle: "list_all not_busy (rg_recs t)"
    and small: "length bs < 2 ^ 30" "rg_used (rg_recs t) + rec_total (length bs) \<le> rg_size t"
  shows "\<exists>rb'. rb_output rb bs fd = Inr rb' \<and>
    snd (ring_step rb' RFetch) = RSamples (map fst (filter (\<lambda>r. snd r = Committed) (rg_recs t)) @ [bs])"
proof -
  let ?n = "length (rg_recs t)"
  let ?t = "t\<lparr>rg_recs := rg_recs t @ [(bs, Busy)]\<rparr>" and ?t' = "t\<lparr>rg_recs := rg_recs t @ [(bs, Committed)]\<rparr>"
  have spec: "ring_spec t (RBegin bs fd) = (?t, RPtr (rg_sample t ?n))" using small by simp
  obtain rb1 where b: "rb_begin rb bs fd = Inr (rb1, rg_sample t ?n)" and rel1: "ring_rel rb1 ?t"
    using ring_sim.guarded_step [OF rel guard] ring_sim.guarded_answer [OF rel guard] unfolding spec
    by (cases "rb_begin rb bs fd") (auto simp: ring_answer_def)
  have same: "rg_sample ?t ?n = rg_sample t ?n" by (simp add: rg_sample_def rg_pos_def)
  have f: "rg_find ?t (rg_sample t ?n) = Some ?n" using find_last [OF rel1, of "rg_recs t"] same by simp
  then have g: "ring_guard ?t (REnd (rg_sample t ?n) False)" by simp
  have spec': "ring_spec ?t (REnd (rg_sample t ?n) False) = (?t', ROk)" using f by (simp add: list_update_append)
  obtain rb2 where s: "rb_submit rb1 (rg_sample t ?n) False = Inr rb2" and rel2: "ring_rel rb2 ?t'"
    using ring_sim.guarded_step [OF rel1 g] ring_sim.guarded_answer [OF rel1 g] unfolding spec'
    by (cases "rb_submit rb1 (rg_sample t ?n) False") (auto simp: ring_answer_def)
  have "takeWhile not_busy (rg_recs ?t') = rg_recs ?t'"
    using idle by (simp add: takeWhile_eq_all_conv list_all_iff not_busy_def)
  then have "snd (ring_spec ?t' RFetch) = RSamples (map fst (filter (\<lambda>r. snd r = Committed) (rg_recs t)) @ [bs])"
    by (simp add: Let_def)
  with ring_sim.guarded_answer [OF rel2, of RFetch] b s show ?thesis by (simp add: rb_output_def)
qed



text \<open>
  A record whose header lies in the last eight bytes of the ring is lost: the producer gets a pointer
  to the start of the data area, the consumer reads behind the end of the ring.  In a ring of 32 bytes
  the second record arrives as zeros.
\<close>

lemma ring_tail_record_lost:
  "snd (run_ops ring_step demo_ring
     [RBegin (replicate 16 7) 3, REnd 8 False, RFetch, RBegin [1, 2, 3, 4, 5, 6, 7, 8] 3, REnd 0 False, RFetch]) =
   [RPtr 8, ROk, RSamples [replicate 16 7], RPtr 0, ROk, RSamples [replicate 8 0]]"
  by code_simp

end
