(* ===== verification/Perf_Event.thy ===== *)
theory Perf_Event
  imports Map_Contracts "HOL-Library.Code_Target_Nat"
begin

text \<open>
  The buffer of a software perf event (\<open>software_perf_event_data\<close> of
  \<open>src/runtime/src/handler/perf_event_handler.cpp\<close>): a page with the header of \<open>perf_event_mmap_page\<close>
  followed by a ring of bytes into which samples are written and from which the other side, which
  maps the buffer, reads.  The positions \<open>data_head\<close> and \<open>data_tail\<close> are byte counters of 64 bits; the
  model takes them unbounded.
\<close>

section \<open>The operations\<close>

record swpe =
  sp_pagesize :: nat
  sp_data_size :: nat
  sp_data_head :: nat
  sp_data_tail :: nat
  sp_ring :: bytes
  sp_copy_buffer :: bytes

text \<open>\<open>sp_ring\<close> is the part of \<open>mmap_buffer\<close> after the page; \<open>mmap_size\<close> is its length.\<close>

definition software_perf_event_data :: "nat \<Rightarrow> swpe" where
  "software_perf_event_data pagesize =
     \<lparr>sp_pagesize = pagesize, sp_data_size = 0, sp_data_head = 0, sp_data_tail = 0, sp_ring = [],
      sp_copy_buffer = replicate pagesize 0\<rparr>"

definition sp_has_data :: "swpe \<Rightarrow> bool" where
  "sp_has_data p = (sp_data_tail p \<noteq> sp_data_head p)"

definition sp_mmap_size :: "swpe \<Rightarrow> nat" where
  "sp_mmap_size p = length (sp_ring p)"

fun popcnt :: "nat \<Rightarrow> nat" where
  "popcnt x = (if x = 0 then 0 else x mod 2 + popcnt (x div 2))"

declare popcnt.simps [simp del]

text \<open>The new buffer and whether the returned pointer is non-null.\<close>

definition ensure_mmap_buffer :: "swpe \<Rightarrow> nat \<Rightarrow> swpe \<times> bool" where
  "ensure_mmap_buffer p buffer_size =
     (if buffer_size > sp_pagesize p + length (sp_ring p)
      then let p = p\<lparr>sp_ring := sp_ring p @ replicate (buffer_size - sp_pagesize p - length (sp_ring p)) 0,
                     sp_data_size := buffer_size - sp_pagesize p\<rparr>
           in (p, popcnt (buffer_size - sp_pagesize p) = 1)
      else (p, True))"

definition PERF_RECORD_SAMPLE :: nat where "PERF_RECORD_SAMPLE = 9"

text \<open>
  \<open>perf_sample_raw\<close>: the type of 32 bits, \<open>misc\<close> and \<open>size\<close> of 16 bits, the sample's size of 32 bits.
\<close>

definition sizeof_head :: nat where "sizeof_head = 12"

definition header_size :: "nat \<Rightarrow> nat" where
  "header_size n = (sizeof_head + n) mod 2 ^ 16"

definition sample_head :: "nat \<Rightarrow> bytes" where
  "sample_head n = le_bytes 4 PERF_RECORD_SAMPLE @ le_bytes 2 0 @ le_bytes 2 (header_size n) @ le_bytes 4 n"

definition output_data :: "swpe \<Rightarrow> ptr \<Rightarrow> nat \<Rightarrow> swpe res" where
  "output_data p buf n =
     (let hsize = header_size n;
          M = int (sp_mmap_size p);
          available = M - (int (sp_data_head p) - int (sp_data_tail p));
          available = (if available = 0 then M else available)
      in if available \<le> int hsize then Inr p
         else
           let copy = (if length (sp_copy_buffer p) \<noteq> hsize
                       then take hsize (sp_copy_buffer p) @ replicate (hsize - length (sp_copy_buffer p)) 0
                       else sp_copy_buffer p)
           in bind_res (of_opt (store copy 0 (sample_head n))) (\<lambda>copy.
              bind_res (arg_bytes buf n) (\<lambda>src.
              bind_res (of_opt (store copy sizeof_head src)) (\<lambda>copy.
              let start = sp_data_head p AND (sp_mmap_size p - 1)
              in bind_res
                   (if hsize + start \<le> sp_mmap_size p
                    then of_opt (store (sp_ring p) start (take hsize copy))
                    else
                      let len_first = sp_mmap_size p - start; len_second = hsize - len_first
                      in bind_res (of_opt (store (sp_ring p) start (take len_first copy))) (\<lambda>ring.
                         of_opt (store ring 0 (take len_second (drop len_first copy)))))
                   (\<lambda>ring. Inr (p\<lparr>sp_copy_buffer := copy, sp_ring := ring, sp_data_head := sp_data_head p + hsize\<rparr>))))))"

section \<open>The ring as a stream of bytes\<close>

text \<open>The unread bytes, from the tail to the head, and the operations of both sides.\<close>

definition sp_stream :: "swpe \<Rightarrow> bytes" where
  "sp_stream p = map (\<lambda>i. sp_ring p ! ((sp_data_tail p + i) mod sp_mmap_size p)) [0..<sp_data_head p - sp_data_tail p]"

definition sp_inv :: "swpe \<Rightarrow> bool" where
  "sp_inv p \<longleftrightarrow> (\<exists>k. sp_mmap_size p = 2 ^ k) \<and> sp_data_tail p \<le> sp_data_head p \<and>
     sp_data_head p - sp_data_tail p < sp_mmap_size p"

text \<open>The bytes of one sample.\<close>

definition sp_record :: "bytes \<Rightarrow> bytes" where
  "sp_record bs = sample_head (length bs) @ bs"

lemma length_sp_record: "length (sp_record bs) = 12 + length bs"
  by (simp add: sp_record_def sample_head_def)

lemma header_size_id: "n < 65524 \<Longrightarrow> header_size n = 12 + n"
  by (simp add: header_size_def sizeof_head_def)

text \<open>Writing \<open>xs\<close> into a ring from position \<open>h\<close> on.\<close>

definition ring_write :: "bytes \<Rightarrow> nat \<Rightarrow> bytes \<Rightarrow> bytes" where
  "ring_write r h xs =
     (let M = length r; s = h mod M
      in if length xs + s \<le> M then poke r s xs
         else poke (poke r s (take (M - s) xs)) 0 (drop (M - s) xs))"

lemma length_ring_write [simp]: "length (ring_write r h xs) = length r"
  by (simp add: ring_write_def Let_def)

lemma nth_poke:
  "off + length bs \<le> length v \<Longrightarrow> i < length v \<Longrightarrow>
     poke v off bs ! i = (if off \<le> i \<and> i < off + length bs then bs ! (i - off) else v ! i)"
  using nth_store [of v off bs "poke v off bs" i] by (simp add: poke_def store_def)

lemma ring_index:
  "0 < M \<Longrightarrow> j < M \<Longrightarrow> (h + j) mod M = (if h mod M + j < M then h mod M + j else h mod M + j - M)" for h j M :: nat
proof -
  assume a: "0 < M" "j < M"
  have e: "(h + j) mod M = (h mod M + j) mod M" by (simp add: mod_add_left_eq)
  have "h mod M < M" using a by simp
  then have "h mod M + j - M < M" using a by linarith
  then show ?thesis unfolding e by (cases "h mod M + j < M") (simp_all add: le_mod_geq)
qed

lemma nth_ring_write:
  assumes "length xs < length r" and "j < length r"
  shows "ring_write r h xs ! ((h + j) mod length r) = (if j < length xs then xs ! j else r ! ((h + j) mod length r))"
proof -
  let ?M = "length r" and ?s = "h mod length r"
  have M: "0 < ?M" and s: "?s < ?M" using assms(1) by (auto intro: mod_less_divisor)
  note idx = ring_index [OF M assms(2), of h]
  have lt: "(h + j) mod ?M < ?M" using M by simp
  show ?thesis
  proof (cases "length xs + ?s \<le> ?M")
    case True
    then show ?thesis unfolding ring_write_def Let_def using lt s assms(2) by (auto simp: nth_poke idx)
  next
    case False
    have one: "?s + length (take (?M - ?s) xs) \<le> ?M" and two: "length (drop (?M - ?s) xs) \<le> ?M"
      using s assms(1) by auto
    have "ring_write r h xs = poke (poke r ?s (take (?M - ?s) xs)) 0 (drop (?M - ?s) xs)"
      using False by (simp add: ring_write_def Let_def)
    then have w: "ring_write r h xs ! i =
        (if i < length xs - (?M - ?s) then xs ! (?M - ?s + i)
         else if ?s \<le> i then xs ! (i - ?s) else r ! i)" if "i < ?M" for i
      using that False s one two by (simp add: nth_poke)
    show ?thesis unfolding w [OF lt] using False s assms by (auto simp: idx)
  qed
qed

lemma output_eval:
  assumes inv: "sp_inv p" and n: "length bs < 65524"
  shows "output_data p (Some bs) (length bs) =
    (if sp_mmap_size p - (sp_data_head p - sp_data_tail p) \<le> 12 + length bs then Inr p
     else Inr (p\<lparr>sp_copy_buffer := sp_record bs, sp_ring := ring_write (sp_ring p) (sp_data_head p) (sp_record bs),
                 sp_data_head := sp_data_head p + 12 + length bs\<rparr>))"
proof -
  let ?M = "sp_mmap_size p" and ?u = "sp_data_head p - sp_data_tail p" and ?r = "sp_record bs"
  from inv obtain k where k: "?M = 2 ^ k" and le: "sp_data_tail p \<le> sp_data_head p" and u: "?u < ?M"
    by (auto simp: sp_inv_def)
  have avail: "int ?M - (int (sp_data_head p) - int (sp_data_tail p)) = int (?M - ?u)" using le u by simp
  have h: "header_size (length bs) = 12 + length bs" using n by (rule header_size_id)
  have nz: "int (?M - ?u) \<noteq> 0" using u by simp
  note eq = output_data_def [of p "Some bs" "length bs", unfolded Let_def avail h if_not_P [OF nz] of_nat_le_iff]
  show ?thesis
  proof (cases "?M - ?u \<le> 12 + length bs")
    case True
    then show ?thesis unfolding eq by (simp only: if_True)
  next
    case False
    define s where "s = sp_data_head p mod ?M"
    have s: "sp_data_head p AND (?M - 1) = s" unfolding s_def k
      by (metis mask_eq_exp_minus_1 take_bit_eq_mask take_bit_eq_mod)
    have sM: "s < ?M" using k by (simp add: s_def)
    have M: "?M = length (sp_ring p)" by (simp add: sp_mmap_size_def)
    have hd: "length (sample_head (length bs)) = 12" by (simp add: sample_head_def)
    have st: "store c 0 (sample_head (length bs)) = Some (sample_head (length bs) @ drop 12 c)"
      "store (sample_head (length bs) @ drop 12 c) sizeof_head bs = Some ?r" if "length c = 12 + length bs" for c
      using that hd by (simp_all add: store_def sizeof_head_def sp_record_def)
    have src: "arg_bytes (Some bs) (length bs) = Inr bs" by (simp add: arg_bytes_Some)
    have len: "length ?r = 12 + length bs" by (rule length_sp_record)
    have wr: "(if 12 + length bs + s \<le> ?M then of_opt (store (sp_ring p) s (take (12 + length bs) ?r))
        else bind_res (of_opt (store (sp_ring p) s (take (?M - s) ?r))) (\<lambda>ring.
             of_opt (store ring 0 (take (12 + length bs - (?M - s)) (drop (?M - s) ?r))))) =
        Inr (ring_write (sp_ring p) (sp_data_head p) ?r)"
    proof (cases "12 + length bs + s \<le> ?M")
      case True
      then show ?thesis using len M s_def by (simp add: ring_write_def Let_def poke_def store_def)
    next
      case no: False
      have "length (drop (?M - s) ?r) \<le> ?M" using False len by simp
      then show ?thesis using no len M s_def sM
        by (simp add: ring_write_def Let_def poke_def store_def min_def) linarith
    qed
    let ?c = "if length (sp_copy_buffer p) \<noteq> 12 + length bs
      then take (12 + length bs) (sp_copy_buffer p) @ replicate (12 + length bs - length (sp_copy_buffer p)) 0
      else sp_copy_buffer p"
    have c: "length ?c = 12 + length bs" by (simp add: min_def)
    show ?thesis unfolding eq if_not_P [OF False] st(1) [OF c] of_opt_simps bind_res.simps src st(2) [OF c] s wr
      by (simp add: add.assoc)
  qed
qed

lemma stream_append:
  assumes inv: "sp_inv p" and fits: "sp_data_head p - sp_data_tail p + length xs < sp_mmap_size p"
  shows "sp_inv (p\<lparr>sp_copy_buffer := c, sp_ring := ring_write (sp_ring p) (sp_data_head p) xs, sp_data_head := sp_data_head p + length xs\<rparr>)"
    and "sp_stream (p\<lparr>sp_copy_buffer := c, sp_ring := ring_write (sp_ring p) (sp_data_head p) xs, sp_data_head := sp_data_head p + length xs\<rparr>) =
      sp_stream p @ xs"
proof -
  let ?M = "sp_mmap_size p" and ?u = "sp_data_head p - sp_data_tail p"
  let ?p = "p\<lparr>sp_copy_buffer := c, sp_ring := ring_write (sp_ring p) (sp_data_head p) xs, sp_data_head := sp_data_head p + length xs\<rparr>"
  have M: "sp_mmap_size ?p = ?M" "?M = length (sp_ring p)" by (simp_all add: sp_mmap_size_def)
  have le: "sp_data_tail p \<le> sp_data_head p" using inv by (simp add: sp_inv_def)
  show "sp_inv ?p" using inv fits le by (auto simp: sp_inv_def M(1))
  show "sp_stream ?p = sp_stream p @ xs"
  proof (rule nth_equalityI)
    show "length (sp_stream ?p) = length (sp_stream p @ xs)" using le by (simp add: sp_stream_def)
  next
    fix i
    assume "i < length (sp_stream ?p)"
    then have i: "i < ?u + length xs" using le by (simp add: sp_stream_def)
    then have iM: "i < ?M" using fits by simp
    let ?w = "ring_write (sp_ring p) (sp_data_head p) xs"
    have nth: "sp_stream ?p ! i = ?w ! ((sp_data_tail p + i) mod ?M)" using i le by (simp add: sp_stream_def M(1))
    show "sp_stream ?p ! i = (sp_stream p @ xs) ! i"
    proof (cases "i < ?u")
      case True
      have "(sp_data_tail p + i) mod ?M = (sp_data_head p + (?M + i - ?u)) mod ?M"
        using le fits True by (simp add: algebra_simps) (metis add.assoc add.commute le_add_diff_inverse mod_add_self1)
      moreover have "?M + i - ?u < ?M" "length xs \<le> ?M + i - ?u" using True fits by linarith+
      ultimately show ?thesis unfolding nth
        using nth_ring_write [of xs "sp_ring p" "?M + i - ?u" "sp_data_head p"] fits True M(2)
        by (simp add: nth_append sp_stream_def)
    next
      case False
      define j where "j = i - ?u"
      have j: "j < length xs" "sp_data_tail p + i = sp_data_head p + j" "i = ?u + j"
        using False i le by (auto simp: j_def)
      have "?w ! ((sp_data_head p + j) mod ?M) = xs ! j"
        using nth_ring_write [of xs "sp_ring p" j "sp_data_head p"] j(1) fits M(2) by simp
      then show ?thesis unfolding nth j(2) by (simp add: nth_append sp_stream_def j(3))
    qed
  qed
qed

text \<open>
  The machine of the two sides: an output of a sample, and a reader that takes some of the unread bytes
  and moves the tail.  The abstract state is the size of the ring and the unread bytes.
\<close>

datatype perf_op = POutput bytes | PRead nat | PPoll

datatype perf_answer = PDone | PBytes bytes | PBool bool | PFailed fail

fun perf_step :: "swpe \<Rightarrow> perf_op \<Rightarrow> swpe \<times> perf_answer" where
  "perf_step p (POutput bs) =
     (case output_data p (Some bs) (length bs) of Inl e \<Rightarrow> (p, PFailed e) | Inr p' \<Rightarrow> (p', PDone))"
| "perf_step p (PRead n) =
     (let k = min n (sp_data_head p - sp_data_tail p)
      in (p\<lparr>sp_data_tail := sp_data_tail p + k\<rparr>, PBytes (take k (sp_stream p))))"
| "perf_step p PPoll = (p, PBool (sp_has_data p))"

fun perf_spec :: "nat \<times> bytes \<Rightarrow> perf_op \<Rightarrow> (nat \<times> bytes) \<times> perf_answer" where
  "perf_spec (M, bs) (POutput xs) = (if length bs + 12 + length xs < M then (M, bs @ sp_record xs) else (M, bs), PDone)"
| "perf_spec (M, bs) (PRead n) = ((M, drop n bs), PBytes (take n bs))"
| "perf_spec (M, bs) PPoll = ((M, bs), PBool (bs \<noteq> []))"

text \<open>The samples that fit the 16-bit size of the record header.\<close>

fun perf_guard :: "nat \<times> bytes \<Rightarrow> perf_op \<Rightarrow> bool" where
  "perf_guard t (POutput xs) = (length xs < 65524)"
| "perf_guard t op = True"

definition perf_rel :: "swpe \<Rightarrow> nat \<times> bytes \<Rightarrow> bool" where
  "perf_rel p t \<longleftrightarrow> sp_inv p \<and> t = (sp_mmap_size p, sp_stream p)"

lemma stream_drop:
  assumes "sp_inv p"
  shows "sp_stream (p\<lparr>sp_data_tail := sp_data_tail p + min n (sp_data_head p - sp_data_tail p)\<rparr>) = drop n (sp_stream p)"
  by (rule nth_equalityI) (auto simp: sp_stream_def sp_mmap_size_def algebra_simps)

interpretation perf_sim: guarded_simulation perf_rel perf_guard perf_step perf_spec
proof
  fix p t op
  assume rel: "perf_rel p t" and guard: "perf_guard t op"
  have inv: "sp_inv p" and t: "t = (sp_mmap_size p, sp_stream p)" using rel by (simp_all add: perf_rel_def)
  have len: "length (sp_stream p) = sp_data_head p - sp_data_tail p" by (simp add: sp_stream_def)
  have "perf_rel (fst (perf_step p op)) (fst (perf_spec t op)) \<and> snd (perf_step p op) = snd (perf_spec t op)"
  proof (cases op)
    case (POutput bs)
    then have bs: "length bs < 65524" using guard by simp
    have room: "sp_mmap_size p - (sp_data_head p - sp_data_tail p) \<le> 12 + length bs \<longleftrightarrow>
        \<not> length (sp_stream p) + 12 + length bs < sp_mmap_size p" using len by auto
    show ?thesis
    proof (cases "length (sp_stream p) + 12 + length bs < sp_mmap_size p")
      case True
      have "sp_data_head p - sp_data_tail p + length (sp_record bs) < sp_mmap_size p"
        using True len by (simp add: length_sp_record)
      from stream_append [OF inv this, of "sp_record bs"] show ?thesis
        using True room unfolding POutput t perf_step.simps perf_spec.simps output_eval [OF inv bs]
        by (simp add: perf_rel_def length_sp_record add.assoc) (simp add: sp_mmap_size_def)
    next
      case False
      then show ?thesis using room rel unfolding POutput t perf_step.simps perf_spec.simps output_eval [OF inv bs]
        by (simp add: perf_rel_def)
    qed
  next
    case (PRead n)
    have "sp_inv (p\<lparr>sp_data_tail := sp_data_tail p + min n (sp_data_head p - sp_data_tail p)\<rparr>)"
      using inv by (auto simp: sp_inv_def sp_mmap_size_def)
    with stream_drop [OF inv, of n] show ?thesis
      by (simp add: PRead t perf_rel_def Let_def min_def len) (simp add: sp_mmap_size_def)
  next
    case PPoll
    have "sp_stream p = [] \<longleftrightarrow> sp_data_tail p = sp_data_head p"
      using inv len by (metis diff_is_0_eq le_antisym length_0_conv order_refl sp_inv_def)
    then show ?thesis using PPoll rel t by (auto simp: sp_has_data_def perf_rel_def)
  qed
  then show "perf_rel (fst (perf_step p op)) (fst (perf_spec t op))" "snd (perf_step p op) = snd (perf_spec t op)"
    by simp_all
qed

lemma popcnt_double: "popcnt (2 * x) = popcnt x"
  by (cases "x = 0") (simp_all add: popcnt.simps [of "2 * x"])

lemma popcnt_zero: "popcnt x = 0 \<longleftrightarrow> x = 0"
proof (induction x rule: popcnt.induct)
  case (1 x)
  show ?case
  proof (cases "x = 0")
    case False
    with 1 have "popcnt (x div 2) = 0 \<longleftrightarrow> x div 2 = 0" by blast
    with False show ?thesis by (subst popcnt.simps) (simp, presburger)
  qed (simp add: popcnt.simps)
qed

text \<open>\<open>popcnt\<close> recognises the powers of two.\<close>

lemma popcnt_one: "popcnt x = 1 \<longleftrightarrow> (\<exists>k. x = 2 ^ k)"
proof
  assume "popcnt x = 1"
  then show "\<exists>k. x = 2 ^ k"
  proof (induction x rule: popcnt.induct)
    case (1 x)
    from "1.prems" have x: "x \<noteq> 0" using popcnt_zero [of x] by simp
    then have eq: "popcnt x = x mod 2 + popcnt (x div 2)" by (subst popcnt.simps) simp
    show ?case
    proof (cases "even x")
      case True
      with eq "1.prems" "1.IH" [OF x] obtain k where "x div 2 = 2 ^ k" by auto
      with True show ?thesis by (intro exI [of _ "Suc k"]) auto
    next
      case False
      with eq "1.prems" have "popcnt (x div 2) = 0" by (simp add: odd_iff_mod_2_eq_one)
      then have "x div 2 = 0" using popcnt_zero by blast
      with x have "x = 2 ^ 0" by simp
      then show ?thesis by blast
    qed
  qed
next
  assume "\<exists>k. x = 2 ^ k"
  then obtain k where x: "x = 2 ^ k" by blast
  have "popcnt (2 ^ k) = 1"
    by (induction k) (simp_all add: popcnt_double popcnt.simps [of "Suc 0"] popcnt.simps [of 0])
  then show "popcnt x = 1" by (simp add: x)
qed

text \<open>
  C5.  The buffer of a software perf event, expanded to a page and \<open>2^k\<close> bytes, is a queue of bytes: for
  samples below 65524 bytes, every sequence of outputs, reads and polls answers as the queue does.  An
  output appends the whole record or, when the record would fill the ring, nothing; unread bytes are
  never overwritten and the two positions meet only when the buffer is empty.
\<close>

theorem perf_buffer_is_byte_queue:
  assumes "ensure_mmap_buffer (software_perf_event_data page) (page + 2 ^ k) = (p, ok)"
    and "guarded perf_guard perf_spec (2 ^ k, []) ops"
  shows "ok \<and> snd (run_ops perf_step p ops) = snd (run_ops perf_spec (2 ^ k, []) ops) \<and>
    sp_inv (fst (run_ops perf_step p ops))"
proof -
  have p: "p = (software_perf_event_data page)\<lparr>sp_ring := replicate (2 ^ k) 0, sp_data_size := 2 ^ k\<rparr>" and ok: "ok = (popcnt (2 ^ k) = 1)"
    using assms(1) by (auto simp: ensure_mmap_buffer_def software_perf_event_data_def Let_def)
  have "perf_rel p (2 ^ k, [])"
    by (auto simp: p perf_rel_def sp_inv_def sp_stream_def sp_mmap_size_def software_perf_event_data_def)
  from perf_sim.guarded_run [OF this assms(2)] ok popcnt_one show ?thesis by (auto simp: perf_rel_def)
qed

abbreviation demo_perf :: swpe where
  "demo_perf \<equiv> fst (ensure_mmap_buffer (software_perf_event_data 8) (8 + 2 ^ 5))"

theorem perf_buffer_is_byte_queue_witness:
  "snd (run_ops perf_step demo_perf [POutput [1, 2], PRead 12, PRead 9, POutput [3], POutput (replicate 20 4), PPoll]) =
     [PDone, PBytes [9, 0, 0, 0, 0, 0, 14, 0, 2, 0, 0, 0], PBytes [1, 2], PDone, PDone, PBool True]"
proof -
  let ?ops = "[POutput [1, 2], PRead 12, PRead 9, POutput [3], POutput (replicate 20 4), PPoll]"
  have "guarded perf_guard perf_spec (2 ^ 5, []) ?ops" by simp
  moreover have "ensure_mmap_buffer (software_perf_event_data 8) (8 + 2 ^ 5) =
      (demo_perf, snd (ensure_mmap_buffer (software_perf_event_data 8) (8 + 2 ^ 5)))" by simp
  ultimately have "snd (run_ops perf_step demo_perf ?ops) = snd (run_ops perf_spec (2 ^ 5, []) ?ops)"
    using perf_buffer_is_byte_queue [of 8 5] by blast
  also have "\<dots> = [PDone, PBytes [9, 0, 0, 0, 0, 0, 14, 0, 2, 0, 0, 0], PBytes [1, 2], PDone, PDone, PBool True]"
    by code_simp
  finally show ?thesis .
qed

text \<open>
  The record size is stored in 16 bits: a sample of 65524 bytes or more is copied into a buffer of the
  wrapped size, which is out of bounds unless the sample is dropped.
\<close>

lemma perf_output_overflow:
  assumes "sp_inv p" and "65524 \<le> length bs" and "header_size (length bs) < sp_mmap_size p - (sp_data_head p - sp_data_tail p)"
  shows "output_data p (Some bs) (length bs) = Inl Fault"
proof -
  let ?h = "header_size (length bs)" and ?M = "sp_mmap_size p" and ?u = "sp_data_head p - sp_data_tail p"
  have le: "sp_data_tail p \<le> sp_data_head p" and u: "?u < ?M" using assms(1) by (auto simp: sp_inv_def)
  have avail: "int ?M - (int (sp_data_head p) - int (sp_data_tail p)) = int (?M - ?u)" using le u by simp
  have nz: "int (?M - ?u) \<noteq> 0" using u by simp
  have small: "?h < 12 + length bs" using assms(2) by (simp add: header_size_def sizeof_head_def mod_less_divisor order_less_le_trans [of _ "2 ^ 16"])
  have copy: "bind_res (of_opt (store c 0 (sample_head (length bs)))) (\<lambda>copy.
      bind_res (arg_bytes (Some bs) (length bs)) (\<lambda>src. bind_res (of_opt (store copy sizeof_head src)) f)) = Inl Fault"
    if "length c = ?h" for c f
  proof (cases "store c 0 (sample_head (length bs))")
    case (Some c')
    then have "length c' = ?h" using that length_store by metis
    then have "store c' sizeof_head bs = None" using small by (simp add: store_def sizeof_head_def)
    with Some show ?thesis by (simp add: arg_bytes_Some)
  qed simp
  have no: "\<not> ?M - ?u \<le> ?h" using assms(3) by simp
  show ?thesis
    unfolding output_data_def Let_def avail if_not_P [OF nz] of_nat_le_iff if_not_P [OF no]
    by (rule copy) (simp add: min_def)
qed

end
