(* ===== verification/Map_Handler.thy ===== *)
theory Map_Handler
  imports Array_Map Percpu_Array Fd_Array Queue_Map Stack_Map Fix_Hash_Map Percpu_Hash_Map Lru_Hash_Map
    Bloom_Filter Lpm_Trie Stack_Trace_Map Ringbuf_Map Perf_Event
begin

text \<open>
  \<open>bpf_map_handler\<close> (\<open>runtime/src/handler/map_handler.{hpp,cpp}\<close>): the tag of the map type, the
  pointer to the implementation object in the shared segment, and the switches that cast the pointer
  to the class of the tag and call it.  The build without CUDA is modelled; \<open>me_libbpf\<close> says whether
  \<open>BPFTIME_BUILD_WITH_LIBBPF\<close> is set.

  What the code calls outside itself is in \<open>map_env\<close>, the environment at the moment of a call: the
  processor, the containers of boost, the kernel's answers, the operations registered for map types
  that are not built in, and the named objects of the shared segment.
\<close>

section \<open>Map types\<close>

datatype bpf_map_type =
    BPF_MAP_TYPE_HASH | BPF_MAP_TYPE_ARRAY | BPF_MAP_TYPE_PROG_ARRAY | BPF_MAP_TYPE_PERF_EVENT_ARRAY
  | BPF_MAP_TYPE_PERCPU_HASH | BPF_MAP_TYPE_PERCPU_ARRAY | BPF_MAP_TYPE_STACK_TRACE
  | BPF_MAP_TYPE_LRU_HASH | BPF_MAP_TYPE_LPM_TRIE | BPF_MAP_TYPE_ARRAY_OF_MAPS
  | BPF_MAP_TYPE_QUEUE | BPF_MAP_TYPE_STACK | BPF_MAP_TYPE_RINGBUF | BPF_MAP_TYPE_BLOOM_FILTER
  | BPF_MAP_TYPE_KERNEL_USER_HASH | BPF_MAP_TYPE_KERNEL_USER_ARRAY
  | BPF_MAP_TYPE_KERNEL_USER_PERCPU_ARRAY | BPF_MAP_TYPE_KERNEL_USER_PERF_EVENT_ARRAY
  | BPF_MAP_TYPE_OTHER int

definition KERNEL_USER_MAP_OFFSET :: int where "KERNEL_USER_MAP_OFFSET = 1000"
definition BPF_MAP_TYPE_MAX :: nat where "BPF_MAP_TYPE_MAX = 2048"

text \<open>
  The enumerators the switches name, with their codes.  \<open>BPF_MAP_TYPE_OTHER\<close> is every other value the
  cast \<open>(bpf_map_type)type\<close> of an \<open>int\<close> may give, with or without an enumerator.
\<close>

definition map_type_codes :: "(int \<times> bpf_map_type) list" where
  "map_type_codes =
     [(1, BPF_MAP_TYPE_HASH), (2, BPF_MAP_TYPE_ARRAY), (3, BPF_MAP_TYPE_PROG_ARRAY),
      (4, BPF_MAP_TYPE_PERF_EVENT_ARRAY), (5, BPF_MAP_TYPE_PERCPU_HASH),
      (6, BPF_MAP_TYPE_PERCPU_ARRAY), (7, BPF_MAP_TYPE_STACK_TRACE), (9, BPF_MAP_TYPE_LRU_HASH),
      (11, BPF_MAP_TYPE_LPM_TRIE), (12, BPF_MAP_TYPE_ARRAY_OF_MAPS), (22, BPF_MAP_TYPE_QUEUE),
      (23, BPF_MAP_TYPE_STACK), (27, BPF_MAP_TYPE_RINGBUF), (30, BPF_MAP_TYPE_BLOOM_FILTER),
      (KERNEL_USER_MAP_OFFSET + 1, BPF_MAP_TYPE_KERNEL_USER_HASH),
      (KERNEL_USER_MAP_OFFSET + 2, BPF_MAP_TYPE_KERNEL_USER_ARRAY),
      (KERNEL_USER_MAP_OFFSET + 6, BPF_MAP_TYPE_KERNEL_USER_PERCPU_ARRAY),
      (KERNEL_USER_MAP_OFFSET + 4, BPF_MAP_TYPE_KERNEL_USER_PERF_EVENT_ARRAY)]"

definition map_type_of :: "int \<Rightarrow> bpf_map_type" where
  "map_type_of n = (case map_of map_type_codes n of Some t \<Rightarrow> t | None \<Rightarrow> BPF_MAP_TYPE_OTHER n)"

definition map_type_code :: "bpf_map_type \<Rightarrow> int" where
  "map_type_code t =
     (case t of BPF_MAP_TYPE_OTHER n \<Rightarrow> n
      | _ \<Rightarrow> (case find (\<lambda>(n, t'). t' = t) map_type_codes of Some (n, _) \<Rightarrow> n | None \<Rightarrow> 0))"

lemma map_type_code_of: "map_type_code (map_type_of n) = n"
  by (simp add: map_type_of_def map_type_code_def map_type_codes_def KERNEL_USER_MAP_OFFSET_def)

text \<open>The fields of \<open>bpf_map_attr\<close> the handler reads.\<close>

record bpf_map_attr =
  ma_type :: int
  ma_key_size :: nat
  ma_value_size :: nat
  ma_max_ents :: nat
  ma_flags :: nat
  ma_map_extra :: nat
  ma_kernel_bpf_map_id :: nat

section \<open>The environment\<close>

text \<open>\<open>bpftime_map_ops\<close>: a null function pointer is \<open>None\<close>; the functions are what they answer at this call.\<close>

record map_ops =
  mo_alloc_map :: "(int \<Rightarrow> string \<Rightarrow> bpf_map_attr \<Rightarrow> int) option"
  mo_map_free :: "unit option"
  mo_elem_lookup :: "(int \<Rightarrow> ptr \<Rightarrow> bool \<Rightarrow> bytes res) option"
  mo_elem_update :: "(int \<Rightarrow> ptr \<Rightarrow> ptr \<Rightarrow> nat \<Rightarrow> bool \<Rightarrow> unit res) option"
  mo_elem_delete :: "(int \<Rightarrow> ptr \<Rightarrow> bool \<Rightarrow> unit res) option"
  mo_map_get_next_key :: "(int \<Rightarrow> ptr \<Rightarrow> bool \<Rightarrow> bool \<Rightarrow> bytes res) option"

definition null_ops :: map_ops where
  "null_ops = \<lparr>mo_alloc_map = None, mo_map_free = None, mo_elem_lookup = None, mo_elem_update = None,
               mo_elem_delete = None, mo_map_get_next_key = None\<rparr>"

definition global_map_ops_table :: "map_ops list" where
  "global_map_ops_table = replicate BPF_MAP_TYPE_MAX null_ops"

definition bpftime_register_map_ops :: "map_ops list \<Rightarrow> int \<Rightarrow> map_ops \<Rightarrow> map_ops list res" where
  "bpftime_register_map_ops table map_type ops =
     (if map_type < 0 \<or> map_type \<ge> int BPF_MAP_TYPE_MAX then Inl RetFail
      else Inr (table[nat map_type := ops]))"

text \<open>The four classes of \<open>bpf_map/shared\<close>, which forward to a map of the kernel, and its answers.\<close>

datatype ku_class = KU_array | KU_hash | KU_percpu_array | KU_perf_event_array

record kernel_user =
  ku_new :: "ku_class \<Rightarrow> nat \<Rightarrow> unit res"
  ku_lookup :: "ku_class \<Rightarrow> nat \<Rightarrow> ptr \<Rightarrow> bytes res"
  ku_update :: "ku_class \<Rightarrow> nat \<Rightarrow> ptr \<Rightarrow> ptr \<Rightarrow> nat \<Rightarrow> unit res"
  ku_delete :: "ku_class \<Rightarrow> nat \<Rightarrow> ptr \<Rightarrow> unit res"
  ku_next :: "ku_class \<Rightarrow> nat \<Rightarrow> ptr \<Rightarrow> bool \<Rightarrow> bytes res"

text \<open>
  The named objects of \<open>managed_shared_memory\<close>: whether a name is in use, \<open>construct\<close> (\<open>None\<close> when it
  throws) and \<open>destroy\<close>.
\<close>

record 'g segment =
  sg_used :: "'g \<Rightarrow> string \<Rightarrow> bool"
  sg_construct :: "'g \<Rightarrow> string \<Rightarrow> 'g option"
  sg_destroy :: "'g \<Rightarrow> string \<Rightarrow> 'g"

record ('g, 'p, 'l, 's) map_env =
  me_segment :: "'g segment"
  me_pcpu :: "('p, bytes, bytes) umap"
  me_lru :: "'l lru_umap"
  me_stack :: "('s, nat, u64 list) umap"
  me_cpu :: nat
  me_ncpu :: nat
  me_page_size :: nat
  me_libbpf :: bool
  me_allow_non_buildin :: bool
  me_table :: "map_ops list"
  me_kernel :: kernel_user
  me_prog_fd :: "int \<Rightarrow> nat \<Rightarrow> int"
  me_info_by_fd :: "int \<Rightarrow> int option"
  me_random :: "(u32 \<times> u32) option"
  me_clock :: u64

section \<open>Implementation objects\<close>

datatype ('p, 'l, 's) map_impl =
    HashImpl fix_hash | ArrayImpl array_map | RingbufImpl ringbuf | PerfEventArrayImpl fd_array
  | PercpuArrayImpl pcpu_array | PercpuHashImpl "'p pcpu_hash" | StackTraceImpl "'s stack_trace"
  | QueueImpl queue_map | StackImpl stack_map | BloomImpl bloom_filter | LruImpl "'l lru_hash"
  | LpmImpl lpm_trie | ProgArrayImpl fd_array | ArrayOfMapsImpl array_map | KernelUserImpl ku_class nat

datatype impl_class =
    C_hash | C_array | C_ringbuf | C_perf_event_array | C_percpu_array | C_percpu_hash | C_stack_trace
  | C_queue | C_stack | C_bloom_filter | C_lru | C_lpm | C_prog_array | C_array_of_maps
  | C_kernel_user ku_class

primrec class_of :: "('p, 'l, 's) map_impl \<Rightarrow> impl_class" where
  "class_of (HashImpl x) = C_hash"
| "class_of (ArrayImpl x) = C_array"
| "class_of (RingbufImpl x) = C_ringbuf"
| "class_of (PerfEventArrayImpl x) = C_perf_event_array"
| "class_of (PercpuArrayImpl x) = C_percpu_array"
| "class_of (PercpuHashImpl x) = C_percpu_hash"
| "class_of (StackTraceImpl x) = C_stack_trace"
| "class_of (QueueImpl x) = C_queue"
| "class_of (StackImpl x) = C_stack"
| "class_of (BloomImpl x) = C_bloom_filter"
| "class_of (LruImpl x) = C_lru"
| "class_of (LpmImpl x) = C_lpm"
| "class_of (ProgArrayImpl x) = C_prog_array"
| "class_of (ArrayOfMapsImpl x) = C_array_of_maps"
| "class_of (KernelUserImpl c n) = C_kernel_user c"

text \<open>
  \<open>static_cast\<close> of the void pointer and the call of a member: undefined when the pointer is null or
  the object is of another class.
\<close>

definition static_cast_to :: "impl_class \<Rightarrow> ('p, 'l, 's) map_impl option \<Rightarrow> ('p, 'l, 's) map_impl res" where
  "static_cast_to c p =
     (case p of None \<Rightarrow> Inl Fault | Some i \<Rightarrow> if class_of i = c then Inr i else Inl Fault)"


text \<open>
  What a lookup returns: the bytes of the value behind the pointer, or for an array of maps the
  address made of the map id.
\<close>

datatype elem_ref = Mem bytes | Addr nat

definition deref :: "('p, 'l, 's) map_impl \<Rightarrow> bytes \<Rightarrow> nat \<Rightarrow> nat res \<Rightarrow> (('p, 'l, 's) map_impl \<times> elem_ref) res" where
  "deref i data n r = bind_res r (\<lambda>off. bind_res (of_opt (load data off n)) (\<lambda>v. Inr (i, Mem v)))"

definition shown :: "('p, 'l, 's) map_impl \<Rightarrow> bytes res \<Rightarrow> (('p, 'l, 's) map_impl \<times> elem_ref) res" where
  "shown i r = bind_res r (\<lambda>v. Inr (i, Mem v))"

primrec class_elem_lookup ::
  "('g, 'p, 'l, 's) map_env \<Rightarrow> ('p, 'l, 's) map_impl \<Rightarrow> ptr \<Rightarrow> (('p, 'l, 's) map_impl \<times> elem_ref) res" where
  "class_elem_lookup E (HashImpl x) key =
     bind_res (fix_elem_lookup x key) (\<lambda>off. Inr (HashImpl x, Mem (hm_read (fh_map x) off)))"
| "class_elem_lookup E (ArrayImpl x) key =
     deref (ArrayImpl x) (am_data x) (am_value_size x) (array_elem_lookup x key)"
| "class_elem_lookup E (RingbufImpl x) key = shown (RingbufImpl x) (rb_elem_lookup x key)"
| "class_elem_lookup E (PerfEventArrayImpl x) key =
     shown (PerfEventArrayImpl x) (bind_res (perf_elem_lookup x key) (\<lambda>i. Inr (store_i32 (fa_data x ! i))))"
| "class_elem_lookup E (PercpuArrayImpl x) key =
     deref (PercpuArrayImpl x) (pa_data x) (pa_value_size x) (pcpu_elem_lookup (me_cpu E) x key)"
| "class_elem_lookup E (PercpuHashImpl x) key =
     shown (PercpuHashImpl x) (ph_elem_lookup (me_pcpu E) (me_cpu E) x key)"
| "class_elem_lookup E (StackTraceImpl x) key =
     shown (StackTraceImpl x)
       (bind_res (st_elem_lookup (me_stack E) x key) (\<lambda>stk. Inr (concat (map (\<lambda>w. le_bytes 8 (unat w)) stk))))"
| "class_elem_lookup E (QueueImpl x) key =
     deref (QueueImpl x) (qm_data x) (qm_value_size x) (queue_elem_lookup x key)"
| "class_elem_lookup E (StackImpl x) key =
     deref (StackImpl x) (sm_data x) (sm_value_size x) (stack_elem_lookup x key)"
| "class_elem_lookup E (BloomImpl x) key =
     deref (BloomImpl x) (bf_bit_array x) (bf_value_size x) (bloom_elem_lookup x key)"
| "class_elem_lookup E (LruImpl x) key =
     bind_res (lru_elem_lookup (me_lru E) x key) (\<lambda>(x', v). Inr (LruImpl x', Mem v))"
| "class_elem_lookup E (LpmImpl x) key = shown (LpmImpl x) (lpm_elem_lookup x key)"
| "class_elem_lookup E (ProgArrayImpl x) key =
     shown (ProgArrayImpl x) (bind_res (prog_elem_lookup (me_prog_fd E) x key) (\<lambda>fd. Inr (store_u32 fd)))"
| "class_elem_lookup E (ArrayOfMapsImpl x) key =
     bind_res (array_of_maps_elem_lookup x key) (\<lambda>a. Inr (ArrayOfMapsImpl x, Addr a))"
| "class_elem_lookup E (KernelUserImpl c n) key = shown (KernelUserImpl c n) (ku_lookup (me_kernel E) c n key)"

text \<open>The members with the suffix \<open>_userspace\<close> exist in the two per-CPU classes only.\<close>

fun class_elem_lookup_userspace ::
  "('g, 'p, 'l, 's) map_env \<Rightarrow> ('p, 'l, 's) map_impl \<Rightarrow> ptr \<Rightarrow> (('p, 'l, 's) map_impl \<times> elem_ref) res" where
  "class_elem_lookup_userspace E (PercpuArrayImpl x) key =
     deref (PercpuArrayImpl x) (pa_data x) (wrap32 (pa_value_size x * me_ncpu E)) (pcpu_elem_lookup_userspace x key)"
| "class_elem_lookup_userspace E (PercpuHashImpl x) key =
     shown (PercpuHashImpl x) (ph_elem_lookup_userspace (me_pcpu E) x key)"
| "class_elem_lookup_userspace E i key = Inl Fault"

definition updated :: "('x \<Rightarrow> ('p, 'l, 's) map_impl) \<Rightarrow> 'x res \<Rightarrow> ('p, 'l, 's) map_impl res" where
  "updated C r = bind_res r (\<lambda>x. Inr (C x))"

primrec class_elem_update ::
  "('g, 'p, 'l, 's) map_env \<Rightarrow> ('p, 'l, 's) map_impl \<Rightarrow> ptr \<Rightarrow> ptr \<Rightarrow> nat \<Rightarrow> ('p, 'l, 's) map_impl res" where
  "class_elem_update E (HashImpl x) key v flags = updated HashImpl (fix_elem_update x key v flags)"
| "class_elem_update E (ArrayImpl x) key v flags = updated ArrayImpl (array_elem_update x key v flags)"
| "class_elem_update E (RingbufImpl x) key v flags = updated RingbufImpl (rb_elem_update x key v flags)"
| "class_elem_update E (PerfEventArrayImpl x) key v flags =
     updated PerfEventArrayImpl (perf_elem_update x key v flags)"
| "class_elem_update E (PercpuArrayImpl x) key v flags =
     updated PercpuArrayImpl (pcpu_elem_update (me_cpu E) x key v flags)"
| "class_elem_update E (PercpuHashImpl x) key v flags =
     updated PercpuHashImpl (ph_elem_update (me_pcpu E) (me_cpu E) x key v flags)"
| "class_elem_update E (StackTraceImpl x) key v flags = updated StackTraceImpl (st_elem_update x key v flags)"
| "class_elem_update E (QueueImpl x) key v flags = updated QueueImpl (queue_elem_update x key v flags)"
| "class_elem_update E (StackImpl x) key v flags = updated StackImpl (stack_elem_update x key v flags)"
| "class_elem_update E (BloomImpl x) key v flags = updated BloomImpl (bloom_elem_update x key v flags)"
| "class_elem_update E (LruImpl x) key v flags = updated LruImpl (lru_elem_update (me_lru E) x key v flags)"
| "class_elem_update E (LpmImpl x) key v flags = updated LpmImpl (lpm_elem_update x key v flags)"
| "class_elem_update E (ProgArrayImpl x) key v flags =
     updated ProgArrayImpl (prog_elem_update (me_info_by_fd E) x key v flags)"
| "class_elem_update E (ArrayOfMapsImpl x) key v flags = updated ArrayOfMapsImpl (array_elem_update x key v flags)"
| "class_elem_update E (KernelUserImpl c n) key v flags =
     updated (\<lambda>_. KernelUserImpl c n) (ku_update (me_kernel E) c n key v flags)"

fun class_elem_update_userspace ::
  "('g, 'p, 'l, 's) map_env \<Rightarrow> ('p, 'l, 's) map_impl \<Rightarrow> ptr \<Rightarrow> ptr \<Rightarrow> nat \<Rightarrow> ('p, 'l, 's) map_impl res" where
  "class_elem_update_userspace E (PercpuArrayImpl x) key v flags =
     updated PercpuArrayImpl (pcpu_elem_update_userspace x key v flags)"
| "class_elem_update_userspace E (PercpuHashImpl x) key v flags =
     updated PercpuHashImpl (ph_elem_update_userspace (me_pcpu E) x key v flags)"
| "class_elem_update_userspace E i key v flags = Inl Fault"

primrec class_elem_delete ::
  "('g, 'p, 'l, 's) map_env \<Rightarrow> ('p, 'l, 's) map_impl \<Rightarrow> ptr \<Rightarrow> ('p, 'l, 's) map_impl res" where
  "class_elem_delete E (HashImpl x) key = updated HashImpl (fix_elem_delete x key)"
| "class_elem_delete E (ArrayImpl x) key = updated ArrayImpl (array_elem_delete x key)"
| "class_elem_delete E (RingbufImpl x) key = updated RingbufImpl (rb_elem_delete x key)"
| "class_elem_delete E (PerfEventArrayImpl x) key = updated PerfEventArrayImpl (perf_elem_delete x key)"
| "class_elem_delete E (PercpuArrayImpl x) key = updated PercpuArrayImpl (pcpu_elem_delete x key)"
| "class_elem_delete E (PercpuHashImpl x) key =
     updated PercpuHashImpl (ph_elem_delete (me_pcpu E) (me_cpu E) x key)"
| "class_elem_delete E (StackTraceImpl x) key = updated StackTraceImpl (st_elem_delete (me_stack E) x key)"
| "class_elem_delete E (QueueImpl x) key = updated QueueImpl (queue_elem_delete x key)"
| "class_elem_delete E (StackImpl x) key = updated StackImpl (stack_elem_delete x key)"
| "class_elem_delete E (BloomImpl x) key = updated BloomImpl (bloom_elem_delete x key)"
| "class_elem_delete E (LruImpl x) key = updated LruImpl (lru_elem_delete (me_lru E) x key)"
| "class_elem_delete E (LpmImpl x) key = updated LpmImpl (lpm_elem_delete x key)"
| "class_elem_delete E (ProgArrayImpl x) key = updated ProgArrayImpl (prog_elem_delete x key)"
| "class_elem_delete E (ArrayOfMapsImpl x) key = updated ArrayOfMapsImpl (array_elem_delete x key)"
| "class_elem_delete E (KernelUserImpl c n) key =
     updated (\<lambda>_. KernelUserImpl c n) (ku_delete (me_kernel E) c n key)"

fun class_elem_delete_userspace ::
  "('g, 'p, 'l, 's) map_env \<Rightarrow> ('p, 'l, 's) map_impl \<Rightarrow> ptr \<Rightarrow> ('p, 'l, 's) map_impl res" where
  "class_elem_delete_userspace E (PercpuArrayImpl x) key =
     updated PercpuArrayImpl (pcpu_elem_delete_userspace x key)"
| "class_elem_delete_userspace E (PercpuHashImpl x) key =
     updated PercpuHashImpl (ph_elem_delete_userspace (me_pcpu E) x key)"
| "class_elem_delete_userspace E i key = Inl Fault"

text \<open>A class that does not test \<open>next_key\<close> writes the key through it.\<close>

definition put_next :: "bool \<Rightarrow> bytes res \<Rightarrow> bytes res" where
  "put_next next_key r = bind_res r (\<lambda>k. if next_key then Inr k else Inl Fault)"

primrec class_get_next_key ::
  "('g, 'p, 'l, 's) map_env \<Rightarrow> ('p, 'l, 's) map_impl \<Rightarrow> ptr \<Rightarrow> bool \<Rightarrow> bytes res" where
  "class_get_next_key E (HashImpl x) key nk = fix_map_get_next_key x key nk"
| "class_get_next_key E (ArrayImpl x) key nk =
     put_next nk (bind_res (array_map_get_next_key x key) (\<lambda>n. Inr (store_u32 n)))"
| "class_get_next_key E (RingbufImpl x) key nk = put_next nk (rb_map_get_next_key x key)"
| "class_get_next_key E (PerfEventArrayImpl x) key nk =
     put_next nk (bind_res (perf_map_get_next_key x key) (\<lambda>n. Inr (store_i32 n)))"
| "class_get_next_key E (PercpuArrayImpl x) key nk =
     put_next nk (bind_res (pcpu_map_get_next_key x key) (\<lambda>n. Inr (store_u32 n)))"
| "class_get_next_key E (PercpuHashImpl x) key nk = put_next nk (ph_map_get_next_key (me_pcpu E) x key)"
| "class_get_next_key E (StackTraceImpl x) key nk = put_next nk (st_map_get_next_key x key)"
| "class_get_next_key E (QueueImpl x) key nk = put_next nk (queue_map_get_next_key x key)"
| "class_get_next_key E (StackImpl x) key nk = put_next nk (stack_map_get_next_key x key)"
| "class_get_next_key E (BloomImpl x) key nk = put_next nk (bloom_map_get_next_key x key)"
| "class_get_next_key E (LruImpl x) key nk = put_next nk (lru_map_get_next_key (me_lru E) x key)"
| "class_get_next_key E (LpmImpl x) key nk = lpm_map_get_next_key x key nk"
| "class_get_next_key E (ProgArrayImpl x) key nk =
     put_next nk (bind_res (prog_map_get_next_key x key) (\<lambda>n. Inr (store_i32 n)))"
| "class_get_next_key E (ArrayOfMapsImpl x) key nk =
     put_next nk (bind_res (array_map_get_next_key x key) (\<lambda>n. Inr (store_u32 n)))"
| "class_get_next_key E (KernelUserImpl c n) key nk = ku_next (me_kernel E) c n key nk"


section \<open>The handler\<close>

record ('p, 'l, 's) map_handler =
  mh_attr :: bpf_map_attr
  mh_type :: bpf_map_type
  mh_name :: string
  mh_id :: int
  mh_impl :: "('p, 'l, 's) map_impl option"
  mh_max_entries :: nat
  mh_flags :: nat
  mh_key_size :: nat
  mh_value_size :: nat

text \<open>The constructors take an id and leave the member \<open>id\<close> at its initial value.\<close>

definition bpf_map_handler :: "int \<Rightarrow> string \<Rightarrow> bpf_map_attr \<Rightarrow> ('p, 'l, 's) map_handler" where
  "bpf_map_handler id' name attr =
     \<lparr>mh_attr = attr, mh_type = map_type_of (ma_type attr), mh_name = name, mh_id = 0, mh_impl = None,
      mh_max_entries = ma_max_ents attr, mh_flags = ma_flags attr, mh_key_size = ma_key_size attr,
      mh_value_size = ma_value_size attr\<rparr>"

definition get_container_name :: "('p, 'l, 's) map_handler \<Rightarrow> string" where
  "get_container_name h = ''ebpf_map_fd_'' @ mh_name h"

definition get_userspace_value_size :: "nat \<Rightarrow> ('p, 'l, 's) map_handler \<Rightarrow> nat" where
  "get_userspace_value_size ncpu h =
     (if mh_type h = BPF_MAP_TYPE_PERCPU_ARRAY \<or> mh_type h = BPF_MAP_TYPE_PERCPU_HASH
      then wrap32 (mh_value_size h * ncpu) else mh_value_size h)"

text \<open>The \<open>try_get_*_map_impl\<close> functions: the pointer when the tag fits.\<close>

definition try_get_impl ::
  "bpf_map_type \<Rightarrow> ('p, 'l, 's) map_handler \<Rightarrow> ('p, 'l, 's) map_impl option option" where
  "try_get_impl t h = (if mh_type h \<noteq> t then None else Some (mh_impl h))"

text \<open>
  The case labels of the switches: the class each type is cast to, \<open>None\<close> for the \<open>default\<close> label.
  The switches of the four element operations have the same labels.
\<close>

definition switch_class :: "bool \<Rightarrow> bpf_map_type \<Rightarrow> impl_class option" where
  "switch_class libbpf t =
     (case t of
        BPF_MAP_TYPE_HASH \<Rightarrow> Some C_hash
      | BPF_MAP_TYPE_ARRAY \<Rightarrow> Some C_array
      | BPF_MAP_TYPE_RINGBUF \<Rightarrow> Some C_ringbuf
      | BPF_MAP_TYPE_PERF_EVENT_ARRAY \<Rightarrow> Some C_perf_event_array
      | BPF_MAP_TYPE_PERCPU_ARRAY \<Rightarrow> Some C_percpu_array
      | BPF_MAP_TYPE_PERCPU_HASH \<Rightarrow> Some C_percpu_hash
      | BPF_MAP_TYPE_STACK_TRACE \<Rightarrow> Some C_stack_trace
      | BPF_MAP_TYPE_QUEUE \<Rightarrow> Some C_queue
      | BPF_MAP_TYPE_STACK \<Rightarrow> Some C_stack
      | BPF_MAP_TYPE_BLOOM_FILTER \<Rightarrow> Some C_bloom_filter
      | BPF_MAP_TYPE_LRU_HASH \<Rightarrow> Some C_lru
      | BPF_MAP_TYPE_LPM_TRIE \<Rightarrow> Some C_lpm
      | BPF_MAP_TYPE_ARRAY_OF_MAPS \<Rightarrow> Some C_array_of_maps
      | BPF_MAP_TYPE_KERNEL_USER_ARRAY \<Rightarrow> if libbpf then Some (C_kernel_user KU_array) else None
      | BPF_MAP_TYPE_KERNEL_USER_HASH \<Rightarrow> if libbpf then Some (C_kernel_user KU_hash) else None
      | BPF_MAP_TYPE_KERNEL_USER_PERCPU_ARRAY \<Rightarrow>
          if libbpf then Some (C_kernel_user KU_percpu_array) else None
      | BPF_MAP_TYPE_KERNEL_USER_PERF_EVENT_ARRAY \<Rightarrow>
          if libbpf then Some (C_kernel_user KU_perf_event_array) else None
      | BPF_MAP_TYPE_PROG_ARRAY \<Rightarrow> if libbpf then Some C_prog_array else None
      | BPF_MAP_TYPE_OTHER n \<Rightarrow> None)"

text \<open>\<open>global_map_ops_table[(int)type]\<close>: undefined outside the table.\<close>

definition ops_at :: "('g, 'p, 'l, 's) map_env \<Rightarrow> bpf_map_type \<Rightarrow> map_ops res" where
  "ops_at E t =
     (let n = map_type_code t
      in if 0 \<le> n \<and> nat n < length (me_table E) then Inr (me_table E ! nat n) else Inl Fault)"

definition call_op :: "'f option \<Rightarrow> ('f \<Rightarrow> 'a res) \<Rightarrow> 'a res" where
  "call_op func_ptr call = (case func_ptr of None \<Rightarrow> Inl RetFail | Some f \<Rightarrow> call f)"

definition is_percpu :: "bpf_map_type \<Rightarrow> bool" where
  "is_percpu t \<longleftrightarrow> t = BPF_MAP_TYPE_PERCPU_ARRAY \<or> t = BPF_MAP_TYPE_PERCPU_HASH"

definition map_lookup_elem ::
  "('g, 'p, 'l, 's) map_env \<Rightarrow> ('p, 'l, 's) map_handler \<Rightarrow> ptr \<Rightarrow> bool \<Rightarrow>
   (('p, 'l, 's) map_handler \<times> elem_ref) res" where
  "map_lookup_elem E h key from_syscall =
     (case switch_class (me_libbpf E) (mh_type h) of
        Some c \<Rightarrow>
          bind_res (static_cast_to c (mh_impl h)) (\<lambda>impl.
          bind_res (if is_percpu (mh_type h) \<and> from_syscall then class_elem_lookup_userspace E impl key
                    else class_elem_lookup E impl key) (\<lambda>(impl', v).
          Inr (h\<lparr>mh_impl := Some impl'\<rparr>, v)))
      | None \<Rightarrow>
          bind_res (ops_at E (mh_type h)) (\<lambda>ops.
          call_op (mo_elem_lookup ops) (\<lambda>f. bind_res (f (mh_id h) key from_syscall) (\<lambda>v. Inr (h, Mem v)))))"

definition map_update_elem ::
  "('g, 'p, 'l, 's) map_env \<Rightarrow> ('p, 'l, 's) map_handler \<Rightarrow> ptr \<Rightarrow> ptr \<Rightarrow> nat \<Rightarrow> bool \<Rightarrow>
   ('p, 'l, 's) map_handler res" where
  "map_update_elem E h key v flags from_syscall =
     (case switch_class (me_libbpf E) (mh_type h) of
        Some c \<Rightarrow>
          if mh_type h = BPF_MAP_TYPE_ARRAY_OF_MAPS \<and> \<not> from_syscall then Inl (RetNeg EINVAL)
          else
            bind_res (static_cast_to c (mh_impl h)) (\<lambda>impl.
            bind_res (if is_percpu (mh_type h) \<and> from_syscall then class_elem_update_userspace E impl key v flags
                      else class_elem_update E impl key v flags) (\<lambda>impl'.
            Inr (h\<lparr>mh_impl := Some impl'\<rparr>)))
      | None \<Rightarrow>
          bind_res (ops_at E (mh_type h)) (\<lambda>ops.
          call_op (mo_elem_update ops) (\<lambda>f.
            bind_res (f (mh_id h) key v flags from_syscall) (\<lambda>_. Inr h))))"

definition map_delete_elem ::
  "('g, 'p, 'l, 's) map_env \<Rightarrow> ('p, 'l, 's) map_handler \<Rightarrow> ptr \<Rightarrow> bool \<Rightarrow> ('p, 'l, 's) map_handler res" where
  "map_delete_elem E h key from_syscall =
     (case switch_class (me_libbpf E) (mh_type h) of
        Some c \<Rightarrow>
          if mh_type h = BPF_MAP_TYPE_ARRAY_OF_MAPS \<and> \<not> from_syscall then Inl (RetNeg EINVAL)
          else
            bind_res (static_cast_to c (mh_impl h)) (\<lambda>impl.
            bind_res (if is_percpu (mh_type h) \<and> from_syscall then class_elem_delete_userspace E impl key
                      else class_elem_delete E impl key) (\<lambda>impl'.
            Inr (h\<lparr>mh_impl := Some impl'\<rparr>)))
      | None \<Rightarrow>
          bind_res (ops_at E (mh_type h)) (\<lambda>ops.
          call_op (mo_elem_delete ops) (\<lambda>f. bind_res (f (mh_id h) key from_syscall) (\<lambda>_. Inr h))))"

definition bpf_map_get_next_key ::
  "('g, 'p, 'l, 's) map_env \<Rightarrow> ('p, 'l, 's) map_handler \<Rightarrow> ptr \<Rightarrow> bool \<Rightarrow> bool \<Rightarrow> bytes res" where
  "bpf_map_get_next_key E h key next_key from_syscall =
     (case switch_class (me_libbpf E) (mh_type h) of
        Some c \<Rightarrow> bind_res (static_cast_to c (mh_impl h)) (\<lambda>impl. class_get_next_key E impl key next_key)
      | None \<Rightarrow>
          bind_res (ops_at E (mh_type h)) (\<lambda>ops.
          call_op (mo_map_get_next_key ops) (\<lambda>f. f (mh_id h) key next_key from_syscall)))"

text \<open>The three operations of queues and stacks; the filter has a push and a peek.\<close>

definition map_push_elem ::
  "('p, 'l, 's) map_handler \<Rightarrow> ptr \<Rightarrow> nat \<Rightarrow> bool \<Rightarrow> ('p, 'l, 's) map_handler res" where
  "map_push_elem h v flags from_syscall =
     (case mh_type h of
        BPF_MAP_TYPE_QUEUE \<Rightarrow>
          (case mh_impl h of Some (QueueImpl x) \<Rightarrow>
             bind_res (queue_map_push_elem x v flags) (\<lambda>x'. Inr (h\<lparr>mh_impl := Some (QueueImpl x')\<rparr>)) | _ \<Rightarrow> Inl Fault)
      | BPF_MAP_TYPE_STACK \<Rightarrow>
          (case mh_impl h of Some (StackImpl x) \<Rightarrow>
             bind_res (stack_map_push_elem x v flags) (\<lambda>x'. Inr (h\<lparr>mh_impl := Some (StackImpl x')\<rparr>)) | _ \<Rightarrow> Inl Fault)
      | BPF_MAP_TYPE_BLOOM_FILTER \<Rightarrow>
          (case mh_impl h of Some (BloomImpl x) \<Rightarrow>
             bind_res (bloom_map_push_elem x v flags) (\<lambda>x'. Inr (h\<lparr>mh_impl := Some (BloomImpl x')\<rparr>)) | _ \<Rightarrow> Inl Fault)
      | _ \<Rightarrow> Inl (RetNeg ENOTSUP))"

definition map_pop_elem ::
  "('p, 'l, 's) map_handler \<Rightarrow> bool \<Rightarrow> bool \<Rightarrow> (('p, 'l, 's) map_handler \<times> bytes) res" where
  "map_pop_elem h buf from_syscall =
     (case mh_type h of
        BPF_MAP_TYPE_QUEUE \<Rightarrow>
          (case mh_impl h of Some (QueueImpl x) \<Rightarrow>
             bind_res (queue_map_pop_elem x buf) (\<lambda>(x', v). Inr (h\<lparr>mh_impl := Some (QueueImpl x')\<rparr>, v)) | _ \<Rightarrow> Inl Fault)
      | BPF_MAP_TYPE_STACK \<Rightarrow>
          (case mh_impl h of Some (StackImpl x) \<Rightarrow>
             bind_res (stack_map_pop_elem x buf) (\<lambda>(x', v). Inr (h\<lparr>mh_impl := Some (StackImpl x')\<rparr>, v)) | _ \<Rightarrow> Inl Fault)
      | _ \<Rightarrow> Inl (RetNeg ENOTSUP))"

text \<open>The buffer of a peek is its input for the filter, which leaves it as it is.\<close>

definition map_peek_elem :: "('p, 'l, 's) map_handler \<Rightarrow> ptr \<Rightarrow> bool \<Rightarrow> bytes res" where
  "map_peek_elem h buf from_syscall =
     (case mh_type h of
        BPF_MAP_TYPE_QUEUE \<Rightarrow>
          (case mh_impl h of Some (QueueImpl x) \<Rightarrow> queue_map_peek_elem x (buf \<noteq> None) | _ \<Rightarrow> Inl Fault)
      | BPF_MAP_TYPE_STACK \<Rightarrow>
          (case mh_impl h of Some (StackImpl x) \<Rightarrow> stack_map_peek_elem x (buf \<noteq> None) | _ \<Rightarrow> Inl Fault)
      | BPF_MAP_TYPE_BLOOM_FILTER \<Rightarrow>
          (case mh_impl h of Some (BloomImpl x) \<Rightarrow>
             bind_res (bloom_map_peek_elem x buf) (\<lambda>_. of_opt buf) | _ \<Rightarrow> Inl Fault)
      | _ \<Rightarrow> Inl (RetNeg ENOTSUP))"


section \<open>Creation and destruction\<close>

text \<open>The object each case of \<open>map_init\<close> constructs, with its checks before the construction.\<close>

definition bloom_nr_hashes :: "('p, 'l, 's) map_handler \<Rightarrow> nat" where
  "bloom_nr_hashes h = (let nr_hashes = ma_map_extra (mh_attr h) AND 15 in if nr_hashes = 0 then 5 else nr_hashes)"

definition init_precheck :: "('p, 'l, 's) map_handler \<Rightarrow> bool" where
  "init_precheck h =
     (case mh_type h of
        BPF_MAP_TYPE_RINGBUF \<Rightarrow> popcnt (mh_max_entries h) = 1
      | BPF_MAP_TYPE_BLOOM_FILTER \<Rightarrow> mh_key_size h = 0
      | _ \<Rightarrow> True)"

definition ku_impl :: "('g, 'p, 'l, 's) map_env \<Rightarrow> ('p, 'l, 's) map_handler \<Rightarrow> ku_class \<Rightarrow> ('p, 'l, 's) map_impl res" where
  "ku_impl E h c =
     (let km_id = ma_kernel_bpf_map_id (mh_attr h)
      in updated (\<lambda>_. KernelUserImpl c km_id) (ku_new (me_kernel E) c km_id))"

primrec new_impl ::
  "('g, 'p, 'l, 's) map_env \<Rightarrow> ('p, 'l, 's) map_handler \<Rightarrow> impl_class \<Rightarrow> ('p, 'l, 's) map_impl res" where
  "new_impl E h C_hash = Inr (HashImpl (fix_size_hash_map_impl (mh_max_entries h) (mh_key_size h) (mh_value_size h)))"
| "new_impl E h C_array = Inr (ArrayImpl (array_map_impl (mh_value_size h) (mh_max_entries h)))"
| "new_impl E h C_ringbuf = updated RingbufImpl (ringbuf_new (me_page_size E) (mh_max_entries h))"
| "new_impl E h C_perf_event_array =
     updated PerfEventArrayImpl (perf_event_array_map_impl (mh_key_size h) (mh_value_size h) (mh_max_entries h))"
| "new_impl E h C_percpu_array =
     Inr (PercpuArrayImpl (per_cpu_array_map_impl (mh_value_size h) (mh_max_entries h) (me_ncpu E)))"
| "new_impl E h C_percpu_hash =
     Inr (PercpuHashImpl (per_cpu_hash_map_impl (me_pcpu E) (mh_key_size h) (mh_value_size h) (mh_max_entries h)
                            (me_ncpu E)))"
| "new_impl E h C_stack_trace =
     updated StackTraceImpl (stack_trace_map_impl (me_stack E) (mh_key_size h) (mh_value_size h) (mh_max_entries h))"
| "new_impl E h C_queue = updated QueueImpl (queue_map_impl (mh_value_size h) (mh_max_entries h))"
| "new_impl E h C_stack = updated StackImpl (stack_map_impl (mh_value_size h) (mh_max_entries h))"
| "new_impl E h C_bloom_filter =
     updated BloomImpl (bloom_filter_map_impl (me_random E) (me_clock E) (mh_value_size h) (mh_max_entries h)
                          (bloom_nr_hashes h) JHASH)"
| "new_impl E h C_lru =
     Inr (LruImpl (lru_var_hash_map_impl (me_lru E) (mh_key_size h) (mh_value_size h) (mh_max_entries h)))"
| "new_impl E h C_lpm = updated LpmImpl (lpm_trie_map_impl (mh_key_size h) (mh_value_size h) (mh_max_entries h))"
| "new_impl E h C_prog_array =
     updated ProgArrayImpl (prog_array_map_impl (mh_key_size h) (mh_value_size h) (mh_max_entries h))"
| "new_impl E h C_array_of_maps = Inr (ArrayOfMapsImpl (array_map_of_maps_impl (mh_max_entries h)))"
| "new_impl E h (C_kernel_user c) = ku_impl E h c"

text \<open>The labels of \<open>map_init\<close>: a stack trace map needs libbpf.\<close>

definition init_class :: "bool \<Rightarrow> bpf_map_type \<Rightarrow> impl_class option" where
  "init_class libbpf t = (if t = BPF_MAP_TYPE_STACK_TRACE \<and> \<not> libbpf then None else switch_class libbpf t)"

text \<open>
  The result: the segment, the handler and the integer returned; an exception is \<open>Inl Throw\<close>, and then
  the segment and the handler are as before.
\<close>

definition map_init ::
  "('g, 'p, 'l, 's) map_env \<Rightarrow> 'g \<Rightarrow> ('p, 'l, 's) map_handler \<Rightarrow> ('g \<times> ('p, 'l, 's) map_handler \<times> int) res" where
  "map_init E g h =
     (case init_class (me_libbpf E) (mh_type h) of
        Some c \<Rightarrow>
          if \<not> init_precheck h then Inr (g, h, -1)
          else
            (case sg_construct (me_segment E) g (get_container_name h) of
               None \<Rightarrow> Inl Throw
             | Some g' \<Rightarrow> bind_res (new_impl E h c) (\<lambda>impl. Inr (g', h\<lparr>mh_impl := Some impl\<rparr>, 0)))
      | None \<Rightarrow>
          if me_allow_non_buildin E then
            bind_res (ops_at E (mh_type h)) (\<lambda>ops.
            Inr (g, h\<lparr>mh_impl := None\<rparr>,
                 case mo_alloc_map ops of Some f \<Rightarrow> f (mh_id h) (mh_name h) (mh_attr h) | None \<Rightarrow> 0))
          else Inr (g, h, -1))"

text \<open>The labels of \<open>map_free\<close>.\<close>

definition free_class :: "bool \<Rightarrow> bpf_map_type \<Rightarrow> impl_class option" where
  "free_class libbpf t =
     (if t = BPF_MAP_TYPE_ARRAY_OF_MAPS \<or>
         (t = BPF_MAP_TYPE_LRU_HASH \<or> t = BPF_MAP_TYPE_LPM_TRIE) \<and> \<not> libbpf then None
      else switch_class libbpf t)"

definition map_free ::
  "('g, 'p, 'l, 's) map_env \<Rightarrow> 'g \<Rightarrow> ('p, 'l, 's) map_handler \<Rightarrow> ('g \<times> ('p, 'l, 's) map_handler) res" where
  "map_free E g h =
     (case free_class (me_libbpf E) (mh_type h) of
        Some c \<Rightarrow> Inr (sg_destroy (me_segment E) g (get_container_name h), h\<lparr>mh_impl := None\<rparr>)
      | None \<Rightarrow> bind_res (ops_at E (mh_type h)) (\<lambda>_. Inr (g, h\<lparr>mh_impl := None\<rparr>)))"

section \<open>The named objects of a segment\<close>

text \<open>
  What the code relies on: \<open>construct\<close> throws for a name in use and otherwise takes the name if there
  is memory, \<open>destroy\<close> releases it, and neither touches another name.
\<close>

locale named_segment =
  fixes S :: "'g segment"
  assumes construct_fresh: "sg_construct S g n = Some g' \<Longrightarrow> \<not> sg_used S g n"
    and construct_used: "sg_construct S g n = Some g' \<Longrightarrow> sg_used S g' m = (m = n \<or> sg_used S g m)"
    and destroy_used: "sg_used S (sg_destroy S g n) m = (m \<noteq> n \<and> sg_used S g m)"
begin

lemma construct_again: "sg_used S g n \<Longrightarrow> sg_construct S g n = None"
  using construct_fresh by (cases "sg_construct S g n") auto

lemma construct_destroy:
  assumes "sg_construct S g n = Some g'"
  shows "sg_used S (sg_destroy S g' n) m = sg_used S g m"
  using construct_fresh [OF assms] construct_used [OF assms] by (auto simp: destroy_used)

end

text \<open>An instance with a bound on the number of objects: the list of the names in use.\<close>

definition list_segment :: "nat \<Rightarrow> string list segment" where
  "list_segment room =
     \<lparr>sg_used = (\<lambda>g n. List.member g n),
      sg_construct = (\<lambda>g n. if List.member g n \<or> length g \<ge> room then None else Some (n # g)),
      sg_destroy = (\<lambda>g n. filter (\<lambda>m. m \<noteq> n) g)\<rparr>"

lemma list_named_segment: "named_segment (list_segment room)"
  by unfold_locales (auto simp: list_segment_def split: if_splits)

interpretation lseg: named_segment "list_segment room" for room
  by (rule list_named_segment)


section \<open>The tag and the object agree\<close>

text \<open>A call on a handler with the environment it runs in.\<close>

datatype map_call =
    CallLookup ptr bool | CallUpdate ptr ptr nat bool | CallDelete ptr bool | CallNext ptr bool bool
  | CallPush ptr nat bool | CallPop bool bool | CallPeek ptr bool

datatype call_answer = Ref elem_ref | Key bytes | Ok | Failure fail

definition answered :: "'h \<Rightarrow> ('h \<times> call_answer) res \<Rightarrow> 'h \<times> call_answer" where
  "answered h r = (case r of Inl e \<Rightarrow> (h, Failure e) | Inr p \<Rightarrow> p)"

fun handler_step ::
  "('p, 'l, 's) map_handler \<Rightarrow> ('g, 'p, 'l, 's) map_env \<times> map_call \<Rightarrow> ('p, 'l, 's) map_handler \<times> call_answer" where
  "handler_step h (E, CallLookup key fs) =
     answered h (bind_res (map_lookup_elem E h key fs) (\<lambda>(h', v). Inr (h', Ref v)))"
| "handler_step h (E, CallUpdate key v flags fs) =
     answered h (bind_res (map_update_elem E h key v flags fs) (\<lambda>h'. Inr (h', Ok)))"
| "handler_step h (E, CallDelete key fs) =
     answered h (bind_res (map_delete_elem E h key fs) (\<lambda>h'. Inr (h', Ok)))"
| "handler_step h (E, CallNext key nk fs) =
     answered h (bind_res (bpf_map_get_next_key E h key nk fs) (\<lambda>k. Inr (h, Key k)))"
| "handler_step h (E, CallPush v flags fs) =
     answered h (bind_res (map_push_elem h v flags fs) (\<lambda>h'. Inr (h', Ok)))"
| "handler_step h (E, CallPop buf fs) =
     answered h (bind_res (map_pop_elem h buf fs) (\<lambda>(h', v). Inr (h', Ref (Mem v))))"
| "handler_step h (E, CallPeek buf fs) =
     answered h (bind_res (map_peek_elem h buf fs) (\<lambda>v. Inr (h, Ref (Mem v))))"

lemma updated_eq_Inr: "updated C r = Inr i \<longleftrightarrow> (\<exists>x. r = Inr x \<and> i = C x)"
  by (auto simp: updated_def bind_res_eq_Inr)

lemma deref_class: "deref i d n r = Inr (i', v) \<Longrightarrow> i' = i"
  by (auto simp: deref_def bind_res_eq_Inr)

lemma shown_class: "shown i r = Inr (i', v) \<Longrightarrow> i' = i"
  by (auto simp: shown_def bind_res_eq_Inr)

named_theorems class_keeps

lemma class_elem_lookup_class [class_keeps]: "class_elem_lookup E i key = Inr (i', v) \<Longrightarrow> class_of i' = class_of i"
  by (cases i) (auto simp: bind_res_eq_Inr dest!: deref_class shown_class split: prod.splits)

lemma class_elem_lookup_userspace_class [class_keeps]:
  "class_elem_lookup_userspace E i key = Inr (i', v) \<Longrightarrow> class_of i' = class_of i"
  by (cases i) (auto dest!: deref_class shown_class)

lemma class_elem_update_class [class_keeps]: "class_elem_update E i key v flags = Inr i' \<Longrightarrow> class_of i' = class_of i"
  by (cases i) (auto simp: updated_eq_Inr)

lemma class_elem_update_userspace_class [class_keeps]:
  "class_elem_update_userspace E i key v flags = Inr i' \<Longrightarrow> class_of i' = class_of i"
  by (cases i) (auto simp: updated_eq_Inr)

lemma class_elem_delete_class [class_keeps]: "class_elem_delete E i key = Inr i' \<Longrightarrow> class_of i' = class_of i"
  by (cases i) (auto simp: updated_eq_Inr)

lemma class_elem_delete_userspace_class [class_keeps]:
  "class_elem_delete_userspace E i key = Inr i' \<Longrightarrow> class_of i' = class_of i"
  by (cases i) (auto simp: updated_eq_Inr)

lemma new_impl_class: "new_impl E h c = Inr i \<Longrightarrow> class_of i = c"
  by (cases c) (auto simp: updated_eq_Inr ku_impl_def Let_def)

lemma static_cast_to_Inr: "static_cast_to c p = Inr i \<longleftrightarrow> p = Some i \<and> class_of i = c"
  by (auto simp: static_cast_to_def split: option.splits)

text \<open>The object behind the pointer is of the class the switches cast it to.\<close>

definition mh_typed :: "bool \<Rightarrow> ('p, 'l, 's) map_handler \<Rightarrow> bool" where
  "mh_typed libbpf h \<longleftrightarrow> (\<exists>i. mh_impl h = Some i \<and> switch_class libbpf (mh_type h) = Some (class_of i))"

lemma mh_typed_impl:
  "mh_typed libbpf h \<Longrightarrow> class_of i = class_of (the (mh_impl h)) \<Longrightarrow> mh_typed libbpf (h\<lparr>mh_impl := Some i\<rparr>)"
  by (auto simp: mh_typed_def)

lemma lookup_typed:
  "mh_typed (me_libbpf E) h \<Longrightarrow> map_lookup_elem E h key fs = Inr (h', v) \<Longrightarrow>
     mh_typed (me_libbpf E) h' \<and> mh_type h' = mh_type h"
  by (auto simp: map_lookup_elem_def mh_typed_def bind_res_eq_Inr static_cast_to_Inr dest!: class_keeps
      split: if_splits)

lemma update_typed:
  "mh_typed (me_libbpf E) h \<Longrightarrow> map_update_elem E h key v flags fs = Inr h' \<Longrightarrow>
     mh_typed (me_libbpf E) h' \<and> mh_type h' = mh_type h"
  by (auto simp: map_update_elem_def mh_typed_def bind_res_eq_Inr static_cast_to_Inr dest!: class_keeps
      split: if_splits)

lemma delete_typed:
  "mh_typed (me_libbpf E) h \<Longrightarrow> map_delete_elem E h key fs = Inr h' \<Longrightarrow>
     mh_typed (me_libbpf E) h' \<and> mh_type h' = mh_type h"
  by (auto simp: map_delete_elem_def mh_typed_def bind_res_eq_Inr static_cast_to_Inr dest!: class_keeps
      split: if_splits)

lemma push_typed:
  "mh_typed libbpf h \<Longrightarrow> map_push_elem h v flags fs = Inr h' \<Longrightarrow> mh_typed libbpf h' \<and> mh_type h' = mh_type h"
  by (auto simp: map_push_elem_def mh_typed_def bind_res_eq_Inr
      split: bpf_map_type.splits option.splits map_impl.splits)

lemma pop_typed:
  "mh_typed libbpf h \<Longrightarrow> map_pop_elem h buf fs = Inr (h', v) \<Longrightarrow> mh_typed libbpf h' \<and> mh_type h' = mh_type h"
  by (auto simp: map_pop_elem_def mh_typed_def bind_res_eq_Inr
      split: bpf_map_type.splits option.splits map_impl.splits)

lemma handler_step_typed:
  assumes "mh_typed libbpf h" and "me_libbpf E = libbpf"
  shows "mh_typed libbpf (fst (handler_step h (E, c))) \<and> mh_type (fst (handler_step h (E, c))) = mh_type h"
  using assms
  by (cases c)
    (auto simp: answered_def bind_res_eq_Inr dest: lookup_typed update_typed delete_typed push_typed pop_typed
      split: sum.splits)

lemma handler_run_typed:
  "mh_typed libbpf h \<Longrightarrow> \<forall>(E, c) \<in> set calls. me_libbpf E = libbpf \<Longrightarrow>
     mh_typed libbpf (fst (run_ops handler_step h calls)) \<and> mh_type (fst (run_ops handler_step h calls)) = mh_type h"
proof (induction calls arbitrary: h)
  case (Cons ec calls)
  obtain E c where ec: "ec = (E, c)" by (cases ec)
  with Cons.prems have "mh_typed libbpf (fst (handler_step h ec)) \<and> mh_type (fst (handler_step h ec)) = mh_type h"
    using handler_step_typed [of libbpf h E c] by auto
  with Cons.IH [of "fst (handler_step h ec)"] Cons.prems(2) show ?case by auto
qed simp


lemma map_init_typed:
  assumes "map_init E g h = Inr (g', h', r)" and "init_class (me_libbpf E) (mh_type h) \<noteq> None" and "r = 0"
  shows "mh_typed (me_libbpf E) h' \<and> mh_type h' = mh_type h"
  using assms new_impl_class [of E h]
  by (auto simp: map_init_def mh_typed_def init_class_def bind_res_eq_Inr split: if_splits option.splits)


text \<open>An environment: containers as association lists, one processor, room for two objects.\<close>

definition demo_kernel :: kernel_user where
  "demo_kernel = \<lparr>ku_new = (\<lambda>c n. Inr ()), ku_lookup = (\<lambda>c n k. Inl RetFail),
     ku_update = (\<lambda>c n k v f. Inl RetFail), ku_delete = (\<lambda>c n k. Inl RetFail),
     ku_next = (\<lambda>c n k b. Inl RetFail)\<rparr>"

type_synonym demo_map_env =
  "(string list, (bytes \<times> bytes) list, (bytes \<times> bytes \<times> nat) list, (nat \<times> u64 list) list) map_env"

definition demo_env :: "bool \<Rightarrow> bool \<Rightarrow> demo_map_env" where
  "demo_env libbpf allow =
     \<lparr>me_segment = list_segment 2, me_pcpu = alist_umap, me_lru = alist_umap, me_stack = alist_umap,
      me_cpu = 0, me_ncpu = 1, me_page_size = 4096, me_libbpf = libbpf, me_allow_non_buildin = allow,
      me_table = global_map_ops_table, me_kernel = demo_kernel, me_prog_fd = (\<lambda>i n. 5),
      me_info_by_fd = (\<lambda>v. Some v), me_random = None, me_clock = 0\<rparr>"

definition demo_attr :: "int \<Rightarrow> bpf_map_attr" where
  "demo_attr t = \<lparr>ma_type = t, ma_key_size = 4, ma_value_size = 1, ma_max_ents = 2, ma_flags = 0,
                  ma_map_extra = 0, ma_kernel_bpf_map_id = 0\<rparr>"

lemma demo_env_simps [simp]:
  "me_segment (demo_env libbpf allow) = list_segment 2" "me_libbpf (demo_env libbpf allow) = libbpf"
  "me_allow_non_buildin (demo_env libbpf allow) = allow" "me_table (demo_env libbpf allow) = global_map_ops_table"
  by (simp_all add: demo_env_def)

lemmas handler_eval = bpf_map_handler_def demo_attr_def map_type_of_def map_type_codes_def
  KERNEL_USER_MAP_OFFSET_def map_init_def init_class_def switch_class_def free_class_def init_precheck_def
  get_container_name_def list_segment_def updated_def


section \<open>Creation and destruction of the object\<close>

text \<open>No call changes anything of a handler but the object.\<close>

lemma handler_step_frame: "\<exists>p. fst (handler_step h (E, c)) = h\<lparr>mh_impl := p\<rparr>"
proof -
  have same: "\<exists>p. h = h\<lparr>mh_impl := p\<rparr>" by (intro exI [of _ "mh_impl h"]) simp
  show ?thesis
    by (cases c)
      (use same in \<open>auto simp: answered_def bind_res_eq_Inr map_lookup_elem_def map_update_elem_def map_delete_elem_def
         map_push_elem_def map_pop_elem_def call_op_def
         split: sum.splits option.splits if_splits bpf_map_type.splits map_impl.splits\<close>)
qed


lemma handler_run_frame: "\<exists>p. fst (run_ops handler_step h calls) = h\<lparr>mh_impl := p\<rparr>"
proof (induction calls arbitrary: h)
  case Nil
  show ?case by (intro exI [of _ "mh_impl h"]) simp
next
  case (Cons ec calls)
  obtain p where p: "fst (handler_step h ec) = h\<lparr>mh_impl := p\<rparr>"
    using handler_step_frame [of h "fst ec" "snd ec"] by auto
  with Cons.IH [of "h\<lparr>mh_impl := p\<rparr>"] show ?case by auto
qed

lemma map_init_built:
  assumes "map_init E g h = Inr (g', h', 0)" and "init_class (me_libbpf E) (mh_type h) \<noteq> None"
  shows "sg_construct (me_segment E) g (get_container_name h) = Some g' \<and>
    mh_type h' = mh_type h \<and> get_container_name h' = get_container_name h"
  using assms
  by (auto simp: map_init_def bind_res_eq_Inr get_container_name_def split: if_splits option.splits)

lemma run_names:
  "mh_type (fst (run_ops handler_step h calls)) = mh_type h \<and>
   get_container_name (fst (run_ops handler_step h calls)) = get_container_name h"
  using handler_run_frame [of h calls] by (auto simp: get_container_name_def)

text \<open>
  C23. Creating a map, using it in any way and freeing it leaves the names of the shared segment as
  they were before the creation, for every type \<open>map_free\<close> has a case for.
\<close>

theorem map_init_free_names:
  assumes "named_segment (me_segment E)" and "map_init E g h = Inr (g', h', 0)"
    and "init_class (me_libbpf E) (mh_type h) \<noteq> None" and "free_class (me_libbpf E) (mh_type h) \<noteq> None"
  shows "\<exists>g'' hf. map_free E g' (fst (run_ops handler_step h' calls)) = Inr (g'', hf) \<and> mh_impl hf = None \<and>
    (\<forall>n. sg_used (me_segment E) g'' n = sg_used (me_segment E) g n)"
  using map_init_built [OF assms(2,3)] run_names [of h' calls] assms(4)
    named_segment.construct_destroy [OF assms(1)]
  by (auto simp: map_free_def)

theorem map_init_free_names_witness:
  "\<exists>g h g'' hf. map_init (demo_env False False) [''x''] (bpf_map_handler 3 ''q'' (demo_attr 22)) = Inr (g, h, 0) \<and>
     map_free (demo_env False False) g
       (fst (run_ops handler_step h [(demo_env False False, CallPush (Some [7]) 0 True)])) = Inr (g'', hf) \<and>
     (\<forall>n. sg_used (list_segment 2) g'' n = (n = ''x''))"
proof -
  let ?E = "demo_env False False" and ?h = "bpf_map_handler 3 ''q'' (demo_attr 22)"
  obtain g h where init: "map_init ?E [''x''] ?h = Inr (g, h, 0)"
    by (simp add: handler_eval queue_map_impl_def)
  have "init_class (me_libbpf ?E) (mh_type ?h) \<noteq> None" "free_class (me_libbpf ?E) (mh_type ?h) \<noteq> None"
    by (simp_all add: handler_eval)
  moreover have "sg_used (list_segment 2) [''x''] n = (n = ''x'')" for n by (auto simp: list_segment_def)
  moreover have "named_segment (me_segment ?E)" by (simp add: list_named_segment)
  ultimately show ?thesis
    using map_init_free_names [OF _ init, of "[(?E, CallPush (Some [7]) 0 True)]"] init
    by (simp del: run_ops_Cons) blast
qed

text \<open>
  An array of maps is never removed from the shared segment: \<open>map_free\<close> has no case for it and
  only drops the pointer, so the name stays in use and creating a map of that name again throws,
  whatever its type.
\<close>

lemma array_of_maps_name_leaks:
  assumes "named_segment (me_segment E)" and "map_init E g h = Inr (g', h', 0)"
    and "mh_type h = BPF_MAP_TYPE_ARRAY_OF_MAPS" and "length (me_table E) = BPF_MAP_TYPE_MAX"
    and "mh_name h2 = mh_name h" and "init_class (me_libbpf E) (mh_type h2) \<noteq> None" and "init_precheck h2"
  shows "\<exists>hf. map_free E g' h' = Inr (g', hf) \<and> mh_impl hf = None \<and> map_init E g' h2 = Inl Throw"
proof -
  have ic: "init_class (me_libbpf E) (mh_type h) \<noteq> None" using assms(3) by (simp add: init_class_def switch_class_def)
  note b = map_init_built [OF assms(2) ic]
  have "sg_used (me_segment E) g' (get_container_name h)"
    using named_segment.construct_used [OF assms(1) conjunct1 [OF b]] by simp
  then have "sg_construct (me_segment E) g' (get_container_name h2) = None"
    using named_segment.construct_again [OF assms(1)] assms(5) by (simp add: get_container_name_def)
  then have "map_init E g' h2 = Inl Throw" using assms(6,7) by (auto simp: map_init_def)
  moreover have "map_type_code BPF_MAP_TYPE_ARRAY_OF_MAPS = 12"
    by (simp add: map_type_code_def map_type_codes_def)
  ultimately show ?thesis
    using b assms(3,4) by (simp add: map_free_def free_class_def ops_at_def BPF_MAP_TYPE_MAX_def)
qed

section \<open>Map types that are not built in\<close>

text \<open>The registration keeps the length of the table and rejects an index outside it.\<close>

lemma register_keeps_table:
  "bpftime_register_map_ops table t ops = Inr table' \<Longrightarrow> length table = BPF_MAP_TYPE_MAX \<Longrightarrow>
     length table' = BPF_MAP_TYPE_MAX \<and> table' ! nat t = ops"
  by (auto simp: bpftime_register_map_ops_def split: if_splits)

text \<open>The registered functions are given the id 0, whatever the id of the handler.\<close>

lemma custom_ops_get_id_0:
  assumes "switch_class (me_libbpf E) (map_type_of (ma_type attr)) = None"
    and "ops_at E (map_type_of (ma_type attr)) = Inr ops" and "mo_elem_delete ops = Some f"
  shows "map_delete_elem E (bpf_map_handler id' name attr) key fs =
    bind_res (f 0 key fs) (\<lambda>_. Inr (bpf_map_handler id' name attr))"
  using assms by (simp add: map_delete_elem_def bpf_map_handler_def call_op_def)

text \<open>
  The switches index the table of registered operations with the type as it was given: for a
  type outside the table every operation on the handler, and its destruction, reads out of bounds.
\<close>

lemma map_type_outside_table:
  assumes "map_type_of t = BPF_MAP_TYPE_OTHER t" and "t < 0 \<or> int (length (me_table E)) \<le> t"
    and "h = bpf_map_handler id' name attr" and "ma_type attr = t"
  shows "map_lookup_elem E h key fs = Inl Fault \<and> map_update_elem E h key v flags fs = Inl Fault \<and>
    map_delete_elem E h key fs = Inl Fault \<and> bpf_map_get_next_key E h key nk fs = Inl Fault \<and>
    map_free E g h = Inl Fault"
  using assms
  by (auto simp: bpf_map_handler_def map_lookup_elem_def map_update_elem_def map_delete_elem_def
      bpf_map_get_next_key_def map_free_def free_class_def switch_class_def ops_at_def map_type_code_def)

end
