(* ===== verification/Handler_Manager.thy ===== *)
theory Handler_Manager
  imports Map_Handler
begin

text \<open>
  \<open>handler_manager\<close> (\<open>runtime/src/handler/handler_manager.{hpp,cpp}\<close>): the table of handlers in the
  shared segment, indexed by descriptor, and the handlers it holds.  The state is the table and the
  named objects of the segment.  An exception leaves the state changed by what ran before it, so the
  operations return the state beside the result.
\<close>

section \<open>Handlers\<close>

record link_handler =
  lk_prog_id :: int
  lk_attach_target_id :: int
  lk_attach_cookie :: "nat option"

definition bpf_link_handler :: "int \<Rightarrow> int \<Rightarrow> nat option \<Rightarrow> link_handler" where
  "bpf_link_handler prog_id target cookie =
     \<lparr>lk_prog_id = prog_id, lk_attach_target_id = target, lk_attach_cookie = cookie\<rparr>"

text \<open>A program: its instructions as 64-bit words.  The constructor does not set the type.\<close>

record prog_handler =
  pg_insns :: "u64 list"
  pg_aot_insns :: bytes
  pg_name :: string

definition bpf_prog_handler :: "u64 list \<Rightarrow> string \<Rightarrow> int \<Rightarrow> prog_handler" where
  "bpf_prog_handler insns name prog_type = \<lparr>pg_insns = insns, pg_aot_insns = [], pg_name = name\<rparr>"

datatype perf_data =
    UprobeData nat int nat string
  | TracepointData int int
  | SoftwareData int int int swpe
  | CustomData string
  | KprobeData string nat nat

record perf_handler =
  pe_type :: int
  pe_enabled :: bool
  pe_data :: perf_data

definition PERF_TYPE_SOFTWARE :: int where "PERF_TYPE_SOFTWARE = 1"
definition PERF_TYPE_TRACEPOINT :: int where "PERF_TYPE_TRACEPOINT = 2"
definition BPF_TYPE_UPROBE :: int where "BPF_TYPE_UPROBE = 6"
definition BPF_TYPE_URETPROBE :: int where "BPF_TYPE_URETPROBE = 7"
definition BPF_TYPE_KPROBE :: int where "BPF_TYPE_KPROBE = 8"
definition BPF_TYPE_KRETPROBE :: int where "BPF_TYPE_KRETPROBE = 9"
definition BPF_TYPE_UPROBE_OVERRIDE :: int where "BPF_TYPE_UPROBE_OVERRIDE = 1008"
definition BPF_TYPE_UREPLACE :: int where "BPF_TYPE_UREPLACE = 1009"

definition perf_custom :: "int \<Rightarrow> string \<Rightarrow> perf_handler" where
  "perf_custom type attach_arg = \<lparr>pe_type = type, pe_enabled = False, pe_data = CustomData attach_arg\<rparr>"

definition perf_override :: "int \<Rightarrow> nat \<Rightarrow> int \<Rightarrow> string \<Rightarrow> bool \<Rightarrow> perf_handler" where
  "perf_override type offset pid module_name default_enabled =
     \<lparr>pe_type = type, pe_enabled = default_enabled, pe_data = UprobeData offset pid 0 module_name\<rparr>"

definition perf_uprobe :: "bool \<Rightarrow> nat \<Rightarrow> int \<Rightarrow> string \<Rightarrow> nat \<Rightarrow> perf_handler" where
  "perf_uprobe is_retprobe offset pid module_name ref_ctr_off =
     \<lparr>pe_type = (if is_retprobe then BPF_TYPE_URETPROBE else BPF_TYPE_UPROBE), pe_enabled = False,
      pe_data = UprobeData offset pid ref_ctr_off module_name\<rparr>"

definition perf_kprobe :: "bool \<Rightarrow> nat \<Rightarrow> string \<Rightarrow> nat \<Rightarrow> perf_handler" where
  "perf_kprobe is_retprobe addr func_name ref_ctr_off =
     \<lparr>pe_type = (if is_retprobe then BPF_TYPE_KRETPROBE else BPF_TYPE_KPROBE), pe_enabled = False,
      pe_data = KprobeData func_name addr ref_ctr_off\<rparr>"

definition perf_tracepoint :: "int \<Rightarrow> int \<Rightarrow> perf_handler" where
  "perf_tracepoint pid tracepoint_id =
     \<lparr>pe_type = PERF_TYPE_TRACEPOINT, pe_enabled = False, pe_data = TracepointData pid tracepoint_id\<rparr>"

definition perf_software :: "nat \<Rightarrow> int \<Rightarrow> int \<Rightarrow> int \<Rightarrow> perf_handler" where
  "perf_software pagesize cpu sample_type config =
     \<lparr>pe_type = PERF_TYPE_SOFTWARE, pe_enabled = False,
      pe_data = SoftwareData cpu config sample_type (software_perf_event_data pagesize)\<rparr>"

definition perf_enable :: "perf_handler \<Rightarrow> perf_handler" where
  "perf_enable p = p\<lparr>pe_enabled := True\<rparr>"

definition perf_disable :: "perf_handler \<Rightarrow> perf_handler" where
  "perf_disable p = p\<lparr>pe_enabled := False\<rparr>"

text \<open>The files of an epoll instance: weak pointers, named by the descriptor of their handler, and the user's data.\<close>

datatype epoll_file = SoftwareFile int nat | RingbufFile int nat

record epoll_handler =
  ep_files :: "epoll_file list"

record memfd_handler =
  mf_name :: string
  mf_flags :: int

datatype ('p, 'l, 's) handler_variant =
    Unused
  | Map "('p, 'l, 's) map_handler"
  | Link link_handler
  | Prog prog_handler
  | Perf perf_handler
  | Epoll epoll_handler
  | Memfd memfd_handler

section \<open>The table\<close>

type_synonym ('p, 'l, 's) handlers = "('p, 'l, 's) handler_variant list"
type_synonym ('g, 'p, 'l, 's) mgr = "('p, 'l, 's) handlers \<times> 'g"

definition handler_manager :: "nat \<Rightarrow> ('p, 'l, 's) handlers" where
  "handler_manager max_fd_count = replicate max_fd_count Unused"

definition fd_in_range :: "('p, 'l, 's) handlers \<Rightarrow> int \<Rightarrow> bool" where
  "fd_in_range hs fd \<longleftrightarrow> 0 \<le> fd \<and> nat fd < length hs"

text \<open>\<open>handlers[fd]\<close> does not check the index.\<close>

definition get_handler :: "('p, 'l, 's) handlers \<Rightarrow> int \<Rightarrow> ('p, 'l, 's) handler_variant res" where
  "get_handler hs fd = (if fd_in_range hs fd then Inr (hs ! nat fd) else Inl Fault)"

definition is_allocated :: "('p, 'l, 's) handlers \<Rightarrow> int \<Rightarrow> bool" where
  "is_allocated hs fd = (if \<not> fd_in_range hs fd then False else hs ! nat fd \<noteq> Unused)"

definition find_minimal_unused_idx :: "('p, 'l, 's) handlers \<Rightarrow> int" where
  "find_minimal_unused_idx hs =
     (case find (\<lambda>i. \<not> is_allocated hs (int i)) [0..<length hs] of Some i \<Rightarrow> int i | None \<Rightarrow> -1)"

text \<open>The handler is in its slot before \<open>map_init\<close> runs, and the integer \<open>map_init\<close> returns is not used.\<close>

definition set_handler ::
  "('g, 'p, 'l, 's) map_env \<Rightarrow> ('g, 'p, 'l, 's) mgr \<Rightarrow> int \<Rightarrow> ('p, 'l, 's) handler_variant \<Rightarrow>
   ('g, 'p, 'l, 's) mgr \<times> int res" where
  "set_handler E m fd handler =
     (case m of (hs, g) \<Rightarrow>
        if is_allocated hs fd then (m, Inl (RetNeg EEXIST))
        else if handler = Unused then (m, Inl (RetNeg ENOTSUP))
        else if \<not> fd_in_range hs fd then (m, Inl Fault)
        else
          case handler of
            Map h \<Rightarrow>
              (case map_init E g h of
                 Inl e \<Rightarrow> ((hs[nat fd := Map h], g), Inl e)
               | Inr (g', h', ret) \<Rightarrow> ((hs[nat fd := Map h'], g'), Inr fd))
          | _ \<Rightarrow> ((hs[nat fd := handler], g), Inr fd))"

definition set_handler_at_empty_slot ::
  "('g, 'p, 'l, 's) map_env \<Rightarrow> ('g, 'p, 'l, 's) mgr \<Rightarrow> ('p, 'l, 's) handler_variant \<Rightarrow>
   ('g, 'p, 'l, 's) mgr \<times> int res" where
  "set_handler_at_empty_slot E m handler =
     (let id' = find_minimal_unused_idx (fst m)
      in if id' < 0 then (m, Inl RetFail) else set_handler E m id' handler)"

text \<open>
  The loops over the links of a perf event or a program.  The recursive call of \<open>clear_id_at\<close> is on a
  link, for which only its last statement runs.
\<close>

definition remove_links :: "(link_handler \<Rightarrow> bool) \<Rightarrow> ('p, 'l, 's) handlers \<Rightarrow> ('p, 'l, 's) handlers" where
  "remove_links P hs = map (\<lambda>v. case v of Link l \<Rightarrow> if P l then Unused else v | _ \<Rightarrow> v) hs"

definition clear_id_at ::
  "('g, 'p, 'l, 's) map_env \<Rightarrow> ('g, 'p, 'l, 's) mgr \<Rightarrow> int \<Rightarrow> ('g, 'p, 'l, 's) mgr \<times> unit res" where
  "clear_id_at E m fd =
     (case m of (hs, g) \<Rightarrow>
        if \<not> fd_in_range hs fd then (m, Inr ())
        else
          case hs ! nat fd of
            Map h \<Rightarrow>
              (case map_free E g h of
                 Inl e \<Rightarrow> (m, Inl e)
               | Inr (g', _) \<Rightarrow> ((hs[nat fd := Unused], g'), Inr ()))
          | Perf _ \<Rightarrow> (((remove_links (\<lambda>l. lk_attach_target_id l = fd) hs)[nat fd := Unused], g), Inr ())
          | Prog _ \<Rightarrow> (((remove_links (\<lambda>l. lk_prog_id l = fd) hs)[nat fd := Unused], g), Inr ())
          | _ \<Rightarrow> ((hs[nat fd := Unused], g), Inr ()))"

fun clear_from ::
  "('g, 'p, 'l, 's) map_env \<Rightarrow> ('g, 'p, 'l, 's) mgr \<Rightarrow> nat list \<Rightarrow> ('g, 'p, 'l, 's) mgr \<times> unit res" where
  "clear_from E m [] = (m, Inr ())"
| "clear_from E m (i # is) =
     (if is_allocated (fst m) (int i) then
        (case clear_id_at E m (int i) of
           (m', Inl e) \<Rightarrow> (m', Inl e)
         | (m', Inr _) \<Rightarrow> clear_from E m' is)
      else clear_from E m is)"

definition clear_all ::
  "('g, 'p, 'l, 's) map_env \<Rightarrow> ('g, 'p, 'l, 's) mgr \<Rightarrow> ('g, 'p, 'l, 's) mgr \<times> unit res" where
  "clear_all E m = clear_from E m [0..<length (fst m)]"


section \<open>Slots\<close>

lemma is_allocated_iff: "is_allocated hs fd \<longleftrightarrow> fd_in_range hs fd \<and> hs ! nat fd \<noteq> Unused"
  by (simp add: is_allocated_def)

lemma length_remove_links [simp]: "length (remove_links P hs) = length hs"
  by (simp add: remove_links_def)

lemma nth_remove_links:
  "i < length hs \<Longrightarrow> remove_links P hs ! i = (case hs ! i of Link l \<Rightarrow> if P l then Unused else Link l | v \<Rightarrow> v)"
  by (simp add: remove_links_def split: handler_variant.splits)

text \<open>A call of \<open>set_handler\<close> that reaches the assignment, and one that does not.\<close>

lemma set_handler_cases:
  assumes "set_handler E (hs, g) fd v = (m', r)"
  obtains (refused) e where "m' = (hs, g)" "r = Inl e"
  | (stored) v' g' where "m' = (hs[nat fd := v'], g')" "fd_in_range hs fd" "hs ! nat fd = Unused" "v \<noteq> Unused"
      "(\<forall>h. v \<noteq> Map h) \<longrightarrow> v' = v \<and> g' = g \<and> r = Inr fd"
      "\<forall>h. v = Map h \<longrightarrow> (\<exists>h'. v' = Map h' \<and>
         (case map_init E g h of Inl e \<Rightarrow> h' = h \<and> g' = g \<and> r = Inl e
          | Inr (g'', h'', ret) \<Rightarrow> h' = h'' \<and> g' = g'' \<and> r = Inr fd))"
proof -
  consider "is_allocated hs fd \<or> v = Unused \<or> \<not> fd_in_range hs fd"
    | "\<not> is_allocated hs fd" "v \<noteq> Unused" "fd_in_range hs fd" by blast
  then show thesis
  proof cases
    case 1
    with assms have "m' = (hs, g)" "\<exists>e. r = Inl e" by (auto simp: set_handler_def split: if_splits)
    then show thesis by (auto intro: refused)
  next
    case 2
    show thesis
    proof (cases "\<exists>h. v = Map h")
      case True
      then obtain h where h: "v = Map h" by blast
      with assms 2 show thesis
        by (cases "map_init E g h")
          (auto simp: set_handler_def is_allocated_iff intro!: stored split: prod.splits)
    next
      case False
      with assms 2 have "m' = (hs[nat fd := v], g)" "r = Inr fd"
        by (auto simp: set_handler_def split: handler_variant.splits)
      with False 2 show thesis by (intro stored) (auto simp: is_allocated_iff)
    qed
  qed
qed

text \<open>Whether the call of \<open>map_free\<close> is defined for the handler of a slot.\<close>

definition freeable :: "('g, 'p, 'l, 's) map_env \<Rightarrow> ('p, 'l, 's) handler_variant \<Rightarrow> bool" where
  "freeable E v =
     (case v of Map h \<Rightarrow> free_class (me_libbpf E) (mh_type h) \<noteq> None \<or> no_fault (ops_at E (mh_type h)) | _ \<Rightarrow> True)"

definition after_free :: "('g, 'p, 'l, 's) map_env \<Rightarrow> ('p, 'l, 's) handler_variant \<Rightarrow> 'g \<Rightarrow> 'g" where
  "after_free E v g =
     (case v of
        Map h \<Rightarrow> if free_class (me_libbpf E) (mh_type h) \<noteq> None
                 then sg_destroy (me_segment E) g (get_container_name h) else g
      | _ \<Rightarrow> g)"

lemma map_free_freeable:
  "freeable E (Map h) \<Longrightarrow> \<exists>h'. map_free E g h = Inr (after_free E (Map h) g, h')"
  by (cases "ops_at E (mh_type h)")
    (auto simp: freeable_def after_free_def map_free_def no_fault_def ops_at_def Let_def split: option.splits if_splits)

text \<open>The links that go with the handler of a slot.\<close>

definition linked_to :: "('p, 'l, 's) handler_variant \<Rightarrow> int \<Rightarrow> link_handler \<Rightarrow> bool" where
  "linked_to v fd l =
     (case v of Perf _ \<Rightarrow> lk_attach_target_id l = fd | Prog _ \<Rightarrow> lk_prog_id l = fd | _ \<Rightarrow> False)"

lemma remove_links_none: "remove_links (\<lambda>l. False) hs = hs"
  by (rule nth_equalityI) (auto simp: nth_remove_links split: handler_variant.splits)

lemma clear_id_at_eq:
  assumes "fd_in_range hs fd" and "freeable E (hs ! nat fd)"
  shows "clear_id_at E (hs, g) fd =
    (((remove_links (linked_to (hs ! nat fd) fd) hs)[nat fd := Unused], after_free E (hs ! nat fd) g), Inr ())"
proof (cases "hs ! nat fd")
  case (Map h)
  with map_free_freeable [of E h g] assms show ?thesis
    by (auto simp: clear_id_at_def linked_to_def [abs_def] remove_links_none)
qed (use assms in \<open>auto simp: clear_id_at_def linked_to_def [abs_def] remove_links_none after_free_def\<close>)



definition demo_prog :: prog_handler where
  "demo_prog = bpf_prog_handler [0] ''p'' 2"

definition demo_event :: perf_handler where
  "demo_event = perf_uprobe False 16 1 ''libc'' 0"

type_synonym demo_variant =
  "((bytes \<times> bytes) list, (bytes \<times> bytes \<times> nat) list, (nat \<times> u64 list) list) handler_variant"

definition demo_handlers :: "demo_variant list" where
  "demo_handlers = [Prog demo_prog, Perf demo_event, Link (bpf_link_handler 0 1 None), Perf demo_event,
     Link (bpf_link_handler 0 3 None), Unused]"


lemma find_unused:
  "find_minimal_unused_idx hs =
     (if Unused \<in> set hs then int (LEAST i. i < length hs \<and> hs ! i = Unused) else -1)"
proof -
  let ?P = "\<lambda>i. \<not> is_allocated hs (int i)"
  have P: "?P i = (hs ! i = Unused)" if "i < length hs" for i
    using that by (simp add: is_allocated_iff fd_in_range_def)
  show ?thesis
  proof (cases "find ?P [0..<length hs]")
    case None
    then have "\<forall>i < length hs. hs ! i \<noteq> Unused" using P by (auto simp: find_None_iff)
    then have "Unused \<notin> set hs" by (auto simp: in_set_conv_nth)
    with None show ?thesis by (simp add: find_minimal_unused_idx_def)
  next
    case (Some i)
    then have "i < length hs" "?P i" "\<forall>j < i. \<not> ?P j" by (auto simp: find_Some_iff)
    then have i: "i < length hs" "hs ! i = Unused" "\<forall>j < i. hs ! j \<noteq> Unused"
      using P less_trans by (blast, blast, metis less_trans)
    then have "(LEAST i. i < length hs \<and> hs ! i = Unused) = i"
      by (intro Least_equality) (auto simp: not_less [symmetric])
    with Some i show ?thesis by (auto simp: find_minimal_unused_idx_def in_set_conv_nth)
  qed
qed




section \<open>Invariants of the table\<close>

text \<open>Every link refers to a slot with a program and a slot with a perf event.\<close>

definition links_ok :: "('p, 'l, 's) handlers \<Rightarrow> bool" where
  "links_ok hs \<longleftrightarrow>
     (\<forall>l. Link l \<in> set hs \<longrightarrow>
        (\<exists>p. get_handler hs (lk_prog_id l) = Inr (Prog p)) \<and>
        (\<exists>q. get_handler hs (lk_attach_target_id l) = Inr (Perf q)))"

text \<open>
  Every map whose pointer is not null has its object in the segment and of the class of its type, and
  no two maps of the table have the same name.
\<close>

definition maps_ok :: "'g segment \<Rightarrow> bool \<Rightarrow> ('g, 'p, 'l, 's) mgr \<Rightarrow> bool" where
  "maps_ok S libbpf m \<longleftrightarrow>
     (\<forall>h i. Map h \<in> set (fst m) \<longrightarrow> mh_impl h = Some i \<longrightarrow>
        sg_used S (snd m) (get_container_name h) \<and> switch_class libbpf (mh_type h) = Some (class_of i)) \<and>
     (\<forall>i j h h'. i < length (fst m) \<longrightarrow> j < length (fst m) \<longrightarrow> fst m ! i = Map h \<longrightarrow> fst m ! j = Map h' \<longrightarrow>
        get_container_name h = get_container_name h' \<longrightarrow> i = j)"

definition mgr_ok :: "'g segment \<Rightarrow> bool \<Rightarrow> ('g, 'p, 'l, 's) mgr \<Rightarrow> bool" where
  "mgr_ok S libbpf m \<longleftrightarrow> links_ok (fst m) \<and> maps_ok S libbpf m"

lemma mgr_ok_init: "mgr_ok S libbpf (handler_manager n, g)"
  by (simp add: mgr_ok_def links_ok_def maps_ok_def handler_manager_def)

lemma get_handler_upd:
  "get_handler (hs[n := v]) fd = (if fd_in_range hs fd then Inr (if nat fd = n then v else hs ! nat fd) else Inl Fault)"
  by (auto simp: get_handler_def fd_in_range_def)

lemma set_upd: "v \<in> set (hs[n := w]) \<Longrightarrow> v = w \<or> v \<in> set hs"
  using set_update_subset_insert [of hs n w] by blast

text \<open>Filling an unused slot; a link that is stored must itself be valid.\<close>

lemma links_ok_fill:
  assumes "links_ok hs" and "hs ! nat fd = Unused"
    and "\<And>l. v = Link l \<Longrightarrow> (\<exists>p. get_handler hs (lk_prog_id l) = Inr (Prog p)) \<and>
      (\<exists>q. get_handler hs (lk_attach_target_id l) = Inr (Perf q))"
  shows "links_ok (hs[nat fd := v])"
  unfolding links_ok_def
proof (intro allI impI)
  fix l
  assume "Link l \<in> set (hs[nat fd := v])"
  then have "v = Link l \<or> Link l \<in> set hs" by (auto dest: set_upd)
  then have "(\<exists>p. get_handler hs (lk_prog_id l) = Inr (Prog p)) \<and>
      (\<exists>q. get_handler hs (lk_attach_target_id l) = Inr (Perf q))"
    using assms(1,3) by (auto simp: links_ok_def)
  with assms(2) show "(\<exists>p. get_handler (hs[nat fd := v]) (lk_prog_id l) = Inr (Prog p)) \<and>
      (\<exists>q. get_handler (hs[nat fd := v]) (lk_attach_target_id l) = Inr (Perf q))"
    unfolding get_handler_upd by (auto simp: get_handler_def split: if_splits)
qed

text \<open>Replacing a handler by one of the same kind.\<close>

definition same_kind :: "('p, 'l, 's) handler_variant \<Rightarrow> ('p, 'l, 's) handler_variant \<Rightarrow> bool" where
  "same_kind v w =
     (case (v, w) of
        (Perf _, Perf _) \<Rightarrow> True
      | (Epoll _, Epoll _) \<Rightarrow> True
      | (Map h, Map h') \<Rightarrow> mh_type h' = mh_type h \<and> mh_name h' = mh_name h \<and> (mh_impl h = None \<longrightarrow> mh_impl h' = None)
      | _ \<Rightarrow> False)"

lemma links_ok_replace:
  assumes "links_ok hs" and "n < length hs" and "same_kind (hs ! n) v"
  shows "links_ok (hs[n := v])"
  unfolding links_ok_def
proof (intro allI impI)
  fix l
  assume "Link l \<in> set (hs[n := v])"
  then have "Link l \<in> set hs" using assms(3) set_upd by (force simp: same_kind_def split: handler_variant.splits)
  with assms(1) have "(\<exists>p. get_handler hs (lk_prog_id l) = Inr (Prog p)) \<and>
      (\<exists>q. get_handler hs (lk_attach_target_id l) = Inr (Perf q))"
    by (simp add: links_ok_def)
  with assms(3) show "(\<exists>p. get_handler (hs[n := v]) (lk_prog_id l) = Inr (Prog p)) \<and>
      (\<exists>q. get_handler (hs[n := v]) (lk_attach_target_id l) = Inr (Perf q))"
    unfolding get_handler_upd
    by (auto simp: get_handler_def same_kind_def split: if_splits handler_variant.splits)
qed

lemma set_remove_links: "v \<in> set (remove_links P hs) \<Longrightarrow> v = Unused \<or> v \<in> set hs \<and> (\<forall>l. v = Link l \<longrightarrow> \<not> P l)"
  by (auto simp: remove_links_def split: handler_variant.splits if_splits)

lemma links_ok_clear:
  assumes "links_ok hs" and "fd_in_range hs fd"
  shows "links_ok ((remove_links (linked_to (hs ! nat fd) fd) hs)[nat fd := Unused])"
  unfolding links_ok_def
proof (intro allI impI)
  let ?v = "hs ! nat fd"
  let ?hs = "(remove_links (linked_to ?v fd) hs)[nat fd := Unused]"
  fix l
  assume "Link l \<in> set ?hs"
  then have l: "Link l \<in> set hs" "\<not> linked_to ?v fd l" using set_upd set_remove_links by fastforce+
  with assms(1) obtain p q where pq: "get_handler hs (lk_prog_id l) = Inr (Prog p)"
      "get_handler hs (lk_attach_target_id l) = Inr (Perf q)"
    by (auto simp: links_ok_def)
  have ne: "lk_prog_id l \<noteq> fd" "lk_attach_target_id l \<noteq> fd"
    using pq l(2) by (auto simp: get_handler_def linked_to_def split: if_splits)
  have keep: "get_handler ?hs i = get_handler hs i" if "i \<noteq> fd" "get_handler hs i = Inr w" "\<forall>l. w \<noteq> Link l" for i w
    using that assms(2)
    by (auto simp: get_handler_def fd_in_range_def nth_remove_links nth_list_update split: if_splits handler_variant.splits)
  show "(\<exists>p. get_handler ?hs (lk_prog_id l) = Inr (Prog p)) \<and>
      (\<exists>q. get_handler ?hs (lk_attach_target_id l) = Inr (Perf q))"
    using keep [OF ne(1) pq(1)] keep [OF ne(2) pq(2)] pq by auto
qed


lemma maps_okI:
  assumes "\<And>h i. Map h \<in> set hs \<Longrightarrow> mh_impl h = Some i \<Longrightarrow>
      sg_used S g (get_container_name h) \<and> switch_class libbpf (mh_type h) = Some (class_of i)"
    and "\<And>i j h h'. i < length hs \<Longrightarrow> j < length hs \<Longrightarrow> hs ! i = Map h \<Longrightarrow> hs ! j = Map h' \<Longrightarrow>
      get_container_name h = get_container_name h' \<Longrightarrow> i = j"
  shows "maps_ok S libbpf (hs, g)"
  using assms by (auto simp: maps_ok_def)

lemma maps_okD:
  assumes "maps_ok S libbpf (hs, g)"
  shows "Map h \<in> set hs \<Longrightarrow> mh_impl h = Some i \<Longrightarrow>
      sg_used S g (get_container_name h) \<and> switch_class libbpf (mh_type h) = Some (class_of i)"
    and "i' < length hs \<Longrightarrow> j < length hs \<Longrightarrow> hs ! i' = Map h \<Longrightarrow> hs ! j = Map h' \<Longrightarrow>
      get_container_name h = get_container_name h' \<Longrightarrow> i' = j"
  using assms by (auto simp: maps_ok_def)

text \<open>The maps of a table decide \<open>maps_ok\<close>: a table with fewer maps has it too.\<close>

lemma maps_ok_fewer:
  assumes "maps_ok S libbpf (hs, g)" and "length hs' = length hs"
    and "\<And>i h. i < length hs \<Longrightarrow> hs' ! i = Map h \<Longrightarrow> hs ! i = Map h"
    and "\<And>i h. i < length hs \<Longrightarrow> hs' ! i = Map h \<Longrightarrow> sg_used S g (get_container_name h) \<Longrightarrow>
      sg_used S g' (get_container_name h)"
  shows "maps_ok S libbpf (hs', g')"
proof (rule maps_okI)
  fix h i
  assume h: "Map h \<in> set hs'" "mh_impl h = Some i"
  then obtain n where n: "n < length hs" "hs' ! n = Map h" using assms(2) by (auto simp: in_set_conv_nth)
  then have "Map h \<in> set hs" using assms(3) by (metis nth_mem)
  with n h assms(4) show "sg_used S g' (get_container_name h) \<and> switch_class libbpf (mh_type h) = Some (class_of i)"
    using maps_okD(1) [OF assms(1)] by blast
next
  fix i j h h'
  assume "i < length hs'" "j < length hs'" "hs' ! i = Map h" "hs' ! j = Map h'"
    "get_container_name h = get_container_name h'"
  then show "i = j" using assms(2,3) maps_okD(2) [OF assms(1)] by metis
qed

definition fresh_name :: "('p, 'l, 's) handlers \<Rightarrow> nat \<Rightarrow> ('p, 'l, 's) map_handler \<Rightarrow> bool" where
  "fresh_name hs n h \<longleftrightarrow> (\<forall>i < length hs. i \<noteq> n \<longrightarrow> (case hs ! i of Map h' \<Rightarrow> mh_name h' \<noteq> mh_name h | _ \<Rightarrow> True))"

lemma container_name_eq: "get_container_name h = get_container_name h' \<longleftrightarrow> mh_name h = mh_name h'"
  by (simp add: get_container_name_def)

text \<open>Storing a map whose name no other slot has.\<close>

lemma maps_ok_put:
  assumes ok: "maps_ok S libbpf (hs, g)" and n: "n < length hs" and fresh: "fresh_name hs n h"
    and obj: "\<And>i. mh_impl h = Some i \<Longrightarrow>
      sg_used S g' (get_container_name h) \<and> switch_class libbpf (mh_type h) = Some (class_of i)"
    and seg: "\<And>m. sg_used S g m \<Longrightarrow> sg_used S g' m"
  shows "maps_ok S libbpf (hs[n := Map h], g')"
proof (rule maps_okI)
  fix h' i
  assume "Map h' \<in> set (hs[n := Map h])" "mh_impl h' = Some i"
  then show "sg_used S g' (get_container_name h') \<and> switch_class libbpf (mh_type h') = Some (class_of i)"
    using obj seg maps_okD(1) [OF ok] by (auto dest!: set_upd)
next
  fix i j h1 h2
  assume "i < length (hs[n := Map h])" "j < length (hs[n := Map h])" "hs[n := Map h] ! i = Map h1"
    "hs[n := Map h] ! j = Map h2" "get_container_name h1 = get_container_name h2"
  then show "i = j"
    using fresh maps_okD(2) [OF ok] n
    by (cases "i = n"; cases "j = n") (fastforce simp: fresh_name_def container_name_eq)+
qed

lemma fresh_name_same:
  assumes "maps_ok S libbpf (hs, g)" and "n < length hs" and "hs ! n = Map h" and "mh_name h' = mh_name h"
  shows "fresh_name hs n h'"
  using assms maps_okD(2) [OF assms(1)]
  by (fastforce simp: fresh_name_def container_name_eq split: handler_variant.splits)


section \<open>The operations keep the invariants\<close>

lemma map_init_object:
  assumes "named_segment (me_segment E)" and "map_init E g h = Inr (g', h', ret)" and "mh_impl h = None"
  shows "mh_type h' = mh_type h \<and> mh_name h' = mh_name h \<and>
    (\<forall>m. sg_used (me_segment E) g m \<longrightarrow> sg_used (me_segment E) g' m) \<and>
    (\<forall>i. mh_impl h' = Some i \<longrightarrow> sg_used (me_segment E) g' (get_container_name h') \<and>
       switch_class (me_libbpf E) (mh_type h') = Some (class_of i))"
proof (cases "sg_construct (me_segment E) g (get_container_name h)")
  case None
  with assms(2,3) show ?thesis
    by (auto simp: map_init_def bind_res_eq_Inr split: option.splits if_splits)
next
  case (Some g1)
  note used = named_segment.construct_used [OF assms(1) Some]
  have name: "get_container_name (h\<lparr>mh_impl := x\<rparr>) = get_container_name h" for x
    by (simp add: get_container_name_def)
  show ?thesis
    using assms(2,3) Some used new_impl_class [of E h]
    by (auto simp: map_init_def bind_res_eq_Inr init_class_def name split: option.splits if_splits)
qed

definition storable :: "('p, 'l, 's) handlers \<Rightarrow> int \<Rightarrow> ('p, 'l, 's) handler_variant \<Rightarrow> bool" where
  "storable hs fd v =
     (case v of
        Link l \<Rightarrow>
          (\<exists>p. get_handler hs (lk_prog_id l) = Inr (Prog p)) \<and> (\<exists>q. get_handler hs (lk_attach_target_id l) = Inr (Perf q))
      | Map h \<Rightarrow> fresh_name hs (nat fd) h \<and> mh_impl h = None
      | _ \<Rightarrow> True)"

lemma set_handler_ok:
  assumes seg: "named_segment (me_segment E)" and ok: "mgr_ok (me_segment E) (me_libbpf E) (hs, g)"
    and v: "storable hs fd v"
  shows "mgr_ok (me_segment E) (me_libbpf E) (fst (set_handler E (hs, g) fd v))"
proof -
  obtain m' r where sh: "set_handler E (hs, g) fd v = (m', r)" by fastforce
  then show ?thesis
  proof (cases rule: set_handler_cases)
    case refused
    with sh ok show ?thesis by simp
  next
    case (stored v' g')
    have n: "nat fd < length hs" using stored(2) by (simp add: fd_in_range_def)
    have lk: "links_ok (hs[nat fd := v'])"
    proof (rule links_ok_fill)
      show "links_ok hs" using ok by (simp add: mgr_ok_def)
      show "hs ! nat fd = Unused" by (rule stored(3))
      fix l assume "v' = Link l"
      then have "v = Link l" using stored(5,6) by (cases v) auto
      with v show "(\<exists>p. get_handler hs (lk_prog_id l) = Inr (Prog p)) \<and>
          (\<exists>q. get_handler hs (lk_attach_target_id l) = Inr (Perf q))"
        by (simp add: storable_def)
    qed
    have mo: "maps_ok (me_segment E) (me_libbpf E) (hs, g)" using ok by (simp add: mgr_ok_def)
    have "maps_ok (me_segment E) (me_libbpf E) (hs[nat fd := v'], g')"
    proof (cases "\<exists>h. v = Map h")
      case True
      then obtain h h' where h: "v = Map h" "v' = Map h'" using stored(6) by blast
      with v have f: "fresh_name hs (nat fd) h" "mh_impl h = None" by (auto simp: storable_def)
      consider (exc) e where "map_init E g h = Inl e" "h' = h" "g' = g"
        | (built) ret where "map_init E g h = Inr (g', h', ret)"
        using stored(6) h by (fastforce split: sum.splits prod.splits)
      then show ?thesis
      proof cases
        case exc
        with f h show ?thesis using maps_ok_put [OF mo n, of h g] by simp
      next
        case built
        note o = map_init_object [OF seg built f(2)]
        then have "mh_name h' = mh_name h" by blast
        with f(1) have "fresh_name hs (nat fd) h'"
          by (auto simp: fresh_name_def split: handler_variant.splits)
        with o show ?thesis unfolding h(2) by (intro maps_ok_put [OF mo n]) auto
      qed
    next
      case False
      with stored(5) have "v' = v" "g' = g" by auto
      with False n show ?thesis by (intro maps_ok_fewer [OF mo]) (auto simp: nth_list_update split: if_splits)
    qed
    with lk sh stored(1) show ?thesis by (simp add: mgr_ok_def)
  qed
qed

lemma clear_id_at_ok:
  assumes seg: "named_segment (me_segment E)" and ok: "mgr_ok (me_segment E) (me_libbpf E) (hs, g)"
  shows "mgr_ok (me_segment E) (me_libbpf E) (fst (clear_id_at E (hs, g) fd))"
proof (cases "fd_in_range hs fd \<and> freeable E (hs ! nat fd)")
  case True
  then have rng: "fd_in_range hs fd" and fr: "freeable E (hs ! nat fd)" by auto
  have n: "nat fd < length hs" using rng by (simp add: fd_in_range_def)
  let ?hs = "(remove_links (linked_to (hs ! nat fd) fd) hs)[nat fd := Unused]"
  have mo: "maps_ok (me_segment E) (me_libbpf E) (hs, g)" using ok by (simp add: mgr_ok_def)
  have slot: "hs ! i = Map h \<and> i \<noteq> nat fd" if "i < length hs" "?hs ! i = Map h" for i h
    using that n by (auto simp: nth_list_update nth_remove_links split: if_splits handler_variant.splits)
  have "maps_ok (me_segment E) (me_libbpf E) (?hs, after_free E (hs ! nat fd) g)"
  proof (rule maps_ok_fewer [OF mo])
    fix i h
    assume i: "i < length hs" "?hs ! i = Map h" and u: "sg_used (me_segment E) g (get_container_name h)"
    have "get_container_name h' \<noteq> get_container_name h" if "hs ! nat fd = Map h'" for h'
      using slot [OF i] maps_okD(2) [OF mo i(1) n] that by metis
    with u show "sg_used (me_segment E) (after_free E (hs ! nat fd) g) (get_container_name h)"
      using named_segment.destroy_used [OF seg] by (auto simp: after_free_def split: handler_variant.splits)
  qed (use slot in auto)
  moreover have "links_ok ?hs" using ok rng by (simp add: mgr_ok_def links_ok_clear)
  ultimately show ?thesis by (simp add: clear_id_at_eq [OF rng fr] mgr_ok_def)
next
  case False
  have "fst (clear_id_at E (hs, g) fd) = (hs, g)"
  proof (cases "fd_in_range hs fd")
    case True
    with False obtain h where h: "hs ! nat fd = Map h" "\<not> freeable E (Map h)"
      by (cases "hs ! nat fd") (auto simp: freeable_def)
    then have "map_free E g h = Inl Fault"
      by (auto simp: freeable_def map_free_def no_fault_def)
    with h True show ?thesis by (simp add: clear_id_at_def)
  qed (simp add: clear_id_at_def)
  with ok show ?thesis by simp
qed


section \<open>Two maps of one name\<close>

text \<open>
  Two maps of one name: while a map is alive, creating a second map of its name throws and yet
  leaves the new handler in its slot, with a null pointer.  Closing that descriptor destroys the
  object by its name: the first map keeps its pointer, but its object is gone from the segment.
\<close>

lemma second_map_of_a_name_destroys_the_first:
  assumes "named_segment (me_segment E)" and "a < length hs" and "hs ! a = Map h1"
    and "sg_used (me_segment E) g (get_container_name h1)"
    and "fd_in_range hs fd" and "hs ! nat fd = Unused"
    and "mh_name h2 = mh_name h1" and "init_class (me_libbpf E) (mh_type h2) \<noteq> None"
    and "free_class (me_libbpf E) (mh_type h2) \<noteq> None" and "init_precheck h2"
  shows "\<exists>hs' g'. set_handler E (hs, g) fd (Map h2) = ((hs[nat fd := Map h2], g), Inl Throw) \<and>
    clear_id_at E (hs[nat fd := Map h2], g) fd = ((hs', g'), Inr ()) \<and> hs' ! a = Map h1 \<and>
    \<not> sg_used (me_segment E) g' (get_container_name h1)"
proof -
  have name: "get_container_name h2 = get_container_name h1" using assms(7) by (simp add: container_name_eq)
  have "sg_construct (me_segment E) g (get_container_name h2) = None"
    using named_segment.construct_again [OF assms(1)] assms(4) name by simp
  then have "map_init E g h2 = Inl Throw" using assms(8,10) by (auto simp: map_init_def)
  then have set: "set_handler E (hs, g) fd (Map h2) = ((hs[nat fd := Map h2], g), Inl Throw)"
    using assms(5,6) by (simp add: set_handler_def is_allocated_iff)
  have ne: "nat fd \<noteq> a" using assms(3,6) by auto
  have n: "nat fd < length hs" using assms(5) by (simp add: fd_in_range_def)
  then have "clear_id_at E (hs[nat fd := Map h2], g) fd =
      ((hs[nat fd := Unused], sg_destroy (me_segment E) g (get_container_name h2)), Inr ())"
    using assms(5,9) by (auto simp: clear_id_at_def fd_in_range_def map_free_def)
  with set ne assms(2,3) show ?thesis
    using named_segment.destroy_used [OF assms(1)] name by auto
qed

end
