(* ===== verification/Shm.thy ===== *)
theory Shm
  imports Handler_Manager
begin

text \<open>
  \<open>bpftime_shm\<close> (\<open>runtime/src/bpftime_shm_internal.cpp\<close>): the operations on descriptors that the
  syscall server, the agent and the helpers call.  The state is the table of handlers with the named
  objects of the segment; the segment is open, so the tests for a null manager are not repeated.
  \<open>K\<close> stands for the kernel in \<open>open_fake_fd\<close>: \<open>K 0\<close> is what \<open>open\<close> returns and \<open>K (n + 1)\<close> what the
  \<open>n\<close>-th \<open>dup\<close> after it returns.
\<close>

section \<open>Descriptors\<close>

fun open_fake_fd_loop :: "(nat \<Rightarrow> int) \<Rightarrow> nat \<Rightarrow> int \<Rightarrow> nat \<Rightarrow> int" where
  "open_fake_fd_loop K n fd 0 = fd"
| "open_fake_fd_loop K n fd (Suc cnt) =
     (if fd \<le> 2 \<and> fd \<ge> 0 \<and> cnt > 0 then open_fake_fd_loop K (Suc n) (K (Suc n)) cnt else fd)"

definition open_fake_fd :: "(nat \<Rightarrow> int) \<Rightarrow> int" where
  "open_fake_fd K = open_fake_fd_loop K 0 (K 0) 5"

definition fd_or_fake :: "(nat \<Rightarrow> int) \<Rightarrow> int \<Rightarrow> int" where
  "fd_or_fake K fd = (if fd < 0 then open_fake_fd K else fd)"

fun is_map_variant :: "('p, 'l, 's) handler_variant \<Rightarrow> bool" where
  "is_map_variant (Map h) = True" | "is_map_variant v = False"

fun is_prog_variant :: "('p, 'l, 's) handler_variant \<Rightarrow> bool" where
  "is_prog_variant (Prog p) = True" | "is_prog_variant v = False"

fun is_perf_variant :: "('p, 'l, 's) handler_variant \<Rightarrow> bool" where
  "is_perf_variant (Perf p) = True" | "is_perf_variant v = False"

fun is_epoll_variant :: "('p, 'l, 's) handler_variant \<Rightarrow> bool" where
  "is_epoll_variant (Epoll e) = True" | "is_epoll_variant v = False"

definition is_map_fd :: "('p, 'l, 's) handlers \<Rightarrow> int \<Rightarrow> bool" where
  "is_map_fd hs fd = (if \<not> fd_in_range hs fd then False else is_map_variant (hs ! nat fd))"

definition is_prog_fd :: "('p, 'l, 's) handlers \<Rightarrow> int \<Rightarrow> bool" where
  "is_prog_fd hs fd = (if \<not> fd_in_range hs fd then False else is_prog_variant (hs ! nat fd))"

definition is_perf_fd :: "('p, 'l, 's) handlers \<Rightarrow> int \<Rightarrow> bool" where
  "is_perf_fd hs fd = (if \<not> fd_in_range hs fd then False else is_perf_variant (hs ! nat fd))"

definition is_epoll_fd :: "('p, 'l, 's) handlers \<Rightarrow> int \<Rightarrow> bool" where
  "is_epoll_fd hs fd = (if \<not> fd_in_range hs fd then False else is_epoll_variant (hs ! nat fd))"

definition is_exist_fake_fd :: "('p, 'l, 's) handlers \<Rightarrow> int \<Rightarrow> bool" where
  "is_exist_fake_fd hs fd = (if \<not> fd_in_range hs fd then False else is_allocated hs fd)"

definition map_type_at :: "('p, 'l, 's) handlers \<Rightarrow> int \<Rightarrow> bpf_map_type \<Rightarrow> bool" where
  "map_type_at hs fd t = (case hs ! nat fd of Map h \<Rightarrow> mh_type h = t | _ \<Rightarrow> False)"

definition is_stack_trace_map_fd :: "('p, 'l, 's) handlers \<Rightarrow> int \<Rightarrow> bool" where
  "is_stack_trace_map_fd hs fd = (if \<not> is_map_fd hs fd then False else map_type_at hs fd BPF_MAP_TYPE_STACK_TRACE)"

definition is_ringbuf_map_fd :: "('p, 'l, 's) handlers \<Rightarrow> int \<Rightarrow> bool" where
  "is_ringbuf_map_fd hs fd = (if \<not> is_map_fd hs fd then False else map_type_at hs fd BPF_MAP_TYPE_RINGBUF)"

definition is_shared_perf_event_array_map_fd :: "('p, 'l, 's) handlers \<Rightarrow> int \<Rightarrow> bool" where
  "is_shared_perf_event_array_map_fd hs fd =
     (if \<not> is_map_fd hs fd then False else map_type_at hs fd BPF_MAP_TYPE_KERNEL_USER_PERF_EVENT_ARRAY)"

definition is_array_map_fd :: "('p, 'l, 's) handlers \<Rightarrow> int \<Rightarrow> bool" where
  "is_array_map_fd hs fd = (if \<not> is_map_fd hs fd then False else map_type_at hs fd BPF_MAP_TYPE_ARRAY)"

definition is_prog_array_map_fd :: "('p, 'l, 's) handlers \<Rightarrow> int \<Rightarrow> bool" where
  "is_prog_array_map_fd hs fd = (if \<not> is_map_fd hs fd then False else map_type_at hs fd BPF_MAP_TYPE_PROG_ARRAY)"

definition is_software_perf_event_handler_fd :: "('p, 'l, 's) handlers \<Rightarrow> int \<Rightarrow> bool" where
  "is_software_perf_event_handler_fd hs fd =
     (if \<not> is_perf_fd hs fd then False
      else case hs ! nat fd of Perf p \<Rightarrow> pe_type p = PERF_TYPE_SOFTWARE | _ \<Rightarrow> False)"

definition try_get_map_impl ::
  "bpf_map_type \<Rightarrow> ('p, 'l, 's) handlers \<Rightarrow> int \<Rightarrow> ('p, 'l, 's) map_impl option option" where
  "try_get_map_impl t hs fd =
     (if \<not> (is_map_fd hs fd \<and> map_type_at hs fd t) then None
      else case hs ! nat fd of Map h \<Rightarrow> try_get_impl t h | _ \<Rightarrow> None)"

section \<open>Operations on maps\<close>

text \<open>The operations that forward to the handler of a map descriptor, and write back its object.\<close>

definition on_map ::
  "('g, 'p, 'l, 's) mgr \<Rightarrow> int \<Rightarrow> (('p, 'l, 's) map_handler \<Rightarrow> (('p, 'l, 's) map_handler \<times> 'a) res) \<Rightarrow>
   ('g, 'p, 'l, 's) mgr \<times> 'a res" where
  "on_map m fd op =
     (case m of (hs, g) \<Rightarrow>
        if \<not> is_map_fd hs fd then (m, Inl (Errno ENOENT))
        else case hs ! nat fd of
          Map h \<Rightarrow> (case op h of Inl e \<Rightarrow> (m, Inl e) | Inr (h', a) \<Rightarrow> ((hs[nat fd := Map h'], g), Inr a))
        | _ \<Rightarrow> (m, Inl Throw))"

definition bpf_map_value_size :: "nat \<Rightarrow> ('g, 'p, 'l, 's) mgr \<Rightarrow> int \<Rightarrow> nat res" where
  "bpf_map_value_size ncpu m fd = snd (on_map m fd (\<lambda>h. Inr (h, get_userspace_value_size ncpu h)))"

definition shm_map_lookup_elem where
  "shm_map_lookup_elem E m fd key from_syscall = on_map m fd (\<lambda>h. map_lookup_elem E h key from_syscall)"

definition shm_map_update_elem where
  "shm_map_update_elem E m fd key v flags from_syscall =
     on_map m fd (\<lambda>h. bind_res (map_update_elem E h key v flags from_syscall) (\<lambda>h'. Inr (h', ())))"

definition shm_delete_elem where
  "shm_delete_elem E m fd key from_syscall =
     on_map m fd (\<lambda>h. bind_res (map_delete_elem E h key from_syscall) (\<lambda>h'. Inr (h', ())))"

definition shm_map_push_elem where
  "shm_map_push_elem m fd v flags from_syscall =
     on_map m fd (\<lambda>h. bind_res (map_push_elem h v flags from_syscall) (\<lambda>h'. Inr (h', ())))"

definition shm_map_pop_elem where
  "shm_map_pop_elem m fd buf from_syscall = on_map m fd (\<lambda>h. map_pop_elem h buf from_syscall)"

definition shm_map_peek_elem where
  "shm_map_peek_elem m fd buf from_syscall =
     on_map m fd (\<lambda>h. bind_res (map_peek_elem h buf from_syscall) (\<lambda>v. Inr (h, v)))"

definition shm_map_get_next_key where
  "shm_map_get_next_key E m fd key next_key from_syscall =
     on_map m fd (\<lambda>h. bind_res (bpf_map_get_next_key E h key next_key from_syscall) (\<lambda>k. Inr (h, k)))"

section \<open>Creation of handlers\<close>

definition add_kprobe where
  "add_kprobe E K m fd func_name addr retprobe ref_ctr_off =
     set_handler E m (case fd of Some n \<Rightarrow> n | None \<Rightarrow> open_fake_fd K)
       (Perf (perf_kprobe retprobe addr func_name ref_ctr_off))"

definition add_uprobe where
  "add_uprobe E K m fd pid name offset retprobe ref_ctr_off =
     set_handler E m (fd_or_fake K fd) (Perf (perf_uprobe retprobe offset pid name ref_ctr_off))"

definition add_uprobe_override where
  "add_uprobe_override E K m fd pid name offset is_replace =
     set_handler E m (fd_or_fake K fd)
       (Perf (perf_override (if is_replace then BPF_TYPE_UREPLACE else BPF_TYPE_UPROBE_OVERRIDE) offset pid name True))"

definition add_tracepoint where
  "add_tracepoint E K m fd pid tracepoint_id =
     set_handler E m (fd_or_fake K fd) (Perf (perf_tracepoint pid tracepoint_id))"

definition add_software_perf_event where
  "add_software_perf_event E m fd cpu sample_type config =
     set_handler E m fd (Perf (perf_software (me_page_size E) cpu sample_type config))"

definition add_custom_perf_event ::
  "('g, 'p, 'l, 's) map_env \<Rightarrow> (nat \<Rightarrow> int) \<Rightarrow> ('g, 'p, 'l, 's) mgr \<Rightarrow> int \<Rightarrow> string \<Rightarrow>
   ('g, 'p, 'l, 's) mgr \<times> int res" where
  "add_custom_perf_event E K m type attach_argument =
     (let fd = open_fake_fd K
      in if fd < 0 then (m, Inr fd)
         else case set_handler E m fd (Perf (perf_custom type attach_argument)) of
           (m', Inl Fault) \<Rightarrow> (m', Inl Fault) | (m', _) \<Rightarrow> (m', Inr fd))"

definition add_bpf_prog where
  "add_bpf_prog E K m fd insns prog_name prog_type =
     set_handler E m (fd_or_fake K fd) (Prog (bpf_prog_handler insns prog_name prog_type))"

text \<open>\<open>args\<close>, the pointer to the program and target descriptors, is dereferenced before it is tested.\<close>

definition add_bpf_link ::
  "('g, 'p, 'l, 's) map_env \<Rightarrow> (nat \<Rightarrow> int) \<Rightarrow> ('g, 'p, 'l, 's) mgr \<Rightarrow> int \<Rightarrow> (int \<times> int) option \<Rightarrow>
   ('g, 'p, 'l, 's) mgr \<times> int res" where
  "add_bpf_link E K m fd args =
     (case args of
        None \<Rightarrow> (m, Inl Fault)
      | Some (prog_fd, target_fd) \<Rightarrow>
          if \<not> is_prog_fd (fst m) prog_fd then (m, Inl (Errno EBADF))
          else set_handler E m (fd_or_fake K fd) (Link (bpf_link_handler prog_fd target_fd None)))"

text \<open>The result of \<open>set_handler\<close> is not used.\<close>

definition add_bpf_prog_attach_target ::
  "('g, 'p, 'l, 's) map_env \<Rightarrow> (nat \<Rightarrow> int) \<Rightarrow> ('g, 'p, 'l, 's) mgr \<Rightarrow> int \<Rightarrow> int \<Rightarrow> nat option \<Rightarrow>
   ('g, 'p, 'l, 's) mgr \<times> int res" where
  "add_bpf_prog_attach_target E K m perf_fd bpf_fd cookie =
     (if \<not> is_prog_fd (fst m) bpf_fd then (m, Inl (Errno ENOENT))
      else
        let next_id = open_fake_fd K
        in if next_id < 0 then (m, Inl (RetNeg ENOSPC))
           else case set_handler E m next_id (Link (bpf_link_handler bpf_fd perf_fd cookie)) of
             (m', Inl Fault) \<Rightarrow> (m', Inl Fault) | (m', _) \<Rightarrow> (m', Inr next_id))"

definition attach_perf_to_bpf where
  "attach_perf_to_bpf E K m perf_fd bpf_fd cookie =
     (if \<not> is_perf_fd (fst m) perf_fd then (m, Inl (Errno ENOENT))
      else add_bpf_prog_attach_target E K m perf_fd bpf_fd cookie)"

definition epoll_create ::
  "('g, 'p, 'l, 's) map_env \<Rightarrow> (nat \<Rightarrow> int) \<Rightarrow> ('g, 'p, 'l, 's) mgr \<Rightarrow> ('g, 'p, 'l, 's) mgr \<times> int res" where
  "epoll_create E K m =
     (let fd = open_fake_fd K
      in if is_allocated (fst m) fd then (m, Inl RetFail)
         else set_handler E m fd (Epoll \<lparr>ep_files = []\<rparr>))"

definition add_memfd_handler where
  "add_memfd_handler E K m name flags =
     set_handler E m (open_fake_fd K) (Memfd \<lparr>mf_name = name, mf_flags = flags\<rparr>)"

definition close_fd where
  "close_fd E m fd = clear_id_at E m fd"

text \<open>An existing handler is cleared first; \<open>get_handler\<close> does not check the descriptor.\<close>

definition add_bpf_map ::
  "('g, 'p, 'l, 's) map_env \<Rightarrow> (nat \<Rightarrow> int) \<Rightarrow> ('g, 'p, 'l, 's) mgr \<Rightarrow> int \<Rightarrow> string \<Rightarrow> bpf_map_attr \<Rightarrow>
   ('g, 'p, 'l, 's) mgr \<times> int res" where
  "add_bpf_map E K m fd name attr =
     (let fd = fd_or_fake K fd
      in case get_handler (fst m) fd of
           Inl e \<Rightarrow> (m, Inl e)
         | Inr old \<Rightarrow>
             (case (if old \<noteq> Unused then clear_id_at E m fd else (m, Inr ())) of
                (m', Inl e) \<Rightarrow> (m', Inl e)
              | (m', Inr _) \<Rightarrow> set_handler E m' fd (Map (bpf_map_handler fd name attr))))"

text \<open>
  When the two descriptors are equal the handler whose attributes are read has been destroyed before.
\<close>

definition dup_bpf_map ::
  "('g, 'p, 'l, 's) map_env \<Rightarrow> (nat \<Rightarrow> int) \<Rightarrow> ('g, 'p, 'l, 's) mgr \<Rightarrow> int \<Rightarrow> int \<Rightarrow>
   ('g, 'p, 'l, 's) mgr \<times> int res" where
  "dup_bpf_map E K m oldfd newfd =
     (if \<not> is_map_fd (fst m) oldfd then (m, Inl (Errno EBADF))
      else
        let newfd = fd_or_fake K newfd
        in case (fst m ! nat oldfd, get_handler (fst m) newfd) of
             (Map h, Inr old) \<Rightarrow>
               (case (if old \<noteq> Unused then clear_id_at E m newfd else (m, Inr ())) of
                  (m', Inl e) \<Rightarrow> (m', Inl e)
                | (m', Inr _) \<Rightarrow>
                    if newfd = oldfd then (m', Inl Fault)
                    else set_handler E m' newfd (Map (bpf_map_handler newfd (''dup_'' @ mh_name h) (mh_attr h))))
           | _ \<Rightarrow> (m, Inl Fault))"

section \<open>Perf events and epoll\<close>

definition on_perf ::
  "('g, 'p, 'l, 's) mgr \<Rightarrow> int \<Rightarrow> (perf_handler \<Rightarrow> perf_handler) \<Rightarrow> ('g, 'p, 'l, 's) mgr \<times> int res" where
  "on_perf m fd op =
     (case m of (hs, g) \<Rightarrow>
        if \<not> is_perf_fd hs fd then (m, Inl (Errno ENOENT))
        else case hs ! nat fd of Perf p \<Rightarrow> ((hs[nat fd := Perf (op p)], g), Inr 0) | _ \<Rightarrow> (m, Inl Throw))"

definition perf_event_enable where "perf_event_enable m fd = on_perf m fd perf_enable"
definition perf_event_disable where "perf_event_disable m fd = on_perf m fd perf_disable"

definition add_epoll_file ::
  "('g, 'p, 'l, 's) mgr \<Rightarrow> int \<Rightarrow> epoll_file \<Rightarrow> ('g, 'p, 'l, 's) mgr \<times> int res" where
  "add_epoll_file m epoll_fd f =
     (case m of (hs, g) \<Rightarrow>
        case hs ! nat epoll_fd of
          Epoll e \<Rightarrow> ((hs[nat epoll_fd := Epoll (e\<lparr>ep_files := ep_files e @ [f]\<rparr>)], g), Inr 0)
        | _ \<Rightarrow> (m, Inl Throw))"

definition add_software_perf_event_to_epoll ::
  "('g, 'p, 'l, 's) mgr \<Rightarrow> int \<Rightarrow> int \<Rightarrow> nat \<Rightarrow> ('g, 'p, 'l, 's) mgr \<times> int res" where
  "add_software_perf_event_to_epoll m swpe_fd epoll_fd extra_data =
     (if \<not> is_epoll_fd (fst m) epoll_fd then (m, Inl (Errno EINVAL))
      else if \<not> is_software_perf_event_handler_fd (fst m) swpe_fd then (m, Inl (Errno EINVAL))
      else case fst m ! nat swpe_fd of
        Perf p \<Rightarrow>
          (case pe_data p of
             SoftwareData _ _ _ _ \<Rightarrow> add_epoll_file m epoll_fd (SoftwareFile swpe_fd extra_data)
           | _ \<Rightarrow> (m, Inl (Errno EINVAL)))
      | _ \<Rightarrow> (m, Inl Throw))"

text \<open>The condition calls \<open>value\<close> of an optional that is empty for a map that is not a ring buffer.\<close>

definition add_ringbuf_to_epoll ::
  "('g, 'p, 'l, 's) mgr \<Rightarrow> int \<Rightarrow> int \<Rightarrow> nat \<Rightarrow> ('g, 'p, 'l, 's) mgr \<times> int res" where
  "add_ringbuf_to_epoll m ringbuf_fd epoll_fd extra_data =
     (if \<not> is_epoll_fd (fst m) epoll_fd then (m, Inl (Errno EINVAL))
      else if \<not> is_map_fd (fst m) ringbuf_fd then (m, Inl (Errno EINVAL))
      else case fst m ! nat ringbuf_fd of
        Map h \<Rightarrow>
          (case try_get_impl BPF_MAP_TYPE_RINGBUF h of
             None \<Rightarrow> (m, Inl Throw)
           | Some None \<Rightarrow> (m, Inl (Errno EINVAL))
           | Some (Some i) \<Rightarrow> add_epoll_file m epoll_fd (RingbufFile ringbuf_fd extra_data))
      | _ \<Rightarrow> (m, Inl Throw))"

section \<open>Sets of processes\<close>

definition check_syscall_trace_setup :: "int set \<Rightarrow> int \<Rightarrow> bool" where
  "check_syscall_trace_setup pids pid = (pid \<in> pids)"

definition set_syscall_trace_setup :: "int set \<Rightarrow> int \<Rightarrow> bool \<Rightarrow> int set" where
  "set_syscall_trace_setup pids pid whether = (if whether then insert pid pids else pids - {pid})"

definition add_pid_into_alive_agent_set :: "int set \<Rightarrow> int \<Rightarrow> int set" where
  "add_pid_into_alive_agent_set pids pid = insert pid pids"

definition remove_pid_from_alive_agent_set :: "int set \<Rightarrow> int \<Rightarrow> int set" where
  "remove_pid_from_alive_agent_set pids pid = pids - {pid}"


section \<open>Map operations keep the invariant\<close>

definition keeps_object ::
  "bool \<Rightarrow> (('p, 'l, 's) map_handler \<Rightarrow> (('p, 'l, 's) map_handler \<times> 'a) res) \<Rightarrow> bool" where
  "keeps_object libbpf op \<longleftrightarrow>
     (\<forall>h h' a. op h = Inr (h', a) \<longrightarrow>
        mh_type h' = mh_type h \<and> mh_name h' = mh_name h \<and> (mh_typed libbpf h \<longrightarrow> mh_typed libbpf h') \<and>
        (mh_impl h = None \<longrightarrow> mh_impl h' = None))"

named_theorems object_ops

lemma keeps_object_same [object_ops]: "keeps_object libbpf (\<lambda>h. bind_res (f h) (\<lambda>k. Inr (h, k)))"
  by (auto simp: keeps_object_def bind_res_eq_Inr)

text \<open>What no operation changes: the tag, the name, and a null pointer.\<close>

definition framed :: "('p, 'l, 's) map_handler \<Rightarrow> ('p, 'l, 's) map_handler \<Rightarrow> bool" where
  "framed h h' \<longleftrightarrow> mh_type h' = mh_type h \<and> mh_name h' = mh_name h \<and> (mh_impl h = None \<longrightarrow> mh_impl h' = None)"

lemma lookup_framed: "map_lookup_elem E h key fs = Inr (h', v) \<Longrightarrow> framed h h'"
  by (auto simp: framed_def map_lookup_elem_def bind_res_eq_Inr static_cast_to_Inr call_op_def
      split: option.splits)

lemma update_framed: "map_update_elem E h key v flags fs = Inr h' \<Longrightarrow> framed h h'"
  by (auto simp: framed_def map_update_elem_def bind_res_eq_Inr static_cast_to_Inr call_op_def
      split: option.splits if_splits)

lemma delete_framed: "map_delete_elem E h key fs = Inr h' \<Longrightarrow> framed h h'"
  by (auto simp: framed_def map_delete_elem_def bind_res_eq_Inr static_cast_to_Inr call_op_def
      split: option.splits if_splits)

lemma push_framed: "map_push_elem h v flags fs = Inr h' \<Longrightarrow> framed h h'"
  by (auto simp: framed_def map_push_elem_def bind_res_eq_Inr
      split: option.splits bpf_map_type.splits map_impl.splits)

lemma pop_framed: "map_pop_elem h buf fs = Inr (h', v) \<Longrightarrow> framed h h'"
  by (auto simp: framed_def map_pop_elem_def bind_res_eq_Inr
      split: option.splits bpf_map_type.splits map_impl.splits)

lemma keeps_objectI:
  assumes "\<And>h h' a. op h = Inr (h', a) \<Longrightarrow> framed h h'"
    and "\<And>h h' a. op h = Inr (h', a) \<Longrightarrow> mh_typed libbpf h \<Longrightarrow> mh_typed libbpf h'"
  shows "keeps_object libbpf op"
  using assms by (auto simp: keeps_object_def framed_def)

lemma keeps_object_lookup [object_ops]: "keeps_object (me_libbpf E) (\<lambda>h. map_lookup_elem E h key fs)"
  by (rule keeps_objectI) (auto dest: lookup_framed lookup_typed)

lemma keeps_object_update [object_ops]:
  "keeps_object (me_libbpf E) (\<lambda>h. bind_res (map_update_elem E h key v flags fs) (\<lambda>h'. Inr (h', ())))"
  by (rule keeps_objectI) (auto simp: bind_res_eq_Inr dest: update_framed update_typed)

lemma keeps_object_delete [object_ops]:
  "keeps_object (me_libbpf E) (\<lambda>h. bind_res (map_delete_elem E h key fs) (\<lambda>h'. Inr (h', ())))"
  by (rule keeps_objectI) (auto simp: bind_res_eq_Inr dest: delete_framed delete_typed)

lemma keeps_object_push [object_ops]:
  "keeps_object libbpf (\<lambda>h. bind_res (map_push_elem h v flags fs) (\<lambda>h'. Inr (h', ())))"
  by (rule keeps_objectI) (auto simp: bind_res_eq_Inr dest: push_framed push_typed)

lemma keeps_object_pop [object_ops]: "keeps_object libbpf (\<lambda>h. map_pop_elem h buf fs)"
  by (rule keeps_objectI) (auto dest: pop_framed pop_typed)

lemma on_map_ok:
  assumes "mgr_ok S libbpf m" and "keeps_object libbpf op"
  shows "mgr_ok S libbpf (fst (on_map m fd op))"
proof -
  obtain hs g where m: "m = (hs, g)" by fastforce
  show ?thesis
  proof (cases "fst (on_map m fd op) = m")
    case False
    then obtain h h' a where h: "fd_in_range hs fd" "hs ! nat fd = Map h" "op h = Inr (h', a)"
        "fst (on_map m fd op) = (hs[nat fd := Map h'], g)"
      by (auto simp: on_map_def m is_map_fd_def split: if_splits handler_variant.splits sum.splits prod.splits)
    from assms(2) h(3) have k: "mh_type h' = mh_type h" "mh_name h' = mh_name h"
        "mh_typed libbpf h \<Longrightarrow> mh_typed libbpf h'" "mh_impl h = None \<Longrightarrow> mh_impl h' = None"
      by (auto simp: keeps_object_def)
    have n: "nat fd < length hs" using h(1) by (simp add: fd_in_range_def)
    have ok: "links_ok hs" "maps_ok S libbpf (hs, g)" using assms(1) by (auto simp: mgr_ok_def m)
    have "links_ok (hs[nat fd := Map h'])" using ok(1) n h(2) k by (intro links_ok_replace) (auto simp: same_kind_def)
    moreover have "maps_ok S libbpf (hs[nat fd := Map h'], g)"
    proof (rule maps_ok_put [OF ok(2) n fresh_name_same [OF ok(2) n h(2) k(2)]])
      fix i
      assume i: "mh_impl h' = Some i"
      then obtain j where j: "mh_impl h = Some j" using k(4) by (cases "mh_impl h") auto
      have "Map h \<in> set hs" using h(2) n by (metis nth_mem)
      from maps_okD(1) [OF ok(2) this j] have u: "sg_used S g (get_container_name h)"
        "switch_class libbpf (mh_type h) = Some (class_of j)" by auto
      then have "mh_typed libbpf h'" using j k(3) by (auto simp: mh_typed_def)
      with u i k(1,2) show "sg_used S g (get_container_name h') \<and> switch_class libbpf (mh_type h') = Some (class_of i)"
        by (simp add: mh_typed_def get_container_name_def)
    qed
    ultimately show ?thesis by (simp add: h(4) mgr_ok_def)
  qed (use assms(1) in simp)
qed

lemma replace_ok:
  assumes "mgr_ok S libbpf (hs, g)" and "n < length hs" and "same_kind (hs ! n) v" and "\<forall>h. v \<noteq> Map h"
  shows "mgr_ok S libbpf (hs[n := v], g)"
  using assms links_ok_replace [of hs n v]
  by (auto simp: mgr_ok_def nth_list_update split: if_splits intro!: maps_ok_fewer [of S libbpf hs g])


section \<open>Reachable states\<close>

lemma clear_fresh:
  assumes "clear_id_at E (hs, g) fd = ((hs', g'), Inr ())" and "fresh_name hs n h"
  shows "fresh_name hs' n h"
proof (cases "fd_in_range hs fd \<and> freeable E (hs ! nat fd)")
  case True
  with assms(1) have hs': "hs' = (remove_links (linked_to (hs ! nat fd) fd) hs)[nat fd := Unused]"
    by (simp add: clear_id_at_eq)
  have slot: "hs ! i = Map h'" if "i < length hs" "hs' ! i = Map h'" for i h'
    using that by (cases "i = nat fd") (auto simp: hs' nth_remove_links split: if_splits handler_variant.splits)
  have len: "length hs' = length hs" by (simp add: hs')
  show ?thesis
    unfolding fresh_name_def
  proof (intro allI impI)
    fix i assume i: "i < length hs'" "i \<noteq> n"
    show "case hs' ! i of Map h' \<Rightarrow> mh_name h' \<noteq> mh_name h | _ \<Rightarrow> True"
    proof (cases "hs' ! i")
      case (Map h')
      with slot [of i h'] i len have "hs ! i = Map h'" by simp
      with assms(2) i len have "mh_name h' \<noteq> mh_name h" by (force simp: fresh_name_def)
      with Map show ?thesis by simp
    qed simp_all
  qed
next
  case False
  then have "hs' = hs"
  proof (cases "fd_in_range hs fd")
    case True
    with False obtain h' where h': "hs ! nat fd = Map h'" "\<not> freeable E (Map h')"
      by (cases "hs ! nat fd") (auto simp: freeable_def)
    then have "map_free E g h' = Inl Fault" by (auto simp: freeable_def map_free_def no_fault_def)
    with h' True assms(1) show ?thesis by (simp add: clear_id_at_def)
  qed (use assms(1) in \<open>auto simp: clear_id_at_def\<close>)
  with assms(2) show ?thesis by simp
qed

text \<open>The two operations that clear a slot before they store a map there.\<close>

lemma clear_then_set_ok:
  assumes seg: "named_segment (me_segment E)" and ok: "mgr_ok (me_segment E) (me_libbpf E) (hs, g)"
    and f: "fresh_name hs (nat fd) h" "mh_impl h = None"
    and r: "(if b then clear_id_at E (hs, g) fd else ((hs, g), Inr ())) = (m', Inr u)"
  shows "mgr_ok (me_segment E) (me_libbpf E) (fst (set_handler E m' fd (Map h)))"
proof -
  obtain hs' g' where m': "m' = (hs', g')" by fastforce
  have "mgr_ok (me_segment E) (me_libbpf E) m' \<and> fresh_name hs' (nat fd) h"
  proof (cases b)
    case True
    with r m' have c: "clear_id_at E (hs, g) fd = ((hs', g'), Inr ())" by simp
    show ?thesis using clear_id_at_ok [OF seg ok, of fd] clear_fresh [OF c f(1)] c m' by simp
  next
    case False
    with r ok f m' show ?thesis by simp
  qed
  with f(2) m' show ?thesis by (auto simp: storable_def intro!: set_handler_ok [OF seg])
qed

lemma add_bpf_map_ok:
  assumes seg: "named_segment (me_segment E)" and ok: "mgr_ok (me_segment E) (me_libbpf E) m"
    and f: "fresh_name (fst m) (nat (fd_or_fake K fd)) (bpf_map_handler (fd_or_fake K fd) name attr)"
  shows "mgr_ok (me_segment E) (me_libbpf E) (fst (add_bpf_map E K m fd name attr))"
proof -
  obtain hs g where m: "m = (hs, g)" by fastforce
  let ?fd = "fd_or_fake K fd"
  have impl: "mh_impl (bpf_map_handler ?fd name attr) = None" by (simp add: bpf_map_handler_def)
  show ?thesis
  proof (cases "get_handler hs ?fd")
    case (Inl e)
    with ok m show ?thesis by (simp add: add_bpf_map_def)
  next
    case (Inr old)
    obtain m' r where c: "(if old \<noteq> Unused then clear_id_at E (hs, g) ?fd else ((hs, g), Inr ())) = (m', r)"
      by fastforce
    show ?thesis
    proof (cases r)
      case (Inl e)
      have "mgr_ok (me_segment E) (me_libbpf E) m'"
        using c clear_id_at_ok [OF seg, of hs g ?fd] ok m Inl by (auto split: if_splits)
      with c Inl Inr show ?thesis by (auto simp: add_bpf_map_def m split: if_splits)
    next
      case r: (Inr u)
      have "fst (add_bpf_map E K m fd name attr) = fst (set_handler E m' ?fd (Map (bpf_map_handler ?fd name attr)))"
        using c r Inr by (auto simp: add_bpf_map_def m Let_def split: if_splits)
      with clear_then_set_ok [OF seg _ _ impl c [unfolded r]] ok f m show ?thesis by simp
    qed
  qed
qed

text \<open>
  One step of any process that uses the segment: an operation on a descriptor, with the environment
  and the answers of the kernel it meets.  A program that creates maps gives each a name no other
  descriptor has; links are made by attaching a program to a perf event.
\<close>

inductive shm_step :: "'g segment \<Rightarrow> bool \<Rightarrow> ('g, 'p, 'l, 's) mgr \<Rightarrow> ('g, 'p, 'l, 's) mgr \<Rightarrow> bool"
  for S :: "'g segment" and libbpf :: bool where
  step_kprobe: "me_segment E = S \<Longrightarrow> me_libbpf E = libbpf \<Longrightarrow>
     shm_step S libbpf m (fst (add_kprobe E K m fdo name addr ret off))"
| step_uprobe: "me_segment E = S \<Longrightarrow> me_libbpf E = libbpf \<Longrightarrow>
     shm_step S libbpf m (fst (add_uprobe E K m fd pid name addr ret off))"
| step_override: "me_segment E = S \<Longrightarrow> me_libbpf E = libbpf \<Longrightarrow>
     shm_step S libbpf m (fst (add_uprobe_override E K m fd pid name addr rep))"
| step_tracepoint: "me_segment E = S \<Longrightarrow> me_libbpf E = libbpf \<Longrightarrow>
     shm_step S libbpf m (fst (add_tracepoint E K m fd pid tp))"
| step_software: "me_segment E = S \<Longrightarrow> me_libbpf E = libbpf \<Longrightarrow>
     shm_step S libbpf m (fst (add_software_perf_event E m fd cpu st cfg))"
| step_custom: "me_segment E = S \<Longrightarrow> me_libbpf E = libbpf \<Longrightarrow>
     shm_step S libbpf m (fst (add_custom_perf_event E K m ty arg))"
| step_prog: "me_segment E = S \<Longrightarrow> me_libbpf E = libbpf \<Longrightarrow>
     shm_step S libbpf m (fst (add_bpf_prog E K m fd insns name ty))"
| step_epoll: "me_segment E = S \<Longrightarrow> me_libbpf E = libbpf \<Longrightarrow>
     shm_step S libbpf m (fst (epoll_create E K m))"
| step_memfd: "me_segment E = S \<Longrightarrow> me_libbpf E = libbpf \<Longrightarrow>
     shm_step S libbpf m (fst (add_memfd_handler E K m name ty))"
| step_attach: "me_segment E = S \<Longrightarrow> me_libbpf E = libbpf \<Longrightarrow>
     shm_step S libbpf m (fst (attach_perf_to_bpf E K m perf_fd bpf_fd cookie))"
| step_map: "me_segment E = S \<Longrightarrow> me_libbpf E = libbpf \<Longrightarrow>
     fresh_name (fst m) (nat (fd_or_fake K fd)) (bpf_map_handler (fd_or_fake K fd) name attr) \<Longrightarrow>
     shm_step S libbpf m (fst (add_bpf_map E K m fd name attr))"
| step_close: "me_segment E = S \<Longrightarrow> me_libbpf E = libbpf \<Longrightarrow>
     shm_step S libbpf m (fst (close_fd E m fd))"
| step_lookup: "me_segment E = S \<Longrightarrow> me_libbpf E = libbpf \<Longrightarrow>
     shm_step S libbpf m (fst (shm_map_lookup_elem E m fd key fs))"
| step_update: "me_segment E = S \<Longrightarrow> me_libbpf E = libbpf \<Longrightarrow>
     shm_step S libbpf m (fst (shm_map_update_elem E m fd key val flags fs))"
| step_delete: "me_segment E = S \<Longrightarrow> me_libbpf E = libbpf \<Longrightarrow>
     shm_step S libbpf m (fst (shm_delete_elem E m fd key fs))"
| step_push: "shm_step S libbpf m (fst (shm_map_push_elem m fd val flags fs))"
| step_pop: "shm_step S libbpf m (fst (shm_map_pop_elem m fd buf fs))"
| step_enable: "shm_step S libbpf m (fst (perf_event_enable m fd))"
| step_disable: "shm_step S libbpf m (fst (perf_event_disable m fd))"
| step_epoll_software: "shm_step S libbpf m (fst (add_software_perf_event_to_epoll m swpe_fd epoll_fd data))"
| step_epoll_ringbuf: "shm_step S libbpf m (fst (add_ringbuf_to_epoll m ringbuf_fd epoll_fd data))"

inductive shm_reachable :: "'g segment \<Rightarrow> bool \<Rightarrow> nat \<Rightarrow> ('g, 'p, 'l, 's) mgr \<Rightarrow> bool"
  for S :: "'g segment" and libbpf :: bool and n :: nat where
  start: "shm_reachable S libbpf n (handler_manager n, g)"
| more: "shm_reachable S libbpf n m \<Longrightarrow> shm_step S libbpf m m' \<Longrightarrow> shm_reachable S libbpf n m'"


text \<open>Everything that is neither a map nor a link may be stored.\<close>

lemma set_plain_ok:
  assumes "named_segment (me_segment E)" and "mgr_ok (me_segment E) (me_libbpf E) m"
    and "\<forall>h. v \<noteq> Map h" and "\<forall>l. v \<noteq> Link l"
  shows "mgr_ok (me_segment E) (me_libbpf E) (fst (set_handler E m fd v))"
  using assms set_handler_ok [OF assms(1), of "fst m" "snd m" fd v]
  by (auto simp: storable_def split: handler_variant.splits)

lemma set_custom_ok:
  assumes "named_segment (me_segment E)" and "mgr_ok (me_segment E) (me_libbpf E) m"
  shows "mgr_ok (me_segment E) (me_libbpf E) (fst (add_custom_perf_event E K m ty arg))"
proof -
  let ?s = "set_handler E m (open_fake_fd K) (Perf (perf_custom ty arg))"
  have "mgr_ok (me_segment E) (me_libbpf E) (fst ?s)" using assms by (intro set_plain_ok) auto
  moreover have "fst (add_custom_perf_event E K m ty arg) \<in> {m, fst ?s}"
    by (auto simp: add_custom_perf_event_def Let_def split: prod.splits sum.splits fail.splits)
  ultimately show ?thesis using assms(2) by auto
qed

lemma attach_ok:
  assumes "named_segment (me_segment E)" and "mgr_ok (me_segment E) (me_libbpf E) m"
  shows "mgr_ok (me_segment E) (me_libbpf E) (fst (attach_perf_to_bpf E K m perf_fd bpf_fd cookie))"
proof (cases "is_perf_fd (fst m) perf_fd \<and> is_prog_fd (fst m) bpf_fd")
  case True
  let ?v = "Link (bpf_link_handler bpf_fd perf_fd cookie)"
  let ?s = "set_handler E m (open_fake_fd K) ?v"
  from True have "storable (fst m) (open_fake_fd K) ?v"
    by (auto simp: storable_def bpf_link_handler_def get_handler_def is_perf_fd_def is_prog_fd_def
        elim!: is_perf_variant.elims is_prog_variant.elims split: if_splits)
  then have "mgr_ok (me_segment E) (me_libbpf E) (fst ?s)"
    using set_handler_ok [OF assms(1), of "fst m" "snd m"] assms(2) by simp
  moreover have "fst (attach_perf_to_bpf E K m perf_fd bpf_fd cookie) \<in> {m, fst ?s}"
    using True by (auto simp: attach_perf_to_bpf_def add_bpf_prog_attach_target_def Let_def
        split: prod.splits sum.splits fail.splits)
  ultimately show ?thesis using assms(2) by auto
qed (use assms(2) in \<open>auto simp: attach_perf_to_bpf_def add_bpf_prog_attach_target_def\<close>)

lemma on_perf_ok:
  assumes "mgr_ok S libbpf m"
  shows "mgr_ok S libbpf (fst (on_perf m fd op))"
  using assms
  by (cases m) (auto simp: on_perf_def is_perf_fd_def fd_in_range_def same_kind_def
      split: if_splits handler_variant.splits intro!: replace_ok)

lemma add_epoll_file_ok:
  assumes "mgr_ok S libbpf m" and "is_epoll_fd (fst m) fd"
  shows "mgr_ok S libbpf (fst (add_epoll_file m fd f))"
  using assms
  by (cases m) (auto simp: add_epoll_file_def is_epoll_fd_def fd_in_range_def same_kind_def
      split: if_splits handler_variant.splits intro!: replace_ok)

lemma epoll_adds_ok:
  assumes "mgr_ok S libbpf m"
  shows "mgr_ok S libbpf (fst (add_software_perf_event_to_epoll m a fd data))"
    and "mgr_ok S libbpf (fst (add_ringbuf_to_epoll m a fd data))"
  using assms add_epoll_file_ok [OF assms, of fd]
  by (auto simp: add_software_perf_event_to_epoll_def add_ringbuf_to_epoll_def
      split: handler_variant.splits perf_data.splits option.splits)


lemma shm_step_ok:
  assumes "shm_step S libbpf m m'" and "named_segment S" and "mgr_ok S libbpf m"
  shows "mgr_ok S libbpf m'"
  using assms
proof (induction rule: shm_step.induct)
  case (step_close E m fd)
  then show ?case using clear_id_at_ok [of E "fst m" "snd m" fd] by (simp add: close_fd_def)
next
  case (step_epoll E m K)
  then show ?case by (auto simp: epoll_create_def Let_def intro!: set_plain_ok)
qed (auto simp: add_kprobe_def add_uprobe_def add_uprobe_override_def add_tracepoint_def add_software_perf_event_def
    add_bpf_prog_def add_memfd_handler_def shm_map_lookup_elem_def shm_map_update_elem_def shm_delete_elem_def
    shm_map_push_elem_def shm_map_pop_elem_def perf_event_enable_def perf_event_disable_def
    intro!: set_plain_ok set_custom_ok attach_ok add_bpf_map_ok on_map_ok object_ops on_perf_ok epoll_adds_ok)

lemma shm_reachable_ok: "shm_reachable S libbpf n m \<Longrightarrow> named_segment S \<Longrightarrow> mgr_ok S libbpf m"
  by (induction rule: shm_reachable.induct) (auto intro: mgr_ok_init shm_step_ok)


lemma demo_reachable:
  "\<exists>m. shm_reachable (list_segment 2) False 6 (m :: (string list, (bytes \<times> bytes) list,
      (bytes \<times> bytes \<times> nat) list, (nat \<times> u64 list) list) mgr) \<and>
     fst m ! 5 = Link (bpf_link_handler 3 4 None) \<and> length (fst m) = 6"
proof -
  let ?E = "demo_env False False" and ?K = "\<lambda>_. 5 :: int"
  let ?m0 = "(handler_manager 6, []) :: (string list, (bytes \<times> bytes) list,
      (bytes \<times> bytes \<times> nat) list, (nat \<times> u64 list) list) mgr"
  let ?m1 = "fst (add_bpf_prog ?E ?K ?m0 3 [0] ''p'' 2)"
  let ?m2 = "fst (add_uprobe ?E ?K ?m1 4 1 ''libc'' 16 False 0)"
  let ?m3 = "fst (attach_perf_to_bpf ?E ?K ?m2 4 3 None)"
  have "shm_reachable (list_segment 2) False 6 ?m1"
    by (rule shm_reachable.more [OF shm_reachable.start], rule step_prog) simp_all
  then have "shm_reachable (list_segment 2) False 6 ?m2"
    by (rule shm_reachable.more, intro step_uprobe) simp_all
  then have "shm_reachable (list_segment 2) False 6 ?m3"
    by (rule shm_reachable.more, intro step_attach) simp_all
  moreover have "fst ?m3 ! 5 = Link (bpf_link_handler 3 4 None) \<and> length (fst ?m3) = 6"
    by (simp add: handler_manager_def add_bpf_prog_def add_uprobe_def attach_perf_to_bpf_def
        add_bpf_prog_attach_target_def fd_or_fake_def open_fake_fd_def eval_nat_numeral
        set_handler_def is_allocated_def fd_in_range_def is_perf_fd_def is_prog_fd_def)
  ultimately show ?thesis by blast
qed


section \<open>Where the operations differ from what they promise\<close>

text \<open>\<open>add_bpf_link\<close> does not check the target, so its link may refer to nothing.\<close>

lemma add_bpf_link_unchecked_target:
  assumes "is_prog_fd hs p" and "fd_in_range hs fd" and "hs ! nat fd = Unused" and "0 \<le> fd"
  shows "add_bpf_link E K (hs, g) fd (Some (p, t)) = ((hs[nat fd := Link (bpf_link_handler p t None)], g), Inr fd)"
  using assms by (simp add: add_bpf_link_def fd_or_fake_def set_handler_def is_allocated_iff)

lemma add_bpf_link_null: "add_bpf_link E K m fd None = (m, Inl Fault)"
  by (simp add: add_bpf_link_def)

lemma add_ringbuf_to_epoll_throws:
  assumes "is_epoll_fd hs e" and "fd_in_range hs fd" and "hs ! nat fd = Map h" and "mh_type h \<noteq> BPF_MAP_TYPE_RINGBUF"
  shows "add_ringbuf_to_epoll (hs, g) fd e d = ((hs, g), Inl Throw)"
  using assms by (simp add: add_ringbuf_to_epoll_def is_map_fd_def try_get_impl_def)

lemma dup_same_fd:
  assumes "is_map_fd hs fd" and "0 \<le> fd" and "freeable E (hs ! nat fd)"
  shows "snd (dup_bpf_map E K (hs, g) fd fd) = Inl Fault"
  using assms clear_id_at_eq [of hs fd E g]
  by (cases "hs ! nat fd")
    (auto simp: dup_bpf_map_def fd_or_fake_def is_map_fd_def get_handler_def Let_def split: if_splits)

end
