(* ===== verification/Shm_Queue.thy ===== *)
theory Shm_Queue
  imports Shm
begin

text \<open>
  A queue map behind a descriptor: the calls of \<open>bpftime_shm\<close> go through the table, the type switch
  of the handler and the queue map, and together refine the bounded queue of \<open>Map_Contracts\<close>.
\<close>

section \<open>The calls on a descriptor\<close>

text \<open>The buffer a peek is given is used as output only, so its content is any list.\<close>

fun shm_container_step ::
  "('g, 'p, 'l, 's) map_env \<Rightarrow> int \<Rightarrow> ('g, 'p, 'l, 's) mgr \<Rightarrow> container_op \<Rightarrow> ('g, 'p, 'l, 's) mgr \<times> answer" where
  "shm_container_step E fd m (Push v flags) =
     (case shm_map_push_elem m fd v flags True of (m', Inl e) \<Rightarrow> (m', Failed e) | (m', Inr _) \<Rightarrow> (m', Done))"
| "shm_container_step E fd m (Pop buf) =
     (case shm_map_pop_elem m fd buf True of (m', Inl e) \<Rightarrow> (m', Failed e) | (m', Inr v) \<Rightarrow> (m', Value v))"
| "shm_container_step E fd m (Peek buf) =
     (case shm_map_peek_elem m fd (if buf then Some [] else None) True of
        (m', Inl e) \<Rightarrow> (m', Failed e) | (m', Inr v) \<Rightarrow> (m', Value v))"
| "shm_container_step E fd m (Lookup key) =
     (case shm_map_lookup_elem E m fd key True of
        (m', Inl e) \<Rightarrow> (m', Failed e)
      | (m', Inr (Mem v)) \<Rightarrow> (m', Value v)
      | (m', Inr (Addr a)) \<Rightarrow> (m', Failed Fault))"
| "shm_container_step E fd m (Update key v flags) =
     (case shm_map_update_elem E m fd key v flags True of (m', Inl e) \<Rightarrow> (m', Failed e) | (m', Inr _) \<Rightarrow> (m', Done))"
| "shm_container_step E fd m (Delete key) =
     (case shm_delete_elem E m fd key True of (m', Inl e) \<Rightarrow> (m', Failed e) | (m', Inr _) \<Rightarrow> (m', Done))"

definition queue_behind :: "int \<Rightarrow> ('g, 'p, 'l, 's) mgr \<Rightarrow> queue_map \<Rightarrow> bool" where
  "queue_behind fd m q \<longleftrightarrow>
     fd_in_range (fst m) fd \<and>
     (\<exists>h. fst m ! nat fd = Map h \<and> mh_type h = BPF_MAP_TYPE_QUEUE \<and> mh_impl h = Some (QueueImpl q))"

definition the_queue :: "int \<Rightarrow> ('g, 'p, 'l, 's) mgr \<Rightarrow> queue_map" where
  "the_queue fd m =
     (case fst m ! nat fd of Map h \<Rightarrow> (case mh_impl h of Some (QueueImpl q) \<Rightarrow> q | _ \<Rightarrow> undefined) | _ \<Rightarrow> undefined)"

lemma the_queue_eq: "queue_behind fd m q \<Longrightarrow> the_queue fd m = q"
  by (auto simp: queue_behind_def the_queue_def)

section \<open>Refinement\<close>

lemma on_map_behind:
  assumes "fd_in_range hs fd" and "hs ! nat fd = Map h"
  shows "on_map (hs, g) fd op =
    (case op h of Inl e \<Rightarrow> ((hs, g), Inl e) | Inr (h', a) \<Rightarrow> ((hs[nat fd := Map h'], g), Inr a))"
  using assms by (simp add: on_map_def is_map_fd_def)

lemma queue_behind_upd:
  assumes "fd_in_range hs fd" and "mh_type h = BPF_MAP_TYPE_QUEUE"
  shows "queue_behind fd (hs[nat fd := Map (h\<lparr>mh_impl := Some (QueueImpl q)\<rparr>)], g) q"
  using assms by (auto simp: queue_behind_def fd_in_range_def)

lemma shm_queue_step:
  assumes "queue_behind fd m q"
  shows "queue_behind fd (fst (shm_container_step E fd m op)) (fst (queue_step q op)) \<and>
    snd (shm_container_step E fd m op) = snd (queue_step q op)"
proof -
  obtain hs g h where h: "m = (hs, g)" "fd_in_range hs fd" "hs ! nat fd = Map h"
      "mh_type h = BPF_MAP_TYPE_QUEUE" "mh_impl h = Some (QueueImpl q)"
    using assms by (cases m) (auto simp: queue_behind_def)
  note ops = on_map_behind [OF h(2,3)] shm_map_push_elem_def shm_map_pop_elem_def shm_map_peek_elem_def
    shm_map_lookup_elem_def shm_map_update_elem_def shm_delete_elem_def
    map_push_elem_def map_pop_elem_def map_peek_elem_def map_lookup_elem_def map_update_elem_def map_delete_elem_def
    switch_class_def static_cast_to_def is_percpu_def deref_def updated_def
  have keep: "queue_behind fd (hs, g) q" using assms h(1) by simp
  have upd: "queue_behind fd (hs[nat fd := Map (h\<lparr>mh_impl := Some (QueueImpl q')\<rparr>)], g) q'" for q'
    using h by (intro queue_behind_upd) auto
  show ?thesis
  proof (cases op)
    case (Push v flags)
    then show ?thesis
      by (cases "queue_map_push_elem q v flags") (simp_all add: ops h keep upd)
  next
    case (Pop buf)
    then show ?thesis
      by (cases "queue_map_pop_elem q buf") (auto simp: ops h keep upd)
  next
    case (Peek buf)
    have "hs[nat fd := Map h] = hs" using h by (metis list_update_id)
    with Peek show ?thesis
      by (cases "queue_map_peek_elem q buf") (auto simp: ops h keep)
  next
    case (Lookup key)
    have "hs[nat fd := Map (h\<lparr>mh_impl := Some (QueueImpl q)\<rparr>)] = hs"
      using h by (metis (no_types, lifting) list_update_id map_handler.surjective map_handler.update_convs(5))
    with Lookup show ?thesis
      by (cases "queue_elem_lookup q key"; cases "load (qm_data q) (projr (queue_elem_lookup q key)) (qm_value_size q)")
        (auto simp: ops h keep)
  next
    case (Update key v flags)
    then show ?thesis
      by (cases "queue_elem_update q key v flags") (simp_all add: ops h keep upd)
  next
    case (Delete key)
    then show ?thesis
      by (cases "queue_elem_delete q key") (simp_all add: ops h keep upd)
  qed
qed

interpretation shm_queue:
  simulation "\<lambda>m. \<exists>q. queue_behind fd m q \<and> queue_wf q" "\<lambda>m. queue_abs (the_queue fd m)"
    "shm_container_step E fd" "container_spec hd tl"
  for E :: "('g, 'p, 'l, 's) map_env" and fd :: int
proof
  fix m :: "('g, 'p, 'l, 's) mgr" and op
  assume "\<exists>q. queue_behind fd m q \<and> queue_wf q"
  then obtain q where q: "queue_behind fd m q" "queue_wf q" by blast
  note s = shm_queue_step [OF q(1), of E op]
  from s queue_box.step_inv [OF q(2)]
  show "\<exists>q. queue_behind fd (fst (shm_container_step E fd m op)) q \<and> queue_wf q" by blast
  from s queue_box.step_abs [OF q(2)]
  show "queue_abs (the_queue fd (fst (shm_container_step E fd m op))) =
      fst (container_spec hd tl (queue_abs (the_queue fd m)) op)"
    by (simp add: the_queue_eq [OF q(1)] the_queue_eq [OF conjunct1 [OF s]])
  from s queue_box.step_answer [OF q(2)]
  show "snd (shm_container_step E fd m op) = snd (container_spec hd tl (queue_abs (the_queue fd m)) op)"
    by (simp add: the_queue_eq [OF q(1)])
qed


lemma add_queue_behind:
  fixes E :: "('g, 'p, 'l, 's) map_env"
  assumes "hs ! nat fd = Unused" and "fd_in_range hs fd"
    and "map_type_of (ma_type attr) = BPF_MAP_TYPE_QUEUE" and "add_bpf_map E K (hs, g) fd name attr = (m, Inr r)"
  shows "r = fd \<and> (\<exists>q. queue_map_impl (ma_value_size attr) (ma_max_ents attr) = Inr q \<and> queue_behind fd m q)"
proof -
  let ?h = "bpf_map_handler fd name attr :: ('p, 'l, 's) map_handler"
  have fd: "0 \<le> fd" "nat fd < length hs" using assms(2) by (auto simp: fd_in_range_def)
  have h: "mh_type ?h = BPF_MAP_TYPE_QUEUE" "mh_value_size ?h = ma_value_size attr" "mh_max_entries ?h = ma_max_ents attr"
    using assms(3) by (simp_all add: bpf_map_handler_def)
  have "set_handler E (hs, g) fd (Map ?h) = (m, Inr r)"
    using assms fd by (simp add: add_bpf_map_def fd_or_fake_def get_handler_def)
  then obtain g' h' ret where i: "map_init E g ?h = Inr (g', h', ret)" "m = (hs[nat fd := Map h'], g')" "r = fd"
    using assms(1,2) by (auto simp: set_handler_def is_allocated_iff split: sum.splits)
  from i(1) h obtain q where "queue_map_impl (ma_value_size attr) (ma_max_ents attr) = Inr q"
      "h' = ?h\<lparr>mh_impl := Some (QueueImpl q)\<rparr>"
    by (auto simp: map_init_def init_class_def switch_class_def init_precheck_def bind_res_eq_Inr updated_eq_Inr
        split: option.splits)
  then show ?thesis using i(2,3) queue_behind_upd [OF assms(2), of ?h q g'] h(1) by auto
qed

text \<open>
  C9. A queue map behind a descriptor is a bounded first-in first-out queue: once \<open>add_bpf_map\<close> has
  created a map of the queue type on an unused descriptor, every sequence of pushes, pops, peeks,
  lookups, updates and deletes on that descriptor, through the table, the type switch and the queue
  map, gives the answers of the abstract queue.
\<close>

theorem shm_queue_is_bounded_fifo:
  assumes "hs ! nat fd = Unused" and "fd_in_range hs fd" and "map_type_of (ma_type attr) = BPF_MAP_TYPE_QUEUE"
    and "add_bpf_map E K (hs, g) fd name attr = (m, Inr r)" and "ma_max_ents attr * ma_value_size attr < 2 ^ 32"
  shows "snd (run_ops (shm_container_step E r) m ops) =
    snd (run_ops (container_spec hd tl) (ma_max_ents attr, ma_value_size attr, []) ops)"
proof -
  from add_queue_behind [OF assms(1-4)] obtain q where
    q: "r = fd" "queue_map_impl (ma_value_size attr) (ma_max_ents attr) = Inr q" "queue_behind fd m q" by blast
  with queue_wf_init [OF q(2) assms(5)] have "queue_wf q" "queue_abs q = (ma_max_ents attr, ma_value_size attr, [])"
    by auto
  with q shm_queue.run_refines [of fd m E ops] the_queue_eq [OF q(3)] show ?thesis by auto
qed

theorem shm_queue_is_bounded_fifo_witness:
  "\<exists>m r. add_bpf_map (demo_env False False) (\<lambda>_. 0) (replicate 4 Unused, []) 3 ''q'' (demo_attr 22) = (m, Inr r) \<and>
     snd (run_ops (shm_container_step (demo_env False False) r) m
       [Push (Some [7]) BPF_ANY, Push (Some [8]) BPF_ANY, Peek True, Pop True, Pop True, Pop True]) =
     [Done, Done, Value [7], Value [7], Value [8], Failed (Errno ENOENT)]"
proof -
  let ?E = "demo_env False False"
  let ?ops = "[Push (Some [7]) BPF_ANY, Push (Some [8]) BPF_ANY, Peek True, Pop True, Pop True, Pop True]"
  have a: "fd_in_range (replicate 4 Unused :: demo_variant list) 3" "(replicate 4 Unused :: demo_variant list) ! nat 3 = Unused"
    "map_type_of (ma_type (demo_attr 22)) = BPF_MAP_TYPE_QUEUE"
    by (simp_all add: fd_in_range_def handler_eval)
  obtain m r where m: "add_bpf_map ?E (\<lambda>_. 0) (replicate 4 Unused, []) 3 ''q'' (demo_attr 22) = (m, Inr r)"
    by (simp add: add_bpf_map_def fd_or_fake_def get_handler_def a set_handler_def is_allocated_def handler_eval
        queue_map_impl_def)
  have "snd (run_ops (container_spec hd tl) (2, 1, []) ?ops) =
      [Done, Done, Value [7], Value [7], Value [8], Failed (Errno ENOENT)]"
    by (simp add: container_put_def flag_defs)
  with m shm_queue_is_bounded_fifo [OF a(2,1,3) m, of ?ops] show ?thesis
    by (simp add: demo_attr_def del: run_ops_Cons)
qed

end
