(* ===== verification/Std_String.thy ===== *)
theory Std_String
  imports Prelude
begin

text \<open>
  The parts of the C++ string library the sources use: character classes of the C locale, \<open>getline\<close>
  with a delimiter, the conversions \<open>stol\<close>, \<open>stoul\<close>, \<open>stoull\<close> and \<open>stoi\<close> with the bases 0, 10 and 16, and
  the output of unsigned integers.  A conversion that throws is \<open>Inl Throw\<close>.
\<close>

section \<open>Characters\<close>

definition code :: "char \<Rightarrow> nat" where
  "code c = of_char c"

definition isspace :: "char \<Rightarrow> bool" where
  "isspace c \<longleftrightarrow> code c = 32 \<or> (9 \<le> code c \<and> code c \<le> 13)"

definition tolower :: "char \<Rightarrow> char" where
  "tolower c = (if 65 \<le> code c \<and> code c \<le> 90 then char_of (code c + 32) else c)"

text \<open>The value of a character as a digit of a base.\<close>

definition digit_of :: "nat \<Rightarrow> char \<Rightarrow> nat option" where
  "digit_of b c =
     (let n = code c;
          d = (if 48 \<le> n \<and> n \<le> 57 then Some (n - 48)
               else if 97 \<le> n \<and> n \<le> 122 then Some (n - 87)
               else if 65 \<le> n \<and> n \<le> 90 then Some (n - 55) else None)
      in case d of None \<Rightarrow> None | Some k \<Rightarrow> if k < b then Some k else None)"

section \<open>Lines\<close>

text \<open>\<open>getline\<close> up to a delimiter until it fails: there is no token after a final delimiter.\<close>

function getline_tokens :: "char \<Rightarrow> string \<Rightarrow> string list" where
  "getline_tokens d s =
     (if s = [] then []
      else
        let tok = takeWhile (\<lambda>c. c \<noteq> d) s; rest = drop (length tok) s
        in if rest = [] then [tok] else tok # getline_tokens d (tl rest))"
  by pat_completeness auto
termination
  by (relation "measure (\<lambda>(d, s). length s)") (auto simp: length_tl)

declare getline_tokens.simps [simp del]

lemma getline_tokens_Nil [simp]: "getline_tokens d [] = []"
  by (simp add: getline_tokens.simps)

lemma getline_tokens_last: "d \<notin> set s \<Longrightarrow> s \<noteq> [] \<Longrightarrow> getline_tokens d s = [s]"
proof -
  assume d: "d \<notin> set s" and s: "s \<noteq> []"
  from d have tw: "takeWhile (\<lambda>c. c \<noteq> d) s = s" by (induction s) auto
  from s show ?thesis by (subst getline_tokens.simps, simp only: tw Let_def) simp
qed

lemma getline_tokens_Cons: "d \<notin> set s \<Longrightarrow> getline_tokens d (s @ d # t) = s # getline_tokens d t"
proof -
  assume "d \<notin> set s"
  then have "takeWhile (\<lambda>c. c \<noteq> d) (s @ d # t) = s" by (induction s) auto
  then show ?thesis by (subst getline_tokens.simps) (simp add: Let_def)
qed

section \<open>Conversions\<close>

definition digits_value :: "nat \<Rightarrow> string \<Rightarrow> nat" where
  "digits_value b s = foldl (\<lambda>a c. a * b + the (digit_of b c)) 0 s"

text \<open>
  \<open>strtol\<close> and \<open>strtoul\<close>: white space, a sign, a prefix of the base, and the longest run of digits.
  The result is the sign and the magnitude, \<open>None\<close> when there is no digit.
\<close>

definition is_digit :: "nat \<Rightarrow> char \<Rightarrow> bool" where
  "is_digit b c \<longleftrightarrow> digit_of b c \<noteq> None"

definition hex_prefix :: "string \<Rightarrow> bool" where
  "hex_prefix s \<longleftrightarrow>
     length s \<ge> 3 \<and> s ! 0 = CHR ''0'' \<and> (s ! 1 = CHR ''x'' \<or> s ! 1 = CHR ''X'') \<and> is_digit 16 (s ! 2)"

definition read_digits :: "nat \<Rightarrow> string \<Rightarrow> nat option" where
  "read_digits b s = (let ds = takeWhile (is_digit b) s in if ds = [] then None else Some (digits_value b ds))"

definition read_magnitude :: "nat \<Rightarrow> string \<Rightarrow> nat option" where
  "read_magnitude base s =
     (if (base = 0 \<or> base = 16) \<and> hex_prefix s then read_digits 16 (drop 2 s)
      else if base = 0 then
        (if s \<noteq> [] \<and> hd s = CHR ''0'' then read_digits 8 s else read_digits 10 s)
      else read_digits base s)"

definition strto :: "nat \<Rightarrow> string \<Rightarrow> (bool \<times> nat) option" where
  "strto base s =
     (let s = dropWhile isspace s
      in case s of
           [] \<Rightarrow> None
         | c # r \<Rightarrow>
             if c = CHR ''-'' then map_option (\<lambda>m. (True, m)) (read_magnitude base r)
             else if c = CHR ''+'' then map_option (\<lambda>m. (False, m)) (read_magnitude base r)
             else map_option (\<lambda>m. (False, m)) (read_magnitude base s))"

definition signed_of :: "bool \<times> nat \<Rightarrow> int" where
  "signed_of x = (if fst x then - int (snd x) else int (snd x))"

definition stol :: "nat \<Rightarrow> string \<Rightarrow> int res" where
  "stol base s =
     (case strto base s of
        None \<Rightarrow> Inl Throw
      | Some x \<Rightarrow> if - (2 ^ 63) \<le> signed_of x \<and> signed_of x < 2 ^ 63 then Inr (signed_of x) else Inl Throw)"

definition stoi :: "string \<Rightarrow> int res" where
  "stoi s = bind_res (stol 10 s) (\<lambda>v. if - (2 ^ 31) \<le> v \<and> v < 2 ^ 31 then Inr v else Inl Throw)"

text \<open>A negative number is converted by negation in 64 bits.\<close>

definition stoull :: "nat \<Rightarrow> string \<Rightarrow> nat res" where
  "stoull base s =
     (case strto base s of
        None \<Rightarrow> Inl Throw
      | Some (neg, m) \<Rightarrow> if m \<ge> 2 ^ 64 then Inl Throw else Inr (if neg then wrap64 (2 ^ 64 - m) else m))"

section \<open>Output of unsigned integers\<close>

definition digit_char :: "nat \<Rightarrow> char" where
  "digit_char d = char_of (if d < 10 then 48 + d else 87 + d)"

function show_base :: "nat \<Rightarrow> nat \<Rightarrow> string" where
  "show_base b n = (if b < 2 \<or> n < b then [digit_char n] else show_base b (n div b) @ [digit_char (n mod b)])"
  by pat_completeness auto
termination
  by (relation "measure snd") (auto intro: div_less_dividend)

declare show_base.simps [simp del]

lemma digit_of_digit_char: "d < b \<Longrightarrow> b \<le> 16 \<Longrightarrow> digit_of b (digit_char d) = Some d"
  by (auto simp: digit_of_def digit_char_def code_def Let_def)

lemma show_base_digits:
  assumes "2 \<le> b" and "b \<le> 16"
  shows "show_base b n \<noteq> [] \<and> (\<forall>c \<in> set (show_base b n). is_digit b c) \<and> digits_value b (show_base b n) = n"
proof (induction n rule: less_induct)
  case (less n)
  show ?case
  proof (cases "n < b")
    case True
    then show ?thesis
      using assms by (subst (1 2 3) show_base.simps) (simp add: is_digit_def digits_value_def digit_of_digit_char)
  next
    case False
    then have "n div b < n" using assms by (intro div_less_dividend) auto
    moreover have "n mod b < b" using assms by simp
    ultimately show ?thesis
      using less.IH [of "n div b"] False assms
      by (subst (1 2 3) show_base.simps) (auto simp: is_digit_def digits_value_def digit_of_digit_char)
  qed
qed

text \<open>A digit is no space, no sign and no colon.\<close>

lemma digit_code: "is_digit b c \<Longrightarrow> (48 \<le> code c \<and> code c \<le> 57) \<or> (97 \<le> code c \<and> code c \<le> 122) \<or> (65 \<le> code c \<and> code c \<le> 90)"
  by (auto simp: is_digit_def digit_of_def Let_def split: if_splits)

lemma digit_no_special:
  assumes "is_digit b c"
  shows "\<not> isspace c" "c \<noteq> CHR ''-''" "c \<noteq> CHR ''+''" "c \<noteq> CHR '':''"
  using digit_code [OF assms] by (auto simp: isspace_def code_def)

lemma read_digits_show: "2 \<le> b \<Longrightarrow> b \<le> 16 \<Longrightarrow> read_digits b (show_base b n) = Some n"
  using show_base_digits [of b n] by (simp add: read_digits_def takeWhile_eq_all_conv [THEN iffD2] Let_def)

lemma stoi_show: "n < 2 ^ 31 \<Longrightarrow> stoi (show_base 10 n) = Inr (int n)"
proof -
  assume n: "n < 2 ^ 31"
  obtain c r where s: "show_base 10 n = c # r" and c: "is_digit 10 c"
    using show_base_digits [of 10 n] by (cases "show_base 10 n") auto
  have "strto 10 (show_base 10 n) = Some (False, n)"
    using read_digits_show [of 10 n] digit_no_special [OF c] by (simp add: strto_def s read_magnitude_def)
  with n show ?thesis by (simp add: stoi_def stol_def signed_of_def)
qed

lemma stoull_show_hex: "n < 2 ^ 64 \<Longrightarrow> stoull 16 (''0x'' @ show_base 16 n) = Inr n"
proof -
  assume n: "n < 2 ^ 64"
  obtain c r where s: "show_base 16 n = c # r" and c: "is_digit 16 c"
    using show_base_digits [of 16 n] by (cases "show_base 16 n") auto
  have "strto 16 (''0x'' @ show_base 16 n) = Some (False, n)"
    using read_digits_show [of 16 n] c
    by (simp add: strto_def s read_magnitude_def hex_prefix_def isspace_def code_def)
  with n show ?thesis by (simp add: stoull_def)
qed

end
