(* ===== verification/Syscall_Trace.thy ===== *)
theory Syscall_Trace
  imports Std_String
begin

text \<open>
  The attach implementation for system call tracepoints
  (\<open>attach/syscall_trace_attach_impl/src/syscall_trace_attach_impl.cpp\<close>): the table of attached programs, the
  dispatcher that runs them around a system call, and the parsing of an attach target
  (\<open>syscall_trace_attach_private_data.cpp\<close>).

  An entry is an object at an address; the sets of callbacks are sets of pointers, which iterate in
  the order of the addresses.  The state \<open>'s\<close> is the world that programs and system calls change; a
  program may set the return value, any number of times, through the override callback.
\<close>

section \<open>The state\<close>

record sys_enter_ctx =
  se_id :: int
  se_args :: "u64 list"

record sys_exit_ctx =
  sx_id :: int
  sx_ret :: int

datatype trace_ctx = Sys_Enter sys_enter_ctx | Sys_Exit sys_exit_ctx

text \<open>A program gives the new world, and the values the program passed to the override callback.\<close>

type_synonym 's program = "trace_ctx \<Rightarrow> 's \<Rightarrow> 's \<times> u64 list"

record 's trace_entry =
  te_cb :: "'s program"
  te_sys_nr :: int
  te_is_enter :: bool

record 's trace_impl =
  ti_next_id :: int
  ti_entries :: "int \<rightharpoonup> nat"
  ti_heap :: "nat \<rightharpoonup> 's trace_entry"
  ti_global_enter :: "nat list"
  ti_global_exit :: "nat list"
  ti_sys_enter :: "nat list list"
  ti_sys_exit :: "nat list list"

definition new_trace_impl :: "'s trace_impl" where
  "new_trace_impl = \<lparr>ti_next_id = 1, ti_entries = Map.empty, ti_heap = Map.empty, ti_global_enter = [], ti_global_exit = [],
     ti_sys_enter = replicate 512 [], ti_sys_exit = replicate 512 []\<rparr>"

section \<open>Attaching and detaching\<close>

definition ATTACH_SYSCALL_TRACE :: int where
  "ATTACH_SYSCALL_TRACE = 2"

text \<open>The set a callback belongs to, changed by \<open>f\<close>.\<close>

definition on_callbacks :: "bool \<Rightarrow> int \<Rightarrow> (nat list \<Rightarrow> nat list) \<Rightarrow> 's trace_impl \<Rightarrow> 's trace_impl" where
  "on_callbacks is_enter sys_nr f t =
     (if is_enter then
        if sys_nr = -1 then t\<lparr>ti_global_enter := f (ti_global_enter t)\<rparr>
        else t\<lparr>ti_sys_enter := (ti_sys_enter t)[nat sys_nr := f (ti_sys_enter t ! nat sys_nr)]\<rparr>
      else
        if sys_nr = -1 then t\<lparr>ti_global_exit := f (ti_global_exit t)\<rparr>
        else t\<lparr>ti_sys_exit := (ti_sys_exit t)[nat sys_nr := f (ti_sys_exit t ! nat sys_nr)]\<rparr>)"

text \<open>
  The private data is \<open>None\<close> when it is of another class; \<open>a\<close> is the address of the new entry.
\<close>

definition trace_create_attach ::
  "nat \<Rightarrow> 's program \<Rightarrow> (int \<times> bool) option \<Rightarrow> int \<Rightarrow> 's trace_impl \<Rightarrow> int res \<times> 's trace_impl" where
  "trace_create_attach a cb priv_data attach_type t =
     (if attach_type \<noteq> ATTACH_SYSCALL_TRACE then (Inl (RetNeg ENOTSUP), t)
      else case priv_data of
        None \<Rightarrow> (Inl (RetNeg EINVAL), t)
      | Some (sys_nr, is_enter) \<Rightarrow>
          if sys_nr \<ge> 512 \<or> sys_nr < -1 then (Inl (RetNeg EINVAL), t)
          else
            let i = ti_next_id t;
                t = t\<lparr>ti_next_id := i + 1, ti_entries := (ti_entries t)(i \<mapsto> a),
                      ti_heap := (ti_heap t)(a \<mapsto> \<lparr>te_cb = cb, te_sys_nr = sys_nr, te_is_enter = is_enter\<rparr>)\<rparr>
            in (Inr i, on_callbacks is_enter sys_nr (insort_insert a) t))"

definition trace_detach_by_id :: "int \<Rightarrow> 's trace_impl \<Rightarrow> int res \<times> 's trace_impl" where
  "trace_detach_by_id i t =
     (case ti_entries t i of
        None \<Rightarrow> (Inl (RetNeg ENOENT), t)
      | Some a \<Rightarrow>
          (case ti_heap t a of
             None \<Rightarrow> (Inl Fault, t)
           | Some e \<Rightarrow>
               (Inr 0, (on_callbacks (te_is_enter e) (te_sys_nr e) (removeAll a) t)
                  \<lparr>ti_entries := (ti_entries t)(i := None), ti_heap := (ti_heap t)(a := None)\<rparr>)))"

section \<open>The dispatcher\<close>

text \<open>
  The programs of a list of entries run one after the other on copies of the context; the last value
  given to the override callback counts.  A dangling pointer is undefined behaviour.
\<close>

fun run_programs :: "(nat \<rightharpoonup> 's trace_entry) \<Rightarrow> trace_ctx \<Rightarrow> nat list \<Rightarrow> 's \<times> u64 option \<Rightarrow> ('s \<times> u64 option) res" where
  "run_programs h ctx [] s = Inr s"
| "run_programs h ctx (a # as) (s, ov) =
     (case h a of
        None \<Rightarrow> Inl Fault
      | Some e \<Rightarrow>
          let (s, vs) = te_cb e ctx s in run_programs h ctx as (s, if vs = [] then ov else Some (last vs)))"

definition to_i64 :: "u64 \<Rightarrow> int" where
  "to_i64 v = sint v"

text \<open>\<open>nr_exit\<close> and \<open>nr_exit_group\<close> are the numbers of the architecture, \<open>orig\<close> the original system call.\<close>

definition dispatch_syscall ::
  "int \<Rightarrow> int \<Rightarrow> (int \<Rightarrow> int list \<Rightarrow> 's \<Rightarrow> 's \<times> int) \<Rightarrow> int \<Rightarrow> int list \<Rightarrow> 's trace_impl \<Rightarrow> 's \<Rightarrow> ('s \<times> int) res" where
  "dispatch_syscall nr_exit nr_exit_group orig sys_nr args t s =
     (if sys_nr = nr_exit_group \<or> sys_nr = nr_exit then Inr (orig sys_nr args s)
      else if sys_nr < 0 \<or> sys_nr \<ge> 512 then Inl Fault
      else
        bind_res (run_programs (ti_heap t) (Sys_Enter \<lparr>se_id = sys_nr, se_args = map word_of_int args\<rparr>)
                    (ti_sys_enter t ! nat sys_nr @ ti_global_enter t) (s, None)) (\<lambda>(s, ov).
        case ov of
          Some v \<Rightarrow> Inr (s, to_i64 v)
        | None \<Rightarrow>
            let (s, r) = orig sys_nr args s
            in bind_res (run_programs (ti_heap t) (Sys_Exit \<lparr>sx_id = sys_nr, sx_ret = r\<rparr>)
                           (ti_sys_exit t ! nat sys_nr @ ti_global_exit t) (s, None)) (\<lambda>(s, ov).
               Inr (s, case ov of Some v \<Rightarrow> to_i64 v | None \<Rightarrow> r))))"

section \<open>The table of system calls\<close>

text \<open>
  The generated list is read as a stream of names and numbers.  \<open>read_word\<close> and \<open>read_int\<close> are the
  extractions of a string and of an \<open>int\<close>: at the end of the text the variable keeps its value
  (\<open>None\<close>); a text without a digit gives 0 and one out of range the limit, and both fail.
\<close>

definition read_word :: "string \<Rightarrow> (string \<times> string) option" where
  "read_word s =
     (let s = dropWhile isspace s
      in if s = [] then None else Some (takeWhile (\<lambda>c. \<not> isspace c) s, dropWhile (\<lambda>c. \<not> isspace c) s))"

definition read_int :: "string \<Rightarrow> (int \<times> string option) option" where
  "read_int s =
     (let s = dropWhile isspace s
      in if s = [] then None
         else
           let neg = (hd s = CHR ''-'');
               s = (if neg \<or> hd s = CHR ''+'' then tl s else s);
               ds = takeWhile (is_digit 10) s;
               v = (if neg then - int (digits_value 10 ds) else int (digits_value 10 ds))
           in Some (if ds = [] then (0, None)
                    else if v > 2 ^ 31 - 1 then (2 ^ 31 - 1, None)
                    else if v < - (2 ^ 31) then (- (2 ^ 31), None)
                    else (v, Some (dropWhile (is_digit 10) s))))"

definition patch_name :: "string \<Rightarrow> string" where
  "patch_name name = (if name = ''umount2'' then ''umount'' else name)"

type_synonym id_tables = "(string \<rightharpoonup> int) \<times> (int \<rightharpoonup> string)"

definition put_id :: "string \<Rightarrow> int \<Rightarrow> id_tables \<Rightarrow> id_tables" where
  "put_id name i ts = ((fst ts)(patch_name name \<mapsto> i), (snd ts)(i \<mapsto> patch_name name))"

lemma length_read_word: "read_word s = Some (w, r) \<Longrightarrow> length r < length s"
proof -
  assume a: "read_word s = Some (w, r)"
  let ?d = "dropWhile isspace s"
  from a have ne: "?d \<noteq> []" and r: "r = dropWhile (\<lambda>c. \<not> isspace c) ?d"
    by (auto simp: read_word_def Let_def split: if_splits)
  have "length r < length ?d"
    using ne hd_dropWhile [OF ne] unfolding r by (cases ?d) (auto simp: length_dropWhile_le less_Suc_eq_le)
  with length_dropWhile_le [of isspace s] show ?thesis by linarith
qed

lemma length_read_int: "read_int s = Some (v, Some r) \<Longrightarrow> length r \<le> length s"
proof -
  assume a: "read_int s = Some (v, Some r)"
  let ?d = "dropWhile isspace s"
  let ?t = "if hd ?d = CHR ''-'' \<or> hd ?d = CHR ''+'' then tl ?d else ?d"
  from a have "r = dropWhile (is_digit 10) ?t"
    by (simp add: read_int_def Let_def split: if_split_asm)
  then have "length r \<le> length ?t" by (simp add: length_dropWhile_le)
  also have "\<dots> \<le> length ?d" by simp
  also have "\<dots> \<le> length s" by (rule length_dropWhile_le)
  finally show ?thesis .
qed

text \<open>\<open>uninit\<close> is the value of the variable \<open>id\<close>, which no path initialises.\<close>

function id_table_loop :: "int \<Rightarrow> string \<Rightarrow> id_tables \<Rightarrow> id_tables" where
  "id_table_loop uninit s ts =
     (case read_word s of
        None \<Rightarrow> put_id [] uninit ts
      | Some (name, s1) \<Rightarrow>
          (case read_int s1 of
             None \<Rightarrow> put_id name uninit ts
           | Some (i, None) \<Rightarrow> put_id name i ts
           | Some (i, Some s2) \<Rightarrow> id_table_loop uninit s2 (put_id name i ts)))"
  by pat_completeness auto
termination
  by (relation "measure (\<lambda>(u, s, ts). length s)") (auto dest!: length_read_word length_read_int)

declare id_table_loop.simps [simp del]

definition generate_syscall_id_table :: "int \<Rightarrow> string \<Rightarrow> id_tables" where
  "generate_syscall_id_table uninit table = id_table_loop uninit table (Map.empty, Map.empty)"

section \<open>The attach target\<close>

text \<open>
  \<open>tp_name\<close> is the table of tracepoint names, \<open>sys_number\<close> the table of system call numbers.  The
  result is the number and whether it is an entry.  For a name with neither prefix the flag is
  not initialised; it is written only when the empty name is a system call.
\<close>

definition trace_initialize_from_string ::
  "(int \<rightharpoonup> string) \<Rightarrow> (string \<rightharpoonup> int) \<Rightarrow> bool \<Rightarrow> string \<Rightarrow> (int \<times> bool) res" where
  "trace_initialize_from_string tp_name sys_number uninit sv =
     bind_res (stoi sv) (\<lambda>tp_id.
     case tp_name tp_id of
       None \<Rightarrow> Inl (RetNeg EEXIST)
     | Some name \<Rightarrow>
         if name = ''*SYS_ENTER'' then Inr (-1, True)
         else if name = ''*SYS_EXIT'' then Inr (-1, False)
         else
           let (syscall_name, is_enter) =
                 (if take 10 name = ''sys_enter_'' then (drop 10 name, True)
                  else if take 9 name = ''sys_exit_'' then (drop 9 name, False) else ([], uninit))
           in case sys_number syscall_name of
                None \<Rightarrow> Inl (RetNeg EEXIST)
              | Some nr \<Rightarrow> Inr (nr, is_enter))"

section \<open>The table of system calls, read from its text\<close>

text \<open>The generated text: a name and a number on each line.\<close>

definition plain_name :: "string \<Rightarrow> bool" where
  "plain_name n \<longleftrightarrow> n \<noteq> [] \<and> list_all (\<lambda>c. \<not> isspace c) n"

definition table_text :: "(string \<times> nat) list \<Rightarrow> string" where
  "table_text ps = concat (map (\<lambda>(n, i). n @ CHR '' '' # show_base 10 i @ [char_of (10::nat)]) ps)"

lemma isspace_blank: "isspace (CHR '' '')" "isspace (char_of (10::nat))"
  by (simp_all add: isspace_def code_def)

lemma read_word_name: "plain_name n \<Longrightarrow> isspace c \<Longrightarrow> read_word (n @ c # s) = Some (n, c # s)"
proof -
  assume n: "plain_name n" and c: "isspace c"
  obtain x xs where x: "n = x # xs" using n by (cases n) (auto simp: plain_name_def)
  have "dropWhile isspace (n @ c # s) = n @ c # s" using n by (simp add: x plain_name_def)
  moreover have "takeWhile (\<lambda>c. \<not> isspace c) (n @ c # s) = n" "dropWhile (\<lambda>c. \<not> isspace c) (n @ c # s) = c # s"
    using n c by (auto simp: plain_name_def list_all_iff takeWhile_append dropWhile_append)
  ultimately show ?thesis by (simp add: read_word_def x)
qed

lemma read_int_show:
  assumes "n < 2 ^ 31"
  shows "read_int (CHR '' '' # show_base 10 n @ char_of (10::nat) # s) = Some (int n, Some (char_of (10::nat) # s))"
proof -
  let ?d = "show_base 10 n" and ?nl = "char_of (10::nat) :: char"
  note d = show_base_digits [of 10 n]
  obtain x xs where x: "?d = x # xs" using d by (cases ?d) auto
  have dig: "is_digit 10 c" if "c \<in> set ?d" for c using d that by (auto simp: list_all_iff)
  then have hd: "is_digit 10 x" by (simp add: x)
  have nl: "\<not> is_digit 10 ?nl" by (simp add: is_digit_def digit_of_def code_def Let_def)
  have sp: "\<not> isspace x" "x \<noteq> CHR ''-''" "x \<noteq> CHR ''+''" using digit_no_special [OF hd] by auto
  have drop: "dropWhile isspace (CHR '' '' # ?d @ ?nl # s) = ?d @ ?nl # s"
    using sp by (simp add: x isspace_blank)
  have tw: "takeWhile (is_digit 10) (?d @ ?nl # s) = ?d" "dropWhile (is_digit 10) (?d @ ?nl # s) = ?nl # s"
    using dig nl by (auto simp: takeWhile_append dropWhile_append)
  have v: "digits_value 10 ?d = n" using d by simp
  have h: "hd (?d @ ?nl # s) = x" "?d @ ?nl # s \<noteq> []" "?d \<noteq> []" by (simp_all add: x)
  show ?thesis unfolding read_int_def drop Let_def using assms sp by (simp add: h tw v)
qed

lemma id_table_loop_lines:
  assumes "list_all (\<lambda>(n, i). plain_name n \<and> i < 2 ^ 31) ps"
  shows "id_table_loop u (char_of (10::nat) # table_text ps) ts =
    put_id [] u (fold (\<lambda>(n, i). put_id n (int i)) ps ts)" (is ?A)
    and "id_table_loop u (table_text ps) ts = put_id [] u (fold (\<lambda>(n, i). put_id n (int i)) ps ts)" (is ?B)
proof -
  have nl: "read_word (char_of (10::nat) # s) = read_word s" for s
    by (simp add: read_word_def isspace_blank)
  have skip: "id_table_loop u (char_of (10::nat) # s) ts = id_table_loop u s ts" for s ts
    by (subst (1 2) id_table_loop.simps) (simp only: nl)
  show ?B using assms
  proof (induction ps arbitrary: ts)
    case Nil
    then show ?case by (subst id_table_loop.simps) (simp add: table_text_def read_word_def)
  next
    case (Cons p ps)
    obtain n i where p: "p = (n, i)" by fastforce
    from Cons.prems have n: "plain_name n" "i < 2 ^ 31" by (auto simp: p)
    have t: "table_text (p # ps) = n @ CHR '' '' # show_base 10 i @ char_of (10::nat) # table_text ps"
      by (simp add: table_text_def p)
    show ?case
      using Cons unfolding t
      by (subst id_table_loop.simps)
        (simp add: read_word_name [OF n(1) isspace_blank(1)] read_int_show [OF n(2)] skip p)
  qed
  with skip show ?A by simp
qed

text \<open>
  Every name of the list is looked up with its number, when no name is listed twice; and so is the
  empty name, with the uninitialised value, because the stream only fails after the last line.
\<close>

lemma syscall_table_lookup:
  assumes "list_all (\<lambda>(n, i). plain_name n \<and> i < 2 ^ 31) ps" and "distinct (map (patch_name \<circ> fst) ps)"
    and "(n, i) \<in> set ps"
  shows "fst (generate_syscall_id_table u (table_text ps)) (patch_name n) = Some (int i)"
    and "fst (generate_syscall_id_table u (table_text ps)) [] = Some u"
proof -
  have fold: "fst (fold (\<lambda>(n, i). put_id n (int i)) ps ts) = fst ts ++ map_of (map (\<lambda>(n, i). (patch_name n, int i)) (rev ps))"
    for ps ts by (induction ps arbitrary: ts) (auto simp: put_id_def map_add_upd_left)
  have ne: "patch_name n \<noteq> []" using assms(1,3) by (auto simp: list_all_iff plain_name_def patch_name_def)
  have "map_of (map (\<lambda>(n, i). (patch_name n, int i)) (rev ps)) (patch_name n) = Some (int i)"
    using assms(2,3) by (intro map_of_is_SomeI) (force simp: comp_def case_prod_beta rev_map [symmetric])+
  then show "fst (generate_syscall_id_table u (table_text ps)) (patch_name n) = Some (int i)"
    using ne
    by (simp add: generate_syscall_id_table_def id_table_loop_lines [OF assms(1)] put_id_def patch_name_def [of "[]"] fold)
  show "fst (generate_syscall_id_table u (table_text ps)) [] = Some u"
    by (simp add: generate_syscall_id_table_def id_table_loop_lines [OF assms(1)] put_id_def patch_name_def)
qed

section \<open>Every attached program runs\<close>

text \<open>The states that attaching and detaching reach; a new entry gets an address that is not in use.\<close>

inductive trace_reachable :: "'s trace_impl \<Rightarrow> bool" where
  initial: "trace_reachable new_trace_impl"
| attach: "trace_reachable t \<Longrightarrow> ti_heap t a = None \<Longrightarrow> trace_create_attach a cb pd ty t = (r, t') \<Longrightarrow> trace_reachable t'"
| detach: "trace_reachable t \<Longrightarrow> trace_detach_by_id i t = (r, t') \<Longrightarrow> trace_reachable t'"

text \<open>The set of callbacks for a kind and a number.\<close>

definition callbacks :: "'s trace_impl \<Rightarrow> bool \<Rightarrow> int \<Rightarrow> nat list" where
  "callbacks t is_enter sys_nr =
     (if is_enter then if sys_nr = -1 then ti_global_enter t else ti_sys_enter t ! nat sys_nr
      else if sys_nr = -1 then ti_global_exit t else ti_sys_exit t ! nat sys_nr)"

definition trace_inv :: "'s trace_impl \<Rightarrow> bool" where
  "trace_inv t \<longleftrightarrow>
     length (ti_sys_enter t) = 512 \<and> length (ti_sys_exit t) = 512 \<and>
     (\<forall>b nr. -1 \<le> nr \<longrightarrow> nr < 512 \<longrightarrow>
        distinct (callbacks t b nr) \<and> sorted (callbacks t b nr) \<and>
        set (callbacks t b nr) = {a. \<exists>e. ti_heap t a = Some e \<and> te_is_enter e = b \<and> te_sys_nr e = nr}) \<and>
     (\<forall>a e. ti_heap t a = Some e \<longrightarrow> -1 \<le> te_sys_nr e \<and> te_sys_nr e < 512) \<and>
     (\<forall>i. ti_entries t i \<noteq> None \<longrightarrow> i < ti_next_id t) \<and>
     inj_on (ti_entries t) (dom (ti_entries t)) \<and> ran (ti_entries t) = dom (ti_heap t)"

lemma callbacks_on_callbacks:
  assumes "length (ti_sys_enter t) = 512" and "length (ti_sys_exit t) = 512"
    and "-1 \<le> nr" and "nr < 512" and "-1 \<le> n" and "n < 512"
  shows "callbacks (on_callbacks b nr f t) b' n = (if b' = b \<and> n = nr then f (callbacks t b n) else callbacks t b' n)"
  using assms by (auto simp: callbacks_def on_callbacks_def nth_list_update)

lemma on_callbacks_frame [simp]:
  "ti_heap (on_callbacks b nr f t) = ti_heap t" "ti_entries (on_callbacks b nr f t) = ti_entries t"
  "ti_next_id (on_callbacks b nr f t) = ti_next_id t"
  "length (ti_sys_enter (on_callbacks b nr f t)) = length (ti_sys_enter t)"
  "length (ti_sys_exit (on_callbacks b nr f t)) = length (ti_sys_exit t)"
  by (auto simp: on_callbacks_def)

lemma callbacks_cong:
  "ti_global_enter t = ti_global_enter u \<Longrightarrow> ti_global_exit t = ti_global_exit u \<Longrightarrow> ti_sys_enter t = ti_sys_enter u \<Longrightarrow>
   ti_sys_exit t = ti_sys_exit u \<Longrightarrow> callbacks t b n = callbacks u b n"
  by (simp add: callbacks_def)

lemma trace_inv_initial: "trace_inv new_trace_impl"
  by (auto simp: trace_inv_def new_trace_impl_def callbacks_def)

lemma trace_inv_attach:
  assumes inv: "trace_inv t" and a: "ti_heap t a = None" and c: "trace_create_attach a cb pd ty t = (r, t')"
  shows "trace_inv t'"
proof (cases "\<exists>nr b. pd = Some (nr, b) \<and> ty = ATTACH_SYSCALL_TRACE \<and> -1 \<le> nr \<and> nr < 512")
  case False
  with c have "t' = t" by (auto simp: trace_create_attach_def split: if_splits option.splits)
  with inv show ?thesis by simp
next
  case True
  then obtain nr b where nr: "pd = Some (nr, b)" "ty = ATTACH_SYSCALL_TRACE" "-1 \<le> nr" "nr < 512" by blast
  let ?i = "ti_next_id t" and ?e = "\<lparr>te_cb = cb, te_sys_nr = nr, te_is_enter = b\<rparr>"
  let ?u = "t\<lparr>ti_next_id := ?i + 1, ti_entries := (ti_entries t)(?i \<mapsto> a), ti_heap := (ti_heap t)(a \<mapsto> ?e)\<rparr>"
  have t': "t' = on_callbacks b nr (insort_insert a) ?u"
    using c nr by (simp add: trace_create_attach_def Let_def)
  have len: "length (ti_sys_enter ?u) = 512" "length (ti_sys_exit ?u) = 512" using inv by (simp_all add: trace_inv_def)
  have cb: "callbacks ?u b' n = callbacks t b' n" for b' n by (rule callbacks_cong) simp_all
  have 1: "distinct (callbacks t' b' n) \<and> sorted (callbacks t' b' n) \<and>
      set (callbacks t' b' n) = {x. \<exists>e. ti_heap t' x = Some e \<and> te_is_enter e = b' \<and> te_sys_nr e = n}"
    if n: "-1 \<le> n" "n < 512" for b' n
  proof -
    have "distinct (callbacks t b' n)" "sorted (callbacks t b' n)"
      "set (callbacks t b' n) = {x. \<exists>e. ti_heap t x = Some e \<and> te_is_enter e = b' \<and> te_sys_nr e = n}"
      using inv n by (auto simp: trace_inv_def)
    then show ?thesis
      using a unfolding t' callbacks_on_callbacks [OF len nr(3,4) n] cb
      by (auto simp: set_insort_insert distinct_insort_insert sorted_insort_insert)
  qed
  have bnd: "\<forall>i. ti_entries t i \<noteq> None \<longrightarrow> i < ?i" and "ran (ti_entries t) = dom (ti_heap t)"
    using inv by (simp_all add: trace_inv_def)
  then have fresh: "ti_entries t ?i = None" "a \<notin> ran (ti_entries t)" using a by auto
  have 2: "inj_on (ti_entries t') (dom (ti_entries t'))"
  proof -
    have "inj_on (ti_entries t) (dom (ti_entries t))" using inv by (simp add: trace_inv_def)
    with fresh show ?thesis unfolding t' by (auto simp: inj_on_def ran_def dom_def)
  qed
  have 3: "ran (ti_entries t') = dom (ti_heap t')"
  proof -
    have "ran (ti_entries t) = dom (ti_heap t)" using inv by (simp add: trace_inv_def)
    with fresh show ?thesis unfolding t' by simp
  qed
  have 4: "\<forall>x e. ti_heap t' x = Some e \<longrightarrow> -1 \<le> te_sys_nr e \<and> te_sys_nr e < 512"
    using inv nr(3,4) unfolding t' by (simp add: trace_inv_def)
  have 5: "\<forall>i. ti_entries t' i \<noteq> None \<longrightarrow> i < ti_next_id t'"
  proof (intro allI impI)
    fix i assume "ti_entries t' i \<noteq> None"
    then have "i = ?i \<or> i < ?i" using bnd unfolding t' by (auto split: if_splits)
    then show "i < ti_next_id t'" unfolding t' by auto
  qed
  have 6: "length (ti_sys_enter t') = 512" "length (ti_sys_exit t') = 512" using len unfolding t' by simp_all
  show ?thesis unfolding trace_inv_def using 1 2 3 4 5 6 by simp
qed

lemma trace_inv_detach:
  assumes inv: "trace_inv t" and d: "trace_detach_by_id i t = (r, t')"
  shows "trace_inv t'"
proof (cases "ti_entries t i")
  case None
  with d inv show ?thesis by (simp add: trace_detach_by_id_def)
next
  case (Some a)
  have rd: "ran (ti_entries t) = dom (ti_heap t)" and inj: "inj_on (ti_entries t) (dom (ti_entries t))"
    using inv by (simp_all add: trace_inv_def)
  from rd Some obtain e where e: "ti_heap t a = Some e" by (metis domD ranI)
  let ?b = "te_is_enter e" and ?nr = "te_sys_nr e"
  have t': "t' = (on_callbacks ?b ?nr (removeAll a) t)\<lparr>ti_entries := (ti_entries t)(i := None), ti_heap := (ti_heap t)(a := None)\<rparr>"
    using d Some e by (simp add: trace_detach_by_id_def)
  have nr: "-1 \<le> ?nr" "?nr < 512" and len: "length (ti_sys_enter t) = 512" "length (ti_sys_exit t) = 512"
    using inv e by (auto simp: trace_inv_def)
  have cb: "callbacks t' b n = callbacks (on_callbacks ?b ?nr (removeAll a) t) b n" for b n
    unfolding t' by (rule callbacks_cong) simp_all
  have 1: "distinct (callbacks t' b n) \<and> sorted (callbacks t' b n) \<and>
      set (callbacks t' b n) = {x. \<exists>e. ti_heap t' x = Some e \<and> te_is_enter e = b \<and> te_sys_nr e = n}"
    if n: "-1 \<le> n" "n < 512" for b n
  proof -
    have "distinct (callbacks t b n)" "sorted (callbacks t b n)"
      "set (callbacks t b n) = {x. \<exists>e. ti_heap t x = Some e \<and> te_is_enter e = b \<and> te_sys_nr e = n}"
      using inv n by (auto simp: trace_inv_def)
    then show ?thesis
      using e unfolding cb callbacks_on_callbacks [OF len nr n]
      by (auto simp: t' removeAll_filter_not_eq sorted_filter [of "\<lambda>x. x", simplified] split: if_splits)
  qed
  have 2: "inj_on (ti_entries t') (dom (ti_entries t'))" using inj unfolding t' by (auto simp: inj_on_def dom_def)
  have 3: "ran (ti_entries t') = dom (ti_heap t')"
  proof -
    have "j = i" if "ti_entries t j = Some a" for j
      using inj that Some by (metis domI inj_onD)
    then have "x \<in> ran ((ti_entries t)(i := None)) \<longleftrightarrow> x \<in> ran (ti_entries t) \<and> x \<noteq> a" for x
      unfolding ran_def fun_upd_apply mem_Collect_eq using Some by (metis option.distinct(1) option.sel)
    then have "ran ((ti_entries t)(i := None)) = dom (ti_heap t) - {a}" unfolding rd by blast
    then show ?thesis unfolding t' by simp
  qed
  have 4: "\<forall>x e. ti_heap t' x = Some e \<longrightarrow> -1 \<le> te_sys_nr e \<and> te_sys_nr e < 512" using inv unfolding t' by (simp add: trace_inv_def)
  have 5: "\<forall>j. ti_entries t' j \<noteq> None \<longrightarrow> j < ti_next_id t'" using inv unfolding t' by (simp add: trace_inv_def)
  have 6: "length (ti_sys_enter t') = 512" "length (ti_sys_exit t') = 512" using len unfolding t' by simp_all
  show ?thesis unfolding trace_inv_def using 1 2 3 4 5 6 by simp
qed

lemma trace_reachable_inv: "trace_reachable t \<Longrightarrow> trace_inv t"
  by (induction rule: trace_reachable.induct) (auto intro: trace_inv_initial trace_inv_attach trace_inv_detach)

text \<open>
  The specification knows only the attached entries.  At an event the programs attached to it run,
  then those attached to all events of its kind, each group in the order of the addresses.
\<close>

definition attached_to :: "(nat \<rightharpoonup> 's trace_entry) \<Rightarrow> bool \<Rightarrow> int \<Rightarrow> nat list" where
  "attached_to h is_enter nr = sorted_list_of_set {a. \<exists>e. h a = Some e \<and> te_is_enter e = is_enter \<and> te_sys_nr e = nr}"

definition run_attached :: "(nat \<rightharpoonup> 's trace_entry) \<Rightarrow> bool \<Rightarrow> int \<Rightarrow> trace_ctx \<Rightarrow> 's \<Rightarrow> 's \<times> u64 option" where
  "run_attached h is_enter nr ctx s =
     fold (\<lambda>a (s, ov). let (s, vs) = te_cb (the (h a)) ctx s in (s, if vs = [] then ov else Some (last vs)))
       (attached_to h is_enter nr @ attached_to h is_enter (-1)) (s, None)"

definition dispatch_spec ::
  "(int \<Rightarrow> int list \<Rightarrow> 's \<Rightarrow> 's \<times> int) \<Rightarrow> int \<Rightarrow> int list \<Rightarrow> (nat \<rightharpoonup> 's trace_entry) \<Rightarrow> 's \<Rightarrow> 's \<times> int" where
  "dispatch_spec orig nr args h s =
     (let (s, ov) = run_attached h True nr (Sys_Enter \<lparr>se_id = nr, se_args = map word_of_int args\<rparr>) s
      in case ov of
           Some v \<Rightarrow> (s, to_i64 v)
         | None \<Rightarrow>
             let (s, r) = orig nr args s;
                 (s, ov) = run_attached h False nr (Sys_Exit \<lparr>sx_id = nr, sx_ret = r\<rparr>) s
             in (s, case ov of Some v \<Rightarrow> to_i64 v | None \<Rightarrow> r))"

lemma run_programs_fold:
  "set as \<subseteq> dom h \<Longrightarrow> run_programs h ctx as p =
     Inr (fold (\<lambda>a (s, ov). let (s, vs) = te_cb (the (h a)) ctx s in (s, if vs = [] then ov else Some (last vs))) as p)"
  by (induction "as" arbitrary: p) (auto simp: Let_def split: prod.splits option.splits)

lemma callbacks_attached_to:
  assumes "trace_inv t" and "-1 \<le> nr" and "nr < 512"
  shows "callbacks t b nr = attached_to (ti_heap t) b nr" and "set (callbacks t b nr) \<subseteq> dom (ti_heap t)"
proof -
  have 1: "distinct (callbacks t b nr)" "sorted (callbacks t b nr)"
    and 2: "set (callbacks t b nr) = {a. \<exists>e. ti_heap t a = Some e \<and> te_is_enter e = b \<and> te_sys_nr e = nr}"
    using assms unfolding trace_inv_def by blast+
  show "callbacks t b nr = attached_to (ti_heap t) b nr"
    unfolding attached_to_def 2 [symmetric] using 1 by (simp add: sorted_list_of_set_sort_remdups distinct_remdups_id sorted_sort_id)
  show "set (callbacks t b nr) \<subseteq> dom (ti_heap t)" unfolding 2 by auto
qed

lemma run_programs_attached:
  assumes "trace_inv t" and "0 \<le> nr" and "nr < 512"
  shows "run_programs (ti_heap t) ctx (callbacks t b nr @ callbacks t b (-1)) (s, None) = Inr (run_attached (ti_heap t) b nr ctx s)"
proof -
  have nr: "-1 \<le> nr" using assms(2) by simp
  note at = callbacks_attached_to [OF assms(1) nr assms(3), of b] callbacks_attached_to [OF assms(1), of "-1" b, simplified]
  show ?thesis using at(2,4) by (subst run_programs_fold) (simp_all add: at(1,3) run_attached_def)
qed

lemma dispatch_reachable:
  assumes "trace_reachable t" and "0 \<le> nr" and "nr < 512" and "nr \<noteq> nr_exit" and "nr \<noteq> nr_exit_group"
  shows "dispatch_syscall nr_exit nr_exit_group orig nr args t s = Inr (dispatch_spec orig nr args (ti_heap t) s)"
proof -
  have inv: "trace_inv t" using assms(1) by (rule trace_reachable_inv)
  have cb: "ti_sys_enter t ! nat nr @ ti_global_enter t = callbacks t True nr @ callbacks t True (-1)"
    "ti_sys_exit t ! nat nr @ ti_global_exit t = callbacks t False nr @ callbacks t False (-1)"
    using assms(2) by (auto simp: callbacks_def)
  show ?thesis
    using assms(2-5) unfolding dispatch_syscall_def cb run_programs_attached [OF inv assms(2,3)] dispatch_spec_def
    by (simp add: Let_def split: prod.splits option.splits)
qed

text \<open>
  C22. However programs were attached and detached before, a system call with a number below 512
  other than exit and exit_group behaves as the specification: on entry the programs attached to it
  and those attached to every entry run, each of them once; unless one of them gives a result the
  call is made, and the programs attached to its exit run once each.  No pointer the dispatcher
  follows is dangling.
\<close>

theorem dispatch_runs_attached_programs:
  assumes "trace_reachable t" and "0 \<le> nr" and "nr < 512" and "nr \<noteq> nr_exit" and "nr \<noteq> nr_exit_group"
  shows "dispatch_syscall nr_exit nr_exit_group orig nr args t s = Inr (dispatch_spec orig nr args (ti_heap t) s)"
  using assms by (rule dispatch_reachable)

lemma new_trace_heap: "ti_heap new_trace_impl = Map.empty"
  by (simp add: new_trace_impl_def del: replicate_eval)

lemma trace_create_attach_heap:
  "-1 \<le> nr \<Longrightarrow> nr < 512 \<Longrightarrow> ti_heap (snd (trace_create_attach a cb (Some (nr, b)) 2 t)) =
     (ti_heap t)(a \<mapsto> \<lparr>te_cb = cb, te_sys_nr = nr, te_is_enter = b\<rparr>)"
  by (simp add: trace_create_attach_def ATTACH_SYSCALL_TRACE_def Let_def)

definition demo_program :: "nat \<Rightarrow> nat list program" where
  "demo_program k = (\<lambda>ctx s. (s @ [k], []))"

definition demo_trace :: "nat list trace_impl" where
  "demo_trace = snd (trace_create_attach 8 (demo_program 2) (Some (-1, True)) 2
     (snd (trace_create_attach 16 (demo_program 1) (Some (3, True)) 2 new_trace_impl)))"

theorem dispatch_runs_attached_programs_witness:
  "trace_reachable demo_trace \<and>
   dispatch_syscall 60 231 (\<lambda>nr args s. (s @ [0], 5)) 3 [] demo_trace [] = Inr ([1, 2, 0], 5)"
proof -
  let ?t1 = "snd (trace_create_attach 16 (demo_program 1) (Some (3, True)) 2 new_trace_impl)"
  have "trace_reachable ?t1"
    by (rule trace_reachable.attach [OF trace_reachable.initial _ prod.collapse [symmetric]]) (simp add: new_trace_heap)
  moreover have h: "ti_heap ?t1 8 = None"
    by (simp add: trace_create_attach_heap new_trace_heap)
  ultimately have r: "trace_reachable demo_trace"
    unfolding demo_trace_def by (rule trace_reachable.attach [OF _ _ prod.collapse [symmetric]])
  have heap: "ti_heap demo_trace = [16 \<mapsto> \<lparr>te_cb = demo_program 1, te_sys_nr = 3, te_is_enter = True\<rparr>,
      8 \<mapsto> \<lparr>te_cb = demo_program 2, te_sys_nr = -1, te_is_enter = True\<rparr>]"
    by (simp add: demo_trace_def trace_create_attach_heap new_trace_heap)
  have "{a. \<exists>e. ti_heap demo_trace a = Some e \<and> te_is_enter e = b \<and> te_sys_nr e = nr} =
      (if b \<and> nr = 3 then {16} else if b \<and> nr = -1 then {8} else {})" for b nr
    by (auto simp: heap split: if_splits)
  then have "attached_to (ti_heap demo_trace) b nr = (if b \<and> nr = 3 then [16] else if b \<and> nr = -1 then [8] else [])" for b nr
    by (simp add: attached_to_def)
  then have "dispatch_spec (\<lambda>nr args s. (s @ [0], 5)) 3 [] (ti_heap demo_trace) [] = ([1, 2, 0], 5)"
    by (simp add: dispatch_spec_def run_attached_def heap demo_program_def)
  with r dispatch_runs_attached_programs [OF r, of 3 60 231 "\<lambda>nr args s. (s @ [0], 5)" "[]" "[]"]
  show ?thesis by simp
qed

section \<open>Numbers outside the table\<close>

text \<open>The dispatcher indexes its tables with the number of the call as it comes.\<close>

lemma dispatch_outside_table:
  assumes "nr < 0 \<or> 512 \<le> nr" and "nr \<noteq> nr_exit" and "nr \<noteq> nr_exit_group"
  shows "dispatch_syscall nr_exit nr_exit_group orig nr args t s = Inl Fault"
  using assms by (auto simp: dispatch_syscall_def)

end
