(* ===== verification/Attach_Impl.thy ===== *)
theory Attach_Impl
  imports Syscall_Trace
begin

text \<open>
  Attach implementations behind their base class (\<open>attach/base_attach_impl\<close>): the simple
  implementation that holds one program (\<open>attach/simple_attach_impl\<close>), the virtual calls, and the
  contract the attach context relies on.  The implementations are a list, as the context owns them;
  a virtual call is a case distinction on the class.
\<close>

section \<open>The simple attach implementation\<close>

text \<open>The private data of a link: what the sources cast it to.\<close>

datatype attach_private_data = Trace_Data int bool | Simple_Data string

record 'c simple_attach =
  sa_next_id :: int
  sa_attach_type :: int
  sa_ebpf_callback :: "'c option"
  sa_usable_id :: int
  sa_argument :: string

definition new_simple_attach :: "int \<Rightarrow> 'c simple_attach" where
  "new_simple_attach attach_type =
     \<lparr>sa_next_id = 1, sa_attach_type = attach_type, sa_ebpf_callback = None, sa_usable_id = -1, sa_argument = []\<rparr>"

text \<open>A reference cast to another class throws.\<close>

definition simple_create_attach ::
  "'c \<Rightarrow> attach_private_data \<Rightarrow> int \<Rightarrow> 'c simple_attach \<Rightarrow> int res \<times> 'c simple_attach" where
  "simple_create_attach cb private_data attach_type s =
     (if sa_usable_id s \<noteq> -1 then (Inl RetFail, s)
      else if attach_type \<noteq> sa_attach_type s then (Inl RetFail, s)
      else case private_data of
        Simple_Data d \<Rightarrow>
          (Inr (sa_next_id s),
           s\<lparr>sa_argument := d, sa_ebpf_callback := Some cb, sa_usable_id := sa_next_id s, sa_next_id := sa_next_id s + 1\<rparr>)
      | _ \<Rightarrow> (Inl Throw, s))"

definition simple_detach_by_id :: "int \<Rightarrow> 'c simple_attach \<Rightarrow> int res \<times> 'c simple_attach" where
  "simple_detach_by_id i s =
     (if sa_usable_id s = -1 then (Inl RetFail, s)
      else if sa_usable_id s \<noteq> i then (Inl RetFail, s)
      else (Inr 0, s\<lparr>sa_usable_id := -1\<rparr>))"

text \<open>\<open>callback\<close> is the user's function; an empty \<open>std::function\<close> in it throws when it is called.\<close>

definition simple_trigger ::
  "(string \<Rightarrow> string \<Rightarrow> 'c option \<Rightarrow> int res) \<Rightarrow> string \<Rightarrow> 'c simple_attach \<Rightarrow> int res" where
  "simple_trigger callback trigger_argument s =
     (if sa_usable_id s = -1 then Inr 1 else callback (sa_argument s) trigger_argument (sa_ebpf_callback s))"

section \<open>Virtual calls\<close>

datatype 's attach_impl = Syscall_Impl "'s trace_impl" | Simple_Impl "'s program simple_attach"

definition trace_data :: "attach_private_data \<Rightarrow> (int \<times> bool) option" where
  "trace_data d = (case d of Trace_Data nr b \<Rightarrow> Some (nr, b) | _ \<Rightarrow> None)"

text \<open>\<open>alloc\<close> is the address the allocator gives to a new entry.\<close>

definition impl_create ::
  "((nat \<rightharpoonup> 's trace_entry) \<Rightarrow> nat) \<Rightarrow> 's program \<Rightarrow> attach_private_data \<Rightarrow> int \<Rightarrow> 's attach_impl \<Rightarrow> int res \<times> 's attach_impl" where
  "impl_create alloc cb d ty impl =
     (case impl of
        Syscall_Impl t \<Rightarrow> map_prod id Syscall_Impl (trace_create_attach (alloc (ti_heap t)) cb (trace_data d) ty t)
      | Simple_Impl s \<Rightarrow> map_prod id Simple_Impl (simple_create_attach cb d ty s))"

definition impl_detach :: "int \<Rightarrow> 's attach_impl \<Rightarrow> int res \<times> 's attach_impl" where
  "impl_detach i impl =
     (case impl of
        Syscall_Impl t \<Rightarrow> map_prod id Syscall_Impl (trace_detach_by_id i t)
      | Simple_Impl s \<Rightarrow> map_prod id Simple_Impl (simple_detach_by_id i s))"

definition on_impl :: "('i \<Rightarrow> 'a res \<times> 'i) \<Rightarrow> nat \<Rightarrow> 'i list \<Rightarrow> 'a res \<times> 'i list" where
  "on_impl f k w = (if k < length w then let (r, i) = f (w ! k) in (r, w[k := i]) else (Inl Fault, w))"

section \<open>The contract\<close>

text \<open>
  What the attach context relies on.  \<open>attached w\<close> is what is attached, by implementation and id: a
  creation that succeeds adds an entry under a new id, one that fails changes nothing, and what is
  attached can be detached.
\<close>

locale attach_impls =
  fixes create :: "nat \<Rightarrow> 'c \<Rightarrow> 'd \<Rightarrow> int \<Rightarrow> 'w \<Rightarrow> int res \<times> 'w"
    and detach :: "nat \<Rightarrow> int \<Rightarrow> 'w \<Rightarrow> int res \<times> 'w"
    and attached :: "'w \<Rightarrow> nat \<times> int \<rightharpoonup> 'c \<times> 'd \<times> int"
    and inv :: "'w \<Rightarrow> bool"
  assumes create_ok: "inv w \<Longrightarrow> create k cb d ty w = (Inr i, w') \<Longrightarrow>
      inv w' \<and> attached w (k, i) = None \<and> attached w' = (attached w)((k, i) \<mapsto> (cb, d, ty))"
    and create_fail: "inv w \<Longrightarrow> create k cb d ty w = (Inl f, w') \<Longrightarrow> w' = w"
    and detach_ok: "inv w \<Longrightarrow> attached w (k, i) = Some x \<Longrightarrow>
      \<exists>w'. detach k i w = (Inr 0, w') \<and> inv w' \<and> attached w' = (attached w)((k, i) := None)"
begin

text \<open>Detaching what was just attached restores what was attached.\<close>

lemma create_detach:
  assumes "inv w" and "create k cb d ty w = (Inr i, w')"
  shows "\<exists>w''. detach k i w' = (Inr 0, w'') \<and> inv w'' \<and> attached w'' = attached w"
proof -
  from create_ok [OF assms] have w': "inv w'" "attached w (k, i) = None" "attached w' = (attached w)((k, i) \<mapsto> (cb, d, ty))"
    by auto
  then have "attached w' (k, i) = Some (cb, d, ty)" by simp
  from detach_ok [OF w'(1) this] obtain w'' where
    "detach k i w' = (Inr 0, w'')" "inv w''" "attached w'' = (attached w')((k, i) := None)" by blast
  with w'(2,3) show ?thesis by (auto simp: fun_eq_iff)
qed

end

section \<open>The implementations keep the contract\<close>

definition fresh_addresses :: "((nat \<rightharpoonup> 's trace_entry) \<Rightarrow> nat) \<Rightarrow> bool" where
  "fresh_addresses alloc \<longleftrightarrow> (\<forall>h. finite (dom h) \<longrightarrow> h (alloc h) = None)"

definition impl_attached :: "'s attach_impl \<Rightarrow> int \<rightharpoonup> 's program \<times> attach_private_data \<times> int" where
  "impl_attached impl i =
     (case impl of
        Syscall_Impl t \<Rightarrow>
          (case ti_entries t i of
             None \<Rightarrow> None
           | Some a \<Rightarrow> map_option (\<lambda>e. (te_cb e, Trace_Data (te_sys_nr e) (te_is_enter e), ATTACH_SYSCALL_TRACE)) (ti_heap t a))
      | Simple_Impl s \<Rightarrow>
          if sa_usable_id s = i \<and> i \<noteq> -1
          then map_option (\<lambda>cb. (cb, Simple_Data (sa_argument s), sa_attach_type s)) (sa_ebpf_callback s) else None)"

definition impl_inv :: "'s attach_impl \<Rightarrow> bool" where
  "impl_inv impl =
     (case impl of
        Syscall_Impl t \<Rightarrow> trace_reachable t
      | Simple_Impl s \<Rightarrow> 1 \<le> sa_next_id s \<and> (sa_usable_id s = -1 \<or> 1 \<le> sa_usable_id s \<and> sa_ebpf_callback s \<noteq> None))"

definition impls_attached :: "'s attach_impl list \<Rightarrow> nat \<times> int \<rightharpoonup> 's program \<times> attach_private_data \<times> int" where
  "impls_attached w = (\<lambda>(k, i). if k < length w then impl_attached (w ! k) i else None)"

lemma trace_heap_finite: "trace_reachable t \<Longrightarrow> finite (dom (ti_heap t))"
proof (induction rule: trace_reachable.induct)
  case initial
  then show ?case by (simp add: new_trace_heap)
next
  case (attach t a cb pd ty r t')
  have "dom (ti_heap t') \<subseteq> insert a (dom (ti_heap t))"
    using attach.hyps(3) by (auto simp: trace_create_attach_def Let_def split: if_splits option.splits prod.splits)
  with attach.IH show ?case by (meson finite.insertI finite_subset)
next
  case (detach t i r t')
  have "dom (ti_heap t') \<subseteq> dom (ti_heap t)"
    using detach.hyps(2) by (auto simp: trace_detach_by_id_def split: if_splits option.splits)
  with detach.IH show ?case by (rule finite_subset [rotated])
qed


text \<open>What is attached to the tracer after each of its operations.\<close>

lemma trace_attached_create:
  assumes r: "trace_reachable t" and a: "ti_heap t a = None" and c: "trace_create_attach a cb pd ty t = (Inr i, t')"
  shows "trace_reachable t'" and "impl_attached (Syscall_Impl t) i = None"
    and "\<exists>nr b. pd = Some (nr, b) \<and> ty = ATTACH_SYSCALL_TRACE \<and>
      impl_attached (Syscall_Impl t') = (impl_attached (Syscall_Impl t))(i \<mapsto> (cb, Trace_Data nr b, ty))"
proof -
  show "trace_reachable t'" using r a c by (rule trace_reachable.attach)
  from c obtain nr b where pd: "pd = Some (nr, b)" "ty = ATTACH_SYSCALL_TRACE" and i: "i = ti_next_id t"
    and e: "ti_entries t' = (ti_entries t)(i \<mapsto> a)"
    and h: "ti_heap t' = (ti_heap t)(a \<mapsto> \<lparr>te_cb = cb, te_sys_nr = nr, te_is_enter = b\<rparr>)"
    by (auto simp: trace_create_attach_def Let_def split: if_splits option.splits prod.splits)
  have inv: "trace_inv t" using r by (rule trace_reachable_inv)
  then have "ti_entries t i = None" unfolding i trace_inv_def by blast
  then show "impl_attached (Syscall_Impl t) i = None" by (simp add: impl_attached_def)
  have "ti_entries t j \<noteq> Some a" for j
    using inv a unfolding trace_inv_def by (metis domIff ranI)
  then have "impl_attached (Syscall_Impl t') j = ((impl_attached (Syscall_Impl t))(i \<mapsto> (cb, Trace_Data nr b, ty))) j" for j
    by (auto simp: impl_attached_def e h pd(2) split: option.splits)
  with pd show "\<exists>nr b. pd = Some (nr, b) \<and> ty = ATTACH_SYSCALL_TRACE \<and>
      impl_attached (Syscall_Impl t') = (impl_attached (Syscall_Impl t))(i \<mapsto> (cb, Trace_Data nr b, ty))" by blast
qed

lemma trace_attached_detach:
  assumes r: "trace_reachable t" and x: "impl_attached (Syscall_Impl t) i = Some x"
  shows "\<exists>t'. trace_detach_by_id i t = (Inr 0, t') \<and> trace_reachable t' \<and>
    impl_attached (Syscall_Impl t') = (impl_attached (Syscall_Impl t))(i := None)"
proof -
  from x obtain a e where a: "ti_entries t i = Some a" "ti_heap t a = Some e"
    by (auto simp: impl_attached_def split: option.splits)
  then obtain t' where t': "trace_detach_by_id i t = (Inr 0, t')"
    and e: "ti_entries t' = (ti_entries t)(i := None)" and h: "ti_heap t' = (ti_heap t)(a := None)"
    by (simp add: trace_detach_by_id_def)
  have "inj_on (ti_entries t) (dom (ti_entries t))" using trace_reachable_inv [OF r] by (simp add: trace_inv_def)
  then have "ti_entries t j \<noteq> Some a" if "j \<noteq> i" for j using a(1) that by (metis domI inj_onD)
  then have "impl_attached (Syscall_Impl t') j = ((impl_attached (Syscall_Impl t))(i := None)) j" for j
    by (auto simp: impl_attached_def e h split: option.splits)
  moreover have "trace_reachable t'" using r t' by (rule trace_reachable.detach)
  ultimately show ?thesis using t' by blast
qed

lemma impl_create_ok:
  assumes "fresh_addresses alloc" and "impl_inv impl" and "impl_create alloc cb d ty impl = (Inr i, impl')"
  shows "impl_inv impl' \<and> impl_attached impl i = None \<and> impl_attached impl' = (impl_attached impl)(i \<mapsto> (cb, d, ty))"
proof (cases impl)
  case (Syscall_Impl t)
  with assms(3) obtain t' where c: "trace_create_attach (alloc (ti_heap t)) cb (trace_data d) ty t = (Inr i, t')"
    and i': "impl' = Syscall_Impl t'"
    by (auto simp: impl_create_def map_prod_def split: prod.splits)
  have r: "trace_reachable t" using assms(2) Syscall_Impl by (simp add: impl_inv_def)
  have a: "ti_heap t (alloc (ti_heap t)) = None"
    using assms(1) trace_heap_finite [OF r] by (simp add: fresh_addresses_def)
  from trace_attached_create [OF r a c] show ?thesis
    unfolding Syscall_Impl i' by (auto simp: impl_inv_def trace_data_def split: attach_private_data.splits)
next
  case (Simple_Impl s)
  with assms(2,3) show ?thesis
    by (auto simp: impl_create_def impl_inv_def impl_attached_def simple_create_attach_def fun_eq_iff
        split: if_splits attach_private_data.splits)
qed

lemma impl_create_fail: "impl_create alloc cb d ty impl = (Inl f, impl') \<Longrightarrow> impl' = impl"
  by (auto simp: impl_create_def trace_create_attach_def simple_create_attach_def map_prod_def Let_def
      split: attach_impl.splits if_splits option.splits prod.splits attach_private_data.splits)

lemma impl_detach_ok:
  assumes "impl_inv impl" and "impl_attached impl i = Some x"
  shows "\<exists>impl'. impl_detach i impl = (Inr 0, impl') \<and> impl_inv impl' \<and> impl_attached impl' = (impl_attached impl)(i := None)"
proof (cases impl)
  case (Syscall_Impl t)
  with assms trace_attached_detach [of t i x] show ?thesis by (fastforce simp: impl_detach_def impl_inv_def)
next
  case (Simple_Impl s)
  with assms show ?thesis
    by (auto simp: impl_detach_def impl_inv_def impl_attached_def simple_detach_by_id_def fun_eq_iff split: if_splits)
qed

text \<open>The contract for a list of implementations of either class.\<close>

lemma impls_contract:
  assumes "fresh_addresses alloc"
  shows "attach_impls (\<lambda>k cb d ty. on_impl (impl_create alloc cb d ty) k) (\<lambda>k i. on_impl (impl_detach i) k)
    impls_attached (list_all impl_inv)"
proof
  fix w w' :: "'a attach_impl list" and k cb d ty i
  assume w: "list_all impl_inv w" and c: "on_impl (impl_create alloc cb d ty) k w = (Inr i, w')"
  from c obtain impl' where k: "k < length w" and r: "impl_create alloc cb d ty (w ! k) = (Inr i, impl')" and w': "w' = w[k := impl']"
    by (auto simp: on_impl_def Let_def split: if_splits prod.splits)
  have "impl_inv (w ! k)" using w k by (simp add: list_all_length)
  from impl_create_ok [OF assms this r] show "list_all impl_inv w' \<and> impls_attached w (k, i) = None \<and>
      impls_attached w' = (impls_attached w)((k, i) \<mapsto> (cb, d, ty))"
    using w k unfolding w' by (auto simp: list_all_length nth_list_update impls_attached_def fun_eq_iff)
next
  fix w w' :: "'a attach_impl list" and k cb d ty f
  assume "on_impl (impl_create alloc cb d ty) k w = (Inl f, w')"
  then show "w' = w" by (auto simp: on_impl_def Let_def split: if_splits prod.splits dest: impl_create_fail)
next
  fix w :: "'a attach_impl list" and k i x
  assume w: "list_all impl_inv w" and a: "impls_attached w (k, i) = Some x"
  then have k: "k < length w" "impl_attached (w ! k) i = Some x" by (auto simp: impls_attached_def split: if_splits)
  moreover have "impl_inv (w ! k)" using w k by (simp add: list_all_length)
  ultimately obtain impl' where "impl_detach i (w ! k) = (Inr 0, impl')" "impl_inv impl'"
    "impl_attached impl' = (impl_attached (w ! k))(i := None)" using impl_detach_ok by blast
  with w k show "\<exists>w'. on_impl (impl_detach i) k w = (Inr 0, w') \<and> list_all impl_inv w' \<and>
      impls_attached w' = (impls_attached w)((k, i) := None)"
    by (auto simp: on_impl_def list_all_length nth_list_update impls_attached_def fun_eq_iff)
qed

text \<open>An allocator that never uses an address twice, and the contract with it.\<close>

definition next_address :: "(nat \<rightharpoonup> 's trace_entry) \<Rightarrow> nat" where
  "next_address h = (if dom h = {} then 8 else Max (dom h) + 8)"

lemma next_address_fresh: "fresh_addresses next_address"
  unfolding fresh_addresses_def
proof (intro allI impI)
  fix h :: "nat \<rightharpoonup> 'a trace_entry"
  assume "finite (dom h)"
  then have "x \<le> Max (dom h)" if "x \<in> dom h" for x using that by simp
  then show "h (next_address h) = None" by (fastforce simp: next_address_def)
qed

interpretation impls: attach_impls "\<lambda>k cb d ty. on_impl (impl_create next_address cb d ty) k" "\<lambda>k i. on_impl (impl_detach i) k"
    impls_attached "list_all impl_inv"
  by (rule impls_contract [OF next_address_fresh])

end
