(* ===== verification/Attach_Ctx.thy ===== *)
theory Attach_Ctx
  imports Shm Attach_Impl
begin

text \<open>
  \<open>bpf_attach_ctx\<close> (\<open>runtime/src/attach/bpf_attach_ctx.cpp\<close>), built without the GPU: it turns the
  handlers of the table into loaded programs, parsed attach targets and attached links.  Loading a
  program into the virtual machine, parsing an attach target and the attach implementations are
  parameters.  A program object has an identity: replacing it in the table destroys it.
\<close>

section \<open>State and parameters\<close>

record prog_object =
  po_id :: nat
  po_prog :: prog_handler

record ('c, 'd, 'w) attach_env =
  ae_load :: "prog_handler \<Rightarrow> unit res"
  ae_private_data :: "nat \<Rightarrow> string \<Rightarrow> 'd res"
  ae_callback :: "prog_object \<Rightarrow> nat option \<Rightarrow> 'c"
  ae_create :: "nat \<Rightarrow> 'c \<Rightarrow> 'd \<Rightarrow> int \<Rightarrow> 'w \<Rightarrow> int res \<times> 'w"
  ae_detach :: "nat \<Rightarrow> int \<Rightarrow> 'w \<Rightarrow> int res \<times> 'w"

record ('d, 'w) attach_ctx =
  ac_progs :: "int \<rightharpoonup> prog_object"
  ac_next_object :: nat
  ac_links :: "int \<rightharpoonup> int \<times> nat"
  ac_perf_events :: "int \<rightharpoonup> 'd option \<times> int"
  ac_impls :: "int \<rightharpoonup> nat"
  ac_handlers :: "int set"
  ac_world :: 'w

definition new_attach_ctx :: "'w \<Rightarrow> ('d, 'w) attach_ctx" where
  "new_attach_ctx w =
     \<lparr>ac_progs = Map.empty, ac_next_object = 0, ac_links = Map.empty, ac_perf_events = Map.empty, ac_impls = Map.empty,
      ac_handlers = {}, ac_world = w\<rparr>"

text \<open>Registering an implementation: it is appended to the holders, and serves the given types.\<close>

definition register_attach_impl :: "int list \<Rightarrow> 'i \<Rightarrow> ('d, 'i list) attach_ctx \<Rightarrow> ('d, 'i list) attach_ctx" where
  "register_attach_impl attach_types impl c =
     c\<lparr>ac_world := ac_world c @ [impl],
       ac_impls := fold (\<lambda>ty m. m(ty \<mapsto> length (ac_world c))) attach_types (ac_impls c)\<rparr>"

section \<open>Instantiating one handler\<close>

definition instantiate_prog_handler_at ::
  "('c, 'd, 'w) attach_env \<Rightarrow> int \<Rightarrow> prog_handler \<Rightarrow> ('d, 'w) attach_ctx \<Rightarrow> unit res \<times> ('d, 'w) attach_ctx" where
  "instantiate_prog_handler_at E i p c =
     (let c = c\<lparr>ac_progs := (ac_progs c)(i \<mapsto> \<lparr>po_id = ac_next_object c, po_prog = p\<rparr>), ac_next_object := ac_next_object c + 1\<rparr>
      in case ae_load E p of
           Inl f \<Rightarrow> (Inl f, c)
         | Inr _ \<Rightarrow> (Inr (), c\<lparr>ac_handlers := insert i (ac_handlers c)\<rparr>))"

definition show_int :: "int \<Rightarrow> string" where
  "show_int n = (if n < 0 then CHR ''-'' # show_base 10 (nat (- n)) else show_base 10 (nat n))"

text \<open>The text of an attach target; reading another alternative of the variant throws.\<close>

definition perf_argument :: "perf_handler \<Rightarrow> string res" where
  "perf_argument q =
     (if pe_type q \<in> {BPF_TYPE_UPROBE_OVERRIDE, BPF_TYPE_UPROBE, BPF_TYPE_URETPROBE, BPF_TYPE_UREPLACE} then
        (case pe_data q of
           UprobeData offset pid ref_ctr_off module_name \<Rightarrow> Inr (module_name @ CHR '':'' # show_base 10 offset)
         | _ \<Rightarrow> Inl Throw)
      else if pe_type q = PERF_TYPE_TRACEPOINT then
        (case pe_data q of TracepointData pid tracepoint_id \<Rightarrow> Inr (show_int tracepoint_id) | _ \<Rightarrow> Inl Throw)
      else if pe_type q = BPF_TYPE_KPROBE \<or> pe_type q = BPF_TYPE_KRETPROBE then
        (case pe_data q of
           KprobeData func_name addr ref_ctr_off \<Rightarrow> Inr (takeWhile (\<lambda>ch. ch \<noteq> char_of (0::nat)) func_name)
         | _ \<Rightarrow> Inl Throw)
      else (case pe_data q of CustomData attach_argument \<Rightarrow> Inr attach_argument | _ \<Rightarrow> Inl Throw))"

definition instantiate_perf_event_handler_at ::
  "('c, 'd, 'w) attach_env \<Rightarrow> int \<Rightarrow> perf_handler \<Rightarrow> ('d, 'w) attach_ctx \<Rightarrow> unit res \<times> ('d, 'w) attach_ctx" where
  "instantiate_perf_event_handler_at E i q c =
     (if pe_type q = PERF_TYPE_SOFTWARE then (Inr (), c)
      else case ac_impls c (pe_type q) of
        None \<Rightarrow> (Inl (RetNeg ENOENT), c)
      | Some k \<Rightarrow>
          (case bind_res (perf_argument q) (ae_private_data E k) of
             Inl f \<Rightarrow> (Inl f, c)
           | Inr d \<Rightarrow>
               (Inr (), c\<lparr>ac_handlers := insert i (ac_handlers c),
                          ac_perf_events := (ac_perf_events c)(i \<mapsto> (Some d, pe_type q))\<rparr>)))"

text \<open>
  The subscript of the map of perf events creates an entry, with a null pointer and type 0, for a
  target that has none; \<open>at\<close> throws for a program that has none.
\<close>

definition instantiate_bpf_link_handler_at ::
  "('c, 'd, 'w) attach_env \<Rightarrow> int \<Rightarrow> link_handler \<Rightarrow> ('d, 'w) attach_ctx \<Rightarrow> unit res \<times> ('d, 'w) attach_ctx" where
  "instantiate_bpf_link_handler_at E i l c =
     (let (priv_data, attach_type) =
            (case ac_perf_events c (lk_attach_target_id l) of None \<Rightarrow> (None, 0) | Some x \<Rightarrow> x);
          c = c\<lparr>ac_perf_events := (ac_perf_events c)(lk_attach_target_id l \<mapsto> (priv_data, attach_type))\<rparr>
      in case ac_impls c attach_type of
           None \<Rightarrow> (Inl (RetNeg ENOTSUP), c)
         | Some k \<Rightarrow>
             (case ac_progs c (lk_prog_id l) of
                None \<Rightarrow> (Inl Throw, c)
              | Some prog \<Rightarrow>
                  (case priv_data of
                     None \<Rightarrow> (Inl Fault, c)
                   | Some d \<Rightarrow>
                       (case ae_create E k (ae_callback E prog (lk_attach_cookie l)) d attach_type (ac_world c) of
                          (Inl f, w) \<Rightarrow> (Inl f, c\<lparr>ac_world := w\<rparr>)
                        | (Inr attach_id, w) \<Rightarrow>
                            (Inr (), c\<lparr>ac_world := w, ac_links := (ac_links c)(i \<mapsto> (attach_id, k)),
                                       ac_handlers := insert i (ac_handlers c)\<rparr>)))))"

section \<open>Instantiating a handler and what it needs\<close>

text \<open>\<open>stk\<close> is the set of handlers being instantiated; a failure leaves it as it is.\<close>

function instantiate_handler_at ::
  "('c, 'd, 'w) attach_env \<Rightarrow> ('p, 'l, 's) handlers \<Rightarrow> int \<Rightarrow> int set \<Rightarrow> ('d, 'w) attach_ctx \<Rightarrow>
     unit res \<times> int set \<times> ('d, 'w) attach_ctx" where
  "instantiate_handler_at E hs i stk c =
     (if i \<in> ac_handlers c then (Inr (), stk, c)
      else if i \<in> stk then (Inl RetFail, stk, c)
      else
        let (r, stk, c) =
          (case get_handler hs i of
             Inl f \<Rightarrow> (Inl f, insert i stk, c)
           | Inr (Prog p) \<Rightarrow> (case instantiate_prog_handler_at E i p c of (r, c) \<Rightarrow> (r, insert i stk, c))
           | Inr (Perf q) \<Rightarrow> (case instantiate_perf_event_handler_at E i q c of (r, c) \<Rightarrow> (r, insert i stk, c))
           | Inr (Link l) \<Rightarrow>
               (case instantiate_handler_at E hs (lk_prog_id l) (insert i stk) c of
                  (Inl f, stk, c) \<Rightarrow> (Inl f, stk, c)
                | (Inr _, stk, c) \<Rightarrow>
                    (case instantiate_handler_at E hs (lk_attach_target_id l) stk c of
                       (Inl f, stk, c) \<Rightarrow> (Inl f, stk, c)
                     | (Inr _, stk, c) \<Rightarrow> (case instantiate_bpf_link_handler_at E i l c of (r, c) \<Rightarrow> (r, stk, c))))
           | Inr _ \<Rightarrow> (Inr (), insert i stk, c))
        in case r of Inl f \<Rightarrow> (Inl f, stk, c) | Inr _ \<Rightarrow> (Inr (), stk - {i}, c))"
  by pat_completeness auto

text \<open>A call that succeeds gives the set back, so the nested calls start from larger and larger sets.\<close>

lemma instantiate_keeps_stk:
  assumes "instantiate_handler_at_dom (E, hs, i, stk, c)" and "instantiate_handler_at E hs i stk c = (Inr u, stk', c')"
  shows "stk' = stk"
  using assms
proof (induction arbitrary: u stk' c' rule: instantiate_handler_at.pinduct)
  case (1 E hs i stk c)
  show ?case
    using 1(4) 1(2,3) unfolding instantiate_handler_at.psimps [OF 1(1)]
    by (fastforce split: if_splits sum.splits handler_variant.splits prod.splits)
qed

lemma pending_decreases:
  assumes "get_handler hs i = Inr v" and "i \<notin> stk"
  shows "card ({0..<int (length hs)} - insert i stk) < card ({0..<int (length hs)} - stk)"
proof -
  have "i \<in> {0..<int (length hs)} - stk"
    using assms by (auto simp: get_handler_def fd_in_range_def split: if_splits)
  then have "card ({0..<int (length hs)} - stk - {i}) < card ({0..<int (length hs)} - stk)"
    by (intro card_Diff1_less) simp_all
  then show ?thesis unfolding Diff_insert [of "{0..<int (length hs)}" i stk] .
qed

lemma instantiate_total: "All instantiate_handler_at_dom"
proof (relation "measure (\<lambda>(E, hs, i, stk, c). card ({0..<int (length hs)} - stk))", goal_cases)
  case (2 E hs i stk c v l)
  then show ?case by (simp add: pending_decreases)
next
  case (3 E hs i stk c v l r y u stk' c')
  then have "instantiate_handler_at E hs (lk_prog_id l) (insert i stk) c = (Inr u, stk', c')" by simp
  with 3(8) have "stk' = insert i stk" by (rule instantiate_keeps_stk)
  with 3(1-4) show ?case by (simp add: pending_decreases)
qed simp

termination instantiate_handler_at
  by (rule instantiate_total)

declare instantiate_handler_at.simps [simp del]

lemma instantiate_stk: "instantiate_handler_at E hs i stk c = (Inr u, stk', c') \<Longrightarrow> stk' = stk"
  by (rule instantiate_keeps_stk [OF spec [OF instantiate_total]])

section \<open>All handlers of the table\<close>

text \<open>An error is logged and the loop goes on; an exception ends it.\<close>

definition abrupt :: "unit res \<Rightarrow> bool" where
  "abrupt r \<longleftrightarrow> r = Inl Throw \<or> r = Inl Fault"

fun instantiate_all ::
  "('c, 'd, 'w) attach_env \<Rightarrow> ('p, 'l, 's) handlers \<Rightarrow> int list \<Rightarrow> ('d, 'w) attach_ctx \<Rightarrow> unit res \<times> ('d, 'w) attach_ctx" where
  "instantiate_all E hs [] c = (Inr (), c)"
| "instantiate_all E hs (i # is) c =
     (if is_allocated hs i then
        case instantiate_handler_at E hs i {} c of
          (r, stk, c) \<Rightarrow> if abrupt r then (r, c) else instantiate_all E hs is c
      else instantiate_all E hs is c)"

text \<open>The second pass is the one that also handles links of the GPU.\<close>

definition init_attach_ctx_from_handlers ::
  "('c, 'd, 'w) attach_env \<Rightarrow> ('p, 'l, 's) handlers \<Rightarrow> ('d, 'w) attach_ctx \<Rightarrow> unit res \<times> ('d, 'w) attach_ctx" where
  "init_attach_ctx_from_handlers E hs c =
     (case instantiate_all E hs (map int [0..<length hs]) c of
        (Inl f, c) \<Rightarrow> (Inl f, c)
      | (Inr _, c) \<Rightarrow> instantiate_all E hs (map int [0..<length hs]) c)"

section \<open>Destroying links\<close>

definition destroy_instantiated_attach_link ::
  "('c, 'd, 'w) attach_env \<Rightarrow> int \<Rightarrow> ('d, 'w) attach_ctx \<Rightarrow> int res \<times> ('d, 'w) attach_ctx" where
  "destroy_instantiated_attach_link E link_id c =
     (case ac_links c link_id of
        None \<Rightarrow> (Inl (RetNeg ENOENT), c)
      | Some (attach_id, k) \<Rightarrow>
          (case ae_detach E k attach_id (ac_world c) of
             (Inl f, w) \<Rightarrow> (Inl f, c\<lparr>ac_world := w\<rparr>)
           | (Inr _, w) \<Rightarrow> (Inr 0, c\<lparr>ac_world := w, ac_links := (ac_links c)(link_id := None)\<rparr>)))"

fun destroy_links ::
  "('c, 'd, 'w) attach_env \<Rightarrow> int list \<Rightarrow> ('d, 'w) attach_ctx \<Rightarrow> int res \<times> ('d, 'w) attach_ctx" where
  "destroy_links E [] c = (Inr 0, c)"
| "destroy_links E (k # ks) c =
     (case destroy_instantiated_attach_link E k c of (Inl f, c) \<Rightarrow> (Inl f, c) | (Inr _, c) \<Rightarrow> destroy_links E ks c)"

definition destroy_all_attach_links ::
  "('c, 'd, 'w) attach_env \<Rightarrow> ('d, 'w) attach_ctx \<Rightarrow> int res \<times> ('d, 'w) attach_ctx" where
  "destroy_all_attach_links E c = destroy_links E (sorted_list_of_set (dom (ac_links c))) c"

section \<open>The invariant of the context\<close>

text \<open>
  The instantiated links and what is attached correspond one to one; each attached callback runs the
  program object that is in the table for the link's program, so it is alive.
\<close>

definition links_attached ::
  "('c, 'd, 'w) attach_env \<Rightarrow> ('w \<Rightarrow> nat \<times> int \<rightharpoonup> 'c \<times> 'd \<times> int) \<Rightarrow> ('p, 'l, 's) handlers \<Rightarrow> ('d, 'w) attach_ctx \<Rightarrow> bool" where
  "links_attached E attached hs c \<longleftrightarrow>
     inj_on (ac_links c) (dom (ac_links c)) \<and> prod.swap ` ran (ac_links c) = dom (attached (ac_world c)) \<and>
     (\<forall>n i k. ac_links c n = Some (i, k) \<longrightarrow>
        (\<exists>l prog d ty. get_handler hs n = Inr (Link l) \<and> lk_prog_id l \<in> ac_handlers c \<and> lk_attach_target_id l \<in> ac_handlers c \<and>
           ac_progs c (lk_prog_id l) = Some prog \<and> ac_perf_events c (lk_attach_target_id l) = Some (Some d, ty) \<and>
           attached (ac_world c) (k, i) = Some (ae_callback E prog (lk_attach_cookie l), d, ty)))"

definition target_data :: "('c, 'd, 'w) attach_env \<Rightarrow> (int \<rightharpoonup> nat) \<Rightarrow> perf_handler \<Rightarrow> (nat \<times> 'd) res" where
  "target_data E impls q =
     (if pe_type q = PERF_TYPE_SOFTWARE then Inl (RetNeg ENOTSUP)
      else case impls (pe_type q) of
        None \<Rightarrow> Inl (RetNeg ENOENT)
      | Some k \<Rightarrow> bind_res (bind_res (perf_argument q) (ae_private_data E k)) (\<lambda>d. Inr (k, d)))"

definition handler_done :: "('c, 'd, 'w) attach_env \<Rightarrow> ('p, 'l, 's) handlers \<Rightarrow> ('d, 'w) attach_ctx \<Rightarrow> int \<Rightarrow> bool" where
  "handler_done E hs c n =
     (case get_handler hs n of
        Inr (Prog p) \<Rightarrow> ae_load E p = Inr () \<and> (\<exists>j. ac_progs c n = Some \<lparr>po_id = j, po_prog = p\<rparr>)
      | Inr (Perf q) \<Rightarrow> (\<exists>k d. target_data E (ac_impls c) q = Inr (k, d) \<and> ac_perf_events c n = Some (Some d, pe_type q))
      | Inr (Link l) \<Rightarrow> ac_links c n \<noteq> None
      | _ \<Rightarrow> False)"

text \<open>Attach type 0 is not registered: it is the type of a target that has no data.\<close>

definition ctx_ok ::
  "('c, 'd, 'w) attach_env \<Rightarrow> ('w \<Rightarrow> nat \<times> int \<rightharpoonup> 'c \<times> 'd \<times> int) \<Rightarrow> ('w \<Rightarrow> bool) \<Rightarrow> ('p, 'l, 's) handlers \<Rightarrow>
     ('d, 'w) attach_ctx \<Rightarrow> bool" where
  "ctx_ok E attached good hs c \<longleftrightarrow>
     good (ac_world c) \<and> ac_impls c 0 = None \<and> links_attached E attached hs c \<and>
     (\<forall>n \<in> ac_handlers c. handler_done E hs c n) \<and>
     (\<forall>n. n \<notin> ac_handlers c \<longrightarrow> ac_links c n = None \<and> ac_perf_events c n \<in> {None, Some (None, 0)})"

text \<open>What a step leaves: handlers stay instantiated, and the registered types are the same.\<close>

definition grows :: "('d, 'w) attach_ctx \<Rightarrow> ('d, 'w) attach_ctx \<Rightarrow> bool" where
  "grows c c' \<longleftrightarrow> ac_handlers c \<subseteq> ac_handlers c' \<and> ac_impls c' = ac_impls c"

lemma grows_refl [simp]: "grows c c"
  by (simp add: grows_def)

lemma grows_trans: "grows c c' \<Longrightarrow> grows c' c'' \<Longrightarrow> grows c c''"
  by (auto simp: grows_def)

definition abrupt_fail :: "fail \<Rightarrow> bool" where
  "abrupt_fail f \<longleftrightarrow> f = Throw \<or> f = Fault"

lemma abrupt_simps [simp]: "\<not> abrupt (Inr u)" "abrupt (Inl f) = abrupt_fail f"
  by (auto simp: abrupt_def abrupt_fail_def)

lemma links_attachedD:
  assumes "links_attached E attached hs c" and "ac_links c n = Some (i, k)"
  obtains l prog d ty where "get_handler hs n = Inr (Link l)" "lk_prog_id l \<in> ac_handlers c"
    "lk_attach_target_id l \<in> ac_handlers c" "ac_progs c (lk_prog_id l) = Some prog"
    "ac_perf_events c (lk_attach_target_id l) = Some (Some d, ty)"
    "attached (ac_world c) (k, i) = Some (ae_callback E prog (lk_attach_cookie l), d, ty)"
  using assms(1) [unfolded links_attached_def, THEN conjunct2, THEN conjunct2, rule_format, OF assms(2)] by (elim exE conjE)

lemma links_attached_cong:
  assumes "links_attached E attached hs c" and "ac_links c' = ac_links c" and "ac_world c' = ac_world c"
    and "ac_handlers c \<subseteq> ac_handlers c'"
    and "\<And>n. n \<in> ac_handlers c \<Longrightarrow> ac_progs c' n = ac_progs c n \<and> ac_perf_events c' n = ac_perf_events c n"
  shows "links_attached E attached hs c'"
  unfolding links_attached_def assms(2,3)
proof (intro conjI allI impI)
  show "inj_on (ac_links c) (dom (ac_links c))" "prod.swap ` ran (ac_links c) = dom (attached (ac_world c))"
    using assms(1) by (simp_all add: links_attached_def)
next
  fix n i k
  assume "ac_links c n = Some (i, k)"
  with assms(1) obtain l prog d ty where l: "get_handler hs n = Inr (Link l)" "lk_prog_id l \<in> ac_handlers c"
      "lk_attach_target_id l \<in> ac_handlers c" "ac_progs c (lk_prog_id l) = Some prog"
      "ac_perf_events c (lk_attach_target_id l) = Some (Some d, ty)"
      "attached (ac_world c) (k, i) = Some (ae_callback E prog (lk_attach_cookie l), d, ty)"
    by (rule links_attachedD)
  then show "\<exists>l prog d ty. get_handler hs n = Inr (Link l) \<and> lk_prog_id l \<in> ac_handlers c' \<and>
      lk_attach_target_id l \<in> ac_handlers c' \<and> ac_progs c' (lk_prog_id l) = Some prog \<and>
      ac_perf_events c' (lk_attach_target_id l) = Some (Some d, ty) \<and>
      attached (ac_world c) (k, i) = Some (ae_callback E prog (lk_attach_cookie l), d, ty)"
    using subsetD [OF assms(4) l(2)] subsetD [OF assms(4) l(3)] assms(5) [OF l(2)] assms(5) [OF l(3)]
    by (intro exI [of _ l] exI [of _ prog] exI [of _ d] exI [of _ ty]) simp
qed

lemma handler_done_cong:
  assumes "handler_done E hs c n" and "ac_impls c' = ac_impls c" and "ac_progs c' n = ac_progs c n"
    and "ac_perf_events c' n = ac_perf_events c n" and "ac_links c n \<noteq> None \<Longrightarrow> ac_links c' n \<noteq> None"
  shows "handler_done E hs c' n"
  using assms by (auto simp: handler_done_def split: sum.splits handler_variant.splits)

lemma instantiate_prog_ok:
  assumes ok: "ctx_ok E attached good hs c" and n: "n \<notin> ac_handlers c" and h: "get_handler hs n = Inr (Prog p)"
    and r: "instantiate_prog_handler_at E n p c = (r, c')"
  shows "ctx_ok E attached good hs c'" and "grows c c'" and "r = ae_load E p" and "r = Inr () \<Longrightarrow> n \<in> ac_handlers c'"
proof -
  let ?d = "c\<lparr>ac_progs := (ac_progs c)(n \<mapsto> \<lparr>po_id = ac_next_object c, po_prog = p\<rparr>), ac_next_object := ac_next_object c + 1\<rparr>"
  have d: "ctx_ok E attached good hs ?d"
  proof -
    have "links_attached E attached hs ?d"
      by (rule links_attached_cong [where c = c]) (use ok n in \<open>auto simp: ctx_ok_def\<close>)
    moreover have "handler_done E hs ?d x" if "x \<in> ac_handlers c" for x
      by (rule handler_done_cong [where c = c]) (use ok n that in \<open>auto simp: ctx_ok_def\<close>)
    ultimately show ?thesis using ok by (simp add: ctx_ok_def)
  qed
  show "ctx_ok E attached good hs c'"
  proof (cases "ae_load E p")
    case (Inl f)
    then show ?thesis using r d by (simp add: instantiate_prog_handler_at_def Let_def)
  next
    case (Inr u)
    let ?e = "?d\<lparr>ac_handlers := insert n (ac_handlers ?d)\<rparr>"
    have c': "c' = ?e" using r Inr by (simp add: instantiate_prog_handler_at_def Let_def)
    have "links_attached E attached hs ?e"
      by (rule links_attached_cong [where c = ?d]) (use d in \<open>auto simp: ctx_ok_def\<close>)
    moreover have "handler_done E hs ?e x" if "x \<in> ac_handlers c" for x
      by (rule handler_done_cong [where c = ?d]) (use d that in \<open>auto simp: ctx_ok_def\<close>)
    moreover have "handler_done E hs ?e n" using h Inr by (simp add: handler_done_def)
    ultimately show ?thesis using d unfolding c' by (simp add: ctx_ok_def)
  qed
  show "grows c c'" "r = ae_load E p" "r = Inr () \<Longrightarrow> n \<in> ac_handlers c'"
    using r by (auto simp: instantiate_prog_handler_at_def grows_def Let_def split: sum.splits)
qed

lemma instantiate_perf_ok:
  assumes ok: "ctx_ok E attached good hs c" and n: "n \<notin> ac_handlers c" and h: "get_handler hs n = Inr (Perf q)"
    and r: "instantiate_perf_event_handler_at E n q c = (r, c')"
  shows "ctx_ok E attached good hs c'" and "grows c c'" and "r = Inr () \<Longrightarrow> n \<in> ac_handlers c' \<or> pe_type q = PERF_TYPE_SOFTWARE"
    and "target_data E (ac_impls c) q = Inr x \<Longrightarrow> r = Inr ()" and "r = Inl f \<Longrightarrow> target_data E (ac_impls c) q = Inl f"
proof -
  consider (same) "c' = c" "r = Inr () \<longrightarrow> pe_type q = PERF_TYPE_SOFTWARE"
    | (added) k d where "target_data E (ac_impls c) q = Inr (k, d)" "r = Inr ()"
        "c' = c\<lparr>ac_handlers := insert n (ac_handlers c), ac_perf_events := (ac_perf_events c)(n \<mapsto> (Some d, pe_type q))\<rparr>"
    using r by (auto simp: instantiate_perf_event_handler_at_def target_data_def split: if_splits option.splits sum.splits)
  then show "ctx_ok E attached good hs c'" and "grows c c'"
    and "r = Inr () \<Longrightarrow> n \<in> ac_handlers c' \<or> pe_type q = PERF_TYPE_SOFTWARE"
  proof (atomize (full), cases)
    case same
    with ok show "ctx_ok E attached good hs c' \<and> grows c c' \<and> (r = Inr () \<longrightarrow> n \<in> ac_handlers c' \<or> pe_type q = PERF_TYPE_SOFTWARE)"
      by simp
  next
    case (added k d)
    have "links_attached E attached hs c'"
      by (rule links_attached_cong [where c = c]) (use ok n added(3) in \<open>auto simp: ctx_ok_def\<close>)
    moreover have "handler_done E hs c' y" if "y \<in> ac_handlers c" for y
      by (rule handler_done_cong [where c = c]) (use ok n added(3) that in \<open>auto simp: ctx_ok_def\<close>)
    moreover have "handler_done E hs c' n" using h added(1) by (simp add: handler_done_def added(3))
    ultimately show "ctx_ok E attached good hs c' \<and> grows c c' \<and> (r = Inr () \<longrightarrow> n \<in> ac_handlers c' \<or> pe_type q = PERF_TYPE_SOFTWARE)"
      using ok added(3) by (simp add: ctx_ok_def grows_def subset_insertI)
  qed
  show "target_data E (ac_impls c) q = Inr x \<Longrightarrow> r = Inr ()" and "r = Inl f \<Longrightarrow> target_data E (ac_impls c) q = Inl f"
    using r by (auto simp: instantiate_perf_event_handler_at_def target_data_def split: if_splits option.splits sum.splits)
qed

lemma get_handler_set: "get_handler hs n = Inr v \<Longrightarrow> v \<in> set hs"
  by (auto simp: get_handler_def fd_in_range_def split: if_splits)

lemma instantiate_leaf_handlers:
  assumes "get_handler hs n = Inr v" and "is_prog_variant v \<or> is_perf_variant v"
    and "instantiate_handler_at E hs n stk c = (r, stk', c')"
  shows "ac_handlers c' \<subseteq> insert n (ac_handlers c)"
  using assms
  by (subst (asm) instantiate_handler_at.simps)
    (auto simp: instantiate_prog_handler_at_def instantiate_perf_event_handler_at_def Let_def
      split: if_splits sum.splits option.splits handler_variant.splits prod.splits)

section \<open>The context on top of the contract\<close>

text \<open>
  A context relies on implementations that keep the contract, and on loading and creating not to
  throw for the implementations in \<open>registered\<close>.
\<close>

locale attach_context = attach_impls "ae_create E" "ae_detach E" attached good
  for E :: "('c, 'd, 'w) attach_env" and attached :: "'w \<Rightarrow> nat \<times> int \<rightharpoonup> 'c \<times> 'd \<times> int" and good :: "'w \<Rightarrow> bool" +
  fixes registered :: "nat set"
  assumes load_calm: "ae_load E p = Inl f \<Longrightarrow> \<not> abrupt_fail f"
    and create_calm: "good w \<Longrightarrow> k \<in> registered \<Longrightarrow> ae_create E k cb d ty w = (Inl f, w') \<Longrightarrow> \<not> abrupt_fail f"
begin

lemma link_attached_ok:
  assumes ok: "ctx_ok E attached good hs c" and n: "n \<notin> ac_handlers c" and h: "get_handler hs n = Inr (Link l)"
    and lp: "lk_prog_id l \<in> ac_handlers c" "ac_progs c (lk_prog_id l) = Some prog"
    and lt: "lk_attach_target_id l \<in> ac_handlers c" "ac_perf_events c (lk_attach_target_id l) = Some (Some d, ty)"
    and cr: "ae_create E k (ae_callback E prog (lk_attach_cookie l)) d ty (ac_world c) = (Inr i, w)"
    and c': "c' = c\<lparr>ac_world := w, ac_links := (ac_links c)(n \<mapsto> (i, k)), ac_handlers := insert n (ac_handlers c)\<rparr>"
  shows "ctx_ok E attached good hs c'"
proof -
  have good: "good (ac_world c)" and la: "links_attached E attached hs c" and ln: "ac_links c n = None"
    using ok n by (simp_all add: ctx_ok_def)
  note w = create_ok [OF good cr]
  have dom: "prod.swap ` ran (ac_links c) = dom (attached (ac_world c))" and inj: "inj_on (ac_links c) (dom (ac_links c))"
    using la by (simp_all only: links_attached_def)
  have fresh: "(i, k) \<notin> ran (ac_links c)"
  proof
    assume "(i, k) \<in> ran (ac_links c)"
    then have "(k, i) \<in> prod.swap ` ran (ac_links c)" by (metis image_eqI swap_simp)
    then show False unfolding dom using w by (simp add: domIff)
  qed
  have "links_attached E attached hs c'"
    unfolding links_attached_def
  proof (intro conjI allI impI)
    show "inj_on (ac_links c') (dom (ac_links c'))"
      using inj fresh ln by (auto simp: c' inj_on_def ran_def dom_def)
    show "prod.swap ` ran (ac_links c') = dom (attached (ac_world c'))"
      using dom w ln by (simp add: c')
  next
    fix m j k'
    assume m: "ac_links c' m = Some (j, k')"
    show "\<exists>l prog d ty. get_handler hs m = Inr (Link l) \<and> lk_prog_id l \<in> ac_handlers c' \<and> lk_attach_target_id l \<in> ac_handlers c' \<and>
           ac_progs c' (lk_prog_id l) = Some prog \<and> ac_perf_events c' (lk_attach_target_id l) = Some (Some d, ty) \<and>
           attached (ac_world c') (k', j) = Some (ae_callback E prog (lk_attach_cookie l), d, ty)"
    proof (cases "m = n")
      case True
      with m h lp lt w show ?thesis by (simp add: c')
    next
      case False
      with m have "ac_links c m = Some (j, k')" by (simp add: c')
      with la obtain l prog d ty where "get_handler hs m = Inr (Link l)" "lk_prog_id l \<in> ac_handlers c"
          "lk_attach_target_id l \<in> ac_handlers c" "ac_progs c (lk_prog_id l) = Some prog"
          "ac_perf_events c (lk_attach_target_id l) = Some (Some d, ty)"
          and a: "attached (ac_world c) (k', j) = Some (ae_callback E prog (lk_attach_cookie l), d, ty)"
        by (rule links_attachedD)
      moreover have "(k', j) \<noteq> (k, i)" using a w by auto
      ultimately show ?thesis using w
        by (intro exI [of _ l] exI [of _ prog] exI [of _ d] exI [of _ ty]) (auto simp: c')
    qed
  qed
  moreover have "handler_done E hs c' m" if "m \<in> ac_handlers c" for m
    by (rule handler_done_cong [where c = c]) (use ok n that in \<open>auto simp: ctx_ok_def c'\<close>)
  moreover have "handler_done E hs c' n" using h by (simp add: handler_done_def c')
  ultimately show ?thesis using ok w by (simp add: ctx_ok_def c')
qed

text \<open>A target that the implementation accepts, whatever is attached.\<close>

definition accepted :: "(int \<rightharpoonup> nat) \<Rightarrow> perf_handler \<Rightarrow> bool" where
  "accepted impls q \<longleftrightarrow>
     (\<exists>k d. target_data E impls q = Inr (k, d) \<and>
        (\<forall>cb w. good w \<longrightarrow> (\<exists>i w'. ae_create E k cb d (pe_type q) w = (Inr i, w'))))"

lemma instantiate_link_ok:
  assumes ok: "ctx_ok E attached good hs c" and n: "n \<notin> ac_handlers c" and h: "get_handler hs n = Inr (Link l)"
    and lp: "lk_prog_id l \<in> ac_handlers c" "get_handler hs (lk_prog_id l) = Inr (Prog p)"
    and lt: "lk_attach_target_id l \<in> ac_handlers c \<or> pe_type q = PERF_TYPE_SOFTWARE"
      "get_handler hs (lk_attach_target_id l) = Inr (Perf q)"
    and reg: "ran (ac_impls c) \<subseteq> registered"
    and r: "instantiate_bpf_link_handler_at E n l c = (r, c')"
  shows "ctx_ok E attached good hs c' \<and> grows c c' \<and> \<not> abrupt r \<and> (r = Inr () \<longrightarrow> n \<in> ac_handlers c') \<and>
    (accepted (ac_impls c) q \<longrightarrow> r = Inr ())"
proof (cases "lk_attach_target_id l \<in> ac_handlers c")
  case False
  let ?t = "lk_attach_target_id l"
  let ?c = "c\<lparr>ac_perf_events := (ac_perf_events c)(?t \<mapsto> (None, 0))\<rparr>"
  have "ac_impls c 0 = None" "ac_perf_events c ?t \<in> {None, Some (None, 0)}" using ok False by (simp_all add: ctx_ok_def)
  with r have c': "c' = ?c" "r = Inl (RetNeg ENOTSUP)"
    by (auto simp: instantiate_bpf_link_handler_at_def Let_def)
  have "links_attached E attached hs ?c"
    by (rule links_attached_cong [where c = c]) (use ok False in \<open>auto simp: ctx_ok_def\<close>)
  moreover have "handler_done E hs ?c m" if "m \<in> ac_handlers c" for m
    by (rule handler_done_cong [where c = c]) (use ok False that in \<open>auto simp: ctx_ok_def\<close>)
  ultimately have "ctx_ok E attached good hs c'" using ok unfolding c' by (simp add: ctx_ok_def)
  moreover have "\<not> accepted (ac_impls c) q" using lt False by (simp add: accepted_def target_data_def)
  ultimately show ?thesis by (simp add: c' grows_def abrupt_fail_def)
next
  case True
  have "handler_done E hs c (lk_attach_target_id l)" "handler_done E hs c (lk_prog_id l)" using ok True lp(1) by (simp_all add: ctx_ok_def)
  then obtain k d prog where td: "target_data E (ac_impls c) q = Inr (k, d)"
    and pe: "ac_perf_events c (lk_attach_target_id l) = Some (Some d, pe_type q)" and pr: "ac_progs c (lk_prog_id l) = Some prog"
    using lt(2) lp(2) by (auto simp: handler_done_def)
  have k: "ac_impls c (pe_type q) = Some k"
    using td by (auto simp: target_data_def bind_res_eq_Inr split: if_splits option.splits)
  have same: "c\<lparr>ac_perf_events := (ac_perf_events c)(lk_attach_target_id l \<mapsto> (Some d, pe_type q))\<rparr> = c"
    using pe by (simp add: fun_upd_idem)
  have good: "good (ac_world c)" using ok by (simp add: ctx_ok_def)
  let ?cr = "ae_create E k (ae_callback E prog (lk_attach_cookie l)) d (pe_type q) (ac_world c)"
  show ?thesis
  proof (cases ?cr)
    case (Pair a w)
    show ?thesis
    proof (cases a)
      case (Inl f)
      note cr = Pair [unfolded Inl]
      have "w = ac_world c" "\<not> abrupt_fail f"
        using create_fail [OF good cr] create_calm [OF good _ cr] reg k by (auto simp: ran_def)
      moreover have "\<not> accepted (ac_impls c) q" using td cr good by (simp add: accepted_def) (metis Inl_Inr_False prod.inject)
      ultimately show ?thesis
        using r ok by (auto simp: instantiate_bpf_link_handler_at_def Let_def pe same k pr cr)
    next
      case (Inr i)
      note cr = Pair [unfolded Inr]
      have c': "c' = c\<lparr>ac_world := w, ac_links := (ac_links c)(n \<mapsto> (i, k)), ac_handlers := insert n (ac_handlers c)\<rparr>" "r = Inr ()"
        using r by (simp_all add: instantiate_bpf_link_handler_at_def Let_def pe same k pr cr)
      from link_attached_ok [OF ok n h lp(1) pr True pe cr c'(1)] show ?thesis
        by (simp add: c' grows_def subset_insertI)
    qed
  qed
qed

text \<open>Handlers without dependencies.\<close>

definition events_calm :: "(int \<rightharpoonup> nat) \<Rightarrow> ('p, 'l, 's) handlers \<Rightarrow> bool" where
  "events_calm impls hs \<longleftrightarrow> (\<forall>q f. Perf q \<in> set hs \<longrightarrow> target_data E impls q = Inl f \<longrightarrow> \<not> abrupt_fail f)"

definition step_ok :: "('p, 'l, 's) handlers \<Rightarrow> ('d, 'w) attach_ctx \<Rightarrow> unit res \<times> int set \<times> ('d, 'w) attach_ctx \<Rightarrow> bool" where
  "step_ok hs c x \<longleftrightarrow>
     (case x of (r, stk, c') \<Rightarrow> ctx_ok E attached good hs c' \<and> grows c c' \<and> \<not> abrupt r)"

lemma instantiate_prog_step:
  assumes ok: "ctx_ok E attached good hs c" and s: "n \<notin> stk" and h: "get_handler hs n = Inr (Prog p)"
  shows "step_ok hs c (instantiate_handler_at E hs n stk c)"
    and "instantiate_handler_at E hs n stk c = (Inr u, stk', c') \<Longrightarrow> n \<in> ac_handlers c'"
    and "ae_load E p = Inr () \<Longrightarrow> fst (instantiate_handler_at E hs n stk c) = Inr ()"
proof -
  obtain r d where rd: "instantiate_prog_handler_at E n p c = (r, d)" by fastforce
  have "step_ok hs c (instantiate_handler_at E hs n stk c) \<and>
      (\<forall>u stk' c'. instantiate_handler_at E hs n stk c = (Inr u, stk', c') \<longrightarrow> n \<in> ac_handlers c') \<and>
      (ae_load E p = Inr () \<longrightarrow> fst (instantiate_handler_at E hs n stk c) = Inr ())"
  proof (cases "n \<in> ac_handlers c")
    case True
    then show ?thesis using ok by (simp add: instantiate_handler_at.simps step_ok_def)
  next
    case False
    note i = instantiate_prog_ok [OF ok False h rd]
    have "\<not> abrupt (ae_load E p)" by (cases "ae_load E p") (simp_all add: load_calm)
    then have "\<not> abrupt r" by (simp only: i(3) not_False_eq_True)
    with i False s h rd show ?thesis
      by (subst (1 2 3) instantiate_handler_at.simps) (auto simp: step_ok_def split: sum.splits)
  qed
  then show "step_ok hs c (instantiate_handler_at E hs n stk c)"
    and "instantiate_handler_at E hs n stk c = (Inr u, stk', c') \<Longrightarrow> n \<in> ac_handlers c'"
    and "ae_load E p = Inr () \<Longrightarrow> fst (instantiate_handler_at E hs n stk c) = Inr ()" by blast+
qed

lemma instantiate_perf_step:
  assumes ok: "ctx_ok E attached good hs c" and s: "n \<notin> stk" and h: "get_handler hs n = Inr (Perf q)"
    and calm: "events_calm (ac_impls c) hs"
  shows "step_ok hs c (instantiate_handler_at E hs n stk c)"
    and "instantiate_handler_at E hs n stk c = (Inr u, stk', c') \<Longrightarrow> n \<in> ac_handlers c' \<or> pe_type q = PERF_TYPE_SOFTWARE"
    and "target_data E (ac_impls c) q = Inr x \<Longrightarrow> fst (instantiate_handler_at E hs n stk c) = Inr ()"
proof -
  obtain r d where rd: "instantiate_perf_event_handler_at E n q c = (r, d)" by fastforce
  have "step_ok hs c (instantiate_handler_at E hs n stk c) \<and>
      (\<forall>u stk' c'. instantiate_handler_at E hs n stk c = (Inr u, stk', c') \<longrightarrow> n \<in> ac_handlers c' \<or> pe_type q = PERF_TYPE_SOFTWARE) \<and>
      (\<forall>x. target_data E (ac_impls c) q = Inr x \<longrightarrow> fst (instantiate_handler_at E hs n stk c) = Inr ())"
  proof (cases "n \<in> ac_handlers c")
    case True
    then show ?thesis using ok by (simp add: instantiate_handler_at.simps step_ok_def)
  next
    case False
    note i = instantiate_perf_ok [OF ok False h rd]
    have "\<not> abrupt r"
    proof (cases r)
      case (Inl f)
      with i(5) [of f] calm get_handler_set [OF h] show ?thesis by (auto simp: events_calm_def)
    qed simp
    with i(1,2,3) i(4) False s h rd show ?thesis
      by (subst (1 2 3) instantiate_handler_at.simps) (auto simp: step_ok_def split: sum.splits)
  qed
  then show "step_ok hs c (instantiate_handler_at E hs n stk c)"
    and "instantiate_handler_at E hs n stk c = (Inr u, stk', c') \<Longrightarrow> n \<in> ac_handlers c' \<or> pe_type q = PERF_TYPE_SOFTWARE"
    and "target_data E (ac_impls c) q = Inr x \<Longrightarrow> fst (instantiate_handler_at E hs n stk c) = Inr ()" by blast+
qed

text \<open>A link whose program loads and whose target is accepted.\<close>

definition wanted :: "('p, 'l, 's) handlers \<Rightarrow> (int \<rightharpoonup> nat) \<Rightarrow> int \<Rightarrow> bool" where
  "wanted hs impls n \<longleftrightarrow>
     (\<exists>l p q. get_handler hs n = Inr (Link l) \<and> get_handler hs (lk_prog_id l) = Inr (Prog p) \<and> ae_load E p = Inr () \<and>
        get_handler hs (lk_attach_target_id l) = Inr (Perf q) \<and> accepted impls q)"

lemma instantiate_link_step:
  assumes ok: "ctx_ok E attached good hs c" and h: "get_handler hs n = Inr (Link l)"
    and p: "get_handler hs (lk_prog_id l) = Inr (Prog p)" and q: "get_handler hs (lk_attach_target_id l) = Inr (Perf q)"
    and reg: "ran (ac_impls c) \<subseteq> registered" and calm: "events_calm (ac_impls c) hs" and n: "n \<notin> ac_handlers c"
  shows "step_ok hs c (instantiate_handler_at E hs n {} c)"
    and "wanted hs (ac_impls c) n \<Longrightarrow> n \<in> ac_handlers (snd (snd (instantiate_handler_at E hs n {} c)))"
proof -
  let ?A = "instantiate_handler_at E hs (lk_prog_id l) {n} c"
  have ne: "lk_prog_id l \<notin> {n}" "lk_attach_target_id l \<notin> {n}" using h p q by auto
  note A = instantiate_prog_step [OF ok ne(1) p]
  obtain a s1 c1 where a: "?A = (a, s1, c1)" by (metis prod_cases3)
  have c1: "ctx_ok E attached good hs c1" "grows c c1" "\<not> abrupt a" using A(1) by (simp_all add: a step_ok_def)
  have "step_ok hs c (instantiate_handler_at E hs n {} c) \<and>
      (wanted hs (ac_impls c) n \<longrightarrow> n \<in> ac_handlers (snd (snd (instantiate_handler_at E hs n {} c))))"
  proof (cases a)
    case (Inl f)
    have "\<not> wanted hs (ac_impls c) n" using A(3) h p by (auto simp: a Inl wanted_def)
    then show ?thesis using c1 n h
      by (subst instantiate_handler_at.simps) (simp add: a Inl step_ok_def)
  next
    case (Inr u)
    have s1: "s1 = {n}" using a Inr instantiate_stk by blast
    let ?B = "instantiate_handler_at E hs (lk_attach_target_id l) {n} c1"
    have calm1: "events_calm (ac_impls c1) hs" and im: "ac_impls c1 = ac_impls c" using calm c1(2) by (simp_all add: grows_def)
    note B = instantiate_perf_step [OF c1(1) ne(2) q calm1]
    obtain b s2 c2 where b: "?B = (b, s2, c2)" by (metis prod_cases3)
    have c2: "ctx_ok E attached good hs c2" "grows c1 c2" "\<not> abrupt b" using B(1) by (simp_all add: b step_ok_def)
    show ?thesis
    proof (cases b)
      case (Inl f)
      have "\<not> wanted hs (ac_impls c) n" using B(3) h q im by (auto simp: b Inl wanted_def accepted_def)
      then show ?thesis using c2 n h grows_trans [OF c1(2) c2(2)]
        by (subst instantiate_handler_at.simps) (simp add: a Inr s1 b Inl step_ok_def)
    next
      case B': (Inr v)
      have s2: "s2 = {n}" using b B' instantiate_stk by blast
      obtain r c3 where r: "instantiate_bpf_link_handler_at E n l c2 = (r, c3)" by fastforce
      have "ac_handlers c1 \<subseteq> insert (lk_prog_id l) (ac_handlers c)" "ac_handlers c2 \<subseteq> insert (lk_attach_target_id l) (ac_handlers c1)"
        using instantiate_leaf_handlers [OF p _ a] instantiate_leaf_handlers [OF q _ b] by simp_all
      then have n2: "n \<notin> ac_handlers c2" using n ne by blast
      have lp: "lk_prog_id l \<in> ac_handlers c2" using A(2) [of u s1 c1] a Inr c2(2) by (auto simp: grows_def)
      have lt: "lk_attach_target_id l \<in> ac_handlers c2 \<or> pe_type q = PERF_TYPE_SOFTWARE" using B(2) [of v s2 c2] b B' by simp
      have im2: "ac_impls c2 = ac_impls c" using c1(2) c2(2) by (simp add: grows_def)
      note L = instantiate_link_ok [OF c2(1) n2 h lp p lt q _ r]
      have "wanted hs (ac_impls c) n \<longrightarrow> accepted (ac_impls c) q" using h q by (auto simp: wanted_def)
      with L reg n h grows_trans [OF grows_trans [OF c1(2) c2(2)]] show ?thesis
        by (subst (1 2) instantiate_handler_at.simps) (auto simp: a Inr s1 b B' s2 r im2 step_ok_def split: sum.splits)
    qed
  qed
  then show "step_ok hs c (instantiate_handler_at E hs n {} c)"
    and "wanted hs (ac_impls c) n \<Longrightarrow> n \<in> ac_handlers (snd (snd (instantiate_handler_at E hs n {} c)))" by blast+
qed

lemma instantiate_step:
  assumes lo: "links_ok hs" and ok: "ctx_ok E attached good hs c" and reg: "ran (ac_impls c) \<subseteq> registered"
    and calm: "events_calm (ac_impls c) hs" and n: "is_allocated hs n"
  shows "step_ok hs c (instantiate_handler_at E hs n {} c)"
    and "wanted hs (ac_impls c) n \<Longrightarrow> n \<in> ac_handlers (snd (snd (instantiate_handler_at E hs n {} c)))"
proof -
  obtain v where v: "get_handler hs n = Inr v" using n by (auto simp: is_allocated_def get_handler_def split: if_splits)
  have "step_ok hs c (instantiate_handler_at E hs n {} c) \<and>
      (wanted hs (ac_impls c) n \<longrightarrow> n \<in> ac_handlers (snd (snd (instantiate_handler_at E hs n {} c))))"
  proof (cases "n \<in> ac_handlers c")
    case True
    then show ?thesis using ok by (simp add: instantiate_handler_at.simps step_ok_def)
  next
    case False
    show ?thesis
    proof (cases v)
      case (Link l)
      then have "Link l \<in> set hs" using get_handler_set [OF v] by simp
      then obtain p q where "get_handler hs (lk_prog_id l) = Inr (Prog p)" "get_handler hs (lk_attach_target_id l) = Inr (Perf q)"
        using lo unfolding links_ok_def by blast
      with instantiate_link_step [OF ok v [unfolded Link] _ _ reg calm False] show ?thesis by blast
    next
      case (Prog p)
      with instantiate_prog_step(1) [OF ok _ v [unfolded Prog], of "{}"] v show ?thesis by (simp add: wanted_def)
    next
      case (Perf q)
      with instantiate_perf_step(1) [OF ok _ v [unfolded Perf] calm, of "{}"] v show ?thesis by (simp add: wanted_def)
    qed (use ok v False in \<open>simp_all add: wanted_def step_ok_def instantiate_handler_at.simps\<close>)
  qed
  then show "step_ok hs c (instantiate_handler_at E hs n {} c)"
    and "wanted hs (ac_impls c) n \<Longrightarrow> n \<in> ac_handlers (snd (snd (instantiate_handler_at E hs n {} c)))" by blast+
qed

lemma wanted_allocated: "wanted hs impls n \<Longrightarrow> is_allocated hs n"
  by (auto simp: wanted_def is_allocated_def get_handler_def split: if_splits)

lemma instantiate_all_ok:
  assumes "links_ok hs" and "ctx_ok E attached good hs c" and "ran (ac_impls c) \<subseteq> registered" and "events_calm (ac_impls c) hs"
  shows "\<exists>c'. instantiate_all E hs ns c = (Inr (), c') \<and> ctx_ok E attached good hs c' \<and> grows c c' \<and>
    (\<forall>n \<in> set ns. wanted hs (ac_impls c) n \<longrightarrow> n \<in> ac_handlers c')"
  using assms(2-)
proof (induction ns arbitrary: c)
  case (Cons n ns)
  show ?case
  proof (cases "is_allocated hs n")
    case False
    with Cons.IH [OF Cons.prems] show ?thesis by (auto dest: wanted_allocated)
  next
    case True
    obtain r stk d where d: "instantiate_handler_at E hs n {} c = (r, stk, d)" by (metis prod_cases3)
    note step = instantiate_step [OF assms(1) Cons.prems True, unfolded d]
    have c1: "ctx_ok E attached good hs d" "grows c d" "\<not> abrupt r" using step(1) by (simp_all add: step_ok_def)
    then have im: "ac_impls d = ac_impls c" by (simp add: grows_def)
    from Cons.IH [OF c1(1), unfolded im, OF Cons.prems(2,3)] obtain c' where
      c': "instantiate_all E hs ns d = (Inr (), c')" "ctx_ok E attached good hs c'" "grows d c'"
        "\<forall>n \<in> set ns. wanted hs (ac_impls c) n \<longrightarrow> n \<in> ac_handlers c'" by blast
    have "wanted hs (ac_impls c) n \<longrightarrow> n \<in> ac_handlers c'" using step(2) c'(3) by (auto simp: grows_def)
    with c' c1 True d show ?thesis by (auto intro: grows_trans)
  qed
qed simp

lemma init_ok:
  assumes lo: "links_ok hs" and ok: "ctx_ok E attached good hs c" and reg: "ran (ac_impls c) \<subseteq> registered"
    and calm: "events_calm (ac_impls c) hs"
  shows "\<exists>c'. init_attach_ctx_from_handlers E hs c = (Inr (), c') \<and> ctx_ok E attached good hs c' \<and> grows c c' \<and>
    (\<forall>n. wanted hs (ac_impls c) n \<longrightarrow> ac_links c' n \<noteq> None)"
proof -
  let ?ns = "map int [0..<length hs]"
  obtain d where d: "instantiate_all E hs ?ns c = (Inr (), d)" "ctx_ok E attached good hs d" "grows c d"
    using instantiate_all_ok [OF lo ok reg calm] by blast
  then have im: "ac_impls d = ac_impls c" by (simp add: grows_def)
  from instantiate_all_ok [OF lo d(2), unfolded im, OF reg calm, of ?ns] obtain c' where
    c': "instantiate_all E hs ?ns d = (Inr (), c')" "ctx_ok E attached good hs c'" "grows d c'"
      "\<forall>n \<in> set ?ns. wanted hs (ac_impls c) n \<longrightarrow> n \<in> ac_handlers c'" by blast
  have "ac_links c' n \<noteq> None" if w: "wanted hs (ac_impls c) n" for n
  proof -
    have "0 \<le> n \<and> nat n < length hs"
      using wanted_allocated [OF w] by (simp add: is_allocated_def fd_in_range_def split: if_splits)
    then have "n \<in> set ?ns" by (auto intro: image_eqI [of _ _ "nat n"])
    then have "handler_done E hs c' n" using w c'(2,4) unfolding ctx_ok_def by blast
    with w show ?thesis by (auto simp: wanted_def handler_done_def)
  qed
  with c' d show ?thesis by (auto simp: init_attach_ctx_from_handlers_def intro: grows_trans)
qed

text \<open>Links that are attached can be destroyed, one by one and all at once.\<close>

lemma destroy_link_ok:
  assumes good: "good (ac_world c)" and la: "links_attached E attached hs c" and n: "ac_links c n = Some (i, k)"
  shows "\<exists>c'. destroy_instantiated_attach_link E n c = (Inr 0, c') \<and> good (ac_world c') \<and> links_attached E attached hs c' \<and>
    ac_links c' = (ac_links c)(n := None) \<and> attached (ac_world c') = (attached (ac_world c))((k, i) := None)"
proof -
  have dom: "prod.swap ` ran (ac_links c) = dom (attached (ac_world c))" and inj: "inj_on (ac_links c) (dom (ac_links c))"
    using la by (simp_all only: links_attached_def)
  from la n obtain x where x: "attached (ac_world c) (k, i) = Some x" by (rule links_attachedD)
  from detach_ok [OF good x] obtain w where w: "ae_detach E k i (ac_world c) = (Inr 0, w)" "good w"
    "attached w = (attached (ac_world c))((k, i) := None)" by blast
  let ?c = "c\<lparr>ac_world := w, ac_links := (ac_links c)(n := None)\<rparr>"
  have other: "y \<noteq> (i, k)" if "ac_links c m = Some y" "m \<noteq> n" for m y
    using inj n that by (metis domI inj_onD)
  have "links_attached E attached hs ?c"
    unfolding links_attached_def
  proof (intro conjI allI impI)
    show "inj_on (ac_links ?c) (dom (ac_links ?c))" using inj by (auto simp: inj_on_def dom_def)
    have "x \<in> ran ((ac_links c)(n := None)) \<longleftrightarrow> x \<in> ran (ac_links c) \<and> x \<noteq> (i, k)" for x
      unfolding ran_def fun_upd_apply mem_Collect_eq using other n by (metis option.distinct(1) option.sel)
    then have "ran ((ac_links c)(n := None)) = ran (ac_links c) - {(i, k)}" by blast
    moreover have "prod.swap ` (ran (ac_links c) - {(i, k)}) = prod.swap ` ran (ac_links c) - {(k, i)}"
      by (simp add: image_set_diff)
    ultimately show "prod.swap ` ran (ac_links ?c) = dom (attached (ac_world ?c))" using dom w(3) by simp
  next
    fix m j k'
    assume m: "ac_links ?c m = Some (j, k')"
    then have m': "ac_links c m = Some (j, k')" "m \<noteq> n" by (auto split: if_splits)
    from la m'(1) obtain l prog d ty where "get_handler hs m = Inr (Link l)" "lk_prog_id l \<in> ac_handlers c"
        "lk_attach_target_id l \<in> ac_handlers c" "ac_progs c (lk_prog_id l) = Some prog"
        "ac_perf_events c (lk_attach_target_id l) = Some (Some d, ty)"
        "attached (ac_world c) (k', j) = Some (ae_callback E prog (lk_attach_cookie l), d, ty)"
      by (rule links_attachedD)
    then show "\<exists>l prog d ty. get_handler hs m = Inr (Link l) \<and> lk_prog_id l \<in> ac_handlers ?c \<and> lk_attach_target_id l \<in> ac_handlers ?c \<and>
           ac_progs ?c (lk_prog_id l) = Some prog \<and> ac_perf_events ?c (lk_attach_target_id l) = Some (Some d, ty) \<and>
           attached (ac_world ?c) (k', j) = Some (ae_callback E prog (lk_attach_cookie l), d, ty)"
      using w(3) other [OF m'] by (intro exI [of _ l] exI [of _ prog] exI [of _ d] exI [of _ ty]) auto
  qed
  with w n show ?thesis by (simp add: destroy_instantiated_attach_link_def)
qed

lemma destroy_links_ok:
  assumes "good (ac_world c)" and "links_attached E attached hs c" and "distinct ns" and "set ns = dom (ac_links c)"
  shows "\<exists>c'. destroy_links E ns c = (Inr 0, c') \<and> good (ac_world c') \<and> ac_links c' = Map.empty \<and> attached (ac_world c') = Map.empty"
  using assms
proof (induction ns arbitrary: c)
  case Nil
  then have "ac_links c = Map.empty" by (metis dom_eq_empty_conv list.set(1))
  moreover from this have "dom (attached (ac_world c)) = {}"
    using Nil.prems(2) by (simp only: links_attached_def) (metis image_empty ran_empty)
  ultimately show ?case using Nil.prems(1) by simp
next
  case (Cons n ns)
  then obtain i k where n: "ac_links c n = Some (i, k)" by fastforce
  from destroy_link_ok [OF Cons.prems(1,2) n] obtain d where
    d: "destroy_instantiated_attach_link E n c = (Inr 0, d)" "good (ac_world d)" "links_attached E attached hs d"
      "ac_links d = (ac_links c)(n := None)" by blast
  have "set ns = dom (ac_links d)" using Cons.prems(3,4) by (auto simp: d(4))
  from Cons.IH [OF d(2,3) _ this] d(1) Cons.prems(3) show ?case by simp
qed

lemma destroy_all_ok:
  assumes "good (ac_world c)" and la: "links_attached E attached hs c"
  shows "\<exists>c'. destroy_all_attach_links E c = (Inr 0, c') \<and> good (ac_world c') \<and> ac_links c' = Map.empty \<and>
    attached (ac_world c') = Map.empty"
proof -
  have "dom (ac_links c) \<subseteq> {0..<int (length hs)}"
  proof
    fix n
    assume "n \<in> dom (ac_links c)"
    then obtain i k where n: "ac_links c n = Some (i, k)" by fastforce
    from la n obtain l where "get_handler hs n = Inr (Link l)" by (rule links_attachedD)
    then show "n \<in> {0..<int (length hs)}" by (auto simp: get_handler_def fd_in_range_def split: if_splits)
  qed
  then have "finite (dom (ac_links c))" by (rule finite_subset) simp
  with destroy_links_ok [OF assms, of "sorted_list_of_set (dom (ac_links c))"] show ?thesis
    by (simp add: destroy_all_attach_links_def)
qed

end


section \<open>Where the context differs from what it promises\<close>

text \<open>A link that waits for itself is reported, in any table.\<close>

lemma link_to_itself:
  assumes "get_handler hs n = Inr (Link l)" and "lk_prog_id l = n" and "n \<notin> ac_handlers c"
  shows "instantiate_handler_at E hs n {} c = (Inl RetFail, {n}, c)"
proof -
  have "instantiate_handler_at E hs n {n} c = (Inl RetFail, {n}, c)" using assms(3) by (simp add: instantiate_handler_at.simps)
  with assms show ?thesis by (subst instantiate_handler_at.simps) simp
qed

text \<open>A link to a descriptor outside the table makes the context read outside the table.\<close>

lemma link_target_outside:
  assumes "get_handler hs n = Inr (Link l)" and "n \<notin> ac_handlers c" and "lk_prog_id l \<in> ac_handlers c"
    and "\<not> fd_in_range hs (lk_attach_target_id l)" and "lk_attach_target_id l \<notin> insert n (ac_handlers c)"
  shows "fst (instantiate_handler_at E hs n {} c) = Inl Fault"
proof -
  have "instantiate_handler_at E hs (lk_prog_id l) {n} c = (Inr (), {n}, c)"
    using assms(3) by (simp add: instantiate_handler_at.simps)
  moreover have "fst (instantiate_handler_at E hs (lk_attach_target_id l) {n} c) = Inl Fault"
    using assms(4,5) by (subst instantiate_handler_at.simps) (simp add: get_handler_def)
  ultimately show ?thesis using assms(1,2)
    by (subst instantiate_handler_at.simps) (cases "instantiate_handler_at E hs (lk_attach_target_id l) {n} c", simp)
qed

text \<open>A custom perf event with the number of a built-in type makes the initialisation throw.\<close>

lemma custom_event_throws:
  assumes "get_handler hs n = Inr (Perf (perf_custom PERF_TYPE_TRACEPOINT arg))" and "n \<notin> ac_handlers c"
    and "ac_impls c PERF_TYPE_TRACEPOINT = Some k"
  shows "instantiate_all E hs (n # ns) c = (Inl Throw, c)"
proof -
  have "is_allocated hs n" using assms(1) by (auto simp: is_allocated_def get_handler_def perf_custom_def split: if_splits)
  with assms show ?thesis
    by (simp add: instantiate_handler_at.simps instantiate_perf_event_handler_at_def perf_custom_def perf_argument_def
        PERF_TYPE_TRACEPOINT_def PERF_TYPE_SOFTWARE_def BPF_TYPE_UPROBE_OVERRIDE_def BPF_TYPE_UPROBE_def
        BPF_TYPE_URETPROBE_def BPF_TYPE_UREPLACE_def abrupt_fail_def)
qed

text \<open>A destroyed link stays in the set of instantiated handlers: initialising again does not attach it.\<close>

lemma destroyed_link_not_attached_again:
  assumes "destroy_instantiated_attach_link E n c = (Inr 0, c')" and "n \<in> ac_handlers c"
  shows "instantiate_handler_at E hs n stk c' = (Inr (), stk, c')" and "ac_links c' n = None"
  using assms
  by (auto simp: destroy_instantiated_attach_link_def instantiate_handler_at.simps split: option.splits prod.splits sum.splits)

end
