(* ===== verification/Agent_Attach.thy ===== *)
theory Agent_Attach
  imports Attach_Ctx
begin

text \<open>
  The agent's attach context with the system call tracer (\<open>runtime/agent/agent.cpp\<close>): registration,
  the creator of the private data, and the composition of the table of descriptors, the attach
  context and the tracer.
\<close>

section \<open>Registration\<close>

definition trace_private_data :: "(int \<rightharpoonup> string) \<Rightarrow> (string \<rightharpoonup> int) \<Rightarrow> bool \<Rightarrow> string \<Rightarrow> attach_private_data res" where
  "trace_private_data tp_name sys_number uninit sv =
     bind_res (trace_initialize_from_string tp_name sys_number uninit sv) (\<lambda>(nr, b). Inr (Trace_Data nr b))"

definition agent_env ::
  "((nat \<rightharpoonup> 's trace_entry) \<Rightarrow> nat) \<Rightarrow> (prog_handler \<Rightarrow> unit res) \<Rightarrow> (prog_object \<Rightarrow> nat option \<Rightarrow> 's program) \<Rightarrow>
     (string \<Rightarrow> attach_private_data res) \<Rightarrow> ('s program, attach_private_data, 's attach_impl list) attach_env" where
  "agent_env alloc load_prog exec creator =
     \<lparr>ae_load = load_prog, ae_private_data = (\<lambda>k. creator), ae_callback = exec,
      ae_create = (\<lambda>k cb d ty. on_impl (impl_create alloc cb d ty) k), ae_detach = (\<lambda>k i. on_impl (impl_detach i) k)\<rparr>"

definition agent_ctx :: "(attach_private_data, 's attach_impl list) attach_ctx" where
  "agent_ctx = register_attach_impl [ATTACH_SYSCALL_TRACE] (Syscall_Impl new_trace_impl) (new_attach_ctx [])"

section \<open>The contract of the agent's context\<close>

definition one_tracer :: "'s attach_impl list \<Rightarrow> bool" where
  "one_tracer w \<longleftrightarrow> (\<exists>t. w = [Syscall_Impl t] \<and> trace_reachable t)"

definition loads_calmly :: "(prog_handler \<Rightarrow> unit res) \<Rightarrow> bool" where
  "loads_calmly load_prog \<longleftrightarrow> (\<forall>p f. load_prog p = Inl f \<longrightarrow> \<not> abrupt_fail f)"

lemma one_tracer_all: "one_tracer w \<Longrightarrow> list_all impl_inv w"
  by (auto simp: one_tracer_def impl_inv_def)

lemma on_impl_create_tracer:
  "on_impl (impl_create alloc cb d ty) k [Syscall_Impl t] =
     (if k = 0 then case trace_create_attach (alloc (ti_heap t)) cb (trace_data d) ty t of (r, t') \<Rightarrow> (r, [Syscall_Impl t'])
      else (Inl Fault, [Syscall_Impl t]))"
  by (simp add: on_impl_def impl_create_def split: prod.splits)

lemma on_impl_detach_tracer:
  "on_impl (impl_detach i) k [Syscall_Impl t] =
     (if k = 0 then case trace_detach_by_id i t of (r, t') \<Rightarrow> (r, [Syscall_Impl t']) else (Inl Fault, [Syscall_Impl t]))"
  by (simp add: on_impl_def impl_detach_def split: prod.splits)

lemma agent_context:
  fixes alloc :: "(nat \<rightharpoonup> 's trace_entry) \<Rightarrow> nat"
  assumes fresh: "fresh_addresses alloc" and load_prog: "loads_calmly load_prog"
  shows "attach_context (agent_env alloc load_prog exec creator) impls_attached one_tracer {0}"
proof -
  let ?E = "agent_env alloc load_prog exec creator"
  note con = impls_contract [OF fresh]
  have sel: "ae_create ?E = (\<lambda>k cb d ty. on_impl (impl_create alloc cb d ty) k)" "ae_detach ?E = (\<lambda>k i. on_impl (impl_detach i) k)"
    "ae_load ?E = load_prog" by (simp_all add: agent_env_def)
  show ?thesis
  proof
    fix w w' k cb d ty i
    assume w: "one_tracer w" and c: "ae_create ?E k cb d ty w = (Inr i, w')"
    from attach_impls.create_ok [OF con, OF one_tracer_all [OF w] c [unfolded sel]]
    have *: "list_all impl_inv w'" "impls_attached w (k, i) = None" "impls_attached w' = (impls_attached w)((k, i) \<mapsto> (cb, d, ty))"
      by auto
    obtain t where "w = [Syscall_Impl t]" using w by (auto simp: one_tracer_def)
    with c obtain t' where "w' = [Syscall_Impl t']" by (auto simp: sel on_impl_create_tracer split: if_splits prod.splits)
    with * show "one_tracer w' \<and> impls_attached w (k, i) = None \<and> impls_attached w' = (impls_attached w)((k, i) \<mapsto> (cb, d, ty))"
      by (simp add: one_tracer_def impl_inv_def)
  next
    fix w w' k cb d ty f
    assume w: "one_tracer w" and c: "ae_create ?E k cb d ty w = (Inl f, w')"
    from attach_impls.create_fail [OF con, OF one_tracer_all [OF w] c [unfolded sel]] show "w' = w" .
  next
    fix w :: "'s attach_impl list" and k i x
    assume w: "one_tracer w" and a: "impls_attached w (k, i) = Some x"
    from attach_impls.detach_ok [OF con, OF one_tracer_all [OF w] a] obtain w' where
      *: "on_impl (impl_detach i) k w = (Inr 0, w')" "list_all impl_inv w'" "impls_attached w' = (impls_attached w)((k, i) := None)"
      by blast
    obtain t where "w = [Syscall_Impl t]" using w by (auto simp: one_tracer_def)
    with *(1) obtain t' where "w' = [Syscall_Impl t']" by (auto simp: on_impl_detach_tracer split: if_splits prod.splits)
    with * show "\<exists>w'. ae_detach ?E k i w = (Inr 0, w') \<and> one_tracer w' \<and> impls_attached w' = (impls_attached w)((k, i) := None)"
      by (simp add: sel one_tracer_def impl_inv_def)
  next
    fix p f
    assume "ae_load ?E p = Inl f"
    with load_prog show "\<not> abrupt_fail f" by (simp add: loads_calmly_def sel)
  next
    fix w k cb d ty f w'
    assume "one_tracer w" and "k \<in> {0}" and "ae_create ?E k cb d ty w = (Inl f, w')"
    then show "\<not> abrupt_fail f"
      by (auto simp: one_tracer_def sel on_impl_create_tracer trace_create_attach_def abrupt_fail_def Let_def
          split: if_splits prod.splits option.splits)
  qed
qed

text \<open>The context with an allocator that gives out new addresses and programs that all load_prog.\<close>

interpretation agent: attach_context "agent_env next_address (\<lambda>p. Inr ()) exec creator" impls_attached one_tracer "{0}"
  by (rule agent_context [OF next_address_fresh]) (simp add: loads_calmly_def)

section \<open>From links in the table to programs that run\<close>

text \<open>
  The specification: a link counts when its program loads and its target is a tracepoint that the
  creator resolves to a system call below 512 or to all of them.
\<close>

definition traced_link ::
  "(prog_handler \<Rightarrow> unit res) \<Rightarrow> (string \<Rightarrow> attach_private_data res) \<Rightarrow> ('p, 'l, 's) handlers \<Rightarrow> int \<Rightarrow>
     (link_handler \<times> prog_handler \<times> int \<times> bool) option" where
  "traced_link load_prog creator hs n =
     (case get_handler hs n of
        Inr (Link l) \<Rightarrow>
          (case (get_handler hs (lk_prog_id l), get_handler hs (lk_attach_target_id l)) of
             (Inr (Prog p), Inr (Perf q)) \<Rightarrow>
               (case bind_res (perf_argument q) creator of
                  Inr (Trace_Data nr b) \<Rightarrow>
                    if load_prog p = Inr () \<and> pe_type q = PERF_TYPE_TRACEPOINT \<and> -1 \<le> nr \<and> nr < 512 then Some (l, p, nr, b) else None
                | _ \<Rightarrow> None)
           | _ \<Rightarrow> None)
      | _ \<Rightarrow> None)"

text \<open>The creator makes data of its class and does not throw on the tracepoints of the table.\<close>

definition tracepoints_calm :: "(string \<Rightarrow> attach_private_data res) \<Rightarrow> ('p, 'l, 's) handlers \<Rightarrow> bool" where
  "tracepoints_calm creator hs \<longleftrightarrow>
     (\<forall>q f. Perf q \<in> set hs \<longrightarrow> pe_type q = PERF_TYPE_TRACEPOINT \<longrightarrow> bind_res (perf_argument q) creator = Inl f \<longrightarrow> \<not> abrupt_fail f)"

lemma agent_impls: "ac_impls agent_ctx = [PERF_TYPE_TRACEPOINT \<mapsto> 0]"
  by (simp add: agent_ctx_def register_attach_impl_def new_attach_ctx_def ATTACH_SYSCALL_TRACE_def PERF_TYPE_TRACEPOINT_def)

lemma agent_target_data:
  "target_data (agent_env alloc load_prog exec creator) [PERF_TYPE_TRACEPOINT \<mapsto> 0] q =
     (if pe_type q = PERF_TYPE_TRACEPOINT then bind_res (bind_res (perf_argument q) creator) (\<lambda>d. Inr (0, d))
      else if pe_type q = PERF_TYPE_SOFTWARE then Inl (RetNeg ENOTSUP) else Inl (RetNeg ENOENT))"
  by (simp add: target_data_def agent_env_def PERF_TYPE_TRACEPOINT_def PERF_TYPE_SOFTWARE_def)

lemma new_tracer_attached: "impls_attached [Syscall_Impl new_trace_impl] = Map.empty"
  by (auto simp: impls_attached_def impl_attached_def fun_eq_iff new_trace_impl_def simp del: replicate_eval)

lemma agent_ctx_ok: "ctx_ok (agent_env alloc load_prog exec creator) impls_attached one_tracer hs agent_ctx"
  by (simp add: ctx_ok_def links_attached_def agent_impls PERF_TYPE_TRACEPOINT_def)
    (simp add: agent_ctx_def register_attach_impl_def new_attach_ctx_def one_tracer_def trace_reachable.initial new_tracer_attached)

text \<open>An initialised context has exactly the links that count, each with its entry.\<close>

lemma agent_link_entry:
  fixes alloc :: "(nat \<rightharpoonup> 's trace_entry) \<Rightarrow> nat"
  assumes lo: "links_ok hs" and ok: "ctx_ok (agent_env alloc load_prog exec creator) impls_attached one_tracer hs c"
    and im: "ac_impls c = [PERF_TYPE_TRACEPOINT \<mapsto> 0]" and w: "ac_world c = [Syscall_Impl t]" and n: "ac_links c n = Some (i, k)"
  shows "\<exists>l p nr b a j. k = 0 \<and> ti_entries t i = Some a \<and> traced_link load_prog creator hs n = Some (l, p, nr, b) \<and>
    ac_progs c (lk_prog_id l) = Some \<lparr>po_id = j, po_prog = p\<rparr> \<and>
    ti_heap t a = Some \<lparr>te_cb = exec \<lparr>po_id = j, po_prog = p\<rparr> (lk_attach_cookie l), te_sys_nr = nr, te_is_enter = b\<rparr>"
proof -
  let ?E = "agent_env alloc load_prog exec creator"
  have la: "links_attached ?E impls_attached hs c" and inst: "\<And>m. m \<in> ac_handlers c \<Longrightarrow> handler_done ?E hs c m"
    and tr: "trace_reachable t"
    using ok by (auto simp: ctx_ok_def w one_tracer_def)
  from la n obtain l prog d ty where l: "get_handler hs n = Inr (Link l)" "lk_prog_id l \<in> ac_handlers c"
      "lk_attach_target_id l \<in> ac_handlers c" "ac_progs c (lk_prog_id l) = Some prog"
      "ac_perf_events c (lk_attach_target_id l) = Some (Some d, ty)"
      "impls_attached (ac_world c) (k, i) = Some (ae_callback ?E prog (lk_attach_cookie l), d, ty)"
    by (rule links_attachedD)
  have "Link l \<in> set hs" using l(1) by (rule get_handler_set)
  then obtain p q where p: "get_handler hs (lk_prog_id l) = Inr (Prog p)" and q: "get_handler hs (lk_attach_target_id l) = Inr (Perf q)"
    using lo unfolding links_ok_def by blast
  obtain j where pr: "prog = \<lparr>po_id = j, po_prog = p\<rparr>" and ld: "load_prog p = Inr ()"
    using inst [OF l(2)] l(4) by (auto simp: handler_done_def p agent_env_def)
  have td: "\<exists>k'. target_data ?E [PERF_TYPE_TRACEPOINT \<mapsto> 0] q = Inr (k', d)"
    using inst [OF l(3)] l(5) by (auto simp: handler_done_def q im)
  obtain a e where k: "k = 0" and a: "ti_entries t i = Some a" "ti_heap t a = Some e" "te_cb e = exec prog (lk_attach_cookie l)"
      "d = Trace_Data (te_sys_nr e) (te_is_enter e)"
    using l(6) by (auto simp: w impls_attached_def impl_attached_def agent_env_def split: if_splits option.splits)
  have "-1 \<le> te_sys_nr e \<and> te_sys_nr e < 512"
    using trace_reachable_inv [OF tr] a(2) by (simp add: trace_inv_def)
  moreover have "pe_type q = PERF_TYPE_TRACEPOINT" "bind_res (perf_argument q) creator = Inr d"
    using td by (auto simp: agent_target_data bind_res_eq_Inr split: if_splits)
  ultimately have "traced_link load_prog creator hs n = Some (l, p, te_sys_nr e, te_is_enter e)"
    by (simp add: traced_link_def l(1) p q ld a(4))
  moreover have "e = \<lparr>te_cb = exec prog (lk_attach_cookie l), te_sys_nr = te_sys_nr e, te_is_enter = te_is_enter e\<rparr>"
    using a(3) by simp
  ultimately show ?thesis using k a l(4) pr by metis
qed


lemma agent_events_calm:
  fixes alloc :: "(nat \<rightharpoonup> 's trace_entry) \<Rightarrow> nat" and exec :: "prog_object \<Rightarrow> nat option \<Rightarrow> 's program"
  assumes fresh: "fresh_addresses alloc" and calm: "loads_calmly load_prog" "tracepoints_calm creator hs"
  shows "attach_context.events_calm (agent_env alloc load_prog exec creator) [PERF_TYPE_TRACEPOINT \<mapsto> 0] hs"
  unfolding attach_context.events_calm_def [OF agent_context [OF fresh calm(1)]] agent_target_data
proof (intro allI impI)
  fix q f
  assume "Perf q \<in> set hs" and "(if pe_type q = PERF_TYPE_TRACEPOINT
      then bind_res (bind_res (perf_argument q) creator) (\<lambda>d. Inr (0::nat, d))
      else if pe_type q = PERF_TYPE_SOFTWARE then Inl (RetNeg ENOTSUP) else Inl (RetNeg ENOENT)) = Inl f"
  then show "\<not> abrupt_fail f"
    using calm(2) by (cases "bind_res (perf_argument q) creator")
      (auto simp: tracepoints_calm_def abrupt_fail_def split: if_splits)
qed

lemma agent_wanted:
  fixes alloc :: "(nat \<rightharpoonup> 's trace_entry) \<Rightarrow> nat" and exec :: "prog_object \<Rightarrow> nat option \<Rightarrow> 's program"
  assumes fresh: "fresh_addresses alloc" and calm: "loads_calmly load_prog" and n: "traced_link load_prog creator hs n \<noteq> None"
  defines "E \<equiv> agent_env alloc load_prog exec creator"
  shows "attach_context.wanted E one_tracer hs [PERF_TYPE_TRACEPOINT \<mapsto> 0] n"
proof -
  note con = agent_context [OF fresh calm, of exec creator, folded E_def]
  from n obtain l p q nr b where n: "get_handler hs n = Inr (Link l)" "get_handler hs (lk_prog_id l) = Inr (Prog p)"
      "get_handler hs (lk_attach_target_id l) = Inr (Perf q)" "bind_res (perf_argument q) creator = Inr (Trace_Data nr b)"
      "load_prog p = Inr ()" "pe_type q = PERF_TYPE_TRACEPOINT" "-1 \<le> nr" "nr < 512"
    by (auto simp: traced_link_def split: sum.splits handler_variant.splits attach_private_data.splits if_splits)
  have "attach_context.accepted E one_tracer [PERF_TYPE_TRACEPOINT \<mapsto> 0] q"
    unfolding attach_context.accepted_def [OF con]
  proof (rule exI [of _ 0], rule exI [of _ "Trace_Data nr b"], intro conjI allI impI)
    show "target_data E [PERF_TYPE_TRACEPOINT \<mapsto> 0] q = Inr (0, Trace_Data nr b)" using n(4,6) by (simp add: E_def agent_target_data)
    fix cb and w :: "'s attach_impl list"
    assume "one_tracer w"
    then obtain t where "w = [Syscall_Impl t]" by (auto simp: one_tracer_def)
    then show "\<exists>i w'. ae_create E 0 cb (Trace_Data nr b) (pe_type q) w = (Inr i, w')"
      using n(6-8) by (simp add: E_def agent_env_def on_impl_create_tracer trace_data_def trace_create_attach_def
          ATTACH_SYSCALL_TRACE_def PERF_TYPE_TRACEPOINT_def Let_def)
  qed
  then show ?thesis using n unfolding attach_context.wanted_def [OF con] by (auto simp: E_def agent_env_def)
qed

lemma agent_init:
  fixes alloc :: "(nat \<rightharpoonup> 's trace_entry) \<Rightarrow> nat" and exec :: "prog_object \<Rightarrow> nat option \<Rightarrow> 's program"
  assumes lo: "links_ok hs" and fresh: "fresh_addresses alloc" and calm: "loads_calmly load_prog" "tracepoints_calm creator hs"
  defines "E \<equiv> agent_env alloc load_prog exec creator"
  shows "\<exists>c t. init_attach_ctx_from_handlers E hs agent_ctx = (Inr (), c) \<and> ac_world c = [Syscall_Impl t] \<and>
    ctx_ok E impls_attached one_tracer hs c \<and> ac_impls c = [PERF_TYPE_TRACEPOINT \<mapsto> 0] \<and>
    (\<forall>n. traced_link load_prog creator hs n \<noteq> None \<longrightarrow> ac_links c n \<noteq> None)"
proof -
  let ?c = "agent_ctx :: (attach_private_data, 's attach_impl list) attach_ctx"
  note con = agent_context [OF fresh calm(1), of exec creator, folded E_def]
  have ok: "ctx_ok E impls_attached one_tracer hs ?c" unfolding E_def by (rule agent_ctx_ok)
  have reg: "ran (ac_impls ?c) \<subseteq> {0}" by (simp add: agent_impls)
  have ev: "attach_context.events_calm E (ac_impls ?c) hs"
    unfolding agent_impls E_def by (rule agent_events_calm [OF fresh calm])
  from attach_context.init_ok [OF con, OF lo ok reg ev] obtain c where c:
    "init_attach_ctx_from_handlers E hs ?c = (Inr (), c)" "ctx_ok E impls_attached one_tracer hs c" "grows ?c c"
    "\<forall>n. attach_context.wanted E one_tracer hs (ac_impls ?c) n \<longrightarrow> ac_links c n \<noteq> None"
    by blast
  obtain t where t: "ac_world c = [Syscall_Impl t]" using c(2) by (auto simp: ctx_ok_def one_tracer_def)
  have im: "ac_impls c = [PERF_TYPE_TRACEPOINT \<mapsto> 0]" using c(3) by (simp add: grows_def agent_impls)
  have "ac_links c n \<noteq> None" if "traced_link load_prog creator hs n \<noteq> None" for n
    using c(4) agent_wanted [OF fresh calm(1) that, of exec, folded E_def] by (simp add: agent_impls)
  with c t im show ?thesis by blast
qed

text \<open>
  The addresses of the entries: every link has one, and every entry belongs to a link.
\<close>

lemma agent_addresses:
  assumes lo: "links_ok hs" and ok: "ctx_ok (agent_env alloc load_prog exec creator) impls_attached one_tracer hs c"
    and im: "ac_impls c = [PERF_TYPE_TRACEPOINT \<mapsto> 0]" and w: "ac_world c = [Syscall_Impl t]"
  shows "bij_betw (\<lambda>n. the (ti_entries t (fst (the (ac_links c n))))) (dom (ac_links c)) (dom (ti_heap t))"
proof -
  let ?E = "agent_env alloc load_prog exec creator" and ?a = "\<lambda>n. the (ti_entries t (fst (the (ac_links c n))))"
  note entry = agent_link_entry [OF lo ok im w]
  have la: "links_attached ?E impls_attached hs c" and tr: "trace_reachable t"
    using ok by (auto simp: ctx_ok_def w one_tracer_def)
  have inj: "inj_on (ac_links c) (dom (ac_links c))" and dom: "prod.swap ` ran (ac_links c) = dom (impls_attached (ac_world c))"
    using la by (simp_all only: links_attached_def)
  have tinj: "inj_on (ti_entries t) (dom (ti_entries t))" and ran: "ran (ti_entries t) = dom (ti_heap t)"
    using trace_reachable_inv [OF tr] by (simp_all add: trace_inv_def)
  have at: "\<exists>i. ac_links c n = Some (i, 0) \<and> ti_entries t i = Some (?a n)" if "n \<in> dom (ac_links c)" for n
    using that entry by fastforce
  have "inj_on ?a (dom (ac_links c))"
  proof (rule inj_onI)
    fix n m
    assume n: "n \<in> dom (ac_links c)" and m: "m \<in> dom (ac_links c)" and eq: "?a n = ?a m"
    from at [OF n] at [OF m] obtain i j where "ac_links c n = Some (i, 0)" "ti_entries t i = Some (?a n)"
      "ac_links c m = Some (j, 0)" "ti_entries t j = Some (?a n)" using eq by metis
    moreover from this have "i = j" using tinj by (metis domI inj_onD)
    ultimately show "n = m" using inj by (metis domI inj_onD)
  qed
  moreover have "?a ` dom (ac_links c) = dom (ti_heap t)"
  proof (intro equalityI subsetI)
    fix x
    assume "x \<in> ?a ` dom (ac_links c)"
    then obtain n where n: "n \<in> dom (ac_links c)" and x: "x = ?a n" by (rule imageE)
    from at [OF n] obtain i where "ti_entries t i = Some x" unfolding x by blast
    then show "x \<in> dom (ti_heap t)" unfolding ran [symmetric] by (rule ranI)
  next
    fix x
    assume x: "x \<in> dom (ti_heap t)"
    then obtain i where i: "ti_entries t i = Some x" unfolding ran [symmetric] ran_def by blast
    then have "(0, i) \<in> dom (impls_attached (ac_world c))" using x by (auto simp: w impls_attached_def impl_attached_def)
    then obtain n where "ac_links c n = Some (i, 0)" unfolding dom [symmetric] by (auto simp: ran_def)
    with i show "x \<in> ?a ` dom (ac_links c)" by (intro image_eqI [of _ _ n]) auto
  qed
  ultimately show ?thesis by (rule bij_betw_imageI)
qed



lemma demo_traced:
  "\<exists>m. shm_reachable (list_segment 2) False 6 (m :: (string list, (bytes \<times> bytes) list,
      (bytes \<times> bytes \<times> nat) list, (nat \<times> u64 list) list) mgr) \<and>
     fst m = [Unused, Unused, Unused, Prog (bpf_prog_handler [0] ''p'' 2), Perf (perf_tracepoint 1 7), Link (bpf_link_handler 3 4 None)]"
proof -
  let ?E = "demo_env False False" and ?K = "\<lambda>_. 5 :: int"
  let ?m0 = "(handler_manager 6, []) :: (string list, (bytes \<times> bytes) list,
      (bytes \<times> bytes \<times> nat) list, (nat \<times> u64 list) list) mgr"
  let ?m1 = "fst (add_bpf_prog ?E ?K ?m0 3 [0] ''p'' 2)"
  let ?m2 = "fst (add_tracepoint ?E ?K ?m1 4 1 7)"
  let ?m3 = "fst (attach_perf_to_bpf ?E ?K ?m2 4 3 None)"
  have "shm_reachable (list_segment 2) False 6 ?m1"
    by (rule shm_reachable.more [OF shm_reachable.start], rule step_prog) simp_all
  then have "shm_reachable (list_segment 2) False 6 ?m2"
    by (rule shm_reachable.more, intro step_tracepoint) simp_all
  then have "shm_reachable (list_segment 2) False 6 ?m3"
    by (rule shm_reachable.more, intro step_attach) simp_all
  moreover have "fst ?m3 = [Unused, Unused, Unused, Prog (bpf_prog_handler [0] ''p'' 2), Perf (perf_tracepoint 1 7), Link (bpf_link_handler 3 4 None)]"
    by (simp add: handler_manager_def add_bpf_prog_def add_tracepoint_def attach_perf_to_bpf_def
        add_bpf_prog_attach_target_def fd_or_fake_def open_fake_fd_def eval_nat_numeral
        set_handler_def is_allocated_def fd_in_range_def is_perf_fd_def is_prog_fd_def)
  ultimately show ?thesis by blast
qed





end
