(* ===== verification/Memory.thy ===== *)
theory Memory
  imports Prelude
begin

text \<open>
  The memory of the process, for the components that work on raw addresses: a byte at every 64-bit
  address.  \<open>peek_mem\<close> reads and \<open>poke_mem\<close> writes a range of bytes, in the order of \<open>memcpy\<close>, and
  addresses wrap.
\<close>

type_synonym memory = "nat \<Rightarrow> u8"

definition peek_mem :: "memory \<Rightarrow> nat \<Rightarrow> nat \<Rightarrow> bytes" where
  "peek_mem mem a n = map (\<lambda>i. mem (wrap64 (a + i))) [0..<n]"

primrec poke_mem :: "memory \<Rightarrow> nat \<Rightarrow> bytes \<Rightarrow> memory" where
  "poke_mem mem a [] = mem"
| "poke_mem mem a (b # bs) = poke_mem (mem(wrap64 a := b)) (Suc a) bs"

lemma wrap64_idem [simp]: "wrap64 (wrap64 a + b) = wrap64 (a + b)"
  by (simp add: wrap64_def mod_simps)

lemma wrap64_less: "wrap64 n < 2 ^ 64"
  by (simp add: wrap64_def)

lemma length_peek_mem [simp]: "length (peek_mem mem a n) = n"
  by (simp add: peek_mem_def)

lemma peek_mem_0 [simp]: "peek_mem mem a 0 = []"
  by (simp add: peek_mem_def)

lemma peek_mem_wrap: "peek_mem mem (wrap64 a) n = peek_mem mem a n"
  by (simp add: peek_mem_def)

lemma peek_mem_append: "peek_mem mem a m @ peek_mem mem (a + m) n = peek_mem mem a (m + n)"
proof -
  have "[0..<m + n] = [0..<m] @ map (\<lambda>i. m + i) [0..<n]"
    by (simp add: upt_add_eq_append [of 0 m n] map_add_upt add.commute)
  then show ?thesis by (simp add: peek_mem_def add.assoc comp_def)
qed

lemma nth_peek_mem: "i < n \<Longrightarrow> a + i < 2 ^ 64 \<Longrightarrow> peek_mem mem a n ! i = mem (a + i)"
  by (simp add: peek_mem_def wrap64_id)

lemma peek_mem_cong:
  "a + n \<le> 2 ^ 64 \<Longrightarrow> (\<And>x. a \<le> x \<Longrightarrow> x < a + n \<Longrightarrow> mem x = mem' x) \<Longrightarrow> peek_mem mem a n = peek_mem mem' a n"
  by (auto simp: peek_mem_def wrap64_id)

text \<open>A write changes the bytes of its range and no other.\<close>

lemma poke_mem_at:
  "a + length bs \<le> 2 ^ 64 \<Longrightarrow>
     poke_mem mem a bs x = (if a \<le> x \<and> x < a + length bs then bs ! (x - a) else mem x)"
proof (induction bs arbitrary: mem a)
  case Nil
  then show ?case by auto
next
  case (Cons b bs)
  have w: "wrap64 a = a" using Cons.prems by (intro wrap64_id) simp
  have "poke_mem mem a (b # bs) x =
      (if Suc a \<le> x \<and> x < Suc a + length bs then bs ! (x - Suc a) else (mem(a := b)) x)"
    using Cons by (simp add: w)
  then show ?case by (auto simp: nth_Cons' Suc_le_eq)
qed

lemma poke_mem_other:
  "a + length bs \<le> 2 ^ 64 \<Longrightarrow> x < a \<or> a + length bs \<le> x \<Longrightarrow> poke_mem mem a bs x = mem x"
  by (auto simp: poke_mem_at)

lemma peek_poke_same:
  assumes "a + length bs \<le> 2 ^ 64"
  shows "peek_mem (poke_mem mem a bs) a (length bs) = bs"
  using assms by (intro nth_equalityI) (simp_all add: nth_peek_mem poke_mem_at)

end
