(* ===== verification/Packet_Helpers.thy ===== *)
theory Packet_Helpers
  imports Memory
begin

text \<open>
  Helper functions of \<open>runtime/src/bpf_helper.cpp\<close> that work on memory: checksums, packets and
  strings, and the numbers that identify the process.  An address is a number below \<open>2 ^ 64\<close>, and a signed overflow is undefined.
\<close>

section \<open>Checksums\<close>

definition EINVAL_code :: int where "EINVAL_code = 22"
definition EFAULT_code :: int where "EFAULT_code = 14"

text \<open>The 16-bit words of a buffer, in the byte order of the machine.\<close>

fun words16 :: "bytes \<Rightarrow> nat list" where
  "words16 (a # b # bs) = (unat a + 256 * unat b) # words16 bs"
| "words16 bs = []"

definition add_int :: "int \<Rightarrow> int \<Rightarrow> int res" where
  "add_int a b = (if - (2 ^ 31) \<le> a + b \<and> a + b < 2 ^ 31 then Inr (a + b) else Inl Fault)"

primrec csum_loop :: "(nat \<Rightarrow> nat) \<Rightarrow> nat list \<Rightarrow> int \<Rightarrow> int res" where
  "csum_loop f [] c = Inr c"
| "csum_loop f (w # ws) c = bind_res (add_int c (int (f w))) (csum_loop f ws)"

definition csum_buffer :: "(nat \<Rightarrow> nat) \<Rightarrow> ptr \<Rightarrow> int \<Rightarrow> int \<Rightarrow> int res" where
  "csum_buffer f p n c =
     (case p of None \<Rightarrow> Inr c | Some bs \<Rightarrow> bind_res (arg_bytes (Some bs) (nat n)) (\<lambda>bs. csum_loop f (words16 bs) c))"

definition bpftime_csum_diff :: "ptr \<Rightarrow> int \<Rightarrow> ptr \<Rightarrow> int \<Rightarrow> int \<Rightarrow> int res" where
  "bpftime_csum_diff from from_size to to_size seed =
     (if from_size mod 4 \<noteq> 0 \<or> to_size mod 4 \<noteq> 0 then Inr (- EINVAL_code)
      else
        bind_res (csum_buffer id to to_size seed) (\<lambda>c.
        bind_res (csum_buffer (\<lambda>w. 65535 - w) from from_size c) (\<lambda>c.
        Inr (if c < 0 then - EINVAL_code else c))))"

lemma words16_append: "even (length xs) \<Longrightarrow> words16 (xs @ ys) = words16 xs @ words16 ys"
  by (induction xs rule: words16.induct) auto

lemma length_words16: "length (words16 bs) = length bs div 2"
  by (induction bs rule: words16.induct) auto

lemma words16_less: "w \<in> set (words16 bs) \<Longrightarrow> w < 65536"
proof (induction bs rule: words16.induct)
  case (1 a b bs)
  have "unat a < 256" "unat b < 256" using unsigned_less [of a] unsigned_less [of b] by simp_all
  with 1 show ?case by auto
qed simp_all

lemma csum_loop_sum:
  assumes "0 \<le> c" and "\<forall>w \<in> set ws. f w \<le> 65535" and "c + 65535 * int (length ws) < 2 ^ 31"
  shows "csum_loop f ws c = Inr (c + (\<Sum>w\<leftarrow>ws. int (f w)))"
  using assms
proof (induction ws arbitrary: c)
  case (Cons w ws)
  have w: "0 \<le> int (f w)" "int (f w) \<le> 65535" using Cons.prems(2) by simp_all
  have "csum_loop f ws (c + int (f w)) = Inr (c + int (f w) + (\<Sum>w\<leftarrow>ws. int (f w)))"
    using Cons.prems w by (intro Cons.IH) (simp_all add: distrib_left)
  moreover have "add_int c (int (f w)) = Inr (c + int (f w))"
    using Cons.prems w by (simp add: add_int_def distrib_left)
  ultimately show ?case by simp
qed simp

text \<open>The one's complement of a word is its negation modulo \<open>2 ^ 16 - 1\<close>.\<close>

lemma complement_sum:
  "\<forall>w \<in> set ws. w \<le> 65535 \<Longrightarrow> (\<Sum>w\<leftarrow>ws. int (65535 - w)) mod 65535 = (- (\<Sum>w\<leftarrow>ws. int w)) mod 65535"
proof (induction ws)
  case (Cons w ws)
  have "(\<Sum>w\<leftarrow>w # ws. int (65535 - w)) mod 65535 = (65535 - int w + (\<Sum>w\<leftarrow>ws. int (65535 - w)) mod 65535) mod 65535"
    using Cons.prems by (simp add: of_nat_diff mod_simps)
  also have "\<dots> = (65535 - int w + (- (\<Sum>w\<leftarrow>ws. int w)) mod 65535) mod 65535" using Cons by simp
  also have "\<dots> = (65535 - int w + - (\<Sum>w\<leftarrow>ws. int w)) mod 65535" by (rule mod_add_right_eq)
  also have "\<dots> = (- (int w + (\<Sum>w\<leftarrow>ws. int w)) + 65535) mod 65535" by (simp add: algebra_simps)
  also have "\<dots> = (- (\<Sum>w\<leftarrow>w # ws. int w)) mod 65535" by (simp only: mod_add_self2 list.map sum_list.Cons)
  finally show ?case .
qed simp

text \<open>The sum that a checksum is computed from, modulo \<open>2 ^ 16 - 1\<close>.\<close>

definition packet_sum :: "bytes \<Rightarrow> int" where
  "packet_sum bs = (\<Sum>w\<leftarrow>words16 bs. int w) mod 65535"

text \<open>
  C17. Updating a checksum: if the seed is the one's complement sum of a packet, the result for a
  part of the packet that is replaced is the sum of the packet after the replacement.  The part is
  at an even offset, its old and new sizes are multiples of four, and the buffers are so short that
  the sum does not overflow.
\<close>

theorem csum_diff_updates_sum:
  assumes "even (length pre)" and "length old mod 4 = 0" and "length new mod 4 = 0"
    and "0 \<le> seed" and "seed mod 65535 = packet_sum (pre @ old @ post)"
    and "seed + 65535 * (int (length new) div 2 + int (length old) div 2) < 2 ^ 31"
  shows "\<exists>c. bpftime_csum_diff (Some old) (int (length old)) (Some new) (int (length new)) seed = Inr c \<and> 0 \<le> c \<and>
    c mod 65535 = packet_sum (pre @ new @ post)"
proof -
  let ?s = "\<lambda>bs. \<Sum>w\<leftarrow>words16 bs. int w" and ?n = "\<Sum>w\<leftarrow>words16 old. int (65535 - w)"
  have ev: "even (length old)" "even (length new)" using assms(2,3) by presburger+
  have m4: "int (length old) mod 4 = 0" "int (length new) mod 4 = 0" using assms(2,3) by presburger+
  have le: "\<forall>w \<in> set (words16 bs). w \<le> 65535" for bs using words16_less by fastforce
  have len: "int (length (words16 bs)) = int (length bs) div 2" for bs by (simp add: length_words16 zdiv_int)
  have "0 \<le> int (length old) div 2" by simp
  moreover have "s + 65535 * (x + y) < b \<Longrightarrow> 0 \<le> y \<Longrightarrow> s + 65535 * x < b" for s x y b :: int by simp
  ultimately have "seed + 65535 * int (length (words16 new)) < 2 ^ 31" unfolding len using assms(6) by blast
  then have new: "csum_loop id (words16 new) seed = Inr (seed + ?s new)"
    using csum_loop_sum [of seed "words16 new" id] le [of new] assms(4) by simp
  have s: "0 \<le> ?s new" "?s new \<le> 65535 * int (length (words16 new))" "0 \<le> ?n"
    using le [of new] by (auto intro!: sum_list_nonneg sum_list_mono [of "words16 new" int "\<lambda>w. 65535", simplified sum_list_triv, simplified]
        simp: mult.commute)
  have "seed + ?s new + 65535 * int (length (words16 old)) < 2 ^ 31"
    using assms(6) s(2) by (simp add: len distrib_left)
  then have old: "csum_loop (\<lambda>w. 65535 - w) (words16 old) (seed + ?s new) = Inr (seed + ?s new + ?n)"
    using assms(4) s(1) by (intro csum_loop_sum) simp_all
  have "bpftime_csum_diff (Some old) (int (length old)) (Some new) (int (length new)) seed = Inr (seed + ?s new + ?n)"
    using assms(4) s new old m4
    by (simp add: bpftime_csum_diff_def csum_buffer_def arg_bytes_Some)
  moreover have "(seed + ?s new + ?n) mod 65535 = packet_sum (pre @ new @ post)"
  proof -
    have split: "(x + y + z) mod m = (x mod m + y + z mod m) mod m" for x y z m :: int
      by (metis add.assoc mod_add_left_eq mod_add_right_eq)
    have "(seed + ?s new + ?n) mod 65535 = (?s (pre @ old @ post) mod 65535 + ?s new + (- ?s old) mod 65535) mod 65535"
      unfolding split [of seed] assms(5) packet_sum_def complement_sum [OF le] ..
    also have "\<dots> = (?s (pre @ old @ post) + ?s new + - ?s old) mod 65535" by (rule split [symmetric])
    finally show ?thesis using assms(1) ev by (simp add: packet_sum_def words16_append algebra_simps)
  qed
  ultimately show ?thesis using assms(4) s by auto
qed


theorem csum_diff_updates_sum_witness:
  "\<exists>c. bpftime_csum_diff (Some [1, 0, 2, 0]) 4 (Some [5, 0, 0, 1]) 4 10 = Inr c \<and> 0 \<le> c \<and>
     c mod 65535 = packet_sum ([3, 0] @ [5, 0, 0, 1] @ [4, 0])"
  using csum_diff_updates_sum [of "[3, 0]" "[1, 0, 2, 0]" "[5, 0, 0, 1]" 10 "[4, 0]"]
  by (simp add: packet_sum_def)

section \<open>Packets\<close>

text \<open>The fields of the context that the functions use; the packet is in memory.\<close>

record xdp_md =
  xd_data :: nat
  xd_data_end :: nat
  xd_buffer_start :: nat
  xd_buffer_end :: nat

definition u64_add :: "nat \<Rightarrow> int \<Rightarrow> nat" where
  "u64_add a i = nat ((int a + i) mod 2 ^ 64)"

definition ETH_HLEN :: int where "ETH_HLEN = 14"

definition move_bytes :: "memory \<Rightarrow> nat \<Rightarrow> nat \<Rightarrow> nat \<Rightarrow> memory" where
  "move_bytes mem d s n = poke_mem mem d (peek_mem mem s n)"

definition bpftime_xdp_adjust_head :: "int \<Rightarrow> xdp_md \<times> memory \<Rightarrow> int \<times> xdp_md \<times> memory" where
  "bpftime_xdp_adjust_head offset = (\<lambda>(x, mem).
     let data = u64_add (xd_data x) offset
     in if data > u64_add (xd_data_end x) (- ETH_HLEN) \<or> data > xd_buffer_end x then (- EINVAL_code, x, mem)
        else if data < xd_buffer_start x then
          (0, x\<lparr>xd_data := xd_buffer_start x\<rparr>,
           move_bytes mem (u64_add (xd_buffer_start x) (int (xd_buffer_start x) - int data)) (xd_data x)
             (u64_add (xd_data_end x) (- int (xd_data x))))
        else (0, x\<lparr>xd_data := data\<rparr>, mem))"

definition bpftime_xdp_adjust_tail :: "int \<Rightarrow> xdp_md \<times> memory \<Rightarrow> int \<times> xdp_md \<times> memory" where
  "bpftime_xdp_adjust_tail delta = (\<lambda>(x, mem).
     let data = u64_add (xd_data_end x) delta
     in if data < xd_data x \<or> data < xd_buffer_start x \<or> data > xd_buffer_end x then (- EINVAL_code, x, mem)
        else (0, x\<lparr>xd_data_end := data\<rparr>, mem))"

text \<open>The result is the bytes written to the caller's buffer.\<close>

definition bpftime_xdp_load_bytes :: "nat \<Rightarrow> nat \<Rightarrow> xdp_md \<times> memory \<Rightarrow> bytes res" where
  "bpftime_xdp_load_bytes offset len = (\<lambda>(x, mem).
     let data = u64_add (xd_data x) (int offset)
     in if u64_add data (int len) > xd_data_end x then Inl (RetNeg EINVAL) else Inr (peek_mem mem data len))"

datatype xdp_op = Adjust_Head int | Adjust_Tail int

definition xdp_step :: "xdp_op \<Rightarrow> xdp_md \<times> memory \<Rightarrow> xdp_md \<times> memory" where
  "xdp_step p s = (case p of Adjust_Head i \<Rightarrow> snd (bpftime_xdp_adjust_head i s) | Adjust_Tail i \<Rightarrow> snd (bpftime_xdp_adjust_tail i s))"

text \<open>The packet lies in the buffer, and the buffer in the addresses of user space, which exclude the lowest.\<close>

definition xdp_ok :: "xdp_md \<Rightarrow> bool" where
  "xdp_ok x \<longleftrightarrow>
     14 \<le> xd_buffer_start x \<and> xd_buffer_start x \<le> xd_data x \<and> xd_data x \<le> xd_data_end x \<and> xd_data_end x \<le> xd_buffer_end x \<and> xd_buffer_end x < 2 ^ 63"

lemma u64_add_cases:
  assumes "a < 2 ^ 63" and "- (2 ^ 31) \<le> i" and "i < 2 ^ 32"
  shows "u64_add a i = (if 0 \<le> int a + i then nat (int a + i) else nat (int a + i + 2 ^ 64))"
proof (cases "0 \<le> int a + i")
  case True
  with assms show ?thesis by (simp add: u64_add_def)
next
  case False
  have "(int a + i) mod 2 ^ 64 = (int a + i + 2 ^ 64) mod 2 ^ 64" by simp
  also have "\<dots> = int a + i + 2 ^ 64" using False assms by (intro mod_pos_pos_trivial) auto
  finally show ?thesis using False by (simp add: u64_add_def)
qed

lemma xdp_step_ok:
  assumes ok: "xdp_ok x" and s: "xdp_step p (x, mem) = (x', mem')"
  shows "xdp_ok x' \<and> xd_buffer_start x' = xd_buffer_start x \<and> xd_buffer_end x' = xd_buffer_end x"
proof (cases p)
  case (Adjust_Head i)
  have b: "xd_data_end x < 2 ^ 63" using ok by (simp add: xdp_ok_def)
  let ?d = "u64_add (xd_data x) i"
  have e: "x' = fst (snd (bpftime_xdp_adjust_head i (x, mem)))" using s by (simp add: Adjust_Head xdp_step_def)
  show ?thesis
  proof (cases "?d > u64_add (xd_data_end x) (- ETH_HLEN) \<or> ?d > xd_buffer_end x")
    case True
    then have "x' = x" unfolding e by (simp only: bpftime_xdp_adjust_head_def Let_def prod.case if_True fst_conv snd_conv)
    with ok show ?thesis by simp
  next
    case False
    then have x': "x' = x\<lparr>xd_data := max ?d (xd_buffer_start x)\<rparr>" unfolding e
      by (simp only: bpftime_xdp_adjust_head_def Let_def prod.case if_False)
        (cases "?d < xd_buffer_start x"; simp)
    have "14 \<le> xd_data_end x" using ok by (simp add: xdp_ok_def)
    then have "u64_add (xd_data_end x) (- ETH_HLEN) = xd_data_end x - 14"
      using u64_add_cases [OF b, of "- 14"] by (simp add: ETH_HLEN_def)
    with False have "?d \<le> xd_data_end x" by linarith
    with x' ok show ?thesis by (simp add: xdp_ok_def)
  qed
next
  case (Adjust_Tail i)
  with s ok show ?thesis
    by (auto simp: xdp_step_def bpftime_xdp_adjust_tail_def Let_def xdp_ok_def split: if_splits)
qed


lemma xdp_steps_ok:
  assumes "xdp_ok x" and "fold xdp_step ops (x, mem) = (x', mem')"
  shows "xdp_ok x' \<and> xd_buffer_start x' = xd_buffer_start x \<and> xd_buffer_end x' = xd_buffer_end x"
  using assms
proof (induction ops arbitrary: x mem)
  case (Cons p ops)
  obtain y m where y: "xdp_step p (x, mem) = (y, m)" by fastforce
  from Cons.prems(2) have "fold xdp_step ops (y, m) = (x', mem')" by (simp add: y)
  with Cons.IH [of y m] xdp_step_ok [OF Cons.prems(1) y] show ?case by simp
qed simp



text \<open>
  Growing the head beyond the room before the packet moves the packet so far that its last bytes are
  written behind the buffer, and leaves the end where it was.
\<close>

lemma adjust_head_overruns:
  assumes "bpftime_xdp_adjust_head (- 8) (\<lparr>xd_data = 100, xd_data_end = 132, xd_buffer_start = 100, xd_buffer_end = 132\<rparr>, mem) = (r, x, mem')"
  shows "r = 0" and "xd_data_end x = 132" and "mem' 139 = mem 131"
proof -
  have e: "r = 0 \<and> xd_data_end x = 132 \<and> mem' = poke_mem mem 108 (peek_mem mem 100 32)"
    using assms by (auto simp: bpftime_xdp_adjust_head_def u64_add_def ETH_HLEN_def move_bytes_def)
  moreover have "poke_mem mem 108 (peek_mem mem 100 32) 139 = mem 131"
    by (simp add: poke_mem_at nth_peek_mem)
  ultimately show "r = 0" and "xd_data_end x = 132" and "mem' 139 = mem 131" by simp_all
qed


section \<open>Strings\<close>

text \<open>\<open>strncpy\<close>: the characters before the terminator, and zeros up to the size.\<close>

definition strncpy_bytes :: "bytes \<Rightarrow> nat \<Rightarrow> bytes" where
  "strncpy_bytes bs n = (let cs = takeWhile (\<lambda>b. b \<noteq> 0) (take n bs) in cs @ replicate (n - length cs) 0)"

definition bpf_probe_read_str :: "nat \<Rightarrow> nat \<Rightarrow> nat \<Rightarrow> memory \<Rightarrow> int \<times> memory" where
  "bpf_probe_read_str buf bufsz src mem = (0, poke_mem mem buf (strncpy_bytes (peek_mem mem src bufsz) bufsz))"

text \<open>The cached name of the executable; \<open>exe\<close> is the answer of \<open>readlink\<close>.\<close>

definition after_last_slash :: "bytes \<Rightarrow> bytes" where
  "after_last_slash path = rev (takeWhile (\<lambda>b. b \<noteq> 47) (rev path))"

definition bpftime_get_current_comm ::
  "bytes option \<Rightarrow> nat \<Rightarrow> nat \<Rightarrow> bytes \<times> memory \<Rightarrow> int \<times> bytes \<times> memory" where
  "bpftime_get_current_comm exe buf n = (\<lambda>(filename_buf, mem).
     let copy = (\<lambda>name. (0, name, poke_mem mem buf (strncpy_bytes (name @ [0]) n)))
     in if filename_buf = [] then
          case exe of None \<Rightarrow> (1, filename_buf, mem)
          | Some strbuf \<Rightarrow> copy (after_last_slash (takeWhile (\<lambda>b. b \<noteq> 0) (take 4095 strbuf)))
        else copy filename_buf)"

fun strncmp_from :: "memory \<Rightarrow> nat \<Rightarrow> nat \<Rightarrow> nat \<Rightarrow> int" where
  "strncmp_from mem a b 0 = 0"
| "strncmp_from mem a b (Suc n) =
     (let x = mem (wrap64 a); y = mem (wrap64 b)
      in if x \<noteq> y then int (unat x) - int (unat y) else if x = 0 then 0 else strncmp_from mem (Suc a) (Suc b) n)"

definition bpftime_strncmp :: "memory \<Rightarrow> nat \<Rightarrow> nat \<Rightarrow> nat \<Rightarrow> int" where
  "bpftime_strncmp mem s1 s1_sz s2 = strncmp_from mem s1 s2 s1_sz"

lemma length_strncpy_bytes: "length (strncpy_bytes bs n) = n"
proof -
  have "length (takeWhile (\<lambda>b. b \<noteq> 0) (take n bs)) \<le> n" using length_takeWhile_le [of _ "take n bs"] by (simp add: le_trans)
  then show ?thesis by (simp add: strncpy_bytes_def Let_def)
qed

text \<open>A string that fits is read with its terminator; one that does not fit is left without.\<close>

lemma probe_read_str_fits:
  assumes "0 \<notin> set cs" and "length cs < n" and "peek_mem mem src n = cs @ 0 # rest" and "buf + n \<le> 2 ^ 64"
  shows "peek_mem (snd (bpf_probe_read_str buf n src mem)) buf n = cs @ replicate (n - length cs) 0"
proof -
  have tw: "takeWhile (\<lambda>b. b \<noteq> 0) (cs @ 0 # rest) = cs" using assms(1) by (induction cs) auto
  have "take n (peek_mem mem src n) = peek_mem mem src n" by simp
  then have "strncpy_bytes (peek_mem mem src n) n = cs @ replicate (n - length cs) 0"
    unfolding strncpy_bytes_def Let_def by (simp only: assms(3) tw)
  then show ?thesis
    using peek_poke_same [of buf "strncpy_bytes (peek_mem mem src n) n" mem] assms(2,4)
    by (simp add: bpf_probe_read_str_def length_strncpy_bytes)
qed

lemma probe_read_str_unterminated:
  assumes "0 \<notin> set (peek_mem mem src n)" and "buf + n \<le> 2 ^ 64"
  shows "0 \<notin> set (peek_mem (snd (bpf_probe_read_str buf n src mem)) buf n)" and "fst (bpf_probe_read_str buf n src mem) = 0"
proof -
  have tw: "takeWhile (\<lambda>b. b \<noteq> 0) (peek_mem mem src n) = peek_mem mem src n" using assms(1) by (auto simp: takeWhile_eq_all_conv)
  have "strncpy_bytes (peek_mem mem src n) n = peek_mem mem src n" unfolding strncpy_bytes_def Let_def by (simp add: tw)
  then show "0 \<notin> set (peek_mem (snd (bpf_probe_read_str buf n src mem)) buf n)"
    using peek_poke_same [of buf "peek_mem mem src n" mem] assms by (simp add: bpf_probe_read_str_def)
  show "fst (bpf_probe_read_str buf n src mem) = 0" by (simp add: bpf_probe_read_str_def)
qed

section \<open>Identity\<close>

unbundle bit_operations_syntax

text \<open>The numbers are \<open>int\<close> and are converted to 64 bits with their sign.\<close>

definition bpftime_get_current_pid_tgid :: "int \<Rightarrow> int \<Rightarrow> u64" where
  "bpftime_get_current_pid_tgid tgid tid = push_bit 32 (word_of_int tgid) OR word_of_int tid"

definition bpf_get_current_uid_gid :: "int \<Rightarrow> u64" where
  "bpf_get_current_uid_gid gid = push_bit 32 (word_of_int gid) OR word_of_int gid"

lemma halves_of_or:
  assumes "0 \<le> hi" and "hi < 2 ^ 31" and "0 \<le> lo" and "lo < 2 ^ 31"
  shows "uint (push_bit 32 (word_of_int hi) OR word_of_int lo :: u64) = hi * 2 ^ 32 + lo"
proof -
  have high: "\<not> bit lo n" if "32 \<le> n" for n
  proof -
    have "(2::int) ^ 31 \<le> 2 ^ n" using that by (intro power_increasing) auto
    with assms(3,4) have "lo div 2 ^ n = 0" by (intro div_pos_pos_trivial) auto
    then show ?thesis by (simp add: bit_iff_odd)
  qed
  have "push_bit 32 hi + lo = push_bit 32 hi OR lo"
    by (rule disjunctive_add) (metis bit_push_bit_iff high)
  then have "push_bit 32 hi OR lo = hi * 2 ^ 32 + lo" by (simp add: push_bit_eq_mult)
  moreover have "uint (push_bit 32 (word_of_int hi) OR word_of_int lo :: u64) = take_bit 64 (push_bit 32 hi OR lo)"
    by (simp add: unsigned_or_eq unsigned_push_bit_eq unsigned_of_int take_bit_push_bit)
  ultimately show ?thesis using assms by (simp add: take_bit_int_eq_self)
qed

lemma pid_tgid_halves:
  assumes "0 \<le> tgid" and "tgid < 2 ^ 31" and "0 \<le> tid" and "tid < 2 ^ 31"
  shows "uint (bpftime_get_current_pid_tgid tgid tid) = tgid * 2 ^ 32 + tid"
  unfolding bpftime_get_current_pid_tgid_def by (rule halves_of_or [OF assms])

text \<open>The lower half, which should be the user id, is the group id.\<close>

lemma uid_gid_halves:
  assumes "0 \<le> gid" and "gid < 2 ^ 31"
  shows "uint (bpf_get_current_uid_gid gid) = gid * 2 ^ 32 + gid"
  unfolding bpf_get_current_uid_gid_def by (rule halves_of_or [OF assms assms])

end
