(* ===== verification/Probe_Helpers.thy ===== *)
theory Probe_Helpers
  imports Packet_Helpers
begin

text \<open>
  \<open>bpftime_probe_read\<close> and \<open>bpftime_probe_write_user\<close> of \<open>runtime/src/bpf_helper.cpp\<close>: copies between
  addresses a program gives.  In the build with the checks, a handler of the signal \<open>SIGSEGV\<close> turns a
  fault of the copy into an error.  The handler belongs to the process, the other variables to the
  thread.
\<close>

section \<open>State\<close>

datatype segv_handler = No_handler | Segv_read | Segv_write | Other_handler nat

datatype PROBE_STATUS = NOT_RUNNING | RUNNING_NO_ERROR | RUNNING_ERROR

datatype ORIGIN_HANDLER_EXIST_FLAG = NOT_CHECKED | NOT_EXIST | EXIST

record probe_vars =
  pv_status :: PROBE_STATUS
  pv_exist :: ORIGIN_HANDLER_EXIST_FLAG
  pv_origin :: segv_handler

record probe_state =
  ps_segv :: segv_handler
  ps_read :: probe_vars
  ps_write :: probe_vars
  ps_mem :: memory

text \<open>The answers of \<open>sigaction\<close> and \<open>sigemptyset\<close>, \<open>True\<close> for an error.\<close>

record sig_answers =
  sg_get :: bool
  sg_empty :: bool
  sg_set :: bool

definition sig_calm :: sig_answers where
  "sig_calm = \<lparr>sg_get = False, sg_empty = False, sg_set = False\<rparr>"

section \<open>The handlers of the signal\<close>

text \<open>
  A handler ends, or calls another one in its place.  \<open>Jump_read\<close> and \<open>Jump_write\<close> continue at the jump
  points of the helpers; after \<open>Returned\<close> the faulting instruction runs again.
\<close>

datatype segv_outcome = Killed | Foreign nat | Threw | Returned | Jump_read | Jump_write

datatype handler_step = Call segv_handler | Finish segv_outcome probe_state

definition segv_read_handler :: "probe_state \<Rightarrow> handler_step" where
  "segv_read_handler s =
     (let v = ps_read s
      in case pv_status v of
           NOT_RUNNING \<Rightarrow> if pv_origin v \<noteq> No_handler then Call (pv_origin v) else Finish Threw s
         | RUNNING_NO_ERROR \<Rightarrow> Finish Jump_read (s\<lparr>ps_read := v\<lparr>pv_status := RUNNING_ERROR\<rparr>\<rparr>)
         | RUNNING_ERROR \<Rightarrow> Finish Returned s)"

definition segv_write_handler :: "probe_state \<Rightarrow> handler_step" where
  "segv_write_handler s =
     (let v = ps_write s
      in case pv_status v of
           NOT_RUNNING \<Rightarrow> if pv_origin v \<noteq> No_handler then Call (pv_origin v) else Finish Threw s
         | RUNNING_NO_ERROR \<Rightarrow> Finish Jump_write (s\<lparr>ps_write := v\<lparr>pv_status := RUNNING_ERROR\<rparr>\<rparr>)
         | RUNNING_ERROR \<Rightarrow> Finish Returned s)"

definition handler_body :: "segv_handler \<Rightarrow> probe_state \<Rightarrow> handler_step" where
  "handler_body h s =
     (case h of
        No_handler \<Rightarrow> Finish Killed s
      | Segv_read \<Rightarrow> segv_read_handler s
      | Segv_write \<Rightarrow> segv_write_handler s
      | Other_handler n \<Rightarrow> Finish (Foreign n) s)"

text \<open>The delivery of the signal; it has no result when handlers call each other forever.\<close>

partial_function (option) deliver :: "segv_handler \<Rightarrow> probe_state \<Rightarrow> (segv_outcome \<times> probe_state) option" where
  "deliver h s = (case handler_body h s of Call h' \<Rightarrow> deliver h' s | Finish r s' \<Rightarrow> Some (r, s'))"

section \<open>The helpers\<close>

text \<open>
  The part before the copy: whether it goes on, the variables of the thread and the handler of the
  process.  \<open>junk\<close> is what \<open>original_sa\<close> holds when the function does not fill it in.
\<close>

definition probe_setup ::
  "segv_handler \<Rightarrow> sig_answers \<Rightarrow> segv_handler \<Rightarrow> probe_vars \<Rightarrow> segv_handler \<Rightarrow> bool \<times> probe_vars \<times> segv_handler" where
  "probe_setup own A junk v segv =
     (let v = v\<lparr>pv_status := RUNNING_NO_ERROR\<rparr>
      in if pv_exist v = NOT_CHECKED \<and> sg_get A then (False, v, segv)
         else
           let (v, original) =
             (if pv_exist v = NOT_CHECKED then
                (if segv = No_handler then v\<lparr>pv_exist := NOT_EXIST\<rparr> else v\<lparr>pv_exist := EXIST, pv_origin := segv\<rparr>, segv)
              else (v, junk))
           in if original \<noteq> own then
                if sg_empty A then (False, v, segv)
                else if sg_set A then (False, v, segv)
                else (True, v, own)
              else (True, v, segv))"

text \<open>
  The copy: it faults unless the source can be read and the destination written, and has then
  written some of the bytes, those that \<open>part\<close> says.
\<close>

record probe_env =
  pr_readable :: "nat \<Rightarrow> bool"
  pr_writable :: "nat \<Rightarrow> bool"

definition copy_ok :: "probe_env \<Rightarrow> nat \<Rightarrow> nat \<Rightarrow> nat \<Rightarrow> bool" where
  "copy_ok P dst src n \<longleftrightarrow> list_all (\<lambda>i. pr_readable P (wrap64 (src + i)) \<and> pr_writable P (wrap64 (dst + i))) [0..<n]"

definition partial_copy :: "probe_env \<Rightarrow> (nat \<Rightarrow> bool) \<Rightarrow> memory \<Rightarrow> nat \<Rightarrow> nat \<Rightarrow> nat \<Rightarrow> memory" where
  "partial_copy P part mem dst src n =
     (\<lambda>x. let i = wrap64 (x + (2 ^ 64 - dst))
          in if i < n \<and> part i \<and> pr_writable P x \<and> pr_readable P (wrap64 (src + i)) then mem (wrap64 (src + i)) else mem x)"

text \<open>The result is \<open>None\<close> when the helper does not return; \<open>check\<close> is the option of the build.\<close>

definition bpftime_probe_read ::
  "bool \<Rightarrow> probe_env \<Rightarrow> (nat \<Rightarrow> bool) \<Rightarrow> sig_answers \<Rightarrow> segv_handler \<Rightarrow> nat \<Rightarrow> int \<Rightarrow> nat \<Rightarrow> probe_state \<Rightarrow>
     (int \<times> probe_state) res option" where
  "bpftime_probe_read check P part A junk dst n src s =
     (if n < 0 then Some (Inr (- EFAULT_code, s))
      else if \<not> check then
        Some (if copy_ok P dst src (nat n) then Inr (0, s\<lparr>ps_mem := move_bytes (ps_mem s) dst src (nat n)\<rparr>) else Inl Fault)
      else
        let (go, v, segv) = probe_setup Segv_read A junk (ps_read s) (ps_segv s); s = s\<lparr>ps_read := v, ps_segv := segv\<rparr>
        in if \<not> go then Some (Inr (- EFAULT_code, s))
           else if copy_ok P dst src (nat n) then
             Some (Inr (0, s\<lparr>ps_mem := move_bytes (ps_mem s) dst src (nat n), ps_read := v\<lparr>pv_status := NOT_RUNNING\<rparr>\<rparr>))
           else
             map_option (\<lambda>(r, s).
               if r = Jump_read then
                 Inr (if pv_status (ps_read s) = RUNNING_ERROR then - EFAULT_code else 0,
                      s\<lparr>ps_read := (ps_read s)\<lparr>pv_status := NOT_RUNNING\<rparr>\<rparr>)
               else Inl (if r = Threw then Throw else Fault))
             (deliver segv (s\<lparr>ps_mem := partial_copy P part (ps_mem s) dst src (nat n)\<rparr>)))"

definition bpftime_probe_write_user ::
  "bool \<Rightarrow> probe_env \<Rightarrow> (nat \<Rightarrow> bool) \<Rightarrow> sig_answers \<Rightarrow> segv_handler \<Rightarrow> nat \<Rightarrow> nat \<Rightarrow> int \<Rightarrow> probe_state \<Rightarrow>
     (int \<times> probe_state) res option" where
  "bpftime_probe_write_user check P part A junk dst src n s =
     (if n < 0 then Some (Inr (- EFAULT_code, s))
      else if \<not> check then
        Some (if copy_ok P dst src (nat n) then Inr (0, s\<lparr>ps_mem := move_bytes (ps_mem s) dst src (nat n)\<rparr>) else Inl Fault)
      else
        let (go, v, segv) = probe_setup Segv_write A junk (ps_write s) (ps_segv s); s = s\<lparr>ps_write := v, ps_segv := segv\<rparr>
        in if \<not> go then Some (Inr (- EFAULT_code, s))
           else if copy_ok P dst src (nat n) then
             Some (Inr (0, s\<lparr>ps_mem := move_bytes (ps_mem s) dst src (nat n), ps_write := v\<lparr>pv_status := NOT_RUNNING\<rparr>\<rparr>))
           else
             map_option (\<lambda>(r, s).
               if r = Jump_write then
                 Inr (if pv_status (ps_write s) = RUNNING_ERROR then - EFAULT_code else 0,
                      s\<lparr>ps_write := (ps_write s)\<lparr>pv_status := NOT_RUNNING\<rparr>\<rparr>)
               else Inl (if r = Threw then Throw else Fault))
             (deliver segv (s\<lparr>ps_mem := partial_copy P part (ps_mem s) dst src (nat n)\<rparr>)))"

section \<open>Probes as checked copies\<close>

text \<open>What a helper should do: copy when all addresses are accessible, and report an error otherwise.\<close>

definition checked_copy :: "probe_env \<Rightarrow> (nat \<Rightarrow> bool) \<Rightarrow> nat \<Rightarrow> int \<Rightarrow> nat \<Rightarrow> memory \<Rightarrow> int \<times> memory" where
  "checked_copy P part dst n src mem =
     (if n < 0 then (- EFAULT_code, mem)
      else if copy_ok P dst src (nat n) then (0, move_bytes mem dst src (nat n))
      else (- EFAULT_code, partial_copy P part mem dst src (nat n)))"

text \<open>The operations of a thread; between them, other threads install handlers.\<close>

datatype probe_op =
  Probe_Read nat int nat "nat \<Rightarrow> bool" sig_answers segv_handler
| Probe_Write nat nat int "nat \<Rightarrow> bool" sig_answers segv_handler
| Install segv_handler

definition probe_step :: "probe_env \<Rightarrow> probe_op \<Rightarrow> probe_state \<Rightarrow> (int list \<times> probe_state) res option" where
  "probe_step P p s =
     (case p of
        Probe_Read dst n src part A junk \<Rightarrow>
          map_option (\<lambda>r. bind_res r (\<lambda>(i, s). Inr ([i], s))) (bpftime_probe_read True P part A junk dst n src s)
      | Probe_Write dst src n part A junk \<Rightarrow>
          map_option (\<lambda>r. bind_res r (\<lambda>(i, s). Inr ([i], s))) (bpftime_probe_write_user True P part A junk dst src n s)
      | Install h \<Rightarrow> Some (Inr ([], s\<lparr>ps_segv := h\<rparr>)))"

fun probe_run :: "probe_env \<Rightarrow> probe_op list \<Rightarrow> probe_state \<Rightarrow> (int list \<times> probe_state) res option" where
  "probe_run P [] s = Some (Inr ([], s))"
| "probe_run P (p # ps) s =
     (case probe_step P p s of
        Some (Inr (r, s)) \<Rightarrow> map_option (\<lambda>x. bind_res x (\<lambda>(rs, s). Inr (r @ rs, s))) (probe_run P ps s)
      | x \<Rightarrow> x)"

definition copy_step :: "probe_env \<Rightarrow> probe_op \<Rightarrow> memory \<Rightarrow> int list \<times> memory" where
  "copy_step P p mem =
     (case p of
        Probe_Read dst n src part A junk \<Rightarrow> (case checked_copy P part dst n src mem of (i, mem) \<Rightarrow> ([i], mem))
      | Probe_Write dst src n part A junk \<Rightarrow> (case checked_copy P part dst n src mem of (i, mem) \<Rightarrow> ([i], mem))
      | Install h \<Rightarrow> ([], mem))"

fun copy_run :: "probe_env \<Rightarrow> probe_op list \<Rightarrow> memory \<Rightarrow> int list \<times> memory" where
  "copy_run P [] mem = ([], mem)"
| "copy_run P (p # ps) mem = (case copy_step P p mem of (r, mem) \<Rightarrow> case copy_run P ps mem of (rs, mem) \<Rightarrow> (r @ rs, mem))"

text \<open>The system calls succeed, and the unset variable does not happen to hold the helper's own handler.\<close>

definition probe_calm :: "probe_op \<Rightarrow> bool" where
  "probe_calm p \<longleftrightarrow>
     (case p of
        Probe_Read dst n src part A junk \<Rightarrow> A = sig_calm \<and> junk \<noteq> Segv_read
      | Probe_Write dst src n part A junk \<Rightarrow> A = sig_calm \<and> junk \<noteq> Segv_write
      | Install h \<Rightarrow> True)"

definition probes_idle :: "probe_state \<Rightarrow> bool" where
  "probes_idle s \<longleftrightarrow> pv_status (ps_read s) = NOT_RUNNING \<and> pv_status (ps_write s) = NOT_RUNNING"

lemma setup_installs:
  assumes "junk \<noteq> own"
  shows "\<exists>v'. probe_setup own sig_calm junk v segv = (True, v', own) \<and> pv_status v' = RUNNING_NO_ERROR"
  using assms by (auto simp: probe_setup_def sig_calm_def Let_def)

lemma deliver_running:
  "pv_status (ps_read s) = RUNNING_NO_ERROR \<Longrightarrow>
     deliver Segv_read s = Some (Jump_read, s\<lparr>ps_read := (ps_read s)\<lparr>pv_status := RUNNING_ERROR\<rparr>\<rparr>)"
  "pv_status (ps_write s) = RUNNING_NO_ERROR \<Longrightarrow>
     deliver Segv_write s = Some (Jump_write, s\<lparr>ps_write := (ps_write s)\<lparr>pv_status := RUNNING_ERROR\<rparr>\<rparr>)"
  by (simp_all add: deliver.simps [of Segv_read] deliver.simps [of Segv_write] handler_body_def segv_read_handler_def segv_write_handler_def)

lemma probe_step_copies:
  assumes "probes_idle s" and "probe_calm p"
  shows "\<exists>s'. probe_step P p s = Some (Inr (fst (copy_step P p (ps_mem s)), s')) \<and> ps_mem s' = snd (copy_step P p (ps_mem s)) \<and> probes_idle s'"
proof (cases p)
  case (Probe_Read dst n src part A junk)
  then obtain v where "probe_setup Segv_read A junk (ps_read s) (ps_segv s) = (True, v, Segv_read)" "pv_status v = RUNNING_NO_ERROR"
    using assms(2) setup_installs [of junk Segv_read] by (auto simp: probe_calm_def)
  with Probe_Read assms(1) show ?thesis
    by (simp add: probe_step_def copy_step_def checked_copy_def bpftime_probe_read_def deliver_running probes_idle_def)
next
  case (Probe_Write dst src n part A junk)
  then obtain v where "probe_setup Segv_write A junk (ps_write s) (ps_segv s) = (True, v, Segv_write)" "pv_status v = RUNNING_NO_ERROR"
    using assms(2) setup_installs [of junk Segv_write] by (auto simp: probe_calm_def)
  with Probe_Write assms(1) show ?thesis
    by (simp add: probe_step_def copy_step_def checked_copy_def bpftime_probe_write_user_def deliver_running probes_idle_def)
next
  case (Install h)
  with assms(1) show ?thesis by (simp add: probe_step_def copy_step_def probes_idle_def)
qed


definition fresh_vars :: probe_vars where
  "fresh_vars = \<lparr>pv_status = NOT_RUNNING, pv_exist = NOT_CHECKED, pv_origin = No_handler\<rparr>"

definition fresh_probes :: "segv_handler \<Rightarrow> memory \<Rightarrow> probe_state" where
  "fresh_probes h mem = \<lparr>ps_segv = h, ps_read = fresh_vars, ps_write = fresh_vars, ps_mem = mem\<rparr>"


section \<open>What the conditions exclude\<close>

text \<open>
  A thread whose first probe comes after one of another thread takes the helper's own handler for
  the original one: a later fault outside the probes makes the handler call itself without end.
\<close>

lemma deliver_loops:
  assumes "pv_status (ps_read s) = NOT_RUNNING" and "pv_origin (ps_read s) = Segv_read"
  shows "deliver Segv_read s = None"
proof -
  have "\<not> (h = Segv_read \<and> s' = s)" if "deliver h s' = Some r" for h s' r
  proof (rule deliver.raw_induct [of "\<lambda>h s' r. \<not> (h = Segv_read \<and> s' = s)", OF _ that])
    fix f h s' and y :: "segv_outcome \<times> probe_state"
    assume ih: "\<And>h s' y. f h s' = Some y \<Longrightarrow> \<not> (h = Segv_read \<and> s' = s)"
      and body: "(case handler_body h s' of Call h' \<Rightarrow> f h' s' | Finish r s' \<Rightarrow> Some (r, s')) = Some y"
    show "\<not> (h = Segv_read \<and> s' = s)"
    proof
      assume "h = Segv_read \<and> s' = s"
      with body assms have "f Segv_read s = Some y" by (simp add: handler_body_def segv_read_handler_def)
      with ih show False by blast
    qed
  qed
  then show ?thesis by (cases "deliver Segv_read s") auto
qed

lemma second_thread_never_stops:
  assumes "bpftime_probe_read True P part sig_calm junk dst 0 src (fresh_probes Segv_read mem) = Some (Inr (r, s))"
  shows "deliver (ps_segv s) s = None"
proof -
  have "ps_segv s = Segv_read \<and> pv_status (ps_read s) = NOT_RUNNING \<and> pv_origin (ps_read s) = Segv_read"
    using assms by (auto simp: bpftime_probe_read_def fresh_probes_def fresh_vars_def probe_setup_def sig_calm_def copy_ok_def)
  then show ?thesis by (simp add: deliver_loops)
qed

text \<open>
  If the unset variable does hold the handler, it is not installed again, and a read that faults
  after a handler of other code was installed ends up there.
\<close>

lemma unset_variable_matters:
  assumes "pv_exist (ps_read s) \<noteq> NOT_CHECKED" and "ps_segv s = No_handler" and "0 \<le> n" and "\<not> copy_ok P dst src (nat n)"
  shows "bpftime_probe_read True P part sig_calm Segv_read dst n src s = Some (Inl Fault)"
  using assms
  by (simp add: bpftime_probe_read_def probe_setup_def sig_calm_def deliver.simps [of No_handler] handler_body_def Let_def)

text \<open>When \<open>sigaction\<close> fails, the status says that a read is running although the helper has returned.\<close>

lemma failed_sigaction_leaves_status:
  assumes "bpftime_probe_read True P part \<lparr>sg_get = True, sg_empty = e, sg_set = t\<rparr> junk dst 0 src (fresh_probes h mem) = Some (Inr (r, s))"
  shows "r = - EFAULT_code" and "pv_status (ps_read s) = RUNNING_NO_ERROR"
  using assms by (auto simp: bpftime_probe_read_def fresh_probes_def fresh_vars_def probe_setup_def Let_def)

end
