(* ===== verification/Bpf_Helpers.thy ===== *)
theory Bpf_Helpers
  imports Shm Packet_Helpers
begin

text \<open>
  Helper functions of \<open>runtime/src/bpf_helper.cpp\<close> on descriptors: maps, perf events and stack traces,
  and the groups of helpers that are registered with a program.  A map is passed to a helper with its
  descriptor in the upper half of a 64-bit word.
\<close>

section \<open>Maps\<close>

definition helper_fd :: "nat \<Rightarrow> int" where
  "helper_fd word = (let v = word div 2 ^ 32 in if v < 2 ^ 31 then int v else int v - 2 ^ 32)"

definition bpftime_map_lookup_elem_helper where
  "bpftime_map_lookup_elem_helper E m word key = shm_map_lookup_elem E m (helper_fd word) key False"

definition bpftime_map_update_elem_helper where
  "bpftime_map_update_elem_helper E m word key v flags = shm_map_update_elem E m (helper_fd word) key v flags False"

definition bpftime_map_delete_elem_helper where
  "bpftime_map_delete_elem_helper E m word key = shm_delete_elem E m (helper_fd word) key False"

definition bpftime_map_push_elem_helper where
  "bpftime_map_push_elem_helper m word v flags = shm_map_push_elem m (helper_fd word) v flags False"

definition bpftime_map_pop_elem_helper where
  "bpftime_map_pop_elem_helper m word buf = shm_map_pop_elem m (helper_fd word) buf False"

definition bpftime_map_peek_elem_helper where
  "bpftime_map_peek_elem_helper m word buf = shm_map_peek_elem m (helper_fd word) buf False"

section \<open>Perf events\<close>

text \<open>\<open>bpftime_perf_event_output\<close> of \<open>bpftime_shm.cpp\<close>.\<close>

definition bpftime_perf_event_output ::
  "('g, 'p, 'l, 's) mgr \<Rightarrow> int \<Rightarrow> ptr \<Rightarrow> nat \<Rightarrow> ('g, 'p, 'l, 's) mgr \<times> int res" where
  "bpftime_perf_event_output m fd buf sz =
     (case m of (hs, g) \<Rightarrow>
        if \<not> is_perf_fd hs fd then (m, Inl (Errno EINVAL))
        else case hs ! nat fd of
          Perf p \<Rightarrow>
            (case pe_data p of
               SoftwareData cpu config sample_type sw \<Rightarrow>
                 (case output_data sw buf sz of
                    Inl f \<Rightarrow> (m, Inl f)
                  | Inr sw' \<Rightarrow> ((hs[nat fd := Perf (p\<lparr>pe_data := SoftwareData cpu config sample_type sw'\<rparr>)], g), Inr 0))
             | _ \<Rightarrow> (m, Inl (Errno ENOTSUP)))
        | _ \<Rightarrow> (m, Inl Throw))"

text \<open>
  \<open>cpu\<close> is the current processor, \<open>-1\<close> on an error, \<open>bound\<close> whether the thread could be bound to it,
  \<open>shared\<close> the answer of the kernel for a perf event array shared with it.  The second component of
  the state is the set of processors the thread may run on.
\<close>

definition bpf_perf_event_output ::
  "('g, 'p, 'l, 's) map_env \<Rightarrow> int \<Rightarrow> bool \<Rightarrow> int res \<Rightarrow> ('g, 'p, 'l, 's) mgr \<Rightarrow> int set \<Rightarrow> nat \<Rightarrow> ptr \<Rightarrow> nat \<Rightarrow>
     ('g, 'p, 'l, 's) mgr \<times> int set \<times> int res" where
  "bpf_perf_event_output E cpu bound shared m orig word data sz =
     (if cpu = -1 then (m, orig, Inl RetFail)
      else if \<not> bound then (m, orig, Inl (Errno EINVAL))
      else
        let fd = helper_fd word
        in if \<not> is_map_fd (fst m) fd then (m, {cpu}, Inl (Errno ENOENT))
           else if map_type_at (fst m) fd BPF_MAP_TYPE_PERF_EVENT_ARRAY then
             (case shm_map_lookup_elem E m fd (Some (store_i32 cpu)) False of
                (m, Inl (Errno e)) \<Rightarrow> (m, {cpu}, Inl (Errno EINVAL))
              | (m, Inl f) \<Rightarrow> (m, {cpu}, Inl f)
              | (m, Inr (Addr a)) \<Rightarrow> (m, {cpu}, Inl Fault)
              | (m, Inr (Mem v)) \<Rightarrow>
                  (case bpftime_perf_event_output m (load_i32 v) data sz of (m, r) \<Rightarrow> (m, orig, r)))
           else if me_libbpf E \<and> map_type_at (fst m) fd BPF_MAP_TYPE_KERNEL_USER_PERF_EVENT_ARRAY then (m, orig, shared)
           else (m, orig, Inl RetFail))"

section \<open>Stack traces\<close>

definition BPF_F_USER_STACK :: nat where "BPF_F_USER_STACK = 2 ^ 8"
definition BPF_F_FAST_STACK_CMP :: nat where "BPF_F_FAST_STACK_CMP = 2 ^ 9"
definition BPF_F_REUSE_STACKID :: nat where "BPF_F_REUSE_STACKID = 2 ^ 10"
definition BPF_F_USER_BUILD_ID :: nat where "BPF_F_USER_BUILD_ID = 2 ^ 11"

definition has_flag :: "nat \<Rightarrow> nat \<Rightarrow> bool" where
  "has_flag flags f \<longleftrightarrow> flags AND f \<noteq> 0"

text \<open>The frames after the number to skip, the lowest byte of the flags.\<close>

definition skip_frames :: "nat \<Rightarrow> u64 list \<Rightarrow> u64 list" where
  "skip_frames flags frames = (let n = flags AND 255 in if n \<ge> length frames then [] else drop n frames)"

text \<open>
  \<open>stack\<close> is the answer of the uprobe implementation: \<open>None\<close> when it is not registered, \<open>Some None\<close> when
  it has no trace.  The function reads the descriptor without a test of its range, and the optional
  object without a test of the type of the map.
\<close>

definition bpftime_get_stackid ::
  "('g, 'p, 'l, 's) map_env \<Rightarrow> (u64 \<Rightarrow> u64 \<Rightarrow> u64) \<Rightarrow> u64 list option option \<Rightarrow> ('g, 'p, 'l, 's) mgr \<Rightarrow> nat \<Rightarrow> nat \<Rightarrow>
     ('g, 'p, 'l, 's) mgr \<times> nat res" where
  "bpftime_get_stackid E hc stack m word flags =
     (if \<not> has_flag flags BPF_F_USER_STACK then (m, Inl (RetNeg ENOTSUP))
      else case stack of
        None \<Rightarrow> (m, Inl (RetNeg ENOTSUP))
      | Some None \<Rightarrow> (m, Inl (RetNeg ENOENT))
      | Some (Some frames) \<Rightarrow>
          let fd = helper_fd word; (hs, g) = m
          in if \<not> fd_in_range hs fd then (m, Inl Fault)
             else case hs ! nat fd of
               Map h \<Rightarrow>
                 (case try_get_map_impl BPF_MAP_TYPE_STACK_TRACE hs fd of
                    Some (Some (StackTraceImpl t)) \<Rightarrow>
                      (case fill_stack_trace (me_stack E) hc t (skip_frames flags frames)
                              (has_flag flags BPF_F_REUSE_STACKID) (has_flag flags BPF_F_FAST_STACK_CMP) of
                         Inl e \<Rightarrow> (m, Inl e)
                       | Inr (t, r) \<Rightarrow>
                           ((hs[nat fd := Map (h\<lparr>mh_impl := Some (StackTraceImpl t)\<rparr>)], g), Inr (nat (r mod 2 ^ 32))))
                  | _ \<Rightarrow> (m, Inl Fault))
             | _ \<Rightarrow> (m, Inl Throw))"

definition frame_bytes :: "u64 list \<Rightarrow> bytes" where
  "frame_bytes frames = concat (map (\<lambda>w. le_bytes 8 (unat w)) frames)"

text \<open>The bytes written to the caller's buffer.\<close>

definition bpftime_get_stack :: "u64 list option option \<Rightarrow> nat \<Rightarrow> nat \<Rightarrow> bytes res" where
  "bpftime_get_stack stack n flags =
     (if \<not> has_flag flags BPF_F_USER_STACK then Inl (RetNeg ENOTSUP)
      else if \<not> has_flag flags BPF_F_USER_BUILD_ID then Inl (RetNeg ENOTSUP)
      else case stack of
        None \<Rightarrow> Inl (RetNeg ENOTSUP)
      | Some None \<Rightarrow> Inl (RetNeg ENOENT)
      | Some (Some frames) \<Rightarrow>
          let result = skip_frames flags frames in Inr (take (min (length result) n) (frame_bytes result)))"

section \<open>A sample reaches the buffer of its processor\<close>

lemma load_store_i32:
  assumes "- (2 ^ 31) \<le> i" and "i < 2 ^ 31"
  shows "load_i32 (store_i32 i) = i"
proof -
  have "arg_bytes (Some (store_i32 i)) 4 = Inr (store_i32 i)"
    by (simp add: arg_bytes_Some store_i32_def length_le_bytes del: le_bytes.simps)
  with arg_i32_store [OF assms] show ?thesis by (simp add: arg_i32_def)
qed

lemma perf_array_lookup:
  assumes "fd_in_range hs fd" and "hs ! nat fd = Map h" and "mh_type h = BPF_MAP_TYPE_PERF_EVENT_ARRAY"
    and "mh_impl h = Some (PerfEventArrayImpl a)" and "fd_array_wf a" and "0 \<le> cpu" and "nat cpu < length (fa_data a)"
  shows "shm_map_lookup_elem E (hs, g) fd (Some (store_i32 cpu)) False = ((hs, g), Inr (Mem (store_i32 (fa_data a ! nat cpu))))"
proof -
  have "cpu < 2 ^ 31" using assms(5,6,7) by (auto simp: fd_array_wf_def)
  then have "map_lookup_elem E h (Some (store_i32 cpu)) False = Inr (h, Mem (store_i32 (fa_data a ! nat cpu)))"
    using assms(3,4,6,7)
    by (simp add: map_lookup_elem_def switch_class_def static_cast_to_def is_percpu_def shown_def perf_elem_lookup_def
        map_handler.equality)
  moreover have "hs[nat fd := Map h] = hs" using assms(2) by (metis list_update_id)
  ultimately show ?thesis using assms(1,2) by (simp add: shm_map_lookup_elem_def on_map_def is_map_fd_def)
qed

lemma output_appends_record:
  assumes "sp_inv sw" and "length bs < 65524"
  shows "\<exists>sw'. output_data sw (Some bs) (length bs) = Inr sw' \<and> sp_inv sw' \<and>
    sp_stream sw' = (if 12 + length bs + length (sp_stream sw) < sp_mmap_size sw then sp_stream sw @ sp_record bs else sp_stream sw)"
proof (cases "12 + length bs + length (sp_stream sw) < sp_mmap_size sw")
  case True
  have len: "length (sp_stream sw) = sp_data_head sw - sp_data_tail sw" by (simp add: sp_stream_def)
  have fits: "sp_data_head sw - sp_data_tail sw + length (sp_record bs) < sp_mmap_size sw"
    using True by (simp add: len length_sp_record)
  have "\<not> sp_mmap_size sw - (sp_data_head sw - sp_data_tail sw) \<le> 12 + length bs" using True by (simp add: len)
  then show ?thesis
    using True stream_append [OF assms(1) fits, of "sp_record bs"] by (simp add: output_eval [OF assms] length_sp_record add.assoc)
next
  case False
  have "length (sp_stream sw) = sp_data_head sw - sp_data_tail sw" by (simp add: sp_stream_def)
  with False assms(1) show ?thesis by (auto simp: output_eval [OF assms] sp_inv_def)
qed

text \<open>
  C19. A program that outputs a sample of fewer than 65524 bytes through a perf event array reaches
  the buffer of the software perf event that the array has for the current processor: the record is
  appended to the unread bytes if it fits and dropped otherwise, the helper returns 0, the affinity
  of the thread is as before, and no other descriptor changes.
\<close>

theorem perf_output_reaches_buffer:
  assumes "fd_in_range hs (helper_fd word)" and "hs ! nat (helper_fd word) = Map h" and "mh_type h = BPF_MAP_TYPE_PERF_EVENT_ARRAY"
    and "mh_impl h = Some (PerfEventArrayImpl a)" and "fd_array_wf a" and "0 \<le> cpu" and "nat cpu < length (fa_data a)"
    and "fa_data a ! nat cpu = fd" and "fd < 2 ^ 31" and "fd_in_range hs fd" and "hs ! nat fd = Perf p"
    and "pe_data p = SoftwareData c config sample_type sw" and "sp_inv sw" and "length bs < 65524"
  shows "\<exists>sw'. bpf_perf_event_output E cpu True shared (hs, g) orig word (Some bs) (length bs) =
      ((hs[nat fd := Perf (p\<lparr>pe_data := SoftwareData c config sample_type sw'\<rparr>)], g), orig, Inr 0) \<and>
    sp_inv sw' \<and>
    sp_stream sw' = (if 12 + length bs + length (sp_stream sw) < sp_mmap_size sw then sp_stream sw @ sp_record bs else sp_stream sw)"
proof -
  obtain sw' where sw': "output_data sw (Some bs) (length bs) = Inr sw'" "sp_inv sw'"
    "sp_stream sw' = (if 12 + length bs + length (sp_stream sw) < sp_mmap_size sw then sp_stream sw @ sp_record bs else sp_stream sw)"
    using output_appends_record [OF assms(13,14)] by blast
  have "load_i32 (store_i32 fd) = fd" using assms(9,10) by (intro load_store_i32) (simp_all add: fd_in_range_def)
  moreover have "bpftime_perf_event_output (hs, g) fd (Some bs) (length bs) =
      ((hs[nat fd := Perf (p\<lparr>pe_data := SoftwareData c config sample_type sw'\<rparr>)], g), Inr 0)"
    using assms(10-12) sw'(1) by (simp add: bpftime_perf_event_output_def is_perf_fd_def)
  moreover have "is_map_fd hs (helper_fd word)" "map_type_at hs (helper_fd word) BPF_MAP_TYPE_PERF_EVENT_ARRAY"
    using assms(1-3) by (simp_all add: is_map_fd_def map_type_at_def)
  moreover have "cpu \<noteq> -1" using assms(6) by simp
  ultimately show ?thesis
    using sw'(2,3) perf_array_lookup [OF assms(1-7), of E g] assms(8)
    by (intro exI [of _ sw']) (simp add: bpf_perf_event_output_def)
qed

definition demo_buffer :: swpe where
  "demo_buffer = \<lparr>sp_pagesize = 16, sp_data_size = 32, sp_data_head = 0, sp_data_tail = 0, sp_ring = replicate 32 0, sp_copy_buffer = []\<rparr>"

definition demo_perf_table :: "demo_variant list" where
  "demo_perf_table =
     [Map ((bpf_map_handler 0 ''a'' (demo_attr 4))\<lparr>mh_impl := Some (PerfEventArrayImpl \<lparr>fa_data = [1]\<rparr>)\<rparr>),
      Perf \<lparr>pe_type = PERF_TYPE_SOFTWARE, pe_enabled = True, pe_data = SoftwareData 0 0 0 demo_buffer\<rparr>]"

theorem perf_output_reaches_buffer_witness:
  "\<exists>sw'. bpf_perf_event_output (demo_env False False) 0 True (Inr 0) (demo_perf_table, []) {0, 1} 0 (Some [7, 8]) 2 =
      ((demo_perf_table[1 := Perf \<lparr>pe_type = PERF_TYPE_SOFTWARE, pe_enabled = True, pe_data = SoftwareData 0 0 0 sw'\<rparr>], []),
       {0, 1}, Inr 0) \<and>
    sp_stream sw' = sp_record [7, 8]"
proof -
  let ?h = "(bpf_map_handler 0 ''a'' (demo_attr 4))\<lparr>mh_impl := Some (PerfEventArrayImpl \<lparr>fa_data = [1]\<rparr>)\<rparr>
    :: ((bytes \<times> bytes) list, (bytes \<times> bytes \<times> nat) list, (nat \<times> u64 list) list) map_handler"
  let ?p = "\<lparr>pe_type = PERF_TYPE_SOFTWARE, pe_enabled = True, pe_data = SoftwareData 0 0 0 demo_buffer\<rparr>"
  have fd: "helper_fd 0 = 0" by (simp add: helper_fd_def)
  have t: "fd_in_range demo_perf_table (helper_fd 0)" "demo_perf_table ! nat (helper_fd 0) = Map ?h"
    "fd_in_range demo_perf_table 1" "demo_perf_table ! nat 1 = Perf ?p"
    by (simp_all add: fd demo_perf_table_def fd_in_range_def)
  have h: "mh_type ?h = BPF_MAP_TYPE_PERF_EVENT_ARRAY" "mh_impl ?h = Some (PerfEventArrayImpl \<lparr>fa_data = [1]\<rparr>)"
    by (simp_all add: handler_eval)
  have a: "fd_array_wf \<lparr>fa_data = [1]\<rparr>" "nat 0 < length (fa_data \<lparr>fa_data = [1]\<rparr>)" "fa_data \<lparr>fa_data = [1]\<rparr> ! nat 0 = 1"
    by (simp_all add: fd_array_wf_def)
  have size: "sp_mmap_size demo_buffer = 2 ^ 5" by (simp add: sp_mmap_size_def demo_buffer_def)
  have sw: "sp_inv demo_buffer" unfolding sp_inv_def size by (auto simp: demo_buffer_def intro: exI [of _ 5])
  have "sp_stream demo_buffer = []" by (simp add: sp_stream_def demo_buffer_def)
  with perf_output_reaches_buffer [OF t(1,2) h a(1) order_refl a(2,3) _ t(3,4) _ sw,
      of 0 0 0 "[7, 8]" "demo_env False False" "Inr 0" "[]" "{0, 1}"] size
  show ?thesis by (auto simp flip: numeral_2_eq_2)
qed

section \<open>A trace is found under its id\<close>

text \<open>
  C33. A program that asks for the id of its stack, when the slot of the trace is free, gets an id
  below the number of entries of the map, and looking it up in the map gives the frames that were
  not skipped, each as eight bytes; the other descriptors are as before.
\<close>

theorem stackid_then_lookup:
  assumes "unordered_map (me_stack E)" and "fd_in_range hs (helper_fd word)" and "hs ! nat (helper_fd word) = Map h"
    and "mh_type h = BPF_MAP_TYPE_STACK_TRACE" and "mh_impl h = Some (StackTraceImpl t)"
    and "0 < st_max_entries t" and "st_max_entries t \<le> 2 ^ 31" and "has_flag flags BPF_F_USER_STACK"
    and "st_slot hc (st_max_entries t) (skip_frames flags frames) = i" and "um_find (me_stack E) (st_data t) i = None"
  shows "\<exists>hs'. bpftime_get_stackid E hc (Some (Some frames)) (hs, g) word flags = ((hs', g), Inr i) \<and> i < st_max_entries t \<and>
    snd (bpftime_map_lookup_elem_helper E (hs', g) word (Some (store_u32 i))) = Inr (Mem (frame_bytes (skip_frames flags frames))) \<and>
    length hs' = length hs \<and> (\<forall>j. j \<noteq> nat (helper_fd word) \<longrightarrow> hs' ! j = hs ! j)"
proof -
  let ?s = "skip_frames flags frames"
  let ?fd = "helper_fd word"
  let ?t = "t\<lparr>st_key_buf := ?s, st_data := um_insert (me_stack E) (st_data t) i ?s\<rparr>"
  let ?h = "h\<lparr>mh_impl := Some (StackTraceImpl ?t)\<rparr>"
  have i: "i < st_max_entries t" "i < 2 ^ 31" using st_slot_less [OF assms(6), of hc ?s] assms(7,9) by auto
  have "fill_stack_trace (me_stack E) hc t ?s discard by_hash = Inr (?t, int i)" for discard by_hash
    using assms(6,9,10) i(2) by (simp add: fill_stack_trace_def st_slot_def [symmetric] int_of_hash_id Let_def)
  moreover have "try_get_map_impl BPF_MAP_TYPE_STACK_TRACE hs ?fd = Some (Some (StackTraceImpl t))"
    using assms(2-5) by (simp add: try_get_map_impl_def is_map_fd_def map_type_at_def try_get_impl_def)
  moreover have "nat (int i mod 2 ^ 32) = i" using i(2) by simp
  ultimately have get: "bpftime_get_stackid E hc (Some (Some frames)) (hs, g) word flags = ((hs[nat ?fd := Map ?h], g), Inr i)"
    using assms(2,3,8) by (simp add: bpftime_get_stackid_def Let_def)
  have "um_find (me_stack E) (st_data ?t) i = Some ?s"
    using unordered_map.find_insert [OF assms(1)] assms(10) by simp
  then have "st_elem_lookup (me_stack E) ?t (Some (store_u32 i)) = Inr ?s" using i(2) by (simp add: lookup_slot)
  then have "map_lookup_elem E ?h (Some (store_u32 i)) False = Inr (?h, Mem (frame_bytes ?s))"
    using assms(4)
    by (simp add: map_lookup_elem_def switch_class_def static_cast_to_def is_percpu_def shown_def frame_bytes_def map_handler.equality)
  then have "snd (bpftime_map_lookup_elem_helper E (hs[nat ?fd := Map ?h], g) word (Some (store_u32 i))) = Inr (Mem (frame_bytes ?s))"
    using assms(2) by (simp add: bpftime_map_lookup_elem_helper_def shm_map_lookup_elem_def on_map_def is_map_fd_def fd_in_range_def)
  with get i(1) show ?thesis by auto
qed

definition demo_stack_table :: "demo_variant list" where
  "demo_stack_table =
     [Map ((bpf_map_handler 0 ''a'' (demo_attr 7))\<lparr>mh_impl := Some (StackTraceImpl
        \<lparr>st_max_stack_entries = 2, st_max_entries = 4, st_data = [], st_key_buf = [0, 0]\<rparr>)\<rparr>)]"

theorem stackid_then_lookup_witness:
  "\<exists>hs'. bpftime_get_stackid (demo_env False False) demo_combine (Some (Some [9, 5, 6])) (demo_stack_table, []) 0 257 =
       ((hs', []), Inr 0) \<and>
     snd (bpftime_map_lookup_elem_helper (demo_env False False) (hs', [] :: string list) 0 (Some (store_u32 0))) =
       Inr (Mem (frame_bytes [5, 6]))"
proof -
  let ?t = "\<lparr>st_max_stack_entries = 2, st_max_entries = 4, st_data = [], st_key_buf = [0, 0]\<rparr> :: (nat \<times> u64 list) list stack_trace"
  let ?h = "(bpf_map_handler 0 ''a'' (demo_attr 7))\<lparr>mh_impl := Some (StackTraceImpl ?t)\<rparr>
    :: ((bytes \<times> bytes) list, (bytes \<times> bytes \<times> nat) list, (nat \<times> u64 list) list) map_handler"
  have U: "me_stack (demo_env False False) = alist_umap" by (simp add: demo_env_def)
  have laws: "unordered_map (me_stack (demo_env False False))" unfolding U by (rule alist_unordered_map)
  have fd: "helper_fd 0 = 0" by (simp add: helper_fd_def)
  have t: "fd_in_range demo_stack_table (helper_fd 0)" "demo_stack_table ! nat (helper_fd 0) = Map ?h"
    by (simp_all add: fd demo_stack_table_def fd_in_range_def)
  have h: "mh_type ?h = BPF_MAP_TYPE_STACK_TRACE" "mh_impl ?h = Some (StackTraceImpl ?t)" by (simp_all add: handler_eval)
  have fl: "has_flag 257 BPF_F_USER_STACK" "skip_frames 257 [9, 5, 6] = [5, 6]"
    by (simp_all add: has_flag_def BPF_F_USER_STACK_def skip_frames_def)
  have slot: "st_slot demo_combine (st_max_entries ?t) (skip_frames 257 [9, 5, 6]) = 0"
    by (simp add: fl(2) st_slot_def hash_stack_trace_def demo_combine_def)
  have free: "um_find (me_stack (demo_env False False)) (st_data ?t) 0 = None"
    using alist.find_empty by (simp add: U alist_umap_def)
  from stackid_then_lookup [OF laws t h _ _ fl(1) slot free, of "[]"] fl(2)
  show ?thesis by auto
qed

text \<open>The helper does not give back the affinity when the descriptor is no map.\<close>

lemma perf_output_keeps_thread_bound:
  assumes "cpu \<noteq> -1" and "\<not> is_map_fd (fst m) (helper_fd word)"
  shows "bpf_perf_event_output E cpu True shared m orig word data sz = (m, {cpu}, Inl (Errno ENOENT))"
  using assms by (simp add: bpf_perf_event_output_def Let_def)

text \<open>\<open>bpftime_get_stack\<close> copies as many bytes as there are frames, and only for the flag it rejects.\<close>

lemma get_stack_copies_an_eighth:
  assumes "bpftime_get_stack (Some (Some frames)) n flags = Inr bs"
  shows "has_flag flags BPF_F_USER_BUILD_ID" and "length bs = min (length (skip_frames flags frames)) n"
proof -
  have len: "length (frame_bytes fs) = 8 * length fs" for fs
    by (induction fs) (simp_all add: frame_bytes_def length_le_bytes del: le_bytes.simps)
  show "has_flag flags BPF_F_USER_BUILD_ID" using assms by (auto simp: bpftime_get_stack_def split: if_splits)
  show "length bs = min (length (skip_frames flags frames)) n"
    using assms by (auto simp: bpftime_get_stack_def Let_def len split: if_splits)
qed

section \<open>Groups of helpers\<close>

text \<open>The functions of the groups, by the name they have in the source.\<close>

datatype helper_fn =
    Fn_probe_read | Fn_get_smp_processor_id | Fn_csum_diff | Fn_xdp_adjust_head | Fn_xdp_adjust_tail |
    Fn_ktime_get_ns | Fn_trace_printk | Fn_get_prandom_u32 | Fn_get_current_pid_tgid | Fn_get_current_uid_gid |
    Fn_get_current_comm | Fn_override_return | Fn_strncmp | Fn_probe_write_user | Fn_set_retval |
    Fn_probe_read_str | Fn_get_stack | Fn_get_stackid | Fn_ktime_get_coarse_ns | Fn_ringbuf_reserve |
    Fn_ringbuf_submit | Fn_ringbuf_discard | Fn_perf_event_output | Fn_ringbuf_output | Fn_tail_call |
    Fn_get_attach_cookie | Fn_map_lookup_elem_helper | Fn_map_update_elem_helper | Fn_map_delete_elem_helper |
    Fn_map_push_elem_helper | Fn_map_pop_elem_helper | Fn_map_peek_elem_helper


record helper_info =
  hi_index :: nat
  hi_name :: string
  hi_fn :: helper_fn

type_synonym helper_group = "nat \<rightharpoonup> helper_info"

definition helper :: "nat \<Rightarrow> string \<Rightarrow> helper_fn \<Rightarrow> helper_info" where
  "helper i name fn = \<lparr>hi_index = i, hi_name = name, hi_fn = fn\<rparr>"

definition register_helper :: "helper_info \<Rightarrow> helper_group \<Rightarrow> int res \<times> helper_group" where
  "register_helper info g =
     (if hi_index info > 999 then (Inl RetFail, g)
      else case g (hi_index info) of
        None \<Rightarrow> (Inr 0, g(hi_index info \<mapsto> info))
      | Some old \<Rightarrow> if hi_fn old \<noteq> hi_fn info then (Inl RetFail, g) else (Inr 0, g))"

definition append_group :: "helper_group \<Rightarrow> helper_group \<Rightarrow> int res \<times> helper_group" where
  "append_group other g = (if dom other \<inter> dom g \<noteq> {} then (Inl RetFail, g) else (Inr 0, g ++ other))"

text \<open>The table of helpers of a virtual machine after the registration of a group.\<close>

definition add_helper_group_to_prog :: "helper_group \<Rightarrow> helper_group \<Rightarrow> helper_group" where
  "add_helper_group_to_prog g vm = fold (\<lambda>i vm. vm(hi_index (the (g i)) \<mapsto> the (g i))) (sorted_list_of_set (dom g)) vm"

definition get_helper_ids :: "helper_group \<Rightarrow> nat list" where
  "get_helper_ids g = sorted_list_of_set (dom g)"

definition get_kernel_utils_helper_group :: "helper_group" where
  "get_kernel_utils_helper_group = map_of (map (\<lambda>h. (hi_index h, h))
    [helper 4 ''bpf_probe_read'' Fn_probe_read,
     helper 8 ''bpf_get_smp_processor_id'' Fn_get_smp_processor_id,
     helper 28 ''bpf_csum_diff'' Fn_csum_diff,
     helper 44 ''bpf_xdp_adjust_head'' Fn_xdp_adjust_head,
     helper 65 ''bpf_xdp_adjust_tail'' Fn_xdp_adjust_tail,
     helper 113 ''bpf_probe_read_kernel'' Fn_probe_read,
     helper 112 ''bpf_probe_read_user'' Fn_probe_read,
     helper 5 ''bpf_ktime_get_ns'' Fn_ktime_get_ns,
     helper 6 ''bpf_trace_printk'' Fn_trace_printk,
     helper 7 ''bpf_get_prandom_u32'' Fn_get_prandom_u32,
     helper 14 ''bpf_get_current_pid_tgid'' Fn_get_current_pid_tgid,
     helper 15 ''bpf_get_current_uid_gid'' Fn_get_current_uid_gid,
     helper 16 ''bpf_get_current_comm'' Fn_get_current_comm,
     helper 58 ''bpf_override_return'' Fn_override_return,
     helper 182 ''bpf_strncmp'' Fn_strncmp,
     helper 36 ''bpf_probe_write_user'' Fn_probe_write_user,
     helper 187 ''bpf_set_retval'' Fn_set_retval,
     helper 114 ''bpf_probe_read_str'' Fn_probe_read_str,
     helper 45 ''bpf_probe_str'' Fn_probe_read_str,
     helper 67 ''bpf_get_stack'' Fn_get_stack,
     helper 27 ''bpf_get_stackid'' Fn_get_stackid,
     helper 160 ''bpf_ktime_get_coarse_ns'' Fn_ktime_get_coarse_ns,
     helper 131 ''bpf_ringbuf_reserve'' Fn_ringbuf_reserve,
     helper 132 ''bpf_ringbuf_submit'' Fn_ringbuf_submit,
     helper 133 ''bpf_ringbuf_discard'' Fn_ringbuf_discard,
     helper 25 ''bpf_perf_event_output'' Fn_perf_event_output,
     helper 130 ''bpf_ringbuf_output'' Fn_ringbuf_output,
     helper 12 ''bpf_tail_call'' Fn_tail_call,
     helper 174 ''bpf_get_attach_cookie'' Fn_get_attach_cookie])"

definition get_shm_maps_helper_group :: "helper_group" where
  "get_shm_maps_helper_group = map_of (map (\<lambda>h. (hi_index h, h))
    [helper 1 ''bpf_map_lookup_elem'' Fn_map_lookup_elem_helper,
     helper 2 ''bpf_map_update_elem'' Fn_map_update_elem_helper,
     helper 3 ''bpf_map_delete_elem'' Fn_map_delete_elem_helper,
     helper 87 ''bpf_map_push_elem'' Fn_map_push_elem_helper,
     helper 88 ''bpf_map_pop_elem'' Fn_map_pop_elem_helper,
     helper 89 ''bpf_map_peek_elem'' Fn_map_peek_elem_helper])"

text \<open>Every helper is stored under its number, which is at most 999, and the group is finite.\<close>

definition group_ok :: "helper_group \<Rightarrow> bool" where
  "group_ok g \<longleftrightarrow> finite (dom g) \<and> (\<forall>i h. g i = Some h \<longrightarrow> hi_index h = i \<and> i \<le> 999)"

lemma group_ok_table:
  assumes "list_all (\<lambda>h. hi_index h \<le> 999) hs"
  shows "group_ok (map_of (map (\<lambda>h. (hi_index h, h)) hs))"
  using assms by (auto simp: group_ok_def list_all_iff finite_dom_map_of dest!: map_of_SomeD)

lemma group_ok_kernel: "group_ok get_kernel_utils_helper_group"
  unfolding get_kernel_utils_helper_group_def by (rule group_ok_table) (simp add: helper_def)

lemma group_ok_shm: "group_ok get_shm_maps_helper_group"
  unfolding get_shm_maps_helper_group_def by (rule group_ok_table) (simp add: helper_def)

lemma add_group_to_prog_eq:
  assumes "group_ok g"
  shows "add_helper_group_to_prog g vm = vm ++ g"
proof -
  have step: "fold (\<lambda>i vm. vm(hi_index (the (g i)) \<mapsto> the (g i))) is vm = vm ++ (g |` set is)" if "set is \<subseteq> dom g" for "is" vm
    using that
  proof (induction "is" arbitrary: vm)
    case (Cons i "is")
    from Cons.prems obtain h where h: "g i = Some h" by auto
    then have "hi_index h = i" using assms by (simp add: group_ok_def)
    with Cons h show ?case by (auto simp: fun_eq_iff map_add_def restrict_map_def split: option.splits)
  qed simp
  have "finite (dom g)" using assms by (simp add: group_ok_def)
  moreover have "g |` dom g = g" by (rule ext) (auto simp: restrict_map_def dom_def)
  ultimately show ?thesis by (simp add: add_helper_group_to_prog_def step)
qed

datatype group_op = Register helper_info | Append helper_group

definition group_step :: "group_op \<Rightarrow> helper_group \<Rightarrow> helper_group" where
  "group_step p g = (case p of Register h \<Rightarrow> snd (register_helper h g) | Append g' \<Rightarrow> snd (append_group g' g))"

definition op_ok :: "group_op \<Rightarrow> bool" where
  "op_ok p \<longleftrightarrow> (case p of Register h \<Rightarrow> True | Append g \<Rightarrow> group_ok g)"

lemma group_step_ok:
  assumes "group_ok g" and "op_ok p"
  shows "group_ok (group_step p g) \<and> g \<subseteq>\<^sub>m group_step p g"
proof (cases p)
  case (Register h)
  with assms(1) show ?thesis
    by (auto simp: group_step_def register_helper_def group_ok_def map_le_def split: option.splits)
next
  case (Append g')
  show ?thesis
  proof (cases "dom g' \<inter> dom g = {}")
    case True
    have "g \<subseteq>\<^sub>m g ++ g'" using True by (auto simp: map_le_def map_add_def split: option.splits)
    moreover have "group_ok (g ++ g')" using assms by (auto simp: Append op_ok_def group_ok_def)
    ultimately show ?thesis using True by (simp add: Append group_step_def append_group_def)
  next
    case False
    with assms(1) show ?thesis by (simp add: Append group_step_def append_group_def)
  qed
qed

text \<open>
  The groups of helpers: starting from the helpers of the kernel group, no sequence of
  registrations and of appended groups replaces a helper or stores one under a number that is not
  its own or above 999; the ids reported are those of the helpers, and loading the group into a
  virtual machine makes exactly its helpers known there.
\<close>

lemma helper_group_consistent:
  assumes "list_all op_ok ops" and "g = fold group_step ops get_kernel_utils_helper_group"
  shows "get_kernel_utils_helper_group \<subseteq>\<^sub>m g \<and> (\<forall>i h. g i = Some h \<longrightarrow> hi_index h = i \<and> i \<le> 999) \<and>
    set (get_helper_ids g) = dom g \<and> add_helper_group_to_prog g vm = vm ++ g"
proof -
  have "group_ok (fold group_step ops h) \<and> h \<subseteq>\<^sub>m fold group_step ops h" if "group_ok h" "list_all op_ok ops" for h
    using that
  proof (induction ops arbitrary: h)
    case (Cons p ops)
    with group_step_ok [of h p] have s: "group_ok (group_step p h)" "h \<subseteq>\<^sub>m group_step p h" by auto
    with Cons.IH [of "group_step p h"] Cons.prems(2) show ?case by (auto intro: map_le_trans)
  qed simp
  then have g: "group_ok g" "get_kernel_utils_helper_group \<subseteq>\<^sub>m g" using assms group_ok_kernel by auto
  then show ?thesis using add_group_to_prog_eq [OF g(1)] by (simp add: get_helper_ids_def group_ok_def)
qed

end
