(* ===== verification/Slug_Runtime.thy ===== *)
theory Slug_Runtime
  imports Memory
begin

text \<open>
  The runtime of the slug allocator (\<open>tools/slug_allocator/slug_runtime.cpp\<close>): the callback of every
  instrumented memory access, which selects the accesses of the CXL region, counts them and sends
  them to the CXL memory simulator, one request for each 64-byte line.

  The environment is a parameter: \<open>mem\<close> is the memory of the process, \<open>clock\<close> the time stamps, and
  \<open>srv n rq\<close> what becomes of the \<open>n\<close>-th request of an access.
\<close>

section \<open>Configuration and accesses\<close>

record slug_config =
  sc_trace_all :: bool
  sc_cxl_enabled :: bool
  sc_cxl_send_writes :: bool
  sc_region_base :: nat
  sc_region_size :: nat
  sc_cxl_addr_base :: nat

datatype access_kind =
    SLUG_ACCESS_LOAD | SLUG_ACCESS_STORE | SLUG_ACCESS_ATOMIC
  | SLUG_ACCESS_MEMCPY_READ | SLUG_ACCESS_MEMCPY_WRITE | SLUG_ACCESS_MEMSET | SLUG_ACCESS_UNKNOWN

fun kind_name :: "access_kind \<Rightarrow> string" where
  "kind_name SLUG_ACCESS_LOAD = ''load''"
| "kind_name SLUG_ACCESS_STORE = ''store''"
| "kind_name SLUG_ACCESS_ATOMIC = ''atomic''"
| "kind_name SLUG_ACCESS_MEMCPY_READ = ''memcpy_read''"
| "kind_name SLUG_ACCESS_MEMCPY_WRITE = ''memcpy_write''"
| "kind_name SLUG_ACCESS_MEMSET = ''memset''"
| "kind_name SLUG_ACCESS_UNKNOWN = ''unknown''"

definition is_read_kind :: "access_kind \<Rightarrow> bool" where
  "is_read_kind k \<longleftrightarrow> k = SLUG_ACCESS_LOAD \<or> k = SLUG_ACCESS_ATOMIC \<or> k = SLUG_ACCESS_MEMCPY_READ"

definition is_write_kind :: "access_kind \<Rightarrow> bool" where
  "is_write_kind k \<longleftrightarrow>
     k = SLUG_ACCESS_STORE \<or> k = SLUG_ACCESS_ATOMIC \<or> k = SLUG_ACCESS_MEMCPY_WRITE \<or> k = SLUG_ACCESS_MEMSET"

definition in_region :: "slug_config \<Rightarrow> nat \<Rightarrow> nat \<Rightarrow> bool" where
  "in_region cfg addr sz =
     (if sc_region_size cfg = 0 then True
      else if sz = 0 then False
      else if addr < sc_region_base cfg then False
      else
        let hi = wrap64 (addr + sz + (2 ^ 64 - 1))
        in if hi < addr then False else hi < wrap64 (sc_region_base cfg + sc_region_size cfg))"

definition translate_cxl_addr :: "slug_config \<Rightarrow> nat \<Rightarrow> nat" where
  "translate_cxl_addr cfg addr =
     (if sc_region_size cfg = 0 then addr
      else wrap64 (sc_cxl_addr_base cfg + (addr + (2 ^ 64 - wrap64 (sc_region_base cfg)))))"

section \<open>Requests\<close>

definition kCxlOpRead :: nat where "kCxlOpRead = 0"
definition kCxlOpWrite :: nat where "kCxlOpWrite = 1"

record cxl_request =
  rq_op_type :: nat
  rq_addr :: nat
  rq_size :: nat
  rq_timestamp :: nat
  rq_value :: nat
  rq_expected :: nat
  rq_data :: bytes

definition make_request ::
  "slug_config \<Rightarrow> memory \<Rightarrow> nat \<Rightarrow> access_kind \<Rightarrow> nat \<Rightarrow> nat \<Rightarrow> nat \<Rightarrow> nat \<Rightarrow> cxl_request" where
  "make_request cfg mem now kind addr current chunk source_offset =
     (let op = (if is_write_kind kind \<and> \<not> is_read_kind kind then kCxlOpWrite else kCxlOpRead)
      in \<lparr>rq_op_type = op, rq_addr = current, rq_size = chunk, rq_timestamp = now, rq_value = 0, rq_expected = 0,
          rq_data = (if op = kCxlOpWrite \<and> sc_cxl_send_writes cfg
                     then peek_mem mem (wrap64 (addr + source_offset)) chunk @ replicate (64 - chunk) 0
                     else replicate 64 0)\<rparr>)"

definition chunk_at :: "nat \<Rightarrow> nat \<Rightarrow> nat" where
  "chunk_at current remaining =
     (let offset = current mod 64; chunk = 64 - offset in if chunk > remaining then remaining else chunk)"

lemma chunk_at_pos: "0 < remaining \<Longrightarrow> 0 < chunk_at current remaining"
  by (simp add: chunk_at_def Let_def)

lemma chunk_at_le: "chunk_at current remaining \<le> remaining"
  by (simp add: chunk_at_def Let_def)

lemma chunk_at_line: "current mod 64 + chunk_at current remaining \<le> 64"
proof -
  have "current mod 64 < 64" by simp
  then show ?thesis by (cases "64 - current mod 64 > remaining") (auto simp: chunk_at_def Let_def)
qed

text \<open>
  What becomes of a request.  A failure to connect is counted by \<open>connect_cxl_for_thread\<close> and again by
  its caller.
\<close>

datatype cxl_outcome = CxlAccepted | CxlConnectFailed | CxlFailed

definition failures_of :: "cxl_outcome \<Rightarrow> nat" where
  "failures_of r = (case r of CxlAccepted \<Rightarrow> 0 | CxlConnectFailed \<Rightarrow> 2 | CxlFailed \<Rightarrow> 1)"

text \<open>The loop of \<open>send_cxl_access\<close>: the requests that were accepted, and the failures counted.\<close>

function send_cxl_loop ::
  "slug_config \<Rightarrow> memory \<Rightarrow> (nat \<Rightarrow> nat) \<Rightarrow> (nat \<Rightarrow> cxl_request \<Rightarrow> cxl_outcome) \<Rightarrow> access_kind \<Rightarrow> nat \<Rightarrow>
   nat \<Rightarrow> nat \<Rightarrow> nat \<Rightarrow> nat \<Rightarrow> cxl_request list \<times> nat" where
  "send_cxl_loop cfg mem clock srv kind addr n remaining current source_offset =
     (if remaining = 0 then ([], 0)
      else
        let chunk = chunk_at current remaining;
            rq = make_request cfg mem (clock n) kind addr current chunk source_offset
        in if srv n rq \<noteq> CxlAccepted then ([], failures_of (srv n rq))
           else
             let (rqs, failed) = send_cxl_loop cfg mem clock srv kind addr (Suc n) (remaining - chunk)
                                   (wrap64 (current + chunk)) (wrap64 (source_offset + chunk))
             in (rq # rqs, failed))"
  by pat_completeness auto
termination
  by (relation "measure (\<lambda>(cfg, mem, clock, srv, kind, addr, n, remaining, current, off). remaining)")
    (auto simp: chunk_at_pos)

declare send_cxl_loop.simps [simp del]

definition send_cxl_access ::
  "slug_config \<Rightarrow> memory \<Rightarrow> (nat \<Rightarrow> nat) \<Rightarrow> (nat \<Rightarrow> cxl_request \<Rightarrow> cxl_outcome) \<Rightarrow> nat \<Rightarrow> nat \<Rightarrow> access_kind \<Rightarrow>
   cxl_request list \<times> nat" where
  "send_cxl_access cfg mem clock srv addr sz kind =
     (if \<not> sc_cxl_enabled cfg \<or> sz = 0 then ([], 0)
      else send_cxl_loop cfg mem clock srv kind addr 0 sz (translate_cxl_addr cfg addr) 0)"

section \<open>The callbacks\<close>

record slug_stats =
  ss_bb_entries :: nat
  ss_loads :: nat
  ss_stores :: nat
  ss_atomics :: nat
  ss_bytes_read :: nat
  ss_bytes_written :: nat
  ss_cxl_ops :: nat
  ss_cxl_failures :: nat

definition count_access :: "access_kind \<Rightarrow> nat \<Rightarrow> slug_stats \<Rightarrow> slug_stats" where
  "count_access kind sz s =
     (let s = (if is_read_kind kind
               then s\<lparr>ss_loads := wrap64 (ss_loads s + 1), ss_bytes_read := wrap64 (ss_bytes_read s + sz)\<rparr> else s);
          s = (if is_write_kind kind
               then s\<lparr>ss_stores := wrap64 (ss_stores s + 1), ss_bytes_written := wrap64 (ss_bytes_written s + sz)\<rparr> else s)
      in if kind = SLUG_ACCESS_ATOMIC then s\<lparr>ss_atomics := wrap64 (ss_atomics s + 1)\<rparr> else s)"

text \<open>
  The state of a thread, and a line of the trace file.  \<open>now\<close> is the time stamp of the line and \<open>tid\<close>
  the thread; \<open>tracing\<close> says whether the trace file is open.
\<close>

record slug_thread =
  ts_function_id :: nat
  ts_basic_block_id :: nat
  ts_function_name :: "string option"
  ts_in_runtime :: bool

record trace_row =
  tr_now :: nat
  tr_tid :: nat
  tr_function_id :: nat
  tr_basic_block_id :: nat
  tr_function_name :: string
  tr_kind :: string
  tr_address :: nat
  tr_size :: nat

definition slug_bb_enter :: "nat \<Rightarrow> nat \<Rightarrow> string option \<Rightarrow> slug_thread \<times> slug_stats \<Rightarrow> slug_thread \<times> slug_stats" where
  "slug_bb_enter function_id basic_block_id function_name = (\<lambda>(tls, s).
     if ts_in_runtime tls then (tls, s)
     else (tls\<lparr>ts_function_id := function_id, ts_basic_block_id := basic_block_id, ts_function_name := function_name\<rparr>,
           s\<lparr>ss_bb_entries := wrap64 (ss_bb_entries s + 1)\<rparr>))"

definition slug_mem_access ::
  "slug_config \<Rightarrow> memory \<Rightarrow> (nat \<Rightarrow> nat) \<Rightarrow> (nat \<Rightarrow> cxl_request \<Rightarrow> cxl_outcome) \<Rightarrow> bool \<Rightarrow> nat \<Rightarrow> nat \<Rightarrow>
   nat \<Rightarrow> nat \<Rightarrow> access_kind \<Rightarrow> nat \<Rightarrow> nat \<Rightarrow> slug_thread \<times> slug_stats \<Rightarrow>
   (slug_thread \<times> slug_stats) \<times> trace_row list \<times> cxl_request list" where
  "slug_mem_access cfg mem clock srv tracing now tid addr sz kind function_id basic_block_id = (\<lambda>(tls, s).
     if ts_in_runtime tls \<or> addr = 0 \<or> sz = 0 then ((tls, s), [], [])
     else
       let selected = in_region cfg addr sz;
           counted = (selected \<or> sc_trace_all cfg);
           s = (if counted then count_access kind sz s else s);
           rows = (if tracing \<and> counted
                   then [\<lparr>tr_now = now, tr_tid = tid, tr_function_id = function_id, tr_basic_block_id = basic_block_id,
                          tr_function_name = (case ts_function_name tls of None \<Rightarrow> [] | Some nm \<Rightarrow> nm),
                          tr_kind = kind_name kind, tr_address = addr, tr_size = sz\<rparr>]
                   else []);
           (rqs, failed) = (if selected then send_cxl_access cfg mem clock srv addr sz kind else ([], 0))
       in ((tls\<lparr>ts_in_runtime := False\<rparr>,
            s\<lparr>ss_cxl_ops := wrap64 (ss_cxl_ops s + length rqs),
              ss_cxl_failures := wrap64 (ss_cxl_failures s + failed)\<rparr>), rows, rqs))"

text \<open>An access from inside the runtime, such as one the callback itself makes, is not recorded.\<close>

lemma slug_not_reentrant:
  assumes "ts_in_runtime tls"
  shows "slug_mem_access cfg mem clock srv tracing now tid addr sz kind f b (tls, s) = ((tls, s), [], [])"
    and "slug_bb_enter f b nm (tls, s) = (tls, s)"
  using assms by (simp_all add: slug_mem_access_def slug_bb_enter_def)

section \<open>The socket loops\<close>

text \<open>
  \<open>send n len\<close> is what the \<open>n\<close>-th call of \<open>send\<close> on \<open>len\<close> bytes returns.  The result is what was handed
  to the socket, and whether all of it was; a kernel that claims to have sent more than it was given
  makes \<open>len\<close> wrap, which is \<open>None\<close>.
\<close>

function send_all :: "(nat \<Rightarrow> nat \<Rightarrow> int) \<Rightarrow> nat \<Rightarrow> bytes \<Rightarrow> (bytes \<times> bool) option" where
  "send_all send n buf =
     (if buf = [] then Some ([], True)
      else
        let sent = send n (length buf)
        in if sent \<le> 0 then Some ([], False)
           else if nat sent > length buf then None
           else map_option (\<lambda>(out, ok). (take (nat sent) buf @ out, ok)) (send_all send (Suc n) (drop (nat sent) buf)))"
  by pat_completeness auto
termination
  by (relation "measure (\<lambda>(send, n, buf). length buf)") auto

declare send_all.simps [simp del]


section \<open>The requests of an access\<close>

lemma wrap64_mod64 [simp]: "wrap64 a mod 64 = a mod 64"
proof -
  have "(64 :: nat) dvd 2 ^ 64" by (simp add: dvd_def)
  then show ?thesis by (simp add: wrap64_def mod_mod_cancel)
qed

definition total_size :: "cxl_request list \<Rightarrow> nat" where
  "total_size rqs = sum_list (map rq_size rqs)"

text \<open>Consecutive from an address on, none across a line of 64 bytes, none empty.\<close>

primrec consecutive :: "nat \<Rightarrow> cxl_request list \<Rightarrow> bool" where
  "consecutive a [] = True"
| "consecutive a (rq # rqs) =
     (rq_addr rq = wrap64 a \<and> 0 < rq_size rq \<and> rq_addr rq mod 64 + rq_size rq \<le> 64 \<and>
      consecutive (a + rq_size rq) rqs)"

lemma consecutive_cong: "wrap64 a = wrap64 b \<Longrightarrow> consecutive a rqs = consecutive b rqs"
proof (induction rqs arbitrary: a b)
  case (Cons rq rqs)
  from Cons.prems have "wrap64 (a + rq_size rq) = wrap64 (b + rq_size rq)"
    using wrap64_idem [of a "rq_size rq"] wrap64_idem [of b "rq_size rq"] by simp
  from Cons.IH [OF this] Cons.prems show ?case by simp
qed simp

lemma consecutive_wrap: "consecutive (wrap64 a) rqs = consecutive a rqs"
  by (rule consecutive_cong) (simp add: wrap64_def)

definition lines_of :: "nat \<Rightarrow> nat \<Rightarrow> nat" where
  "lines_of a n = (if n = 0 then 0 else (a mod 64 + n + 63) div 64)"

lemma lines_of_step: "0 < n \<Longrightarrow> lines_of a n = Suc (lines_of (a + chunk_at a n) (n - chunk_at a n))"
proof -
  assume n: "0 < n"
  define r where "r = a mod 64"
  have r: "r < 64" by (simp add: r_def)
  show ?thesis
  proof (cases "n \<le> 64 - r")
    case True
    then have "chunk_at a n = n" by (auto simp: chunk_at_def Let_def r_def)
    moreover have "(r + n + 63) div 64 = 1" using True n r by (simp add: div_nat_eqI)
    ultimately show ?thesis using n by (simp add: lines_of_def r_def)
  next
    case False
    then have c: "chunk_at a n = 64 - r" by (auto simp: chunk_at_def Let_def r_def)
    have "(a + (64 - r)) mod 64 = 0"
      using r by (metis r_def add_diff_inverse_nat less_imp_le mod_add_left_eq mod_self not_less)
    moreover have "(r + n + 63) div 64 = Suc ((n - (64 - r) + 63) div 64)"
    proof -
      have "r + n + 63 = 64 + (n - (64 - r) + 63)" using False r by simp
      then show ?thesis by simp
    qed
    ultimately show ?thesis using n False by (simp add: lines_of_def c r_def [symmetric])
  qed
qed


lemma make_request_fields:
  "rq_addr (make_request cfg mem now kind addr cur chunk off) = cur"
  "rq_size (make_request cfg mem now kind addr cur chunk off) = chunk"
  by (simp_all add: make_request_def Let_def)

definition payload :: "cxl_request list \<Rightarrow> bytes" where
  "payload rqs = concat (map (\<lambda>rq. take (rq_size rq) (rq_data rq)) rqs)"

lemma make_request_payload:
  assumes "is_write_kind kind" and "\<not> is_read_kind kind" and "sc_cxl_send_writes cfg"
  shows "take chunk (rq_data (make_request cfg mem now kind addr cur chunk off)) = peek_mem mem (addr + off) chunk"
  using assms by (simp add: make_request_def Let_def kCxlOpWrite_def peek_mem_wrap)

lemma failures_of_0: "failures_of r = 0 \<longleftrightarrow> r = CxlAccepted"
  by (cases r) (simp_all add: failures_of_def)

lemma send_loop_cover:
  assumes "send_cxl_loop cfg mem clock srv kind addr n remaining current off = (rqs, failed)"
    and "current < 2 ^ 64" and "off + remaining < 2 ^ 64"
  shows "consecutive current rqs \<and> total_size rqs \<le> remaining \<and> (failed = 0 \<longleftrightarrow> total_size rqs = remaining) \<and>
    (failed = 0 \<longrightarrow> length rqs = lines_of current remaining) \<and>
    (is_write_kind kind \<and> \<not> is_read_kind kind \<and> sc_cxl_send_writes cfg \<longrightarrow>
       payload rqs = peek_mem mem (addr + off) (total_size rqs))"
  using assms
proof (induction cfg mem clock srv kind addr n remaining current off arbitrary: rqs failed rule: send_cxl_loop.induct)
  case (1 cfg mem clock srv kind addr n remaining current off)
  let ?chunk = "chunk_at current remaining"
  let ?rq = "make_request cfg mem (clock n) kind addr current ?chunk off"
  show ?case
  proof (cases "remaining = 0 \<or> srv n ?rq \<noteq> CxlAccepted")
    case True
    with "1.prems"(1) have "rqs = []" "failed = (if remaining = 0 then 0 else failures_of (srv n ?rq))"
      by (subst (asm) send_cxl_loop.simps, auto simp: Let_def split: if_splits)+
    with True show ?thesis
      by (auto simp: total_size_def payload_def peek_mem_def lines_of_def failures_of_0)
  next
    case False
    then have rem: "0 < remaining" and ok: "srv n ?rq = CxlAccepted" by auto
    note c = chunk_at_pos [OF rem, of current] chunk_at_le [of current remaining] chunk_at_line [of current remaining]
    obtain rqs' where rec: "send_cxl_loop cfg mem clock srv kind addr (Suc n) (remaining - ?chunk)
        (wrap64 (current + ?chunk)) (wrap64 (off + ?chunk)) = (rqs', failed)" and rqs: "rqs = ?rq # rqs'"
      using "1.prems"(1) rem ok
      by (subst (asm) send_cxl_loop.simps) (auto simp: Let_def split: prod.splits)
    have off: "wrap64 (off + ?chunk) = off + ?chunk" using "1.prems"(3) c(2) by (intro wrap64_id) linarith
    have lt: "wrap64 (current + ?chunk) < 2 ^ 64" by (simp add: wrap64_def)
    have sum: "off + ?chunk + (remaining - ?chunk) < 2 ^ 64" using "1.prems"(3) c(2) by simp
    have ih: "consecutive (current + ?chunk) rqs' \<and> total_size rqs' \<le> remaining - ?chunk \<and>
        (failed = 0 \<longleftrightarrow> total_size rqs' = remaining - ?chunk) \<and>
        (failed = 0 \<longrightarrow> length rqs' = lines_of (current + ?chunk) (remaining - ?chunk)) \<and>
        (is_write_kind kind \<and> \<not> is_read_kind kind \<and> sc_cxl_send_writes cfg \<longrightarrow>
           payload rqs' = peek_mem mem (addr + (off + ?chunk)) (total_size rqs'))"
      using "1.IH" [OF _ refl refl _ rec lt] rem ok sum off
      by (simp add: consecutive_wrap lines_of_def)
    have cur: "wrap64 current = current" using "1.prems"(2) by (rule wrap64_id)
    have pay: "payload rqs = take ?chunk (rq_data ?rq) @ payload rqs'"
      by (simp add: payload_def rqs make_request_fields)
    have tot: "total_size rqs = ?chunk + total_size rqs'" by (simp add: total_size_def rqs make_request_fields)
    have len: "length rqs = Suc (length rqs')" by (simp add: rqs)
    have con: "consecutive current rqs" using ih c cur by (simp add: rqs make_request_fields)
    show ?thesis
      using ih c con
      by (auto simp: tot len pay lines_of_step [OF rem] make_request_payload peek_mem_append add.assoc [symmetric])
  qed
qed

text \<open>
  C27. The requests of an access, whatever becomes of them: the accepted ones are consecutive from
  the translated address on, none of them is empty or crosses a line of 64 bytes, and they cover a
  prefix of the access, all of it exactly when no failure was counted; then their number is the
  number of lines the access touches.  For a store their payloads are the bytes of memory they
  stand for.
\<close>

theorem slug_requests_cover_access:
  assumes "sc_cxl_enabled cfg" and "0 < sz" and "sz < 2 ^ 64" and "addr < 2 ^ 64"
    and "send_cxl_access cfg mem clock srv addr sz kind = (rqs, failed)"
  shows "consecutive (translate_cxl_addr cfg addr) rqs \<and> total_size rqs \<le> sz \<and>
    (failed = 0 \<longleftrightarrow> total_size rqs = sz) \<and>
    (failed = 0 \<longrightarrow> length rqs = lines_of (translate_cxl_addr cfg addr) sz) \<and>
    (is_write_kind kind \<and> \<not> is_read_kind kind \<and> sc_cxl_send_writes cfg \<longrightarrow>
       payload rqs = peek_mem mem addr (total_size rqs))"
proof -
  have "translate_cxl_addr cfg addr < 2 ^ 64" using assms(4) by (simp add: translate_cxl_addr_def wrap64_def)
  with send_loop_cover [of cfg mem clock srv kind addr 0 sz "translate_cxl_addr cfg addr" 0 rqs failed] assms
  show ?thesis by (simp add: send_cxl_access_def)
qed

definition demo_slug :: slug_config where
  "demo_slug = \<lparr>sc_trace_all = True, sc_cxl_enabled = True, sc_cxl_send_writes = True, sc_region_base = 4096,
     sc_region_size = 4096, sc_cxl_addr_base = 0\<rparr>"

theorem slug_requests_cover_access_witness:
  "\<exists>rqs. send_cxl_access demo_slug (\<lambda>a. of_nat a) (\<lambda>n. n) (\<lambda>n rq. CxlAccepted) 4150 20 SLUG_ACCESS_STORE = (rqs, 0) \<and>
     length rqs = 2 \<and> total_size rqs = 20 \<and> payload rqs = peek_mem (\<lambda>a. of_nat a) 4150 20"
proof -
  let ?s = "send_cxl_access demo_slug (\<lambda>a. of_nat a) (\<lambda>n. n) (\<lambda>n rq. CxlAccepted) 4150 20 SLUG_ACCESS_STORE"
  have acc: "snd (send_cxl_loop cfg mem clock (\<lambda>n rq. CxlAccepted) kind addr n remaining current off) = 0"
    for cfg mem clock kind addr n remaining current off
    by (induction cfg mem clock "\<lambda>(n :: nat) (rq :: cxl_request). CxlAccepted" kind addr n remaining current off
        rule: send_cxl_loop.induct) (subst send_cxl_loop.simps, fastforce simp: Let_def split: prod.splits)
  have cfg: "sc_cxl_enabled demo_slug" "translate_cxl_addr demo_slug 4150 = 54" "sc_cxl_send_writes demo_slug"
    by (simp_all add: demo_slug_def translate_cxl_addr_def wrap64_def)
  obtain rqs where s: "?s = (rqs, 0)"
    using acc [of demo_slug _ _ _ 4150 0 20] cfg by (metis send_cxl_access_def prod.collapse zero_neq_numeral)
  have "is_write_kind SLUG_ACCESS_STORE" "\<not> is_read_kind SLUG_ACCESS_STORE"
    by (simp_all add: is_write_kind_def is_read_kind_def)
  with slug_requests_cover_access [OF cfg(1) _ _ _ s] cfg s show ?thesis
    by (auto simp: lines_of_def)
qed


section \<open>The region\<close>

text \<open>\<open>in_region\<close> is containment in the region, as long as the region ends below the last address.\<close>

lemma in_region_iff:
  assumes "0 < sc_region_size cfg" and "sc_region_base cfg + sc_region_size cfg < 2 ^ 64"
    and "addr < 2 ^ 64" and "0 < sz" and "sz < 2 ^ 64"
  shows "in_region cfg addr sz \<longleftrightarrow>
    sc_region_base cfg \<le> addr \<and> addr + sz \<le> sc_region_base cfg + sc_region_size cfg"
proof (cases "addr + sz - 1 < 2 ^ 64")
  case True
  define t where "t = addr + sz - 1"
  have t: "addr + sz + (2 ^ 64 - 1) = t + 2 ^ 64" "t < 2 ^ 64" using assms(4) True by (auto simp: t_def)
  then have "wrap64 (addr + sz + (2 ^ 64 - 1)) = t" unfolding wrap64_def by (simp only: mod_add_self2 mod_less)
  moreover have "wrap64 (sc_region_base cfg + sc_region_size cfg) = sc_region_base cfg + sc_region_size cfg"
    using assms(2) by (rule wrap64_id)
  ultimately show ?thesis using assms unfolding in_region_def Let_def by (auto simp: t_def)
next
  case False
  define t where "t = addr + sz - 1 - 2 ^ 64"
  have t: "addr + sz + (2 ^ 64 - 1) = t + 2 ^ 64 * 2" "t < addr" "t < 2 ^ 64"
    using False assms(3-5) by (auto simp: t_def)
  then have "wrap64 (addr + sz + (2 ^ 64 - 1)) = t" unfolding wrap64_def by (simp only: mod_mult_self2 mod_less)
  with t(2) False assms show ?thesis unfolding in_region_def Let_def by auto
qed

text \<open>A region that ends with the address space holds no access: the end of the region wraps to 0.\<close>

lemma in_region_top:
  assumes "0 < sc_region_size cfg" and "sc_region_base cfg + sc_region_size cfg = 2 ^ 64"
  shows "\<not> in_region cfg addr sz"
  using assms unfolding in_region_def Let_def wrap64_def by auto

text \<open>The socket loop hands over a prefix of the buffer, and all of it when it succeeds.\<close>

lemma send_all_prefix:
  assumes "\<And>n len. send n len \<le> int len"
  shows "\<exists>out ok rest. send_all send n buf = Some (out, ok) \<and> buf = out @ rest \<and> (ok \<longleftrightarrow> rest = [])"
  using assms
proof (induction send n buf rule: send_all.induct)
  case (1 send n buf)
  show ?case
  proof (cases "buf = [] \<or> send n (length buf) \<le> 0")
    case True
    then show ?thesis by (subst send_all.simps) (auto simp: Let_def)
  next
    case False
    define k where "k = nat (send n (length buf))"
    have k: "\<not> k > length buf" using "1.prems" [of n "length buf"] by (simp add: k_def)
    from "1.IH" [OF _ refl _ _ "1.prems"] False k obtain out ok rest where
      r: "send_all send (Suc n) (drop k buf) = Some (out, ok)" "drop k buf = out @ rest" "ok \<longleftrightarrow> rest = []"
      by (auto simp: k_def)
    have "send_all send n buf = Some (take k buf @ out, ok)"
      using False k r(1) by (subst send_all.simps) (simp add: k_def Let_def)
    moreover have "buf = (take k buf @ out) @ rest" using r(2) by (metis append_assoc append_take_drop_id)
    ultimately show ?thesis using r(3) by blast
  qed
qed

end
