(* ===== verification/Pgas_Remote.thy ===== *)
theory Pgas_Remote
  imports Memory "HOL-Library.AList"
begin

text \<open>
  The connection of the partitioned global address space (PGAS) to the CXL memory simulator
  (\<open>attach/pgas_attach_impl/src/pgas_cxlmemsim_integration.cpp\<close>): the connections to the servers of the
  nodes, the node that owns an address and the address the node knows it by, the remote reads and
  writes, and the copies and fills the interceptors delegate.

  The client library of the simulator is a parameter, a record of its functions over a type \<open>'c\<close>
  of connections and a type \<open>'w\<close> of the state of the servers; \<open>cl_load\<close> returns the bytes it left in
  the destination.
\<close>

section \<open>The client of the simulator\<close>

record ('c, 'w) cxl_client =
  cl_init :: "string \<Rightarrow> nat \<Rightarrow> 'c option"
  cl_connect :: "'c \<Rightarrow> 'w \<Rightarrow> 'c option \<times> 'w"
  cl_load :: "'c \<Rightarrow> nat \<Rightarrow> nat \<Rightarrow> 'w \<Rightarrow> int \<times> bytes \<times> 'c \<times> 'w"
  cl_store :: "'c \<Rightarrow> nat \<Rightarrow> bytes \<Rightarrow> 'w \<Rightarrow> int \<times> 'c \<times> 'w"
  cl_latency :: "'c \<Rightarrow> nat"

section \<open>The connection manager\<close>

record pgas_node_info =
  ni_node_id :: nat
  ni_base_addr :: nat
  ni_size :: nat
  ni_hostname :: string
  ni_port :: nat

record conn_stats =
  cs_local_reads :: nat
  cs_local_writes :: nat
  cs_remote_reads :: nat
  cs_remote_writes :: nat
  cs_total_remote_latency_ns :: nat

definition zero_stats :: conn_stats where
  "zero_stats = \<lparr>cs_local_reads = 0, cs_local_writes = 0, cs_remote_reads = 0, cs_remote_writes = 0,
     cs_total_remote_latency_ns = 0\<rparr>"

text \<open>The unordered maps of the manager are association lists in the order of their iteration.\<close>

record 'c conn_mgr =
  cm_node_configs :: "(nat \<times> pgas_node_info) list"
  cm_connections :: "(nat \<times> 'c) list"
  cm_local_node_id :: nat
  cm_stats :: conn_stats

definition is_local :: "'c conn_mgr \<Rightarrow> nat \<Rightarrow> bool" where
  "is_local cm node_id \<longleftrightarrow> node_id = cm_local_node_id cm"

definition connect_node_locked ::
  "('c, 'w) cxl_client \<Rightarrow> nat \<Rightarrow> 'c conn_mgr \<times> 'w \<Rightarrow> int \<times> 'c conn_mgr \<times> 'w" where
  "connect_node_locked cl node_id = (\<lambda>(cm, w).
     if node_id = cm_local_node_id cm then (0, cm, w)
     else if map_of (cm_connections cm) node_id \<noteq> None then (0, cm, w)
     else case map_of (cm_node_configs cm) node_id of
       None \<Rightarrow> (-1, cm, w)
     | Some node \<Rightarrow>
         if ni_port node = 0 then (-1, cm, w)
         else case cl_init cl (ni_hostname node) (ni_port node) of
           None \<Rightarrow> (-1, cm, w)
         | Some ctx \<Rightarrow>
             (case cl_connect cl ctx w of
                (None, w) \<Rightarrow> (-1, cm, w)
              | (Some ctx, w) \<Rightarrow>
                  (0, cm\<lparr>cm_connections := AList.update node_id ctx (cm_connections cm)\<rparr>, w)))"

definition add_node_configs :: "pgas_node_info list \<Rightarrow> (nat \<times> pgas_node_info) list" where
  "add_node_configs nodes = fold (\<lambda>node cfgs. AList.update (ni_node_id node) node cfgs) nodes []"

definition eager_connect_all ::
  "('c, 'w) cxl_client \<Rightarrow> nat list \<Rightarrow> 'c conn_mgr \<times> 'w \<Rightarrow> 'c conn_mgr \<times> 'w" where
  "eager_connect_all cl ids s =
     fold (\<lambda>node_id (cm, w). if node_id \<noteq> cm_local_node_id cm then snd (connect_node_locked cl node_id (cm, w)) else (cm, w))
       ids s"

definition conn_mgr_init ::
  "('c, 'w) cxl_client \<Rightarrow> pgas_node_info list \<Rightarrow> nat \<Rightarrow> bool \<Rightarrow> 'c conn_mgr \<times> 'w \<Rightarrow> int \<times> 'c conn_mgr \<times> 'w" where
  "conn_mgr_init cl nodes local_node_id eager = (\<lambda>(cm, w).
     let cm = cm\<lparr>cm_connections := [], cm_node_configs := add_node_configs nodes, cm_local_node_id := local_node_id\<rparr>
     in if cm_node_configs cm = [] then (-1, cm, w)
        else (0, if eager then eager_connect_all cl (map fst (cm_node_configs cm)) (cm, w) else (cm, w)))"

definition get_connection ::
  "('c, 'w) cxl_client \<Rightarrow> nat \<Rightarrow> 'c conn_mgr \<times> 'w \<Rightarrow> 'c option \<times> 'c conn_mgr \<times> 'w" where
  "get_connection cl node_id = (\<lambda>(cm, w).
     case map_of (cm_connections cm) node_id of
       Some ctx \<Rightarrow> (Some ctx, cm, w)
     | None \<Rightarrow>
         let (r, cm, w) = connect_node_locked cl node_id (cm, w)
         in if r \<noteq> 0 then (None, cm, w) else (map_of (cm_connections cm) node_id, cm, w))"

definition conn_mgr_shutdown :: "'c conn_mgr \<Rightarrow> 'c conn_mgr" where
  "conn_mgr_shutdown cm = cm\<lparr>cm_connections := [], cm_node_configs := []\<rparr>"

definition reset_stats :: "'c conn_mgr \<Rightarrow> 'c conn_mgr" where
  "reset_stats cm = cm\<lparr>cm_stats := zero_stats\<rparr>"

section \<open>Addresses\<close>

record pgas_config =
  pc_local_node_id :: nat
  pc_num_nodes :: nat
  pc_base :: nat
  pc_size :: nat
  pc_nodes :: "pgas_node_info list"
  pc_hook_memcpy :: bool
  pc_hook_memmove :: bool
  pc_hook_memset :: bool
  pc_eager_connect :: bool
  pc_use_node_local_offsets :: bool

definition is_pgas_addr :: "pgas_config \<Rightarrow> nat \<Rightarrow> bool" where
  "is_pgas_addr cfg addr \<longleftrightarrow> addr \<ge> pc_base cfg \<and> addr < wrap64 (pc_base cfg + pc_size cfg)"

definition addr_to_node :: "pgas_config \<Rightarrow> nat \<Rightarrow> nat" where
  "addr_to_node cfg addr =
     (if \<not> is_pgas_addr cfg addr then pc_local_node_id cfg
      else if pc_num_nodes cfg = 0 \<or> pc_size cfg = 0 then pc_local_node_id cfg
      else
        let region_size = pc_size cfg div pc_num_nodes cfg
        in if region_size = 0 then pc_local_node_id cfg
           else
             let node = (addr - pc_base cfg) div region_size
             in if node \<ge> pc_num_nodes cfg then pc_num_nodes cfg - 1 else node)"

definition translate_addr :: "pgas_config \<Rightarrow> nat \<Rightarrow> nat \<Rightarrow> nat" where
  "translate_addr cfg local_addr target_node =
     (if \<not> pc_use_node_local_offsets cfg \<or> \<not> is_pgas_addr cfg local_addr \<or> pc_num_nodes cfg = 0 \<or> pc_size cfg = 0 \<or>
         target_node \<ge> pc_num_nodes cfg then local_addr
      else
        let region_size = pc_size cfg div pc_num_nodes cfg
        in if region_size = 0 then local_addr
           else
             let offset = local_addr - pc_base cfg; node_base = wrap64 (target_node * region_size)
             in if offset < node_base then offset else offset - node_base)"

section \<open>Remote accesses\<close>

text \<open>The state the accesses run in: the manager, the servers and the memory of the process.\<close>

record ('c, 'w) pgas_world =
  pw_mgr :: "'c conn_mgr"
  pw_servers :: 'w
  pw_mem :: memory

definition map_stats :: "(conn_stats \<Rightarrow> conn_stats) \<Rightarrow> ('c, 'w) pgas_world \<Rightarrow> ('c, 'w) pgas_world" where
  "map_stats f s = s\<lparr>pw_mgr := (pw_mgr s)\<lparr>cm_stats := f (cm_stats (pw_mgr s))\<rparr>\<rparr>"

text \<open>The connection object was changed by the call that used it.\<close>

definition set_connection :: "nat \<Rightarrow> 'c \<Rightarrow> 'c conn_mgr \<Rightarrow> 'c conn_mgr" where
  "set_connection node_id ctx cm = cm\<lparr>cm_connections := AList.update node_id ctx (cm_connections cm)\<rparr>"

definition remote_read ::
  "('c, 'w) cxl_client \<Rightarrow> pgas_config \<Rightarrow> nat \<Rightarrow> nat \<Rightarrow> nat \<Rightarrow> nat \<Rightarrow> ('c, 'w) pgas_world \<Rightarrow> int \<times> ('c, 'w) pgas_world" where
  "remote_read cl cfg node_id addr dest sz s =
     (if is_local (pw_mgr s) node_id then
        (0, map_stats (\<lambda>st. st\<lparr>cs_local_reads := wrap64 (cs_local_reads st + 1)\<rparr>)
              (s\<lparr>pw_mem := poke_mem (pw_mem s) dest (peek_mem (pw_mem s) addr sz)\<rparr>))
      else case get_connection cl node_id (pw_mgr s, pw_servers s) of
        (None, cm, w) \<Rightarrow> (-1, s\<lparr>pw_mgr := cm, pw_servers := w\<rparr>)
      | (Some ctx, cm, w) \<Rightarrow>
          let (r, bs, ctx, w) = cl_load cl ctx (translate_addr cfg addr node_id) sz w
          in (r, map_stats (\<lambda>st. st\<lparr>cs_remote_reads := wrap64 (cs_remote_reads st + 1),
                   cs_total_remote_latency_ns := wrap64 (cs_total_remote_latency_ns st + cl_latency cl ctx)\<rparr>)
                (s\<lparr>pw_mgr := set_connection node_id ctx cm, pw_servers := w, pw_mem := poke_mem (pw_mem s) dest bs\<rparr>)))"

text \<open>The source of a write is the bytes it points to.\<close>

definition remote_write ::
  "('c, 'w) cxl_client \<Rightarrow> pgas_config \<Rightarrow> nat \<Rightarrow> nat \<Rightarrow> bytes \<Rightarrow> ('c, 'w) pgas_world \<Rightarrow> int \<times> ('c, 'w) pgas_world" where
  "remote_write cl cfg node_id addr bs s =
     (if is_local (pw_mgr s) node_id then
        (0, map_stats (\<lambda>st. st\<lparr>cs_local_writes := wrap64 (cs_local_writes st + 1)\<rparr>)
              (s\<lparr>pw_mem := poke_mem (pw_mem s) addr bs\<rparr>))
      else case get_connection cl node_id (pw_mgr s, pw_servers s) of
        (None, cm, w) \<Rightarrow> (-1, s\<lparr>pw_mgr := cm, pw_servers := w\<rparr>)
      | (Some ctx, cm, w) \<Rightarrow>
          let (r, ctx, w) = cl_store cl ctx (translate_addr cfg addr node_id) bs w
          in (r, map_stats (\<lambda>st. st\<lparr>cs_remote_writes := wrap64 (cs_remote_writes st + 1),
                   cs_total_remote_latency_ns := wrap64 (cs_total_remote_latency_ns st + cl_latency cl ctx)\<rparr>)
                (s\<lparr>pw_mgr := set_connection node_id ctx cm, pw_servers := w\<rparr>)))"

definition pgas_remote_memcpy_handler ::
  "('c, 'w) cxl_client \<Rightarrow> pgas_config \<Rightarrow> nat \<Rightarrow> nat \<Rightarrow> nat \<Rightarrow> nat \<Rightarrow> bool \<Rightarrow> ('c, 'w) pgas_world \<Rightarrow> int \<times> ('c, 'w) pgas_world" where
  "pgas_remote_memcpy_handler cl cfg dest src n target_node dest_is_remote s =
     (if dest_is_remote then remote_write cl cfg target_node dest (peek_mem (pw_mem s) src n) s
      else remote_read cl cfg target_node src dest n s)"

text \<open>A fill sends a buffer of the fill byte; \<open>alloc\<close> says whether \<open>malloc\<close> of a large one succeeds.\<close>

definition pgas_remote_memset_handler ::
  "('c, 'w) cxl_client \<Rightarrow> pgas_config \<Rightarrow> (nat \<Rightarrow> bool) \<Rightarrow> nat \<Rightarrow> int \<Rightarrow> nat \<Rightarrow> nat \<Rightarrow> ('c, 'w) pgas_world \<Rightarrow> int \<times> ('c, 'w) pgas_world" where
  "pgas_remote_memset_handler cl cfg alloc s c n target_node st =
     (if n \<le> 4096 then remote_write cl cfg target_node s (replicate n (word_of_int c)) st
      else if \<not> alloc n then (-1, st)
      else remote_write cl cfg target_node s (replicate n (word_of_int c)) st)"

section \<open>The partition of the region\<close>

definition region_ok :: "pgas_config \<Rightarrow> bool" where
  "region_ok cfg \<longleftrightarrow> 0 < pc_num_nodes cfg \<and> pc_num_nodes cfg \<le> pc_size cfg \<and> pc_base cfg + pc_size cfg < 2 ^ 64"

lemma region_size_pos: "region_ok cfg \<Longrightarrow> 0 < pc_size cfg div pc_num_nodes cfg"
  by (simp add: region_ok_def div_greater_zero_iff)

lemma is_pgas_addr_iff:
  "region_ok cfg \<Longrightarrow> is_pgas_addr cfg a \<longleftrightarrow> pc_base cfg \<le> a \<and> a < pc_base cfg + pc_size cfg"
  by (simp add: region_ok_def is_pgas_addr_def wrap64_id)

lemma addr_to_node_in:
  assumes "region_ok cfg" and "is_pgas_addr cfg a"
  shows "addr_to_node cfg a = min ((a - pc_base cfg) div (pc_size cfg div pc_num_nodes cfg)) (pc_num_nodes cfg - 1)"
  using assms region_size_pos [OF assms(1)] by (auto simp: addr_to_node_def Let_def region_ok_def)

lemma remote_is_pgas: "addr_to_node cfg a \<noteq> pc_local_node_id cfg \<Longrightarrow> is_pgas_addr cfg a"
  unfolding addr_to_node_def by (metis (full_types))

text \<open>
  Where the addresses a node gets start in the address space: translation subtracts this origin, so
  it is injective on the addresses of a node and keeps ranges contiguous.
\<close>

definition node_origin :: "pgas_config \<Rightarrow> nat \<Rightarrow> nat" where
  "node_origin cfg node =
     (if pc_use_node_local_offsets cfg then pc_base cfg + node * (pc_size cfg div pc_num_nodes cfg) else 0)"

lemma translate_addr_origin:
  assumes ok: "region_ok cfg" and r: "is_pgas_addr cfg a"
  shows "translate_addr cfg a (addr_to_node cfg a) + node_origin cfg (addr_to_node cfg a) = a"
proof (cases "pc_use_node_local_offsets cfg")
  case True
  let ?R = "pc_size cfg div pc_num_nodes cfg" and ?n = "addr_to_node cfg a"
  have n: "?n = min ((a - pc_base cfg) div ?R) (pc_num_nodes cfg - 1)" using addr_to_node_in [OF ok r] .
  have a: "pc_base cfg \<le> a" "a < pc_base cfg + pc_size cfg" using r by (simp_all add: is_pgas_addr_iff [OF ok])
  have lt: "?n < pc_num_nodes cfg" using ok n by (auto simp: region_ok_def)
  have "?n * ?R \<le> (a - pc_base cfg) div ?R * ?R" using n by (intro mult_le_mono1) simp
  also have "\<dots> \<le> a - pc_base cfg" by simp
  finally have le: "?n * ?R \<le> a - pc_base cfg" .
  moreover have "wrap64 (?n * ?R) = ?n * ?R" using le a ok unfolding region_ok_def by (intro wrap64_id) linarith
  ultimately show ?thesis
    using True r ok lt a region_size_pos [OF ok]
    by (simp add: translate_addr_def node_origin_def Let_def region_ok_def)
qed (simp add: translate_addr_def node_origin_def)

lemma translate_addr_inj:
  assumes "region_ok cfg" and "is_pgas_addr cfg a" and "is_pgas_addr cfg b"
    and "addr_to_node cfg a = addr_to_node cfg b"
    and "translate_addr cfg a (addr_to_node cfg a) = translate_addr cfg b (addr_to_node cfg b)"
  shows "a = b"
  using translate_addr_origin [OF assms(1,2)] translate_addr_origin [OF assms(1,3)] assms(4,5) by metis

text \<open>With node-local offsets a node never sees an offset beyond its share, the last node's with the remainder.\<close>

lemma translate_addr_bound:
  assumes ok: "region_ok cfg" and r: "is_pgas_addr cfg a" and "pc_use_node_local_offsets cfg"
  shows "translate_addr cfg a (addr_to_node cfg a) < pc_size cfg div pc_num_nodes cfg +
    (if addr_to_node cfg a = pc_num_nodes cfg - 1 then pc_size cfg mod pc_num_nodes cfg else 0)"
proof -
  let ?N = "pc_num_nodes cfg" and ?S = "pc_size cfg" and ?o = "a - pc_base cfg" and ?n = "addr_to_node cfg a"
  have a: "?o < ?S" "pc_base cfg \<le> a" using r by (auto simp: is_pgas_addr_iff [OF ok])
  have t: "translate_addr cfg a ?n + ?n * (?S div ?N) = ?o"
    using translate_addr_origin [OF ok r] assms(3) by (simp add: node_origin_def)
  show ?thesis
  proof (cases "?n = ?N - 1")
    case True
    have "?N * (?S div ?N) + ?S mod ?N = ?S" by simp
    moreover have "?N * (?S div ?N) = ?n * (?S div ?N) + ?S div ?N"
      using True ok by (cases ?N) (simp_all add: region_ok_def)
    ultimately show ?thesis using True t a by simp
  next
    case False
    then have "?n = ?o div (?S div ?N)" using addr_to_node_in [OF ok r] by (auto simp: min_def split: if_splits)
    then have "?o < Suc ?n * (?S div ?N)" using dividend_less_div_times [OF region_size_pos [OF ok], of ?o] by simp
    then show ?thesis using False t by simp
  qed
qed

section \<open>The region as one memory\<close>

text \<open>
  What the code relies on of the simulator: a server is a byte memory, one for every host and port;
  a load that succeeds returns its bytes and a store that succeeds writes them; connecting and
  loading change no memory.  \<open>peer\<close> is the server a connection leads to.
\<close>

definition memory_servers ::
  "('c, 'w) cxl_client \<Rightarrow> ('c \<Rightarrow> string \<times> nat) \<Rightarrow> ('w \<Rightarrow> string \<times> nat \<Rightarrow> memory) \<Rightarrow> bool" where
  "memory_servers cl peer sv \<longleftrightarrow>
     (\<forall>h p c. cl_init cl h p = Some c \<longrightarrow> peer c = (h, p)) \<and>
     (\<forall>c w x w'. cl_connect cl c w = (x, w') \<longrightarrow> sv w' = sv w) \<and>
     (\<forall>c w c' w'. cl_connect cl c w = (Some c', w') \<longrightarrow> peer c' = peer c) \<and>
     (\<forall>c a n w r bs c' w'. cl_load cl c a n w = (r, bs, c', w') \<longrightarrow> peer c' = peer c \<and> sv w' = sv w) \<and>
     (\<forall>c a n w bs c' w'. cl_load cl c a n w = (0, bs, c', w') \<longrightarrow> bs = peek_mem (sv w (peer c)) a n) \<and>
     (\<forall>c a bs w r c' w'. cl_store cl c a bs w = (r, c', w') \<longrightarrow> peer c' = peer c) \<and>
     (\<forall>c a bs w c' w'. cl_store cl c a bs w = (0, c', w') \<longrightarrow>
        sv w' = (sv w)(peer c := poke_mem (sv w (peer c)) a bs))"

lemma memory_serversD:
  assumes "memory_servers cl peer sv"
  shows "cl_init cl h p = Some c \<Longrightarrow> peer c = (h, p)"
    and "cl_connect cl c w = (x, w') \<Longrightarrow> sv w' = sv w"
    and "cl_connect cl c w = (Some c', w') \<Longrightarrow> peer c' = peer c"
    and "cl_load cl c a n w = (r, bs, c', w') \<Longrightarrow> peer c' = peer c"
    and "cl_load cl c a n w = (r, bs, c', w') \<Longrightarrow> sv w' = sv w"
    and "cl_load cl c a n w = (0, bs, c', w') \<Longrightarrow> bs = peek_mem (sv w (peer c)) a n"
    and "cl_store cl c a bs w = (r, c', w') \<Longrightarrow> peer c' = peer c"
    and "cl_store cl c a bs w = (0, c', w') \<Longrightarrow> sv w' = (sv w)(peer c := poke_mem (sv w (peer c)) a bs)"
  by (use assms in \<open>unfold memory_servers_def, metis\<close>)+

definition endpoint :: "pgas_node_info \<Rightarrow> string \<times> nat" where
  "endpoint node = (ni_hostname node, ni_port node)"

text \<open>Every connection leads to the server configured for its node.\<close>

definition conns_ok :: "('c \<Rightarrow> string \<times> nat) \<Rightarrow> 'c conn_mgr \<Rightarrow> bool" where
  "conns_ok peer cm \<longleftrightarrow>
     (\<forall>i c. map_of (cm_connections cm) i = Some c \<longrightarrow>
        (\<exists>node. map_of (cm_node_configs cm) i = Some node \<and> peer c = endpoint node))"

definition nodes_apart :: "'c conn_mgr \<Rightarrow> bool" where
  "nodes_apart cm \<longleftrightarrow>
     (\<forall>i j m n. map_of (cm_node_configs cm) i = Some m \<longrightarrow> map_of (cm_node_configs cm) j = Some n \<longrightarrow>
        endpoint m = endpoint n \<longrightarrow> i = j)"

definition flat_view ::
  "pgas_config \<Rightarrow> ('w \<Rightarrow> string \<times> nat \<Rightarrow> memory) \<Rightarrow> ('c, 'w) pgas_world \<Rightarrow> memory" where
  "flat_view cfg sv s = (\<lambda>a.
     let n = addr_to_node cfg a
     in if n = pc_local_node_id cfg then pw_mem s a
        else case map_of (cm_node_configs (pw_mgr s)) n of
          None \<Rightarrow> pw_mem s a
        | Some node \<Rightarrow> sv (pw_servers s) (endpoint node) (translate_addr cfg a n))"

lemma flat_view_cong:
  "pw_mem s = pw_mem t \<Longrightarrow> sv (pw_servers s) = sv (pw_servers t) \<Longrightarrow>
     cm_node_configs (pw_mgr s) = cm_node_configs (pw_mgr t) \<Longrightarrow> flat_view cfg sv s = flat_view cfg sv t"
  by (rule ext) (simp add: flat_view_def Let_def split: option.splits)

lemma connect_node_ok:
  assumes "memory_servers cl peer sv" and "conns_ok peer cm" and "connect_node_locked cl i (cm, w) = (r, cm', w')"
  shows "conns_ok peer cm' \<and> cm_node_configs cm' = cm_node_configs cm \<and> cm_local_node_id cm' = cm_local_node_id cm \<and>
    cm_stats cm' = cm_stats cm \<and> sv w' = sv w"
proof -
  note D = memory_serversD(1-3) [OF assms(1)]
  show ?thesis
    using assms(2,3)
    by (auto simp: connect_node_locked_def conns_ok_def update_conv endpoint_def
        split: if_splits option.splits prod.splits dest: D(2)) (metis D(1,3))
qed

lemma get_connection_ok:
  assumes "memory_servers cl peer sv" and "conns_ok peer cm" and "get_connection cl i (cm, w) = (r, cm', w')"
  shows "conns_ok peer cm' \<and> cm_node_configs cm' = cm_node_configs cm \<and> cm_local_node_id cm' = cm_local_node_id cm \<and>
    cm_stats cm' = cm_stats cm \<and> sv w' = sv w \<and>
    (\<forall>c. r = Some c \<longrightarrow> (\<exists>node. map_of (cm_node_configs cm) i = Some node \<and> peer c = endpoint node))"
proof (cases "map_of (cm_connections cm) i")
  case None
  obtain r' cm2 w2 where c: "connect_node_locked cl i (cm, w) = (r', cm2, w2)" by (metis prod_cases3)
  from connect_node_ok [OF assms(1,2) c] have ok: "conns_ok peer cm2" "cm_node_configs cm2 = cm_node_configs cm"
    "cm_local_node_id cm2 = cm_local_node_id cm" "cm_stats cm2 = cm_stats cm" "sv w2 = sv w" by auto
  have "cm' = cm2" "w' = w2" "r = (if r' \<noteq> 0 then None else map_of (cm_connections cm2) i)"
    using assms(3) None c by (auto simp: get_connection_def split: if_splits)
  with ok show ?thesis by (auto simp: conns_ok_def)
next
  case (Some c)
  with assms show ?thesis by (auto simp: get_connection_def conns_ok_def)
qed

text \<open>
  The states the accesses start from: the manager was initialised for the configuration, its
  connections lead to the servers of their nodes, and no two nodes share a server.
\<close>

definition world_ok :: "pgas_config \<Rightarrow> ('c \<Rightarrow> string \<times> nat) \<Rightarrow> ('c, 'w) pgas_world \<Rightarrow> bool" where
  "world_ok cfg peer s \<longleftrightarrow>
     region_ok cfg \<and> cm_local_node_id (pw_mgr s) = pc_local_node_id cfg \<and> conns_ok peer (pw_mgr s) \<and> nodes_apart (pw_mgr s)"

text \<open>A range of addresses that one node owns.\<close>

definition owned_by :: "pgas_config \<Rightarrow> nat \<Rightarrow> nat \<Rightarrow> nat \<Rightarrow> bool" where
  "owned_by cfg node a n \<longleftrightarrow> a + n \<le> 2 ^ 64 \<and> (\<forall>i < n. addr_to_node cfg (a + i) = node)"

lemma owned_translate:
  assumes ok: "region_ok cfg" and own: "owned_by cfg node a n" and rem: "node \<noteq> pc_local_node_id cfg" and n: "0 < n"
    and x: "addr_to_node cfg x = node"
  shows "translate_addr cfg a node \<le> translate_addr cfg x node \<longleftrightarrow> a \<le> x"
    and "translate_addr cfg x node < translate_addr cfg a node + n \<longleftrightarrow> x < a + n"
    and "a \<le> x \<Longrightarrow> translate_addr cfg x node - translate_addr cfg a node = x - a"
    and "translate_addr cfg a node + n \<le> 2 ^ 64"
proof -
  have "addr_to_node cfg a = node" using own n by (auto simp: owned_by_def)
  with x rem have "translate_addr cfg a node + node_origin cfg node = a" "translate_addr cfg x node + node_origin cfg node = x"
    using translate_addr_origin [OF ok] remote_is_pgas by metis+
  with own show "translate_addr cfg a node \<le> translate_addr cfg x node \<longleftrightarrow> a \<le> x"
    and "translate_addr cfg x node < translate_addr cfg a node + n \<longleftrightarrow> x < a + n"
    and "a \<le> x \<Longrightarrow> translate_addr cfg x node - translate_addr cfg a node = x - a"
    and "translate_addr cfg a node + n \<le> 2 ^ 64"
    unfolding owned_by_def by linarith+
qed

lemma owned_mem: "owned_by cfg node a n \<Longrightarrow> a \<le> x \<Longrightarrow> x < a + n \<Longrightarrow> addr_to_node cfg x = node"
  unfolding owned_by_def by (metis add_less_cancel_left le_add_diff_inverse)

lemma set_connection_ok:
  assumes "conns_ok peer cm" and "map_of (cm_node_configs cm) i = Some node" and "peer c = endpoint node"
  shows "conns_ok peer (set_connection i c cm)"
  using assms by (auto simp: conns_ok_def set_connection_def update_conv)

text \<open>A remote write that succeeds writes the bytes to the region, and keeps the state well-formed.\<close>

lemma remote_write_flat:
  assumes ms: "memory_servers cl peer sv" and ok: "world_ok cfg peer s"
    and own: "owned_by cfg node dest (length bs)" and rem: "node \<noteq> pc_local_node_id cfg" and n: "bs \<noteq> []"
    and wr: "remote_write cl cfg node dest bs s = (0, s')"
  shows "flat_view cfg sv s' = poke_mem (flat_view cfg sv s) dest bs \<and> world_ok cfg peer s' \<and> pw_mem s' = pw_mem s"
proof -
  have reg: "region_ok cfg" and cok: "conns_ok peer (pw_mgr s)" using ok by (auto simp: world_ok_def)
  have nl: "\<not> is_local (pw_mgr s) node" using ok rem by (simp add: is_local_def world_ok_def)
  obtain ro cm w where g: "get_connection cl node (pw_mgr s, pw_servers s) = (ro, cm, w)" by (metis prod_cases3)
  note G = get_connection_ok [OF ms cok g]
  obtain c where c: "ro = Some c" using wr g nl by (cases ro) (auto simp: remote_write_def)
  with G obtain nd where nd: "map_of (cm_node_configs (pw_mgr s)) node = Some nd" "peer c = endpoint nd" by blast
  obtain r c' w' where st: "cl_store cl c (translate_addr cfg dest node) bs w = (r, c', w')" by (metis prod_cases3)
  have r: "r = 0" and s': "pw_mem s' = pw_mem s" "pw_servers s' = w'"
    "cm_node_configs (pw_mgr s') = cm_node_configs (pw_mgr s)" "cm_local_node_id (pw_mgr s') = cm_local_node_id (pw_mgr s)"
    "cm_connections (pw_mgr s') = cm_connections (set_connection node c' cm)"
    using wr g nl c st G by (auto simp: remote_write_def map_stats_def set_connection_def)
  have sv: "sv w' = (sv (pw_servers s))(endpoint nd := poke_mem (sv (pw_servers s) (endpoint nd)) (translate_addr cfg dest node) bs)"
    using memory_serversD(8) [OF ms] st r G nd by auto
  have "conns_ok peer (set_connection node c' cm)"
    using G nd memory_serversD(7) [OF ms st] by (intro set_connection_ok [of _ _ _ nd]) auto
  then have "conns_ok peer (pw_mgr s')"
    using s' G by (simp add: conns_ok_def set_connection_def)
  then have wok: "world_ok cfg peer s'" using ok s' by (simp add: world_ok_def nodes_apart_def)
  have "flat_view cfg sv s' x = poke_mem (flat_view cfg sv s) dest bs x" for x
  proof -
    have p: "poke_mem (flat_view cfg sv s) dest bs x =
        (if dest \<le> x \<and> x < dest + length bs then bs ! (x - dest) else flat_view cfg sv s x)"
      using own by (intro poke_mem_at) (simp add: owned_by_def)
    show ?thesis
    proof (cases "addr_to_node cfg x = node")
      case True
      note T = owned_translate [OF reg own rem _ True]
      show ?thesis
        using n T(1-3) poke_mem_at [OF T(4)] True rem nd s' sv unfolding p
        by (simp add: flat_view_def Let_def)
    next
      case False
      then have out: "\<not> (dest \<le> x \<and> x < dest + length bs)" using owned_mem [OF own] by blast
      have "endpoint m \<noteq> endpoint nd" if "map_of (cm_node_configs (pw_mgr s)) (addr_to_node cfg x) = Some m" for m
        using ok False that nd unfolding world_ok_def nodes_apart_def by blast
      then show ?thesis unfolding p using out s' sv by (auto simp: flat_view_def Let_def split: option.splits)
    qed
  qed
  with wok s' show ?thesis by blast
qed

text \<open>A write to local memory, and the bytes of a range as the region shows them.\<close>

lemma local_write_flat:
  assumes "owned_by cfg (pc_local_node_id cfg) dest (length bs)"
  shows "flat_view cfg sv (s\<lparr>pw_mem := poke_mem (pw_mem s) dest bs\<rparr>) = poke_mem (flat_view cfg sv s) dest bs"
proof
  fix x
  have len: "dest + length bs \<le> 2 ^ 64" using assms by (simp add: owned_by_def)
  show "flat_view cfg sv (s\<lparr>pw_mem := poke_mem (pw_mem s) dest bs\<rparr>) x = poke_mem (flat_view cfg sv s) dest bs x"
    using owned_mem [OF assms, of x] unfolding poke_mem_at [OF len] flat_view_def
    by (auto simp: Let_def poke_mem_at [OF len] split: option.splits)
qed

lemma local_peek_flat:
  assumes "owned_by cfg (pc_local_node_id cfg) src n"
  shows "peek_mem (flat_view cfg sv s) src n = peek_mem (pw_mem s) src n"
  using assms owned_mem [OF assms] by (intro peek_mem_cong) (auto simp: flat_view_def owned_by_def)

lemma remote_peek_flat:
  assumes reg: "region_ok cfg" and own: "owned_by cfg node src n" and rem: "node \<noteq> pc_local_node_id cfg"
    and nd: "map_of (cm_node_configs (pw_mgr s)) node = Some nd"
  shows "peek_mem (flat_view cfg sv s) src n = peek_mem (sv (pw_servers s) (endpoint nd)) (translate_addr cfg src node) n"
proof (rule nth_equalityI)
  fix i assume "i < length (peek_mem (flat_view cfg sv s) src n)"
  then have i: "i < n" and sum: "src + i < 2 ^ 64" using own by (auto simp: owned_by_def)
  have node: "addr_to_node cfg (src + i) = node" using own i by (simp add: owned_by_def)
  note T = owned_translate [OF reg own rem _ node]
  have "translate_addr cfg (src + i) node = translate_addr cfg src node + i"
  proof -
    have "translate_addr cfg src node \<le> translate_addr cfg (src + i) node" using T(1) i by simp
    moreover have "translate_addr cfg (src + i) node - translate_addr cfg src node = i" using T(3) i by simp
    ultimately show ?thesis by linarith
  qed
  moreover have "translate_addr cfg src node + i < 2 ^ 64" using T(4) i by simp
  ultimately show "peek_mem (flat_view cfg sv s) src n ! i =
      peek_mem (sv (pw_servers s) (endpoint nd)) (translate_addr cfg src node) n ! i"
    using i sum node rem nd by (simp add: nth_peek_mem flat_view_def Let_def)
qed simp

text \<open>A remote read that succeeds copies the bytes of the region to its destination.\<close>

lemma remote_read_flat:
  assumes ms: "memory_servers cl peer sv" and ok: "world_ok cfg peer s"
    and own: "owned_by cfg node src n" and rem: "node \<noteq> pc_local_node_id cfg"
    and dest: "owned_by cfg (pc_local_node_id cfg) dest n"
    and rd: "remote_read cl cfg node src dest n s = (0, s')"
  shows "flat_view cfg sv s' = poke_mem (flat_view cfg sv s) dest (peek_mem (flat_view cfg sv s) src n) \<and> world_ok cfg peer s'"
proof -
  have reg: "region_ok cfg" and cok: "conns_ok peer (pw_mgr s)" using ok by (auto simp: world_ok_def)
  have nl: "\<not> is_local (pw_mgr s) node" using ok rem by (simp add: is_local_def world_ok_def)
  obtain ro cm w where g: "get_connection cl node (pw_mgr s, pw_servers s) = (ro, cm, w)" by (metis prod_cases3)
  note G = get_connection_ok [OF ms cok g]
  obtain c where c: "ro = Some c" using rd g nl by (cases ro) (auto simp: remote_read_def)
  with G obtain nd where nd: "map_of (cm_node_configs (pw_mgr s)) node = Some nd" "peer c = endpoint nd" by blast
  obtain r bs c' w' where ld: "cl_load cl c (translate_addr cfg src node) n w = (r, bs, c', w')" by (metis prod_cases4)
  have r: "r = 0" and s': "pw_mem s' = poke_mem (pw_mem s) dest bs" "pw_servers s' = w'"
    "cm_node_configs (pw_mgr s') = cm_node_configs (pw_mgr s)" "cm_local_node_id (pw_mgr s') = cm_local_node_id (pw_mgr s)"
    "cm_connections (pw_mgr s') = cm_connections (set_connection node c' cm)"
    using rd g nl c ld G by (auto simp: remote_read_def map_stats_def set_connection_def)
  have sv: "sv w' = sv (pw_servers s)" using memory_serversD(5) [OF ms ld] G by simp
  have "bs = peek_mem (sv w (peer c)) (translate_addr cfg src node) n"
    using memory_serversD(6) [OF ms ld [unfolded r]] .
  then have bs: "bs = peek_mem (flat_view cfg sv s) src n"
    using G nd remote_peek_flat [OF reg own rem nd(1)] by simp
  have "conns_ok peer (set_connection node c' cm)"
    using G nd memory_serversD(4) [OF ms ld] by (intro set_connection_ok [of _ _ _ nd]) auto
  then have "conns_ok peer (pw_mgr s')"
    using s' G by (simp add: conns_ok_def set_connection_def)
  then have wok: "world_ok cfg peer s'" using ok s' by (simp add: world_ok_def nodes_apart_def)
  have "flat_view cfg sv s' = flat_view cfg sv (s\<lparr>pw_mem := poke_mem (pw_mem s) dest bs\<rparr>)"
    using s' sv by (intro flat_view_cong) simp_all
  also have "\<dots> = poke_mem (flat_view cfg sv s) dest bs" by (rule local_write_flat) (use dest bs in simp)
  finally show ?thesis using bs wok by simp
qed

text \<open>A client that never fails, and a manager that knows a server for every remote node.\<close>

definition reliable :: "('c, 'w) cxl_client \<Rightarrow> bool" where
  "reliable cl \<longleftrightarrow>
     (\<forall>h p. cl_init cl h p \<noteq> None) \<and> (\<forall>c w. fst (cl_connect cl c w) \<noteq> None) \<and>
     (\<forall>c a n w. fst (cl_load cl c a n w) = 0) \<and> (\<forall>c a bs w. fst (cl_store cl c a bs w) = 0)"

definition all_configured :: "pgas_config \<Rightarrow> 'c conn_mgr \<Rightarrow> bool" where
  "all_configured cfg cm \<longleftrightarrow>
     (\<forall>i < pc_num_nodes cfg. i \<noteq> pc_local_node_id cfg \<longrightarrow>
        (case map_of (cm_node_configs cm) i of None \<Rightarrow> False | Some node \<Rightarrow> ni_port node \<noteq> 0))"

lemma get_connection_reliable:
  assumes "reliable cl" and "map_of (cm_node_configs cm) i = Some node" and "ni_port node \<noteq> 0" and "i \<noteq> cm_local_node_id cm"
  shows "fst (get_connection cl i (cm, w)) \<noteq> None"
  using assms
  by (auto simp: get_connection_def connect_node_locked_def reliable_def Let_def update_conv split: option.splits prod.splits)
    (metis fst_conv option.distinct(1))+

lemma remote_access_succeeds:
  assumes rel: "reliable cl" and con: "all_configured cfg (pw_mgr s)" and loc: "cm_local_node_id (pw_mgr s) = pc_local_node_id cfg"
    and node: "node < pc_num_nodes cfg" "node \<noteq> pc_local_node_id cfg"
  shows "fst (remote_write cl cfg node a bs s) = 0" and "fst (remote_read cl cfg node a d n s) = 0"
proof -
  obtain nd where "map_of (cm_node_configs (pw_mgr s)) node = Some nd" "ni_port nd \<noteq> 0"
    using con node by (auto simp: all_configured_def split: option.splits)
  then have "fst (get_connection cl node (pw_mgr s, pw_servers s)) \<noteq> None"
    using get_connection_reliable [OF rel] node loc by metis
  then obtain c cm w where g: "get_connection cl node (pw_mgr s, pw_servers s) = (Some c, cm, w)"
    by (cases "get_connection cl node (pw_mgr s, pw_servers s)") auto
  have "fst (cl_store cl c x bs w) = 0" "fst (cl_load cl c x n w) = 0" for x using rel by (simp_all add: reliable_def)
  with g node loc show "fst (remote_write cl cfg node a bs s) = 0" "fst (remote_read cl cfg node a d n s) = 0"
    by (auto simp: remote_write_def remote_read_def is_local_def split: prod.splits) (metis fst_conv)+
qed

lemma addr_to_node_less: "region_ok cfg \<Longrightarrow> addr_to_node cfg a \<noteq> pc_local_node_id cfg \<Longrightarrow> addr_to_node cfg a < pc_num_nodes cfg"
  using addr_to_node_in [of cfg a] remote_is_pgas [of cfg a] by (auto simp: region_ok_def)

text \<open>No access changes the configured nodes.\<close>

lemma get_connection_configs: "get_connection cl i (cm, w) = (r, cm', w') \<Longrightarrow> cm_node_configs cm' = cm_node_configs cm"
  by (auto simp: get_connection_def connect_node_locked_def Let_def split: if_splits option.splits prod.splits)

lemma remote_access_configs:
  "cm_node_configs (pw_mgr (snd (remote_write cl cfg node a bs s))) = cm_node_configs (pw_mgr s)"
  "cm_node_configs (pw_mgr (snd (remote_read cl cfg node a d n s))) = cm_node_configs (pw_mgr s)"
  by (auto simp: remote_write_def remote_read_def map_stats_def set_connection_def split: prod.splits option.splits
      dest: get_connection_configs)

section \<open>A system of two nodes\<close>

text \<open>An instance of the parameters, with servers that are byte memories.\<close>

definition demo_client :: "(string \<times> nat, string \<times> nat \<Rightarrow> memory) cxl_client" where
  "demo_client = \<lparr>cl_init = (\<lambda>h p. Some (h, p)), cl_connect = (\<lambda>c w. (Some c, w)),
     cl_load = (\<lambda>c a n w. (0, peek_mem (w c) a n, c, w)),
     cl_store = (\<lambda>c a bs w. (0, c, w(c := poke_mem (w c) a bs))), cl_latency = (\<lambda>_. 100)\<rparr>"

definition demo_node :: pgas_node_info where
  "demo_node = \<lparr>ni_node_id = 1, ni_base_addr = 0, ni_size = 0, ni_hostname = ''b'', ni_port = 9999\<rparr>"

definition demo_pgas :: pgas_config where
  "demo_pgas = \<lparr>pc_local_node_id = 0, pc_num_nodes = 2, pc_base = 4096, pc_size = 8192, pc_nodes = [demo_node],
     pc_hook_memcpy = True, pc_hook_memmove = True, pc_hook_memset = True, pc_eager_connect = False,
     pc_use_node_local_offsets = True\<rparr>"

definition demo_world :: "(string \<times> nat, string \<times> nat \<Rightarrow> memory) pgas_world" where
  "demo_world = \<lparr>pw_mgr = \<lparr>cm_node_configs = [(1, demo_node)], cm_connections = [], cm_local_node_id = 0, cm_stats = zero_stats\<rparr>,
     pw_servers = (\<lambda>_ _. 0), pw_mem = word_of_nat\<rparr>"

lemma demo_servers: "memory_servers demo_client (\<lambda>c. c) (\<lambda>w. w)" "reliable demo_client"
  by (auto simp: memory_servers_def reliable_def demo_client_def)

lemma demo_world_ok: "world_ok demo_pgas (\<lambda>c. c) demo_world" "all_configured demo_pgas (pw_mgr demo_world)"
  by (auto simp: world_ok_def region_ok_def demo_pgas_def demo_world_def conns_ok_def nodes_apart_def all_configured_def
      demo_node_def split: if_splits)

lemma demo_nodes:
  "8192 \<le> a \<Longrightarrow> a < 12288 \<Longrightarrow> addr_to_node demo_pgas a = 1" "a < 8192 \<Longrightarrow> addr_to_node demo_pgas a = 0"
proof -
  assume a: "8192 \<le> a" "a < 12288"
  then have "(a - 4096) div 4096 = 1" by (intro div_nat_eqI) auto
  with a show "addr_to_node demo_pgas a = 1"
    by (simp add: addr_to_node_def is_pgas_addr_def demo_pgas_def wrap64_def Let_def)
next
  assume "a < 8192"
  then show "addr_to_node demo_pgas a = 0"
    by (simp add: addr_to_node_def is_pgas_addr_def demo_pgas_def wrap64_def Let_def)
qed

end
