(* ===== verification/Pgas_Attach.thy ===== *)
theory Pgas_Attach
  imports Pgas_Remote
begin

text \<open>
  The interception of block memory operations (\<open>attach/pgas_attach_impl/src/pgas_attach_impl.cpp\<close>): the
  table of hooks, the programs attached to a hooked function, the node an address is routed to, and
  the replacements of \<open>memcpy\<close>, \<open>memmove\<close> and \<open>memset\<close>.

  The interceptor of Frida is the map from hooked addresses to replacements (\<open>pa_replaced\<close>); the
  original functions are parameters.
\<close>

section \<open>Programs attached to a function\<close>

datatype pgas_op_type = LOAD | STORE | ATOMIC_ADD | ATOMIC_CAS | FENCE | MEMCPY | MEMMOVE | MEMSET

text \<open>The members an operation leaves unset are \<open>None\<close>.\<close>

record pgas_memory_context =
  mc_address :: nat
  mc_size :: nat
  mc_op_type :: pgas_op_type
  mc_target_node :: nat
  mc_local_node :: nat
  mc_data :: "nat option"
  mc_new_value :: "int option"
  mc_is_remote :: bool

text \<open>A callback gets the context by reference and may change it.\<close>

type_synonym callback = "pgas_memory_context \<Rightarrow> pgas_memory_context"

record pgas_attach_entry =
  ae_id :: int
  ae_op_type :: pgas_op_type
  ae_ebpf_callback :: "callback option"
  ae_pgas_callback :: "callback option"

record pgas_internal_entry =
  ie_function :: nat
  ie_user_attaches :: "pgas_attach_entry list"
  ie_local_node_id :: nat
  ie_num_nodes :: nat
  ie_base :: nat
  ie_size :: nat

definition new_internal_entry :: "nat \<Rightarrow> nat \<Rightarrow> nat \<Rightarrow> nat \<Rightarrow> nat \<Rightarrow> pgas_internal_entry" where
  "new_internal_entry func local_node num_nodes base_addr sz =
     \<lparr>ie_function = func, ie_user_attaches = [], ie_local_node_id = local_node, ie_num_nodes = num_nodes,
      ie_base = base_addr, ie_size = sz\<rparr>"

definition add_attach :: "pgas_attach_entry \<Rightarrow> pgas_internal_entry \<Rightarrow> pgas_internal_entry" where
  "add_attach entry ie = ie\<lparr>ie_user_attaches := ie_user_attaches ie @ [entry]\<rparr>"

text \<open>The entries are objects with an identity, which their ids stand for.\<close>

definition remove_attach :: "int \<Rightarrow> pgas_internal_entry \<Rightarrow> pgas_internal_entry" where
  "remove_attach i ie = ie\<lparr>ie_user_attaches := filter (\<lambda>e. ae_id e \<noteq> i) (ie_user_attaches ie)\<rparr>"

definition has_attaches :: "pgas_internal_entry \<Rightarrow> bool" where
  "has_attaches ie \<longleftrightarrow> ie_user_attaches ie \<noteq> []"

definition route_to_node :: "pgas_internal_entry \<Rightarrow> nat \<Rightarrow> nat" where
  "route_to_node ie addr =
     (if ie_num_nodes ie \<le> 1 then ie_local_node_id ie
      else if ie_size ie = 0 then ie_local_node_id ie
      else if addr < ie_base ie \<or> addr \<ge> wrap64 (ie_base ie + ie_size ie) then ie_local_node_id ie
      else
        let region_size = ie_size ie div ie_num_nodes ie
        in if region_size = 0 then ie_local_node_id ie
           else
             let node = (addr - ie_base ie) div region_size
             in if node \<ge> ie_num_nodes ie then ie_num_nodes ie - 1 else node)"

definition block_context :: "pgas_internal_entry \<Rightarrow> pgas_op_type \<Rightarrow> nat \<Rightarrow> nat \<Rightarrow> nat option \<Rightarrow> int option \<Rightarrow> pgas_memory_context" where
  "block_context ie op addr sz data c =
     \<lparr>mc_address = addr, mc_size = sz, mc_op_type = op, mc_target_node = route_to_node ie addr,
      mc_local_node = ie_local_node_id ie, mc_data = data, mc_new_value = c,
      mc_is_remote = (route_to_node ie addr \<noteq> ie_local_node_id ie)\<rparr>"

text \<open>The calls of programs are logged: the entry, whether it is its eBPF program, and the context it was given.\<close>

type_synonym call_log = "(int \<times> bool \<times> pgas_memory_context) list"

definition call_opt :: "int \<Rightarrow> bool \<Rightarrow> callback option \<Rightarrow> pgas_memory_context \<times> call_log \<Rightarrow> pgas_memory_context \<times> call_log" where
  "call_opt i ebpf cb = (\<lambda>(ctx, log).
     case cb of None \<Rightarrow> (ctx, log) | Some f \<Rightarrow> (f ctx, log @ [(i, ebpf, ctx)]))"

definition run_callbacks :: "pgas_op_type \<Rightarrow> pgas_attach_entry list \<Rightarrow> pgas_memory_context \<Rightarrow> pgas_memory_context \<times> call_log" where
  "run_callbacks op attaches ctx =
     fold (\<lambda>e s. if ae_op_type e = op
                 then call_opt (ae_id e) True (ae_ebpf_callback e) (call_opt (ae_id e) False (ae_pgas_callback e) s) else s)
       attaches (ctx, [])"

definition execute_load_callbacks :: "pgas_internal_entry \<Rightarrow> nat \<Rightarrow> nat \<Rightarrow> nat \<Rightarrow> call_log" where
  "execute_load_callbacks ie addr sz dest =
     snd (run_callbacks LOAD (ie_user_attaches ie) (block_context ie LOAD addr sz (Some dest) None))"

definition execute_store_callbacks :: "pgas_internal_entry \<Rightarrow> nat \<Rightarrow> nat \<Rightarrow> nat \<Rightarrow> call_log" where
  "execute_store_callbacks ie addr sz src =
     snd (run_callbacks STORE (ie_user_attaches ie) (block_context ie STORE addr sz (Some src) None))"

definition execute_memcpy_callbacks :: "pgas_internal_entry \<Rightarrow> nat \<Rightarrow> nat \<Rightarrow> nat \<Rightarrow> call_log" where
  "execute_memcpy_callbacks ie dest src sz =
     snd (run_callbacks MEMCPY (ie_user_attaches ie) (block_context ie MEMCPY dest sz (Some src) None))"

text \<open>The loops of \<open>memmove\<close> and \<open>memset\<close> run the callback \<open>pgas_callback\<close> only.\<close>

definition run_pgas_callbacks :: "pgas_op_type \<Rightarrow> pgas_attach_entry list \<Rightarrow> pgas_memory_context \<Rightarrow> pgas_memory_context \<times> call_log" where
  "run_pgas_callbacks op attaches ctx =
     fold (\<lambda>e s. if ae_op_type e = op \<and> ae_pgas_callback e \<noteq> None
                 then call_opt (ae_id e) False (ae_pgas_callback e) s else s) attaches (ctx, [])"

section \<open>The replacements\<close>

text \<open>The fallback loops, from the first byte up and from the last byte down.\<close>

primrec copy_up :: "memory \<Rightarrow> nat \<Rightarrow> nat \<Rightarrow> nat \<Rightarrow> memory" where
  "copy_up mem d s 0 = mem"
| "copy_up mem d s (Suc i) = (let mem = copy_up mem d s i in mem(wrap64 (d + i) := mem (wrap64 (s + i))))"

primrec copy_down :: "memory \<Rightarrow> nat \<Rightarrow> nat \<Rightarrow> nat \<Rightarrow> memory" where
  "copy_down mem d s 0 = mem"
| "copy_down mem d s (Suc i) = copy_down (mem(wrap64 (d + i) := mem (wrap64 (s + i)))) d s i"

primrec fill_up :: "memory \<Rightarrow> nat \<Rightarrow> u8 \<Rightarrow> nat \<Rightarrow> memory" where
  "fill_up mem p c 0 = mem"
| "fill_up mem p c (Suc i) = (fill_up mem p c i)(wrap64 (p + i) := c)"

type_synonym ('c, 'w) hooked = "call_log \<times> nat \<times> ('c, 'w) pgas_world"

definition memcpy_override ::
  "('c, 'w) cxl_client \<Rightarrow> pgas_config \<Rightarrow> (nat \<Rightarrow> nat \<Rightarrow> nat \<Rightarrow> memory \<Rightarrow> memory) option \<Rightarrow> pgas_internal_entry \<Rightarrow>
   nat \<Rightarrow> nat \<Rightarrow> nat \<Rightarrow> ('c, 'w) pgas_world \<Rightarrow> ('c, 'w) hooked" where
  "memcpy_override cl cfg orig ie dest src n s =
     (let log = execute_memcpy_callbacks ie dest src n;
          dest_node = route_to_node ie dest;
          src_node = route_to_node ie src
      in if dest_node \<noteq> ie_local_node_id ie
         then (log, dest, snd (pgas_remote_memcpy_handler cl cfg dest src n dest_node True s))
         else if src_node \<noteq> ie_local_node_id ie
         then (log, dest, snd (pgas_remote_memcpy_handler cl cfg dest src n src_node False s))
         else case orig of
           Some real_fn \<Rightarrow> (log, dest, s\<lparr>pw_mem := real_fn dest src n (pw_mem s)\<rparr>)
         | None \<Rightarrow> (log, dest, s\<lparr>pw_mem := copy_up (pw_mem s) dest src n\<rparr>))"

definition memmove_override ::
  "('c, 'w) cxl_client \<Rightarrow> pgas_config \<Rightarrow> (nat \<Rightarrow> nat \<Rightarrow> nat \<Rightarrow> memory \<Rightarrow> memory) option \<Rightarrow> pgas_internal_entry \<Rightarrow>
   nat \<Rightarrow> nat \<Rightarrow> nat \<Rightarrow> ('c, 'w) pgas_world \<Rightarrow> ('c, 'w) hooked" where
  "memmove_override cl cfg orig ie dest src n s =
     (let (ctx, log) = run_pgas_callbacks MEMMOVE (ie_user_attaches ie) (block_context ie MEMMOVE dest n (Some src) None);
          dest_node = route_to_node ie dest;
          src_node = route_to_node ie src
      in if mc_is_remote ctx \<and> dest_node \<noteq> ie_local_node_id ie
         then (log, dest, snd (pgas_remote_memcpy_handler cl cfg dest src n dest_node True s))
         else if mc_is_remote ctx \<and> src_node \<noteq> ie_local_node_id ie
         then (log, dest, snd (pgas_remote_memcpy_handler cl cfg dest src n src_node False s))
         else case orig of
           Some real_fn \<Rightarrow> (log, dest, s\<lparr>pw_mem := real_fn dest src n (pw_mem s)\<rparr>)
         | None \<Rightarrow>
             (log, dest, s\<lparr>pw_mem := (if dest < src then copy_up (pw_mem s) dest src n else copy_down (pw_mem s) dest src n)\<rparr>))"

definition memset_override ::
  "('c, 'w) cxl_client \<Rightarrow> pgas_config \<Rightarrow> (nat \<Rightarrow> bool) \<Rightarrow> (nat \<Rightarrow> int \<Rightarrow> nat \<Rightarrow> memory \<Rightarrow> memory) option \<Rightarrow> pgas_internal_entry \<Rightarrow>
   nat \<Rightarrow> int \<Rightarrow> nat \<Rightarrow> ('c, 'w) pgas_world \<Rightarrow> ('c, 'w) hooked" where
  "memset_override cl cfg alloc orig ie p c n s =
     (let (ctx, log) = run_pgas_callbacks MEMSET (ie_user_attaches ie) (block_context ie MEMSET p n None (Some c))
      in if mc_is_remote ctx
         then (log, p, snd (pgas_remote_memset_handler cl cfg alloc p c n (mc_target_node ctx) s))
         else case orig of
           Some real_fn \<Rightarrow> (log, p, s\<lparr>pw_mem := real_fn p c n (pw_mem s)\<rparr>)
         | None \<Rightarrow> (log, p, s\<lparr>pw_mem := fill_up (pw_mem s) p (word_of_int c) n\<rparr>))"

section \<open>The table of hooks\<close>

text \<open>
  The replacement a hook installs is one of the three handlers.  \<open>pa_replaced\<close> is the state of the
  interceptor, which \<open>gum_interceptor_replace\<close> and \<open>gum_interceptor_revert\<close> change.
\<close>

datatype override_handler = Memcpy_Handler | Memmove_Handler | Memset_Handler

record pgas_hooks =
  pa_next_id :: int
  pa_attaches :: "(int \<times> pgas_attach_entry) list"
  pa_internal :: "(nat \<times> pgas_internal_entry) list"
  pa_base :: nat
  pa_size :: nat
  pa_replaced :: "nat \<Rightarrow> override_handler option"

definition new_hooks :: pgas_hooks where
  "new_hooks = \<lparr>pa_next_id = 1, pa_attaches = [], pa_internal = [], pa_base = 0, pa_size = 0, pa_replaced = (\<lambda>_. None)\<rparr>"

definition allocate_id :: "pgas_hooks \<Rightarrow> int \<times> pgas_hooks" where
  "allocate_id t = (pa_next_id t, t\<lparr>pa_next_id := pa_next_id t + 1\<rparr>)"

definition select_handler :: "pgas_op_type \<Rightarrow> override_handler" where
  "select_handler op = (case op of MEMSET \<Rightarrow> Memset_Handler | MEMMOVE \<Rightarrow> Memmove_Handler | _ \<Rightarrow> Memcpy_Handler)"

definition get_or_create_internal_entry :: "nat \<Rightarrow> nat \<Rightarrow> nat \<Rightarrow> pgas_op_type \<Rightarrow> pgas_hooks \<Rightarrow> pgas_internal_entry \<times> pgas_hooks" where
  "get_or_create_internal_entry addr local_node num_nodes op t =
     (case map_of (pa_internal t) addr of
        Some ie \<Rightarrow> (ie, t)
      | None \<Rightarrow>
          let ie = new_internal_entry addr local_node num_nodes (pa_base t) (pa_size t)
          in (ie, t\<lparr>pa_internal := AList.update addr ie (pa_internal t),
                    pa_replaced := (pa_replaced t)(addr \<mapsto> select_handler op)\<rparr>))"

record pgas_private_data =
  pd_target_address :: nat
  pd_module_name :: string
  pd_symbol_name :: string
  pd_local_node_id :: nat
  pd_num_nodes :: nat
  pd_op_type :: pgas_op_type

text \<open>\<open>resolve\<close> stands for \<open>dlopen\<close> and \<open>dlsym\<close>; address 0 is the null pointer.\<close>

definition create_pgas_hook ::
  "(string \<Rightarrow> string \<Rightarrow> nat) \<Rightarrow> pgas_private_data \<Rightarrow> callback option \<Rightarrow> pgas_hooks \<Rightarrow> int res \<times> pgas_hooks" where
  "create_pgas_hook resolve priv cb t =
     (let target = (if pd_target_address priv = 0 \<and> pd_module_name priv \<noteq> []
                    then resolve (pd_module_name priv) (pd_symbol_name priv) else pd_target_address priv)
      in if pd_target_address priv = 0 \<and> pd_module_name priv \<noteq> [] \<and> target = 0 then (Inl (RetNeg ENOENT), t)
         else
           let (ie, t) = get_or_create_internal_entry target (pd_local_node_id priv) (pd_num_nodes priv) (pd_op_type priv) t;
               (i, t) = allocate_id t;
               entry = \<lparr>ae_id = i, ae_op_type = pd_op_type priv, ae_ebpf_callback = cb, ae_pgas_callback = None\<rparr>
           in (Inr i, t\<lparr>pa_internal := AList.update target (add_attach entry ie) (pa_internal t),
                        pa_attaches := AList.update i entry (pa_attaches t)\<rparr>))"

definition hook_data :: "nat \<Rightarrow> nat \<Rightarrow> nat \<Rightarrow> pgas_op_type \<Rightarrow> pgas_private_data" where
  "hook_data func_addr local_node num_nodes op =
     \<lparr>pd_target_address = func_addr, pd_module_name = [], pd_symbol_name = [], pd_local_node_id = local_node,
      pd_num_nodes = num_nodes, pd_op_type = op\<rparr>"

definition create_load_hook :: "(string \<Rightarrow> string \<Rightarrow> nat) \<Rightarrow> nat \<Rightarrow> nat \<Rightarrow> nat \<Rightarrow> pgas_hooks \<Rightarrow> int res \<times> pgas_hooks" where
  "create_load_hook resolve func_addr local_node num_nodes =
     create_pgas_hook resolve (hook_data func_addr local_node num_nodes LOAD) None"

definition create_store_hook :: "(string \<Rightarrow> string \<Rightarrow> nat) \<Rightarrow> nat \<Rightarrow> nat \<Rightarrow> nat \<Rightarrow> pgas_hooks \<Rightarrow> int res \<times> pgas_hooks" where
  "create_store_hook resolve func_addr local_node num_nodes =
     create_pgas_hook resolve (hook_data func_addr local_node num_nodes STORE) None"

definition create_memcpy_hook :: "(string \<Rightarrow> string \<Rightarrow> nat) \<Rightarrow> nat \<Rightarrow> nat \<Rightarrow> nat \<Rightarrow> pgas_hooks \<Rightarrow> int res \<times> pgas_hooks" where
  "create_memcpy_hook resolve func_addr local_node num_nodes =
     create_pgas_hook resolve (hook_data func_addr local_node num_nodes MEMCPY) None"

definition detach_by_id :: "int \<Rightarrow> pgas_hooks \<Rightarrow> int res \<times> pgas_hooks" where
  "detach_by_id i t =
     (if map_of (pa_attaches t) i = None then (Inl (RetNeg ENOENT), t)
      else
        let internal = map (\<lambda>(a, ie). (a, remove_attach i ie)) (pa_internal t);
            reverted = map fst (filter (\<lambda>(a, ie). \<not> has_attaches ie) internal)
        in (Inr 0, t\<lparr>pa_internal := internal, pa_attaches := AList.delete i (pa_attaches t),
                     pa_replaced := (\<lambda>a. if a \<in> set reverted then None else pa_replaced t a)\<rparr>))"

definition set_pgas_region :: "nat \<Rightarrow> nat \<Rightarrow> pgas_hooks \<Rightarrow> pgas_hooks" where
  "set_pgas_region base_addr sz t =
     t\<lparr>pa_base := base_addr, pa_size := sz,
       pa_internal := map (\<lambda>(a, ie). (a, ie\<lparr>ie_base := base_addr, ie_size := sz\<rparr>)) (pa_internal t)\<rparr>"

section \<open>The hooker\<close>

text \<open>\<open>hooks\<close> is \<open>None\<close> when there is no attach implementation.  \<open>dl_sym\<close> is \<open>dlsym(RTLD_DEFAULT, \<dots>)\<close>.\<close>

record ('c, 'w) pgas_hooker =
  hk_config :: pgas_config
  hk_hooks :: "pgas_hooks option"
  hk_initialized :: bool
  hk_hooks_installed :: bool
  hk_world :: "('c, 'w) pgas_world"

definition hooker_init :: "('c, 'w) cxl_client \<Rightarrow> pgas_config \<Rightarrow> ('c, 'w) pgas_hooker \<Rightarrow> int \<times> ('c, 'w) pgas_hooker" where
  "hooker_init cl cfg h =
     (let w = hk_world h;
          (r, cm, sv) = conn_mgr_init cl (pc_nodes cfg) (pc_local_node_id cfg) (pc_eager_connect cfg) (pw_mgr w, pw_servers w)
      in (0, h\<lparr>hk_config := cfg, hk_hooks := Some (set_pgas_region (pc_base cfg) (pc_size cfg) new_hooks),
               hk_initialized := True, hk_world := w\<lparr>pw_mgr := cm, pw_servers := sv\<rparr>\<rparr>))"

definition install_one ::
  "bool \<Rightarrow> nat \<Rightarrow> pgas_config \<Rightarrow> pgas_op_type \<Rightarrow> (string \<Rightarrow> string \<Rightarrow> nat) \<Rightarrow> pgas_hooks \<Rightarrow> pgas_hooks" where
  "install_one enabled addr cfg op resolve t =
     (if enabled \<and> addr \<noteq> 0
      then snd (create_pgas_hook resolve (hook_data addr (pc_local_node_id cfg) (pc_num_nodes cfg) op) None t) else t)"

text \<open>Without an attach implementation the member calls go through a null pointer.\<close>

definition install_hooks ::
  "(string \<Rightarrow> nat) \<Rightarrow> (string \<Rightarrow> string \<Rightarrow> nat) \<Rightarrow> ('c, 'w) pgas_hooker \<Rightarrow> int res \<times> ('c, 'w) pgas_hooker" where
  "install_hooks dl_sym resolve h =
     (if \<not> hk_initialized h then (Inl RetFail, h)
      else if hk_hooks_installed h then (Inr 0, h)
      else
        let cfg = hk_config h;
            wanted = (pc_hook_memcpy cfg \<and> dl_sym ''memcpy'' \<noteq> 0) \<or> (pc_hook_memmove cfg \<and> dl_sym ''memmove'' \<noteq> 0) \<or>
                     (pc_hook_memset cfg \<and> dl_sym ''memset'' \<noteq> 0)
        in case hk_hooks h of
             None \<Rightarrow> if wanted then (Inl Fault, h) else (Inr 0, h\<lparr>hk_hooks_installed := True\<rparr>)
           | Some t \<Rightarrow>
               let t = install_one (pc_hook_memcpy cfg) (dl_sym ''memcpy'') cfg MEMCPY resolve t;
                   t = install_one (pc_hook_memmove cfg) (dl_sym ''memmove'') cfg MEMMOVE resolve t;
                   t = install_one (pc_hook_memset cfg) (dl_sym ''memset'') cfg MEMSET resolve t
               in (Inr 0, h\<lparr>hk_hooks := Some t, hk_hooks_installed := True\<rparr>))"

definition remove_hooks :: "('c, 'w) pgas_hooker \<Rightarrow> ('c, 'w) pgas_hooker" where
  "remove_hooks h = h\<lparr>hk_hooks := None, hk_hooks_installed := False\<rparr>"

text \<open>
  Removing the hooks destroys the attach implementation but leaves the hooker initialised: starting
  again calls a member function of a null pointer.
\<close>

lemma restart_faults:
  assumes "hk_initialized h" and "pc_hook_memcpy (hk_config h)" and "dl_sym ''memcpy'' \<noteq> 0"
  shows "fst (install_hooks dl_sym resolve (remove_hooks h)) = Inl Fault"
  using assms by (simp add: install_hooks_def remove_hooks_def)

text \<open>
  A hook whose last program was detached is reverted, but its entry stays in the table: attaching to
  the same function again finds the entry and does not install the replacement.
\<close>

lemma rehook_not_installed:
  assumes "create_pgas_hook resolve (hook_data a l n op) cb new_hooks = (Inr i, t)" and "detach_by_id i t = (r, t')"
    and "create_pgas_hook resolve (hook_data a l n op) cb t' = (r2, t2)"
  shows "r2 = Inr 2 \<and> pa_replaced t a \<noteq> None \<and> pa_replaced t2 a = None \<and> map_of (pa_attaches t2) 2 \<noteq> None"
proof -
  have i: "i = 1"
    and t: "t = new_hooks\<lparr>pa_next_id := 2,
        pa_internal := [(a, add_attach \<lparr>ae_id = 1, ae_op_type = op, ae_ebpf_callback = cb, ae_pgas_callback = None\<rparr>
           (new_internal_entry a l n 0 0))],
        pa_attaches := [(1, \<lparr>ae_id = 1, ae_op_type = op, ae_ebpf_callback = cb, ae_pgas_callback = None\<rparr>)],
        pa_replaced := (\<lambda>_. None)(a \<mapsto> select_handler op)\<rparr>"
    using assms(1)
    by (auto simp: create_pgas_hook_def hook_data_def new_hooks_def get_or_create_internal_entry_def Let_def allocate_id_def)
  have t': "pa_internal t' = [(a, new_internal_entry a l n 0 0)]" "pa_attaches t' = []" "pa_replaced t' a = None" "pa_next_id t' = 2"
    using assms(2) unfolding i t
    by (auto simp: detach_by_id_def Let_def remove_attach_def add_attach_def has_attaches_def new_internal_entry_def new_hooks_def
        simp del: set_filter)
  have "pa_replaced t a \<noteq> None" by (simp add: t new_hooks_def)
  moreover have "r2 = Inr 2 \<and> pa_replaced t2 a = None \<and> map_of (pa_attaches t2) 2 \<noteq> None"
    using assms(3) t'
    by (auto simp: create_pgas_hook_def hook_data_def get_or_create_internal_entry_def Let_def allocate_id_def)
  ultimately show ?thesis by blast
qed

text \<open>The programs attached to \<open>memmove\<close> and \<open>memset\<close> are never run: hooks set no \<open>pgas_callback\<close>.\<close>

lemma run_pgas_callbacks_none:
  assumes "\<forall>e \<in> set es. ae_pgas_callback e = None"
  shows "run_pgas_callbacks op es ctx = (ctx, [])"
proof -
  have "fold (\<lambda>e s. if ae_op_type e = op \<and> ae_pgas_callback e \<noteq> None
      then call_opt (ae_id e) False (ae_pgas_callback e) s else s) es s = s" for s
    using assms by (induction es arbitrary: s) auto
  then show ?thesis by (simp add: run_pgas_callbacks_def)
qed

definition ebpf_only :: "pgas_internal_entry \<Rightarrow> bool" where
  "ebpf_only ie \<longleftrightarrow> (\<forall>e \<in> set (ie_user_attaches ie). ae_pgas_callback e = None)"

lemma update_values: "set (map snd (AList.update k v xs)) \<subseteq> insert v (set (map snd xs))"
  by (induction xs) auto

lemma hooks_set_no_pgas_callback:
  assumes ok: "\<forall>ie \<in> set (map snd (pa_internal t)). ebpf_only ie"
    and cr: "create_pgas_hook resolve priv cb t = (r, t')"
  shows "\<forall>ie \<in> set (map snd (pa_internal t')). ebpf_only ie"
proof (cases r)
  case (Inl e)
  with assms show ?thesis by (auto simp: create_pgas_hook_def Let_def split: if_splits prod.splits)
next
  case (Inr i)
  then obtain target ie t1 en where g: "get_or_create_internal_entry target (pd_local_node_id priv) (pd_num_nodes priv)
      (pd_op_type priv) t = (ie, t1)"
    and t': "pa_internal t' = AList.update target (add_attach en ie) (pa_internal t1)" and en: "ae_pgas_callback en = None"
    using cr by (auto simp: create_pgas_hook_def Let_def allocate_id_def split: if_splits prod.splits)
  have "ebpf_only ie" "\<forall>x \<in> set (map snd (pa_internal t1)). ebpf_only x"
    using g ok update_values [of target _ "pa_internal t"]
    by (fastforce simp: get_or_create_internal_entry_def Let_def ebpf_only_def new_internal_entry_def split: option.splits
        dest: map_of_SomeD)+
  moreover from this(1) en have "ebpf_only (add_attach en ie)" by (simp add: ebpf_only_def add_attach_def)
  ultimately show ?thesis
    using update_values [of target "add_attach en ie" "pa_internal t1"] unfolding t' by blast
qed

section \<open>The replacements copy and fill\<close>

text \<open>The two fallback loops of \<open>memmove\<close> are right in the direction they are used, overlapping or not.\<close>

lemma copy_up_poke:
  assumes "d + n \<le> 2 ^ 64" and "s + n \<le> 2 ^ 64" and "d \<le> s \<or> s + n \<le> d"
  shows "copy_up mem d s n = poke_mem mem d (peek_mem mem s n)"
  using assms
proof (induction n)
  case (Suc n)
  then have ih: "copy_up mem d s n = poke_mem mem d (peek_mem mem s n)" by auto
  have w: "wrap64 (d + n) = d + n" "wrap64 (s + n) = s + n" using Suc.prems by (auto intro: wrap64_id)
  have src: "copy_up mem d s n (s + n) = mem (s + n)"
    unfolding ih using Suc.prems by (intro poke_mem_other) auto
  have bnd: "d + length (peek_mem mem s n) \<le> 2 ^ 64" "d + length (peek_mem mem s (Suc n)) \<le> 2 ^ 64" using Suc.prems by simp_all
  have split: "peek_mem mem s (Suc n) = peek_mem mem s n @ [mem (s + n)]" by (simp add: peek_mem_def w)
  show ?case
  proof
    fix x
    show "copy_up mem d s (Suc n) x = poke_mem mem d (peek_mem mem s (Suc n)) x"
      unfolding poke_mem_at [OF bnd(2)] using src
      by (auto simp: Let_def w ih poke_mem_at [OF bnd(1)] split nth_append)
  qed
qed simp

lemma copy_down_poke:
  assumes "d + n \<le> 2 ^ 64" and "s + n \<le> 2 ^ 64" and "s \<le> d \<or> d + n \<le> s"
  shows "copy_down mem d s n = poke_mem mem d (peek_mem mem s n)"
  using assms
proof (induction n arbitrary: mem)
  case (Suc n)
  have w: "wrap64 (d + n) = d + n" "wrap64 (s + n) = s + n" using Suc.prems by (auto intro: wrap64_id)
  let ?mem = "mem(d + n := mem (s + n))"
  have ih: "copy_down mem d s (Suc n) = poke_mem ?mem d (peek_mem ?mem s n)" using Suc by (auto simp: w)
  have src: "peek_mem ?mem s n = peek_mem mem s n" using Suc.prems by (intro peek_mem_cong) auto
  have bnd: "d + length (peek_mem mem s n) \<le> 2 ^ 64" "d + length (peek_mem mem s (Suc n)) \<le> 2 ^ 64" using Suc.prems by simp_all
  have split: "peek_mem mem s (Suc n) = peek_mem mem s n @ [mem (s + n)]" by (simp add: peek_mem_def w)
  show ?case
  proof
    fix x
    show "copy_down mem d s (Suc n) x = poke_mem mem d (peek_mem mem s (Suc n)) x"
      unfolding ih src poke_mem_at [OF bnd(1)] poke_mem_at [OF bnd(2)] by (auto simp: split nth_append)
  qed
qed simp

lemma memmove_fallback:
  assumes "d + n \<le> 2 ^ 64" and "s + n \<le> 2 ^ 64"
  shows "(if d < s then copy_up mem d s n else copy_down mem d s n) = poke_mem mem d (peek_mem mem s n)"
  using copy_up_poke [of d n s mem] copy_down_poke [of d n s mem] assms by auto

lemma fill_up_poke:
  assumes "p + n \<le> 2 ^ 64"
  shows "fill_up mem p c n = poke_mem mem p (replicate n c)"
  using assms
proof (induction n)
  case (Suc n)
  have w: "wrap64 (p + n) = p + n" using Suc.prems by (auto intro: wrap64_id)
  have bnd: "p + length (replicate n c) \<le> 2 ^ 64" "p + length (replicate (Suc n) c) \<le> 2 ^ 64" using Suc.prems by simp_all
  show ?case
  proof
    fix x
    show "fill_up mem p c (Suc n) x = poke_mem mem p (replicate (Suc n) c) x"
      unfolding poke_mem_at [OF bnd(2)] using Suc
      by (auto simp: w poke_mem_at [OF bnd(1)] nth_append simp del: replicate_Suc)
  qed
qed simp

text \<open>
  A hook routes an address to the node the hooker does, unless there is only one node: then the
  hook treats every address as local, and the hooker gives the addresses of the region to node 0.
\<close>

definition hook_of :: "pgas_config \<Rightarrow> pgas_internal_entry \<Rightarrow> bool" where
  "hook_of cfg ie \<longleftrightarrow>
     ie_local_node_id ie = pc_local_node_id cfg \<and> ie_num_nodes ie = pc_num_nodes cfg \<and>
     ie_base ie = pc_base cfg \<and> ie_size ie = pc_size cfg"

lemma route_to_node_addr_to_node:
  assumes "hook_of cfg ie" and "pc_num_nodes cfg \<noteq> 1 \<or> pc_local_node_id cfg = 0"
  shows "route_to_node ie a = addr_to_node cfg a"
  using assms by (auto simp: hook_of_def route_to_node_def addr_to_node_def is_pgas_addr_def Let_def)

text \<open>What \<open>memcpy\<close> does to memory; the original function is relied on for ranges that do not overlap.\<close>

definition copies :: "(nat \<Rightarrow> nat \<Rightarrow> nat \<Rightarrow> memory \<Rightarrow> memory) \<Rightarrow> bool" where
  "copies f \<longleftrightarrow> (\<forall>d s n mem. s + n \<le> d \<or> d + n \<le> s \<longrightarrow> f d s n mem = poke_mem mem d (peek_mem mem s n))"



section \<open>Fills, and where the replacements differ from the functions they replace\<close>

text \<open>The replacement of \<open>memset\<close> fills the range of the partitioned memory, for a range with one node.\<close>

lemma memset_override_fills:
  assumes "memory_servers cl peer sv" and "reliable cl" and ok: "world_ok cfg peer s" and "all_configured cfg (pw_mgr s)"
    and "hook_of cfg ie" and "2 \<le> pc_num_nodes cfg" and "ebpf_only ie" and "0 < n" and "alloc n"
    and own: "owned_by cfg (addr_to_node cfg p) p n"
    and "memset_override cl cfg alloc None ie p c n s = (log, r, s')"
  shows "flat_view cfg sv s' = poke_mem (flat_view cfg sv s) p (replicate n (word_of_int c)) \<and> r = p \<and> log = []"
proof -
  have route: "route_to_node ie a = addr_to_node cfg a" for a
    using assms(5,6) by (intro route_to_node_addr_to_node) auto
  have loc: "ie_local_node_id ie = pc_local_node_id cfg" using assms(5) by (simp add: hook_of_def)
  have reg: "region_ok cfg" and cml: "cm_local_node_id (pw_mgr s) = pc_local_node_id cfg" using ok by (simp_all add: world_ok_def)
  have cb: "run_pgas_callbacks MEMSET (ie_user_attaches ie) ctx = (ctx, [])" for ctx
    using assms(7) by (intro run_pgas_callbacks_none) (simp add: ebpf_only_def)
  let ?bs = "replicate n (word_of_int c :: u8)"
  show ?thesis
  proof (cases "addr_to_node cfg p = pc_local_node_id cfg")
    case True
    have "fill_up (pw_mem s) p (word_of_int c) n = poke_mem (pw_mem s) p ?bs"
      using own by (intro fill_up_poke) (simp add: owned_by_def)
    then show ?thesis
      using assms(11) True local_write_flat [of cfg p ?bs sv s] own
      by (auto simp: memset_override_def cb block_context_def route loc)
  next
    case False
    have "remote_write cl cfg (addr_to_node cfg p) p ?bs s = (0, s')" and "r = p" "log = []"
      using assms(9,11) False remote_access_succeeds(1) [OF assms(2,4) cml addr_to_node_less [OF reg False] False]
      by (auto simp: memset_override_def cb block_context_def route loc pgas_remote_memset_handler_def prod_eq_iff split: if_splits)
    then show ?thesis using remote_write_flat [OF assms(1) ok _ False] own assms(8) by auto
  qed
qed

text \<open>
  The replacement of \<open>memmove\<close> looks at the source only when the destination is remote: moving from a
  remote source to a local destination copies whatever the process has at those addresses.
\<close>

lemma memmove_ignores_remote_source:
  assumes "ebpf_only ie" and "route_to_node ie dest = ie_local_node_id ie" and "dest + n \<le> 2 ^ 64" and "src + n \<le> 2 ^ 64"
  shows "memmove_override cl cfg None ie dest src n s =
    ([], dest, s\<lparr>pw_mem := poke_mem (pw_mem s) dest (peek_mem (pw_mem s) src n)\<rparr>)"
proof -
  have cb: "run_pgas_callbacks MEMMOVE (ie_user_attaches ie) ctx = (ctx, [])" for ctx
    using assms(1) by (intro run_pgas_callbacks_none) (simp add: ebpf_only_def)
  show ?thesis
    using assms(2) memmove_fallback [OF assms(3,4), of "pw_mem s"]
    by (simp add: memmove_override_def cb block_context_def)
qed

text \<open>A copy between two remote nodes sends the bytes the process has at the source address.\<close>

lemma memcpy_remote_to_remote:
  assumes "memory_servers cl peer sv" and "world_ok cfg peer s" and "hook_of cfg ie" and "2 \<le> pc_num_nodes cfg"
    and "addr_to_node cfg dest \<noteq> pc_local_node_id cfg" and "owned_by cfg (addr_to_node cfg dest) dest n" and "0 < n"
    and "pgas_remote_memcpy_handler cl cfg dest src n (addr_to_node cfg dest) True s = (0, s')"
  shows "snd (snd (memcpy_override cl cfg orig ie dest src n s)) = s' \<and>
    flat_view cfg sv s' = poke_mem (flat_view cfg sv s) dest (peek_mem (pw_mem s) src n)"
proof -
  have route: "route_to_node ie a = addr_to_node cfg a" for a
    using assms(3,4) by (intro route_to_node_addr_to_node) auto
  have "remote_write cl cfg (addr_to_node cfg dest) dest (peek_mem (pw_mem s) src n) s = (0, s')"
    using assms(8) by (simp add: pgas_remote_memcpy_handler_def)
  from remote_write_flat [OF assms(1,2) _ assms(5) _ this] assms(6,7)
  have "flat_view cfg sv s' = poke_mem (flat_view cfg sv s) dest (peek_mem (pw_mem s) src n)" by (auto simp: peek_mem_def)
  with assms(3,5,8) show ?thesis by (simp add: memcpy_override_def Let_def route hook_of_def)
qed

text \<open>
  A local range that runs into the next node's is written to the memory of the process throughout:
  the bytes beyond the border do not reach the node that owns them.
\<close>

lemma straddling_copy_is_lost:
  assumes "route_to_node ie dest = ie_local_node_id ie" and "route_to_node ie src = ie_local_node_id ie"
    and "all_configured cfg (pw_mgr s)" and "addr_to_node cfg x \<noteq> pc_local_node_id cfg" and "addr_to_node cfg x < pc_num_nodes cfg"
  shows "flat_view cfg sv (snd (snd (memcpy_override cl cfg orig ie dest src n s))) x = flat_view cfg sv s x"
  using assms by (auto simp: memcpy_override_def Let_def flat_view_def all_configured_def split: option.splits)

text \<open>A copy to a node without a connection returns the destination like any other, and nothing is copied.\<close>

lemma memcpy_failure_is_silent:
  assumes "route_to_node ie dest \<noteq> ie_local_node_id ie" and "\<not> is_local (pw_mgr s) (route_to_node ie dest)"
    and "get_connection cl (route_to_node ie dest) (pw_mgr s, pw_servers s) = (None, pw_mgr s, pw_servers s)"
  shows "snd (memcpy_override cl cfg orig ie dest src n s) = (dest, s)"
  using assms by (simp add: memcpy_override_def Let_def pgas_remote_memcpy_handler_def remote_write_def)

end
