(* ===== verification/Pgas_Config.thy ===== *)
theory Pgas_Config
  imports Pgas_Attach Std_String "HOL-Library.Code_Target_Nat"
begin

text \<open>
  The texts that configure the interception: the description of a hook
  (\<open>pgas_attach_private_data::initialize_from_string\<close> and \<open>to_string\<close>), the configuration file of the hooker
  (\<open>hooks::init_from_config\<close> in \<open>pgas_cxlmemsim_integration.cpp\<close>), and the functions that start and stop it.
\<close>

section \<open>The description of a hook\<close>

fun op_name :: "pgas_op_type \<Rightarrow> string" where
  "op_name LOAD = ''load''"
| "op_name STORE = ''store''"
| "op_name ATOMIC_ADD = ''atomic_add''"
| "op_name ATOMIC_CAS = ''atomic_cas''"
| "op_name FENCE = ''fence''"
| "op_name MEMCPY = ''memcpy''"
| "op_name MEMMOVE = ''memmove''"
| "op_name MEMSET = ''memset''"

text \<open>An unknown name leaves the operation as it was.\<close>

definition parse_op :: "string \<Rightarrow> pgas_op_type \<Rightarrow> pgas_op_type" where
  "parse_op s old =
     (if s = ''load'' then LOAD else if s = ''store'' then STORE else if s = ''atomic_add'' then ATOMIC_ADD
      else if s = ''atomic_cas'' then ATOMIC_CAS else if s = ''fence'' then FENCE else if s = ''memcpy'' then MEMCPY
      else if s = ''memmove'' then MEMMOVE else if s = ''memset'' then MEMSET else old)"

definition starts_hex :: "string \<Rightarrow> bool" where
  "starts_hex s \<longleftrightarrow> take 2 s = ''0x'' \<or> take 2 s = ''0X''"

definition to_u16 :: "int \<Rightarrow> nat" where
  "to_u16 v = nat (v mod 2 ^ 16)"

definition initialize_from_string :: "string \<Rightarrow> pgas_private_data \<Rightarrow> pgas_private_data res" where
  "initialize_from_string str d =
     (let tokens = getline_tokens (CHR '':'') str
      in if length tokens < 3 then Inl (RetNeg EINVAL)
         else
           bind_res
             (if starts_hex (tokens ! 0)
              then bind_res (stoull 16 (tokens ! 0)) (\<lambda>a. Inr (d\<lparr>pd_target_address := a\<rparr>))
              else Inr (d\<lparr>pd_module_name := tokens ! 0, pd_symbol_name := tokens ! 1\<rparr>)) (\<lambda>d.
           let op_idx = (if pd_module_name d = [] then 1 else 2);
               d = (if length tokens > op_idx then d\<lparr>pd_op_type := parse_op (tokens ! op_idx) (pd_op_type d)\<rparr> else d)
           in bind_res
                (if length tokens > op_idx + 1
                 then bind_res (stoi (tokens ! (op_idx + 1))) (\<lambda>v. Inr (d\<lparr>pd_local_node_id := to_u16 v\<rparr>)) else Inr d) (\<lambda>d.
              if length tokens > op_idx + 2
              then bind_res (stoi (tokens ! (op_idx + 2))) (\<lambda>v. Inr (d\<lparr>pd_num_nodes := to_u16 v\<rparr>)) else Inr d)))"

text \<open>
  The stream manipulator \<open>hex\<close> stays in force: after an address the node numbers are written in base
  16 too.
\<close>

definition to_string :: "pgas_private_data \<Rightarrow> string" where
  "to_string d =
     (let b = (if pd_module_name d \<noteq> [] then 10 else 16)
      in (if pd_module_name d \<noteq> [] then pd_module_name d @ '':'' @ pd_symbol_name d else ''0x'' @ show_base 16 (pd_target_address d)) @
         '':'' @ op_name (pd_op_type d) @ '':'' @ show_base b (pd_local_node_id d) @ '':'' @ show_base b (pd_num_nodes d))"

section \<open>The configuration file\<close>

definition trim_copy :: "string \<Rightarrow> string" where
  "trim_copy s = rev (dropWhile isspace (rev (dropWhile isspace s)))"

definition parse_bool_value :: "string \<Rightarrow> bool" where
  "parse_bool_value s =
     (let v = map tolower (trim_copy s) in v = ''1'' \<or> v = ''true'' \<or> v = ''yes'' \<or> v = ''on'')"

definition parse_node_id_value :: "string \<Rightarrow> nat \<Rightarrow> nat res" where
  "parse_node_id_value s fallback =
     (let v = trim_copy s
      in if v = ''none'' then Inr 65535
         else bind_res (stol 0 v) (\<lambda>parsed.
              if parsed < 0 then Inr 65535 else if parsed > 65535 then Inr fallback else Inr (nat parsed)))"

definition split_at :: "char \<Rightarrow> string \<Rightarrow> (string \<times> string) option" where
  "split_at c s = (let t = takeWhile (\<lambda>x. x \<noteq> c) s in if length t = length s then None else Some (t, drop (Suc (length t)) s))"

text \<open>The three parts of \<open>host:port:node_id\<close>; the last one is the rest of the line.\<close>

definition parse_server :: "string \<Rightarrow> (string \<times> string \<times> string) option" where
  "parse_server s =
     (case split_at (CHR '':'') s of
        None \<Rightarrow> None
      | Some (host, r) \<Rightarrow>
          (case split_at (CHR '':'') r of
             None \<Rightarrow> None
           | Some (port, node_id) \<Rightarrow> if node_id = [] then None else Some (host, port, node_id)))"

record config_state =
  cx_cfg :: pgas_config
  cx_max_node_id :: nat
  cx_saw_node :: bool

definition default_config :: pgas_config where
  "default_config = \<lparr>pc_local_node_id = 0, pc_num_nodes = 2, pc_base = 0, pc_size = 0, pc_nodes = [], pc_hook_memcpy = True,
     pc_hook_memmove = True, pc_hook_memset = True, pc_eager_connect = False, pc_use_node_local_offsets = True\<rparr>"

definition config_server :: "string \<Rightarrow> config_state \<Rightarrow> config_state res" where
  "config_server s c =
     (case parse_server s of
        None \<Rightarrow> Inr c
      | Some (host, port_str, node_id_str) \<Rightarrow>
          bind_res (stoull 0 (trim_copy port_str)) (\<lambda>port.
          bind_res (stoull 0 (trim_copy node_id_str)) (\<lambda>node_id.
          if port \<le> 65535 \<and> node_id \<le> 65535 then
            Inr \<lparr>cx_cfg = (cx_cfg c)\<lparr>pc_nodes := pc_nodes (cx_cfg c) @
                   [\<lparr>ni_node_id = node_id, ni_base_addr = 0, ni_size = 0, ni_hostname = trim_copy host, ni_port = port\<rparr>]\<rparr>,
                 cx_max_node_id = (if \<not> cx_saw_node c \<or> node_id > cx_max_node_id c then node_id else cx_max_node_id c),
                 cx_saw_node = True\<rparr>
          else Inr c)))"

definition config_entry :: "string \<Rightarrow> string \<Rightarrow> config_state \<Rightarrow> config_state res" where
  "config_entry key val c =
     (let cfg = cx_cfg c
      in if key = ''local_node_id'' \<or> key = ''node_id''
         then bind_res (parse_node_id_value val (pc_local_node_id cfg)) (\<lambda>n. Inr (c\<lparr>cx_cfg := cfg\<lparr>pc_local_node_id := n\<rparr>\<rparr>))
         else if key = ''num_nodes''
         then bind_res (stoull 0 val) (\<lambda>n.
              Inr (if n > 0 \<and> n \<le> 65535 then c\<lparr>cx_cfg := cfg\<lparr>pc_num_nodes := n\<rparr>\<rparr> else c))
         else if key = ''pgas_base'' \<or> key = ''base_addr''
         then bind_res (stoull 0 val) (\<lambda>n. Inr (c\<lparr>cx_cfg := cfg\<lparr>pc_base := n\<rparr>\<rparr>))
         else if key = ''pgas_size'' \<or> key = ''size''
         then bind_res (stoull 0 val) (\<lambda>n. Inr (c\<lparr>cx_cfg := cfg\<lparr>pc_size := n\<rparr>\<rparr>))
         else if key = ''eager_connect'' then Inr (c\<lparr>cx_cfg := cfg\<lparr>pc_eager_connect := parse_bool_value val\<rparr>\<rparr>)
         else if key = ''use_node_local_offsets''
         then Inr (c\<lparr>cx_cfg := cfg\<lparr>pc_use_node_local_offsets := parse_bool_value val\<rparr>\<rparr>)
         else if key = ''remote_addr_mode'' then Inr (c\<lparr>cx_cfg := cfg\<lparr>pc_use_node_local_offsets := (val \<noteq> ''global'')\<rparr>\<rparr>)
         else if take 9 key = ''cxlmemsim'' then config_server val c
         else Inr c)"

text \<open>A line whose conversion throws is ignored.\<close>

definition config_line :: "string \<Rightarrow> config_state \<Rightarrow> config_state" where
  "config_line line c =
     (let line = trim_copy (takeWhile (\<lambda>x. x \<noteq> CHR ''#'') line)
      in case split_at (CHR ''='') line of
           None \<Rightarrow> c
         | Some (key, val) \<Rightarrow>
             (case config_entry (trim_copy key) (trim_copy val) c of Inl e \<Rightarrow> c | Inr c' \<Rightarrow> c'))"

definition read_config :: "string list \<Rightarrow> pgas_config" where
  "read_config lines =
     (let c = fold config_line lines \<lparr>cx_cfg = default_config, cx_max_node_id = 0, cx_saw_node = False\<rparr>; cfg = cx_cfg c
      in if cx_saw_node c \<and> cx_max_node_id c < 65535 \<and> cx_max_node_id c \<ge> pc_num_nodes cfg
         then cfg\<lparr>pc_num_nodes := cx_max_node_id c + 1\<rparr> else cfg)"

text \<open>\<open>file\<close> is the lines of the file, \<open>None\<close> when it cannot be opened.\<close>

definition init_from_config ::
  "('c, 'w) cxl_client \<Rightarrow> string list option \<Rightarrow> ('c, 'w) pgas_hooker \<Rightarrow> int \<times> ('c, 'w) pgas_hooker" where
  "init_from_config cl file h = (case file of None \<Rightarrow> (-1, h) | Some lines \<Rightarrow> hooker_init cl (read_config lines) h)"

definition server_nodes :: "(string \<times> int) list \<Rightarrow> pgas_node_info list" where
  "server_nodes addrs =
     map (\<lambda>i. \<lparr>ni_node_id = i mod 2 ^ 16, ni_base_addr = 0, ni_size = 0, ni_hostname = fst (addrs ! i),
               ni_port = to_u16 (snd (addrs ! i))\<rparr>) [0..<length addrs]"

definition hooks_init ::
  "('c, 'w) cxl_client \<Rightarrow> nat \<Rightarrow> nat \<Rightarrow> (string \<times> int) list \<Rightarrow> nat \<Rightarrow> nat \<Rightarrow> ('c, 'w) pgas_hooker \<Rightarrow> int \<times> ('c, 'w) pgas_hooker" where
  "hooks_init cl local_node num_nodes addrs base_addr sz h =
     hooker_init cl (default_config\<lparr>pc_local_node_id := local_node, pc_num_nodes := num_nodes, pc_base := base_addr,
       pc_size := sz, pc_nodes := server_nodes addrs\<rparr>) h"

text \<open>The second component of the state is \<open>g_active\<close>.\<close>

definition hooks_start ::
  "(string \<Rightarrow> nat) \<Rightarrow> (string \<Rightarrow> string \<Rightarrow> nat) \<Rightarrow> ('c, 'w) pgas_hooker \<times> bool \<Rightarrow> int res \<times> ('c, 'w) pgas_hooker \<times> bool" where
  "hooks_start dl_sym resolve = (\<lambda>(h, active).
     let (r, h) = install_hooks dl_sym resolve h in (r, h, if r = Inr 0 then True else active))"

definition hooks_stop :: "('c, 'w) pgas_hooker \<times> bool \<Rightarrow> ('c, 'w) pgas_hooker \<times> bool" where
  "hooks_stop = (\<lambda>(h, active). (remove_hooks h, False))"

definition hooks_finalize :: "('c, 'w) pgas_hooker \<times> bool \<Rightarrow> ('c, 'w) pgas_hooker \<times> bool" where
  "hooks_finalize s =
     (let (h, active) = hooks_stop s
      in (h\<lparr>hk_world := (hk_world h)\<lparr>pw_mgr := conn_mgr_shutdown (pw_mgr (hk_world h))\<rparr>\<rparr>, active))"

section \<open>The description of a hook is read back\<close>

lemma parse_op_name: "parse_op (op_name op) old = op"
  by (cases op) (simp_all add: parse_op_def)

lemma op_name_no_colon: "CHR '':'' \<notin> set (op_name op)"
  by (cases op) simp_all

lemma show_base_no_colon: "2 \<le> b \<Longrightarrow> b \<le> 16 \<Longrightarrow> CHR '':'' \<notin> set (show_base b n)"
  using show_base_digits [of b n] digit_no_special(4) by blast

lemma to_u16_id: "n < 2 ^ 16 \<Longrightarrow> to_u16 (int n) = n"
  by (simp add: to_u16_def)

lemma show_base_small: "n < 10 \<Longrightarrow> show_base 16 n = show_base 10 n"
  by (subst (1 2) show_base.simps) simp

text \<open>
  The descriptions that text can express: a module and a symbol without colons, or an address.  With
  an address the node numbers must have one digit.
\<close>

definition default_data :: pgas_private_data where
  "default_data = \<lparr>pd_target_address = 0, pd_module_name = [], pd_symbol_name = [], pd_local_node_id = 0, pd_num_nodes = 1,
     pd_op_type = LOAD\<rparr>"

definition printable :: "pgas_private_data \<Rightarrow> bool" where
  "printable d \<longleftrightarrow>
     (if pd_module_name d \<noteq> []
      then pd_target_address d = 0 \<and> \<not> starts_hex (pd_module_name d) \<and> CHR '':'' \<notin> set (pd_module_name d) \<and>
           CHR '':'' \<notin> set (pd_symbol_name d) \<and> pd_local_node_id d < 2 ^ 16 \<and> pd_num_nodes d < 2 ^ 16
      else pd_symbol_name d = [] \<and> pd_target_address d < 2 ^ 64 \<and> pd_local_node_id d < 10 \<and> pd_num_nodes d < 10)"

lemma tokens_of_numbers:
  assumes "2 \<le> b" and "b \<le> 16"
  shows "getline_tokens (CHR '':'') (op_name op @ '':'' @ show_base b m @ '':'' @ show_base b n) =
    [op_name op, show_base b m, show_base b n]"
  using getline_tokens_Cons [OF op_name_no_colon] getline_tokens_Cons [OF show_base_no_colon [OF assms]]
    getline_tokens_last [OF show_base_no_colon [OF assms, of n]] show_base_digits [OF assms, of n]
  by simp


definition demo_data :: pgas_private_data where
  "demo_data = \<lparr>pd_target_address = 0, pd_module_name = ''libc.so.6'', pd_symbol_name = ''memcpy'', pd_local_node_id = 3,
     pd_num_nodes = 300, pd_op_type = MEMCPY\<rparr>"


text \<open>Node numbers behind an address are written in base 16 and read in base 10.\<close>

lemma hex_node_numbers:
  "to_string (default_data\<lparr>pd_target_address := 4096, pd_local_node_id := 10, pd_num_nodes := 16\<rparr>) = ''0x1000:load:a:10''"
  "initialize_from_string ''0x1000:load:a:10'' default_data = Inl Throw"
  "initialize_from_string ''0x1000:load:1:10'' default_data =
     Inr (default_data\<lparr>pd_target_address := 4096, pd_local_node_id := 1, pd_num_nodes := 10\<rparr>)"
  by code_simp+

section \<open>Configurations read from a file\<close>

text \<open>Whatever the file holds, there are between one and 65535 nodes, and ids and ports have 16 bits.\<close>

definition config_ok :: "config_state \<Rightarrow> bool" where
  "config_ok c \<longleftrightarrow>
     0 < pc_num_nodes (cx_cfg c) \<and> pc_num_nodes (cx_cfg c) \<le> 65535 \<and> cx_max_node_id c \<le> 65535 \<and>
     (cx_saw_node c \<longleftrightarrow> pc_nodes (cx_cfg c) \<noteq> []) \<and>
     (cx_saw_node c \<longrightarrow> (\<exists>node \<in> set (pc_nodes (cx_cfg c)). ni_node_id node = cx_max_node_id c)) \<and>
     (\<forall>node \<in> set (pc_nodes (cx_cfg c)). ni_node_id node \<le> cx_max_node_id c \<and> ni_port node \<le> 65535)"

definition keeps_ok :: "config_state res \<Rightarrow> bool" where
  "keeps_ok r \<longleftrightarrow> (\<forall>c. r = Inr c \<longrightarrow> config_ok c)"

lemma keeps_ok_intros:
  "keeps_ok x \<Longrightarrow> keeps_ok y \<Longrightarrow> keeps_ok (if b then x else y)"
  "(\<And>x. keeps_ok (f x)) \<Longrightarrow> keeps_ok (bind_res m f)"
  "config_ok c \<Longrightarrow> keeps_ok (Inr c)"
  by (auto simp: keeps_ok_def bind_res_eq_Inr)

lemma config_server_ok:
  assumes "config_ok c"
  shows "keeps_ok (config_server s c)"
proof -
  have "keeps_ok (if port \<le> 65535 \<and> node_id \<le> 65535 then
      Inr \<lparr>cx_cfg = (cx_cfg c)\<lparr>pc_nodes := pc_nodes (cx_cfg c) @
             [\<lparr>ni_node_id = node_id, ni_base_addr = 0, ni_size = 0, ni_hostname = host, ni_port = port\<rparr>]\<rparr>,
           cx_max_node_id = (if \<not> cx_saw_node c \<or> node_id > cx_max_node_id c then node_id else cx_max_node_id c),
           cx_saw_node = True\<rparr>
      else Inr c)" for port node_id host
    using assms by (cases "cx_saw_node c") (force simp: keeps_ok_def config_ok_def)+
  with assms show ?thesis
    unfolding config_server_def by (auto intro!: keeps_ok_intros(2) keeps_ok_intros(3) split: option.splits)
qed

lemma config_entry_ok: "config_ok c \<Longrightarrow> keeps_ok (config_entry key val c)"
  unfolding config_entry_def Let_def
  by (intro keeps_ok_intros config_server_ok) (simp_all add: config_ok_def)

lemma config_line_ok: "config_ok c \<Longrightarrow> config_ok (config_line line c)"
  using config_entry_ok by (auto simp: config_line_def Let_def keeps_ok_def split: option.splits sum.splits)

lemma config_lines_ok: "config_ok c \<Longrightarrow> config_ok (fold config_line lines c)"
  by (induction lines arbitrary: c) (auto intro: config_line_ok)

text \<open>Every configured node is one of the nodes, unless one has the last id, which stands for none.\<close>

lemma read_config_nodes:
  "0 < pc_num_nodes (read_config lines) \<and> pc_num_nodes (read_config lines) \<le> 65535 \<and>
   (\<forall>node \<in> set (pc_nodes (read_config lines)). ni_port node \<le> 65535 \<and>
      (ni_node_id node < pc_num_nodes (read_config lines) \<or> (\<exists>m \<in> set (pc_nodes (read_config lines)). ni_node_id m = 65535)))"
proof -
  define c where "c = fold config_line lines \<lparr>cx_cfg = default_config, cx_max_node_id = 0, cx_saw_node = False\<rparr>"
  have ok: "config_ok c" unfolding c_def
    by (rule config_lines_ok) (simp add: config_ok_def default_config_def)
  show ?thesis
  proof (cases "cx_saw_node c \<and> cx_max_node_id c < 65535 \<and> cx_max_node_id c \<ge> pc_num_nodes (cx_cfg c)")
    case True
    then have r: "read_config lines = (cx_cfg c)\<lparr>pc_num_nodes := cx_max_node_id c + 1\<rparr>"
      by (simp add: read_config_def Let_def c_def)
    show ?thesis using ok True unfolding r by (simp add: config_ok_def) (meson le_imp_less_Suc)
  next
    case False
    then have r: "read_config lines = cx_cfg c" by (auto simp: read_config_def Let_def c_def)
    have "ni_node_id node < pc_num_nodes (cx_cfg c) \<or> (\<exists>m \<in> set (pc_nodes (cx_cfg c)). ni_node_id m = 65535)"
      if n: "node \<in> set (pc_nodes (cx_cfg c))" for node
    proof (cases "cx_max_node_id c = 65535")
      case True
      with ok n show ?thesis by (auto simp: config_ok_def)
    next
      case max: False
      from ok n have "cx_saw_node c" "cx_max_node_id c \<le> 65535" "ni_node_id node \<le> cx_max_node_id c" by (auto simp: config_ok_def)
      with max False show ?thesis by linarith
    qed
    with ok show ?thesis unfolding r by (simp add: config_ok_def)
  qed
qed

end
