(* ===== verification/Pgas_Stalker.thy ===== *)
theory Pgas_Stalker
  imports Pgas_Remote
begin

text \<open>
  The interception of single memory instructions on x86-64 (the first part of
  \<open>attach/pgas_attach_impl/src/pgas_stalker_mov.cpp\<close>): the analysis of a decoded instruction, its effective
  address, the callouts that perform remote loads and stores, the code emitted in front of an
  instruction, and the transformer of a basic block.

  The decoder (Capstone) and the recompiler (Frida's Stalker) are outside: a basic block is a list of
  decoded instructions, and what the writer emits is a list of operations, for which a small machine
  gives the meaning.  \<open>punned\<close> is the register a C union yields when the operand is not a register.
\<close>

section \<open>Configuration, statistics and routing\<close>

record stalker_config =
  st_base :: u64
  st_size :: u64
  st_local_node_id :: nat
  st_num_nodes :: nat
  st_trust_threshold :: int
  st_hook_mov :: bool
  st_hook_movzx :: bool
  st_hook_movnti :: bool
  st_hook_rep_movs :: bool

record stalker_stats =
  sk_blocks_transformed :: nat
  sk_insns_scanned :: nat
  sk_mov_loads_hooked :: nat
  sk_mov_stores_hooked :: nat
  sk_callouts_fired :: nat
  sk_remote_loads :: nat
  sk_remote_stores :: nat
  sk_local_passthrough :: nat

definition is_in_pgas_range :: "u64 \<Rightarrow> u64 \<Rightarrow> u64 \<Rightarrow> bool" where
  "is_in_pgas_range ea base sz \<longleftrightarrow> sz \<noteq> 0 \<and> ea \<ge> base \<and> ea - base < sz"

text \<open>The node of an address: the quotient is cut to 16 bits before it is compared.\<close>

definition route_node16 :: "u64 \<Rightarrow> u64 \<Rightarrow> nat \<Rightarrow> u64 \<Rightarrow> nat" where
  "route_node16 base region_per_node num_nodes ea =
     (let node = unat (ea - base) div unat region_per_node mod 2 ^ 16
      in if node \<ge> num_nodes then num_nodes - 1 else node)"

section \<open>Registers and instructions\<close>

datatype gpr = RAX | RBX | RCX | RDX | RSI | RDI | RBP | RSP | R8 | R9 | R10 | R11 | R12 | R13 | R14 | R15

text \<open>
  The names of a general register: the whole of it, its low half, its low word and its low byte.
  The other registers (the high bytes, vector and segment registers) are \<open>Reg_Other\<close>.
\<close>

datatype reg_width = W64 | W32 | W16 | W8

datatype x86_reg = Reg_Invalid | Gpr gpr reg_width | Reg_RIP | Reg_Other nat

record gum_cpu =
  gc_regs :: "gpr \<Rightarrow> u64"
  gc_rip :: u64

definition read_reg :: "gum_cpu \<Rightarrow> x86_reg \<Rightarrow> u64" where
  "read_reg cpu r = (case r of Gpr g w \<Rightarrow> gc_regs cpu g | Reg_RIP \<Rightarrow> gc_rip cpu | _ \<Rightarrow> 0)"

definition write_reg :: "gum_cpu \<Rightarrow> x86_reg \<Rightarrow> u64 \<Rightarrow> gum_cpu" where
  "write_reg cpu r v = (case r of Gpr g w \<Rightarrow> cpu\<lparr>gc_regs := (gc_regs cpu)(g := v)\<rparr> | _ \<Rightarrow> cpu)"

definition cs_to_gum_reg :: "x86_reg \<Rightarrow> gpr" where
  "cs_to_gum_reg r = (case r of Gpr g W64 \<Rightarrow> g | Gpr g W32 \<Rightarrow> g | _ \<Rightarrow> RAX)"

definition is_stack_relative :: "x86_reg \<Rightarrow> bool" where
  "is_stack_relative r \<longleftrightarrow> (case r of Gpr g w \<Rightarrow> g = RSP \<or> g = RBP | _ \<Rightarrow> False)"

datatype insn_id =
    MOV | MOVABS | MOVZX | MOVSXD | MOVSX | MOVNTI | MOVNTDQ | MOVNTPS | MOVNTPD
  | MOVAPS | MOVUPS | MOVAPD | MOVUPD | MOVDQA | MOVDQU | MOVSD | MOVSS | MOVQ | MOVD | Insn_Other nat

definition is_mov_insn :: "insn_id \<Rightarrow> bool" where
  "is_mov_insn i \<longleftrightarrow> (case i of Insn_Other n \<Rightarrow> False | _ \<Rightarrow> True)"

record mem_operand =
  mo_base :: x86_reg
  mo_index :: x86_reg
  mo_scale :: int
  mo_disp :: int

datatype x86_operand = Op_Reg x86_reg nat | Op_Imm int nat | Op_Mem mem_operand nat

record x86_insn =
  in_id :: insn_id
  in_operands :: "x86_operand list"

record mov_mem_info =
  mi_is_load :: bool
  mi_is_store :: bool
  mi_mem_op_idx :: nat
  mi_reg_op_idx :: nat
  mi_access_size :: nat
  mi_base :: x86_reg
  mi_index :: x86_reg
  mi_scale :: int
  mi_disp :: int

text \<open>The first memory operand; \<open>None\<close> is the result \<open>false\<close>.\<close>

fun first_mem :: "nat \<Rightarrow> x86_operand list \<Rightarrow> (nat \<times> mem_operand \<times> nat) option" where
  "first_mem i [] = None"
| "first_mem i (Op_Mem m sz # ops) = Some (i, m, sz)"
| "first_mem i (_ # ops) = first_mem (Suc i) ops"

definition analyze_mov :: "stalker_config \<Rightarrow> x86_insn \<Rightarrow> mov_mem_info option" where
  "analyze_mov cfg insn =
     (let i = in_id insn
      in if \<not> is_mov_insn i then None
         else if \<not> st_hook_mov cfg \<and> (i = MOV \<or> i = MOVABS) then None
         else if \<not> st_hook_movzx cfg \<and> (i = MOVZX \<or> i = MOVSXD \<or> i = MOVSX) then None
         else if \<not> st_hook_movnti cfg \<and> (i = MOVNTI \<or> i = MOVNTDQ \<or> i = MOVNTPS \<or> i = MOVNTPD) then None
         else case first_mem 0 (in_operands insn) of
           None \<Rightarrow> None
         | Some (k, m, sz) \<Rightarrow>
             Some \<lparr>mi_is_load = (k \<noteq> 0), mi_is_store = (k = 0), mi_mem_op_idx = k, mi_reg_op_idx = (if k = 0 then 1 else 0),
                   mi_access_size = sz, mi_base = mo_base m, mi_index = mo_index m, mi_scale = mo_scale m, mi_disp = mo_disp m\<rparr>)"

definition compute_ea :: "gum_cpu \<Rightarrow> mov_mem_info \<Rightarrow> u64" where
  "compute_ea cpu info =
     (let ea = word_of_int (mi_disp info);
          ea = (if mi_base info \<noteq> Reg_Invalid then ea + read_reg cpu (mi_base info) else ea)
      in if mi_index info \<noteq> Reg_Invalid then ea + read_reg cpu (mi_index info) * word_of_int (mi_scale info) else ea)"

section \<open>The callouts\<close>

record mov_callout_data =
  cd_base :: u64
  cd_size :: u64
  cd_local_node_id :: nat
  cd_num_nodes :: nat
  cd_info :: mov_mem_info
  cd_dest_reg :: x86_reg
  cd_src_reg :: x86_reg

definition CALLOUT_POOL_CAPACITY :: nat where
  "CALLOUT_POOL_CAPACITY = 1024 * 1024"

text \<open>The next free index of the pool; the pool index identifies the callout data.\<close>

definition alloc_callout_data :: "nat \<Rightarrow> nat option \<times> nat" where
  "alloc_callout_data nxt = (if nxt \<ge> CALLOUT_POOL_CAPACITY then None else Some nxt, wrap64 (nxt + 1))"

text \<open>\<open>tmp\<close> is the address of the local variable the value is read into.\<close>

definition mov_load_callout ::
  "('c, 'w) cxl_client \<Rightarrow> pgas_config \<Rightarrow> nat \<Rightarrow> mov_callout_data \<Rightarrow>
   gum_cpu \<times> stalker_stats \<times> ('c, 'w) pgas_world \<Rightarrow> gum_cpu \<times> stalker_stats \<times> ('c, 'w) pgas_world" where
  "mov_load_callout cl cfg tmp cd = (\<lambda>(cpu, st, s).
     let ea = compute_ea cpu (cd_info cd)
     in if \<not> is_in_pgas_range ea (cd_base cd) (cd_size cd) \<or> cd_num_nodes cd = 0 then (cpu, st, s)
        else
          let region_per_node = cd_size cd div word_of_nat (cd_num_nodes cd)
          in if region_per_node = 0 then (cpu, st, s)
             else
               let node = route_node16 (cd_base cd) region_per_node (cd_num_nodes cd) ea
               in if node = cd_local_node_id cd
                  then (cpu, st\<lparr>sk_local_passthrough := wrap64 (sk_local_passthrough st + 1)\<rparr>, s)
                  else
                    let sz = min (mi_access_size (cd_info cd)) 8;
                        s = s\<lparr>pw_mem := poke_mem (pw_mem s) tmp (replicate 8 0)\<rparr>;
                        (r, s) = remote_read cl cfg node (unat ea) tmp sz s
                    in (write_reg cpu (cd_dest_reg cd) (word_of_nat (le_nat (peek_mem (pw_mem s) tmp 8))),
                        st\<lparr>sk_remote_loads := wrap64 (sk_remote_loads st + 1)\<rparr>, s))"

definition mov_store_callout ::
  "('c, 'w) cxl_client \<Rightarrow> pgas_config \<Rightarrow> mov_callout_data \<Rightarrow>
   gum_cpu \<times> stalker_stats \<times> ('c, 'w) pgas_world \<Rightarrow> gum_cpu \<times> stalker_stats \<times> ('c, 'w) pgas_world" where
  "mov_store_callout cl cfg cd = (\<lambda>(cpu, st, s).
     let ea = compute_ea cpu (cd_info cd)
     in if \<not> is_in_pgas_range ea (cd_base cd) (cd_size cd) \<or> cd_num_nodes cd = 0 then (cpu, st, s)
        else
          let region_per_node = cd_size cd div word_of_nat (cd_num_nodes cd)
          in if region_per_node = 0 then (cpu, st, s)
             else
               let node = route_node16 (cd_base cd) region_per_node (cd_num_nodes cd) ea
               in if node = cd_local_node_id cd
                  then (cpu, st\<lparr>sk_local_passthrough := wrap64 (sk_local_passthrough st + 1)\<rparr>, s)
                  else
                    let val = read_reg cpu (cd_src_reg cd);
                        sz = min (mi_access_size (cd_info cd)) 8;
                        (r, s) = remote_write cl cfg node (unat ea) (le_bytes sz (unat val)) s
                    in (cpu, st\<lparr>sk_remote_stores := wrap64 (sk_remote_stores st + 1)\<rparr>, s))"

section \<open>Emitted code\<close>

text \<open>
  What the transformer emits: the instructions written by the range check, with the jump and its
  label, the callouts and the original instructions.
\<close>

datatype emitted =
    Pushfx | Push_Reg gpr | Mov_Reg_Reg gpr gpr | Add_Reg_Imm gpr int | Sub_Reg_Imm gpr u64 | Cmp_Reg_I32 gpr u64
  | Pop_Reg gpr | Popfx | Jae_Label nat | Callout bool nat mov_callout_data | Label nat | Keep x86_insn

definition emit_inline_range_check :: "mov_mem_info \<Rightarrow> nat \<Rightarrow> mov_callout_data \<Rightarrow> bool \<Rightarrow> emitted list" where
  "emit_inline_range_check info k cd is_load =
     (let scratch = (if mi_base info \<noteq> Reg_Invalid \<and> cs_to_gum_reg (mi_base info) = RCX then RDX else RCX);
          can_inline = (mi_base info \<noteq> Reg_Invalid \<and> mi_index info = Reg_Invalid)
      in if \<not> can_inline \<or> cd_size cd > 2 ^ 31 - 1 then [Callout is_load k cd]
         else
           [Pushfx, Push_Reg scratch, Mov_Reg_Reg scratch (cs_to_gum_reg (mi_base info))] @
           (if mi_disp info \<noteq> 0 then [Add_Reg_Imm scratch (mi_disp info)] else []) @
           [Sub_Reg_Imm scratch (cd_base cd), Cmp_Reg_I32 scratch (cd_size cd), Pop_Reg scratch, Popfx,
            Jae_Label k, Callout is_load k cd, Label k])"

text \<open>The transformer of a block: the state is the statistics and the next index of the pool.\<close>

definition operand_reg :: "(x86_operand \<Rightarrow> x86_reg) \<Rightarrow> x86_operand list \<Rightarrow> nat \<Rightarrow> x86_reg" where
  "operand_reg punned ops i = (if i < length ops then case ops ! i of Op_Reg r sz \<Rightarrow> r | op \<Rightarrow> punned op else Reg_Invalid)"

definition skip_insn :: "stalker_config \<Rightarrow> mov_mem_info \<Rightarrow> bool" where
  "skip_insn cfg info \<longleftrightarrow>
     is_stack_relative (mi_base info) \<or>
     (mi_base info = Reg_Invalid \<and> mi_index info = Reg_Invalid \<and>
        (word_of_int (mi_disp info) < st_base cfg \<or> word_of_int (mi_disp info) \<ge> st_base cfg + st_size cfg)) \<or>
     mi_base info = Reg_RIP"

definition transform_insn ::
  "(x86_operand \<Rightarrow> x86_reg) \<Rightarrow> stalker_config \<Rightarrow> x86_insn \<Rightarrow> stalker_stats \<times> nat \<Rightarrow> emitted list \<times> stalker_stats \<times> nat" where
  "transform_insn punned cfg insn = (\<lambda>(st, nxt).
     let st = st\<lparr>sk_insns_scanned := wrap64 (sk_insns_scanned st + 1)\<rparr>
     in case analyze_mov cfg insn of
          None \<Rightarrow> ([Keep insn], st, nxt)
        | Some info \<Rightarrow>
            if skip_insn cfg info then ([Keep insn], st, nxt)
            else case alloc_callout_data nxt of
              (None, nxt) \<Rightarrow> ([Keep insn], st, nxt)
            | (Some k, nxt) \<Rightarrow>
                let reg = operand_reg punned (in_operands insn) (mi_reg_op_idx info);
                    cd = \<lparr>cd_base = st_base cfg, cd_size = st_size cfg, cd_local_node_id = st_local_node_id cfg,
                          cd_num_nodes = st_num_nodes cfg, cd_info = info,
                          cd_dest_reg = (if mi_is_load info then reg else Reg_Invalid),
                          cd_src_reg = (if mi_is_load info then Reg_Invalid else reg)\<rparr>
                in if mi_is_load info then
                     (emit_inline_range_check info k cd True @ [Keep insn],
                      st\<lparr>sk_mov_loads_hooked := wrap64 (sk_mov_loads_hooked st + 1)\<rparr>, nxt)
                   else if mi_is_store info then
                     (emit_inline_range_check info k cd False @ [Keep insn],
                      st\<lparr>sk_mov_stores_hooked := wrap64 (sk_mov_stores_hooked st + 1)\<rparr>, nxt)
                   else ([Keep insn], st, nxt))"

primrec transform_insns ::
  "(x86_operand \<Rightarrow> x86_reg) \<Rightarrow> stalker_config \<Rightarrow> x86_insn list \<Rightarrow> stalker_stats \<times> nat \<Rightarrow> emitted list \<times> stalker_stats \<times> nat" where
  "transform_insns punned cfg [] s = ([], s)"
| "transform_insns punned cfg (insn # insns) s =
     (let (out, s) = transform_insn punned cfg insn s; (out', s) = transform_insns punned cfg insns s in (out @ out', s))"

definition transform_block ::
  "(x86_operand \<Rightarrow> x86_reg) \<Rightarrow> stalker_config \<Rightarrow> x86_insn list \<Rightarrow> stalker_stats \<times> nat \<Rightarrow> emitted list \<times> stalker_stats \<times> nat" where
  "transform_block punned cfg insns = (\<lambda>(st, nxt).
     transform_insns punned cfg insns (st\<lparr>sk_blocks_transformed := wrap64 (sk_blocks_transformed st + 1)\<rparr>, nxt))"

section \<open>The life of a stalker\<close>

text \<open>\<open>created\<close> says whether \<open>gum_stalker_new\<close> succeeds.\<close>

record stalker_ctx =
  sx_config :: stalker_config
  sx_stats :: stalker_stats
  sx_active :: bool

definition zero_stalker_stats :: stalker_stats where
  "zero_stalker_stats = \<lparr>sk_blocks_transformed = 0, sk_insns_scanned = 0, sk_mov_loads_hooked = 0, sk_mov_stores_hooked = 0,
     sk_callouts_fired = 0, sk_remote_loads = 0, sk_remote_stores = 0, sk_local_passthrough = 0\<rparr>"

definition pgas_stalker_init :: "bool \<Rightarrow> stalker_config \<Rightarrow> stalker_ctx option" where
  "pgas_stalker_init created config =
     (let cfg = (if \<not> st_hook_mov config \<and> \<not> st_hook_movzx config \<and> \<not> st_hook_movnti config \<and> \<not> st_hook_rep_movs config
                 then config\<lparr>st_hook_mov := True, st_hook_movzx := True, st_hook_movnti := True\<rparr> else config)
      in if created then Some \<lparr>sx_config = cfg, sx_stats = zero_stalker_stats, sx_active = False\<rparr> else None)"

definition effective_trust :: "stalker_config \<Rightarrow> int" where
  "effective_trust config = (if st_trust_threshold config = 0 then -1 else st_trust_threshold config)"

definition pgas_stalker_follow :: "stalker_ctx option \<Rightarrow> int \<times> stalker_ctx option" where
  "pgas_stalker_follow ctx = (case ctx of None \<Rightarrow> (-1, None) | Some c \<Rightarrow> (0, Some (c\<lparr>sx_active := True\<rparr>)))"

section \<open>The machine that runs emitted code\<close>

text \<open>
  Registers, the carry flag, and memory in units of eight bytes, which is how the code uses the
  stack.  Of the flags only the carry is represented, as bit 0 of the flags word.  \<open>callout\<close> is
  the effect of a callout; original instructions are skipped.
\<close>

record machine =
  mx_regs :: "gpr \<Rightarrow> u64"
  mx_carry :: bool
  mx_mem :: "u64 \<Rightarrow> u64"

definition push :: "u64 \<Rightarrow> machine \<Rightarrow> machine" where
  "push v m = m\<lparr>mx_regs := (mx_regs m)(RSP := mx_regs m RSP - 8), mx_mem := (mx_mem m)(mx_regs m RSP - 8 := v)\<rparr>"

definition pop_val :: "machine \<Rightarrow> u64" where
  "pop_val m = mx_mem m (mx_regs m RSP)"

definition drop_top :: "machine \<Rightarrow> machine" where
  "drop_top m = m\<lparr>mx_regs := (mx_regs m)(RSP := mx_regs m RSP + 8)\<rparr>"

definition set_reg :: "gpr \<Rightarrow> u64 \<Rightarrow> machine \<Rightarrow> machine" where
  "set_reg r v m = m\<lparr>mx_regs := (mx_regs m)(r := v)\<rparr>"

function run_code :: "(bool \<Rightarrow> mov_callout_data \<Rightarrow> machine \<Rightarrow> machine) \<Rightarrow> emitted list \<Rightarrow> machine \<Rightarrow> machine" where
  "run_code callout [] m = m"
| "run_code callout (op # ops) m =
     (case op of
        Pushfx \<Rightarrow> run_code callout ops (push (of_bool (mx_carry m)) m)
      | Push_Reg r \<Rightarrow> run_code callout ops (push (mx_regs m r) m)
      | Mov_Reg_Reg r r' \<Rightarrow> run_code callout ops (set_reg r (mx_regs m r') m)
      | Add_Reg_Imm r i \<Rightarrow>
          run_code callout ops ((set_reg r (mx_regs m r + word_of_int i) m)
            \<lparr>mx_carry := mx_regs m r + word_of_int i < mx_regs m r\<rparr>)
      | Sub_Reg_Imm r i \<Rightarrow> run_code callout ops ((set_reg r (mx_regs m r - i) m)\<lparr>mx_carry := mx_regs m r < i\<rparr>)
      | Cmp_Reg_I32 r i \<Rightarrow> run_code callout ops (m\<lparr>mx_carry := mx_regs m r < i\<rparr>)
      | Pop_Reg r \<Rightarrow> run_code callout ops (set_reg r (pop_val m) (drop_top m))
      | Popfx \<Rightarrow> run_code callout ops ((drop_top m)\<lparr>mx_carry := odd (unat (pop_val m))\<rparr>)
      | Jae_Label k \<Rightarrow> if mx_carry m then run_code callout ops m else run_code callout (dropWhile (\<lambda>e. e \<noteq> Label k) ops) m
      | Callout l k cd \<Rightarrow> run_code callout ops (callout l cd m)
      | Label k \<Rightarrow> run_code callout ops m
      | Keep i \<Rightarrow> run_code callout ops m)"
  by pat_completeness auto
termination
  by (relation "measure (\<lambda>(callout, ops, m). length ops)") (auto simp: length_dropWhile_le le_imp_less_Suc)

section \<open>The range check\<close>

text \<open>
  C35. The range check in front of an instruction does not check the range.  The flags are restored
  before the branch, so the branch tests the carry flag the program had: the callout runs if and
  only if that flag was set, whatever the address.  The check also overwrites the two quadwords
  below the stack pointer, where a leaf function may keep data.
\<close>

theorem range_check_tests_program_carry:
  assumes "mi_base info \<noteq> Reg_Invalid" and "mi_index info = Reg_Invalid" and "cd_size cd \<le> 2 ^ 31 - 1"
    and "scratch = (if cs_to_gum_reg (mi_base info) = RCX then RDX else RCX)"
    and "m' = m\<lparr>mx_mem := (mx_mem m)(mx_regs m RSP - 8 := of_bool (mx_carry m), mx_regs m RSP - 16 := mx_regs m scratch)\<rparr>"
  shows "run_code callout (emit_inline_range_check info k cd l) m = (if mx_carry m then callout l cd m' else m')"
proof -
  have sz: "\<not> cd_size cd > 2 ^ 31 - 1" using assms(3) by simp
  have sc: "scratch \<noteq> RSP" using assms(4) by simp
  have emit: "emit_inline_range_check info k cd l =
      [Pushfx, Push_Reg scratch, Mov_Reg_Reg scratch (cs_to_gum_reg (mi_base info))] @
      (if mi_disp info \<noteq> 0 then [Add_Reg_Imm scratch (mi_disp info)] else []) @
      [Sub_Reg_Imm scratch (cd_base cd), Cmp_Reg_I32 scratch (cd_size cd), Pop_Reg scratch, Popfx,
       Jae_Label k, Callout l k cd, Label k]"
    using assms(1,2,4) sz by (simp add: emit_inline_range_check_def Let_def)
  show ?thesis
    unfolding emit assms(5) using sc
    by (auto simp: push_def pop_val_def drop_top_def set_reg_def fun_upd_twist fun_eq_iff intro!: arg_cong [of _ _ "callout l cd"])
qed

definition demo_mov :: mov_mem_info where
  "demo_mov = \<lparr>mi_is_load = True, mi_is_store = False, mi_mem_op_idx = 1, mi_reg_op_idx = 0, mi_access_size = 8,
     mi_base = Gpr RSI W64, mi_index = Reg_Invalid, mi_scale = 1, mi_disp = 16\<rparr>"

definition demo_cd :: mov_callout_data where
  "demo_cd = \<lparr>cd_base = 4096, cd_size = 4096, cd_local_node_id = 0, cd_num_nodes = 2, cd_info = demo_mov,
     cd_dest_reg = Gpr RAX W64, cd_src_reg = Reg_Invalid\<rparr>"

definition demo_machine :: "u64 \<Rightarrow> bool \<Rightarrow> machine" where
  "demo_machine a c = \<lparr>mx_regs = (\<lambda>_. 0)(RSI := a, RSP := 65536), mx_carry = c, mx_mem = (\<lambda>_. 0)\<rparr>"

text \<open>An address in the region without a carry is missed, an address outside it with a carry is not.\<close>

theorem range_check_tests_program_carry_witness:
  "mx_regs (run_code (\<lambda>l cd. set_reg RAX 7) (emit_inline_range_check demo_mov 0 demo_cd True) (demo_machine 5000 False)) RAX = 0 \<and>
   is_in_pgas_range (5000 + 16) 4096 4096 \<and>
   mx_regs (run_code (\<lambda>l cd. set_reg RAX 7) (emit_inline_range_check demo_mov 0 demo_cd True) (demo_machine 100 True)) RAX = 7 \<and>
   \<not> is_in_pgas_range (100 + 16) 4096 4096"
  using range_check_tests_program_carry [of demo_mov demo_cd _ _ "demo_machine 5000 False", OF _ _ _ refl refl,
      of "\<lambda>l cd. set_reg RAX 7" 0 True]
    range_check_tests_program_carry [of demo_mov demo_cd _ _ "demo_machine 100 True", OF _ _ _ refl refl,
      of "\<lambda>l cd. set_reg RAX 7" 0 True]
  by (simp add: demo_mov_def demo_cd_def demo_machine_def set_reg_def is_in_pgas_range_def)

section \<open>The transformed block\<close>

text \<open>The original instructions are kept, all of them and in their order.\<close>

definition kept :: "emitted list \<Rightarrow> x86_insn list" where
  "kept out = concat (map (\<lambda>e. case e of Keep i \<Rightarrow> [i] | _ \<Rightarrow> []) out)"

lemma kept_simps [simp]: "kept [] = []" "kept (e # es) = (case e of Keep i \<Rightarrow> i # kept es | _ \<Rightarrow> kept es)"
  "kept (xs @ ys) = kept xs @ kept ys"
  by (auto simp: kept_def split: emitted.splits)

lemma kept_range_check: "kept (emit_inline_range_check info k cd l) = []"
  by (simp add: emit_inline_range_check_def Let_def)

lemma transform_insn_kept: "kept (fst (transform_insn punned cfg insn s)) = [insn]"
  by (cases s) (simp add: transform_insn_def Let_def kept_range_check split: option.splits prod.splits)

lemma transform_insns_kept: "kept (fst (transform_insns punned cfg insns s)) = insns"
proof (induction insns arbitrary: s)
  case (Cons insn insns)
  obtain out s' where 1: "transform_insn punned cfg insn s = (out, s')" by (metis surj_pair)
  obtain out' s'' where 2: "transform_insns punned cfg insns s' = (out', s'')" by (metis surj_pair)
  show ?case using transform_insn_kept [of punned cfg insn s] Cons [of s'] by (simp add: 1 2)
qed simp

lemma transform_block_keeps_instructions: "kept (fst (transform_block punned cfg insns (st, nxt))) = insns"
  by (simp add: transform_block_def transform_insns_kept)

text \<open>
  A load callout sets the register, and then the original instruction runs and sets it again from
  the memory of the process: the callout of a load is always followed by its instruction.
\<close>

lemma load_callout_then_load:
  assumes "analyze_mov cfg insn = Some info" and "\<not> skip_insn cfg info" and "mi_is_load info" and "nxt < CALLOUT_POOL_CAPACITY"
  shows "\<exists>pre k cd post. fst (transform_insn punned cfg insn (st, nxt)) = pre @ Callout True k cd # post @ [Keep insn] \<and>
    (\<forall>e \<in> set post. \<exists>j. e = Label j)"
proof -
  have e: "\<exists>pre k cd post. emit_inline_range_check info n cd' True = pre @ Callout True k cd # post \<and>
      (\<forall>e \<in> set post. \<exists>j. e = Label j)" for n cd'
  proof (cases "mi_base info \<noteq> Reg_Invalid \<and> mi_index info = Reg_Invalid \<and> \<not> cd_size cd' > 2 ^ 31 - 1")
    case True
    then obtain pre where "emit_inline_range_check info n cd' True = pre @ [Callout True n cd', Label n]"
      by (auto simp: emit_inline_range_check_def Let_def)
    then show ?thesis by fastforce
  next
    case False
    then have "emit_inline_range_check info n cd' True = [] @ [Callout True n cd']"
      by (auto simp: emit_inline_range_check_def Let_def)
    then show ?thesis by fastforce
  qed
  show ?thesis
    using assms e unfolding transform_insn_def alloc_callout_data_def Let_def
    by simp
qed

section \<open>The callouts and the partitioned memory\<close>

text \<open>The data of a callout was filled from the configuration of the hooker.\<close>

definition range_of :: "pgas_config \<Rightarrow> u64 \<Rightarrow> u64 \<Rightarrow> nat \<Rightarrow> nat \<Rightarrow> bool" where
  "range_of cfg base sz num_nodes local_node \<longleftrightarrow>
     unat base = pc_base cfg \<and> unat sz = pc_size cfg \<and> num_nodes = pc_num_nodes cfg \<and> local_node = pc_local_node_id cfg \<and>
     pc_num_nodes cfg < 2 ^ 16"

lemma in_range_is_pgas:
  assumes "range_of cfg base sz n l" and "region_ok cfg"
  shows "is_in_pgas_range ea base sz \<longleftrightarrow> is_pgas_addr cfg (unat ea)"
proof -
  have "sz \<noteq> 0" using assms by (auto simp: range_of_def region_ok_def)
  moreover have "unat (ea - base) = unat ea - unat base" if "base \<le> ea" using that by (rule unat_sub)
  ultimately show ?thesis
    using assms by (auto simp: is_in_pgas_range_def is_pgas_addr_iff range_of_def word_le_nat_alt word_less_nat_alt)
qed

lemma region_per_node:
  assumes "range_of cfg base sz n l"
  shows "unat (sz div word_of_nat n) = pc_size cfg div pc_num_nodes cfg"
proof -
  have "unat (word_of_nat n :: u64) = n" using assms by (simp add: unat_of_nat range_of_def)
  then show ?thesis using assms by (simp add: range_of_def unat_div)
qed

text \<open>
  The callouts route an address as the hooker does, as long as the quotient fits in 16 bits.  It
  does unless there are more than half of the possible nodes and shares of a few bytes.
\<close>

lemma route_node16_addr_to_node:
  assumes r: "range_of cfg base sz n l" and ok: "region_ok cfg" and a: "is_pgas_addr cfg (unat ea)"
    and fits: "(pc_size cfg - 1) div (pc_size cfg div pc_num_nodes cfg) < 2 ^ 16"
  shows "route_node16 base (sz div word_of_nat n) n ea = addr_to_node cfg (unat ea)"
proof -
  have le: "base \<le> ea" using a r by (simp add: is_pgas_addr_iff [OF ok] word_le_nat_alt range_of_def)
  have off: "unat (ea - base) = unat ea - pc_base cfg" using unat_sub [OF le] r by (simp add: range_of_def)
  have "(unat ea - pc_base cfg) div (pc_size cfg div pc_num_nodes cfg) \<le> (pc_size cfg - 1) div (pc_size cfg div pc_num_nodes cfg)"
    using a by (intro div_le_mono) (auto simp: is_pgas_addr_iff [OF ok])
  with fits have "(unat ea - pc_base cfg) div (pc_size cfg div pc_num_nodes cfg) mod 2 ^ 16 =
      (unat ea - pc_base cfg) div (pc_size cfg div pc_num_nodes cfg)" by simp
  then have "route_node16 base (sz div word_of_nat n) n ea =
      (let node = (unat ea - pc_base cfg) div (pc_size cfg div pc_num_nodes cfg) in if node \<ge> n then n - 1 else node)"
    unfolding route_node16_def region_per_node [OF r] off by simp
  then show ?thesis using addr_to_node_in [OF ok a] r ok by (auto simp: Let_def range_of_def region_ok_def)
qed

text \<open>Otherwise the two disagree: here the hooker gives an address to the last node and the callout to node 0.\<close>

lemma route_node16_truncates:
  "\<exists>cfg. region_ok cfg \<and> range_of cfg 4096 131069 65535 0 \<and>
     addr_to_node cfg (4096 + 65536) = 65534 \<and> route_node16 4096 (131069 div word_of_nat 65535) 65535 (4096 + 65536) = 0"
proof -
  define cfg where "cfg = \<lparr>pc_local_node_id = 0, pc_num_nodes = 65535, pc_base = 4096, pc_size = 131069, pc_nodes = [],
     pc_hook_memcpy = True, pc_hook_memmove = True, pc_hook_memset = True, pc_eager_connect = False,
     pc_use_node_local_offsets = True\<rparr>"
  have "region_ok cfg" "range_of cfg 4096 131069 65535 0" by (simp_all add: cfg_def region_ok_def range_of_def)
  moreover have "addr_to_node cfg (4096 + 65536) = 65534"
    by (simp add: cfg_def addr_to_node_def is_pgas_addr_def wrap64_def)
  moreover have "route_node16 4096 (131069 div word_of_nat 65535) 65535 (4096 + 65536) = 0"
    by (simp add: route_node16_def unat_div)
  ultimately show ?thesis by blast
qed

lemma le_nat_zeros: "le_nat (bs @ replicate k 0) = le_nat bs"
proof (induction bs)
  case Nil
  show ?case by (induction k) simp_all
qed simp

text \<open>A store callout on a remote address writes the low bytes of the source register to the region.\<close>

lemma mov_store_callout_flat:
  assumes ms: "memory_servers cl peer sv" and rel: "reliable cl" and ok: "world_ok cfg peer s"
    and con: "all_configured cfg (pw_mgr s)"
    and r: "range_of cfg (cd_base cd) (cd_size cd) (cd_num_nodes cd) (cd_local_node_id cd)"
    and fits: "(pc_size cfg - 1) div (pc_size cfg div pc_num_nodes cfg) < 2 ^ 16"
    and rem: "addr_to_node cfg (unat (compute_ea cpu (cd_info cd))) \<noteq> pc_local_node_id cfg"
    and sz: "0 < mi_access_size (cd_info cd)" "mi_access_size (cd_info cd) \<le> 8"
    and own: "owned_by cfg (addr_to_node cfg (unat (compute_ea cpu (cd_info cd)))) (unat (compute_ea cpu (cd_info cd)))
      (mi_access_size (cd_info cd))"
    and out: "mov_store_callout cl cfg cd (cpu, st, s) = (cpu', st', s')"
  shows "cpu' = cpu \<and> flat_view cfg sv s' = poke_mem (flat_view cfg sv s) (unat (compute_ea cpu (cd_info cd)))
    (le_bytes (mi_access_size (cd_info cd)) (unat (read_reg cpu (cd_src_reg cd)))) \<and> world_ok cfg peer s'"
proof -
  let ?ea = "compute_ea cpu (cd_info cd)"
  let ?bs = "le_bytes (mi_access_size (cd_info cd)) (unat (read_reg cpu (cd_src_reg cd)))"
  let ?node = "addr_to_node cfg (unat ?ea)"
  have reg: "region_ok cfg" and cml: "cm_local_node_id (pw_mgr s) = pc_local_node_id cfg" using ok by (simp_all add: world_ok_def)
  have a: "is_pgas_addr cfg (unat ?ea)" using remote_is_pgas [OF rem] .
  have node: "route_node16 (cd_base cd) (cd_size cd div word_of_nat (cd_num_nodes cd)) (cd_num_nodes cd) ?ea = ?node"
    by (rule route_node16_addr_to_node [OF r reg a fits])
  have pos: "cd_size cd div word_of_nat (cd_num_nodes cd) \<noteq> 0"
    using region_per_node [OF r] region_size_pos [OF reg] by (metis less_numeral_extra(3) unsigned_0)
  have nn: "cd_num_nodes cd \<noteq> 0" using r reg by (simp add: range_of_def region_ok_def)
  have w: "remote_write cl cfg ?node (unat ?ea) ?bs s = (0, s')" and c: "cpu' = cpu"
    using out remote_access_succeeds(1) [OF rel con cml addr_to_node_less [OF reg rem] rem] a rem r sz(2) pos nn
    by (auto simp: mov_store_callout_def Let_def in_range_is_pgas [OF r reg] node range_of_def prod_eq_iff min_absorb1
        split: prod.splits)
  have "?bs \<noteq> []" using sz(1) by (metis length_le_bytes length_0_conv not_less_zero)
  with remote_write_flat [OF ms ok _ rem _ w] own c show ?thesis by simp
qed

text \<open>A load callout on a remote address leaves the bytes of the region in the destination register.\<close>

lemma mov_load_callout_flat:
  assumes ms: "memory_servers cl peer sv" and rel: "reliable cl" and ok: "world_ok cfg peer s"
    and con: "all_configured cfg (pw_mgr s)"
    and r: "range_of cfg (cd_base cd) (cd_size cd) (cd_num_nodes cd) (cd_local_node_id cd)"
    and fits: "(pc_size cfg - 1) div (pc_size cfg div pc_num_nodes cfg) < 2 ^ 16"
    and rem: "addr_to_node cfg (unat (compute_ea cpu (cd_info cd))) \<noteq> pc_local_node_id cfg"
    and sz: "mi_access_size (cd_info cd) \<le> 8"
    and own: "owned_by cfg (addr_to_node cfg (unat (compute_ea cpu (cd_info cd)))) (unat (compute_ea cpu (cd_info cd)))
      (mi_access_size (cd_info cd))"
    and tmp: "owned_by cfg (pc_local_node_id cfg) tmp 8"
    and out: "mov_load_callout cl cfg tmp cd (cpu, st, s) = (cpu', st', s')"
  shows "cpu' = write_reg cpu (cd_dest_reg cd) (word_of_nat (le_nat
    (peek_mem (flat_view cfg sv s) (unat (compute_ea cpu (cd_info cd))) (mi_access_size (cd_info cd)))))"
proof -
  let ?ea = "compute_ea cpu (cd_info cd)"
  let ?n = "mi_access_size (cd_info cd)"
  let ?node = "addr_to_node cfg (unat ?ea)"
  let ?s = "s\<lparr>pw_mem := poke_mem (pw_mem s) tmp (replicate 8 0)\<rparr>"
  have reg: "region_ok cfg" and cml: "cm_local_node_id (pw_mgr ?s) = pc_local_node_id cfg" using ok by (simp_all add: world_ok_def)
  have ok': "world_ok cfg peer ?s" and con': "all_configured cfg (pw_mgr ?s)" using ok con by (simp_all add: world_ok_def)
  have a: "is_pgas_addr cfg (unat ?ea)" using remote_is_pgas [OF rem] .
  have node: "route_node16 (cd_base cd) (cd_size cd div word_of_nat (cd_num_nodes cd)) (cd_num_nodes cd) ?ea = ?node"
    by (rule route_node16_addr_to_node [OF r reg a fits])
  have pos: "cd_size cd div word_of_nat (cd_num_nodes cd) \<noteq> 0"
    using region_per_node [OF r] region_size_pos [OF reg] by (metis less_numeral_extra(3) unsigned_0)
  have nn: "cd_num_nodes cd \<noteq> 0" using r reg by (simp add: range_of_def region_ok_def)
  have w: "remote_read cl cfg ?node (unat ?ea) tmp ?n ?s = (0, s')"
    and c: "cpu' = write_reg cpu (cd_dest_reg cd) (word_of_nat (le_nat (peek_mem (pw_mem s') tmp 8)))"
    using out remote_access_succeeds(2) [OF rel con' cml addr_to_node_less [OF reg rem] rem] a rem r sz pos nn
    by (auto simp: mov_load_callout_def Let_def in_range_is_pgas [OF r reg] node range_of_def prod_eq_iff min_absorb1
        split: prod.splits)
  have tmp': "owned_by cfg (pc_local_node_id cfg) tmp ?n" using tmp sz by (auto simp: owned_by_def)
  let ?bs = "peek_mem (flat_view cfg sv ?s) (unat ?ea) ?n"
  obtain nd where nd: "map_of (cm_node_configs (pw_mgr s)) ?node = Some nd"
    using con addr_to_node_less [OF reg rem] rem by (auto simp: all_configured_def split: option.splits)
  have bs: "?bs = peek_mem (flat_view cfg sv s) (unat ?ea) ?n"
    using remote_peek_flat [OF reg own rem, of s nd sv] remote_peek_flat [OF reg own rem, of ?s nd sv] nd by simp
  define B where "B = peek_mem (flat_view cfg sv s) (unat ?ea) ?n"
  have len: "length B = ?n" by (simp add: B_def)
  have "flat_view cfg sv s' = poke_mem (poke_mem (flat_view cfg sv s) tmp (replicate 8 0)) tmp B"
    using remote_read_flat [OF ms ok' own rem tmp' w] bs local_write_flat [of cfg tmp "replicate 8 0" sv s] tmp
    by (simp add: B_def)
  then have "peek_mem (flat_view cfg sv s') tmp 8 = B @ replicate (8 - ?n) 0"
    using tmp sz len by (intro nth_equalityI) (auto simp: nth_peek_mem poke_mem_at owned_by_def nth_append)
  then have "peek_mem (pw_mem s') tmp 8 = B @ replicate (8 - ?n) 0"
    using local_peek_flat [OF tmp, of sv s'] by simp
  then show ?thesis using c by (simp add: le_nat_zeros B_def)
qed

end
