(* ===== verification/Pgas_Stalker_Arm64.thy ===== *)
theory Pgas_Stalker_Arm64
  imports Pgas_Stalker "HOL-Library.Sublist"
begin

text \<open>
  The interception of memory instructions on AArch64 (the second part of
  \<open>attach/pgas_attach_impl/src/pgas_stalker_mov.cpp\<close>).  An instruction is recognised by its mnemonic, and
  the callout is unconditional; a remote load is copied to the memory of the process before the
  original instruction runs, so that the instruction loads it from there.
\<close>

unbundle bit_operations_syntax

section \<open>Registers and instructions\<close>

text \<open>\<open>X n\<close> and \<open>W n\<close> are the general registers and their low halves, for \<open>n \<le> 30\<close>.\<close>

datatype arm64_reg = A_Invalid | X nat | W nat | SP | WSP | XZR | WZR | A_Other nat

datatype arm64_extender = EXT_NONE | UXTB | UXTH | UXTW | UXTX | SXTB | SXTH | SXTW | SXTX

record arm64_mem_operand =
  am_base :: arm64_reg
  am_index :: arm64_reg
  am_ext :: arm64_extender
  am_shift :: nat
  am_disp :: int

datatype arm64_operand = A_Reg arm64_reg | A_Imm int | A_Mem arm64_mem_operand

record arm64_insn =
  an_mnemonic :: string
  an_operands :: "arm64_operand list"

record arm64_cpu =
  ac_x :: "nat \<Rightarrow> u64"
  ac_fp :: u64
  ac_lr :: u64
  ac_sp :: u64

definition starts_with :: "string \<Rightarrow> string \<Rightarrow> bool" where
  "starts_with s pre \<longleftrightarrow> take (length pre) s = pre"

definition is_arm64_load :: "string \<Rightarrow> bool" where
  "is_arm64_load mnemonic \<longleftrightarrow>
     starts_with mnemonic ''ldr'' \<or> starts_with mnemonic ''ldur'' \<or> starts_with mnemonic ''ldp'' \<or>
     starts_with mnemonic ''ldnp'' \<or> starts_with mnemonic ''ldar'' \<or> starts_with mnemonic ''ldaxr'' \<or>
     starts_with mnemonic ''ldxr''"

definition is_arm64_store :: "string \<Rightarrow> bool" where
  "is_arm64_store mnemonic \<longleftrightarrow>
     starts_with mnemonic ''str'' \<or> starts_with mnemonic ''stur'' \<or> starts_with mnemonic ''stp'' \<or>
     starts_with mnemonic ''stnp'' \<or> starts_with mnemonic ''stlr'' \<or> starts_with mnemonic ''stlxr'' \<or>
     starts_with mnemonic ''stxr''"

definition is_supported_gpr :: "arm64_reg \<Rightarrow> bool" where
  "is_supported_gpr r \<longleftrightarrow>
     (case r of W n \<Rightarrow> n \<le> 30 | X n \<Rightarrow> n \<le> 30 | SP \<Rightarrow> True | WSP \<Rightarrow> True | XZR \<Rightarrow> True | WZR \<Rightarrow> True | _ \<Rightarrow> False)"

definition arm64_stack_relative :: "arm64_reg \<Rightarrow> bool" where
  "arm64_stack_relative r \<longleftrightarrow> r = SP \<or> r = WSP \<or> r = X 29 \<or> r = W 29"

definition strstr :: "string \<Rightarrow> string \<Rightarrow> bool" where
  "strstr s needle \<longleftrightarrow> list_ex (\<lambda>t. take (length needle) t = needle) (suffixes s)"

definition arm64_memory_width :: "string \<Rightarrow> arm64_reg \<Rightarrow> nat" where
  "arm64_memory_width mnemonic r =
     (if strstr mnemonic ''rsb'' \<or> (mnemonic \<noteq> [] \<and> last mnemonic = CHR ''b'') then 1
      else if strstr mnemonic ''rsh'' \<or> (mnemonic \<noteq> [] \<and> last mnemonic = CHR ''h'') then 2
      else if strstr mnemonic ''rsw'' then 4
      else if (case r of W n \<Rightarrow> n \<le> 30 | WSP \<Rightarrow> True | WZR \<Rightarrow> True | _ \<Rightarrow> False) then 4
      else 8)"

record arm64_mem_info =
  ai_is_load :: bool
  ai_is_store :: bool
  ai_mem_op_idx :: nat
  ai_access_size :: nat
  ai_per_reg_size :: nat
  ai_regs :: "arm64_reg list"
  ai_base :: arm64_reg
  ai_index :: arm64_reg
  ai_index_ext :: arm64_extender
  ai_index_shift :: nat
  ai_disp :: int

fun first_arm64_mem :: "nat \<Rightarrow> arm64_operand list \<Rightarrow> (nat \<times> arm64_mem_operand) option" where
  "first_arm64_mem i [] = None"
| "first_arm64_mem i (A_Mem m # ops) = Some (i, m)"
| "first_arm64_mem i (_ # ops) = first_arm64_mem (Suc i) ops"

text \<open>The registers in front of the memory operand, at most two.\<close>

definition data_regs :: "arm64_operand list \<Rightarrow> arm64_reg list" where
  "data_regs ops = take 2 (concat (map (\<lambda>op. case op of A_Reg r \<Rightarrow> if is_supported_gpr r then [r] else [] | _ \<Rightarrow> []) ops))"

definition analyze_arm64_mem :: "stalker_config \<Rightarrow> arm64_insn \<Rightarrow> arm64_mem_info option" where
  "analyze_arm64_mem cfg insn =
     (let is_load = is_arm64_load (an_mnemonic insn); is_store = is_arm64_store (an_mnemonic insn)
      in if \<not> is_load \<and> \<not> is_store then None
         else if \<not> st_hook_mov cfg then None
         else case first_arm64_mem 0 (an_operands insn) of
           None \<Rightarrow> None
         | Some (k, m) \<Rightarrow>
             let regs = data_regs (take k (an_operands insn))
             in case regs of
                  [] \<Rightarrow> None
                | r # _ \<Rightarrow>
                    let per = arm64_memory_width (an_mnemonic insn) r; sz = per * length regs
                    in if per > 8 then None
                       else if sz = 0 \<or> sz > 16 then None
                       else Some \<lparr>ai_is_load = is_load, ai_is_store = is_store, ai_mem_op_idx = k, ai_access_size = sz,
                              ai_per_reg_size = per, ai_regs = regs, ai_base = am_base m, ai_index = am_index m,
                              ai_index_ext = am_ext m, ai_index_shift = am_shift m mod 2 ^ 8, ai_disp = am_disp m\<rparr>)"

definition arm64_read_reg :: "arm64_cpu \<Rightarrow> arm64_reg \<Rightarrow> u64" where
  "arm64_read_reg cpu r =
     (case r of
        X n \<Rightarrow> if n \<le> 28 then ac_x cpu n else if n = 29 then ac_fp cpu else if n = 30 then ac_lr cpu else 0
      | W n \<Rightarrow> if n \<le> 28 then take_bit 32 (ac_x cpu n) else if n = 29 then take_bit 32 (ac_fp cpu)
               else if n = 30 then take_bit 32 (ac_lr cpu) else 0
      | SP \<Rightarrow> ac_sp cpu
      | WSP \<Rightarrow> ac_sp cpu
      | _ \<Rightarrow> 0)"

definition extend_index :: "arm64_extender \<Rightarrow> u64 \<Rightarrow> u64" where
  "extend_index ext v =
     (case ext of
        UXTB \<Rightarrow> take_bit 8 v | UXTH \<Rightarrow> take_bit 16 v | UXTW \<Rightarrow> take_bit 32 v
      | SXTB \<Rightarrow> signed_take_bit 7 v | SXTH \<Rightarrow> signed_take_bit 15 v | SXTW \<Rightarrow> signed_take_bit 31 v
      | _ \<Rightarrow> v)"

definition arm64_compute_ea :: "arm64_cpu \<Rightarrow> arm64_mem_info \<Rightarrow> u64" where
  "arm64_compute_ea cpu info =
     (let ea = word_of_int (ai_disp info);
          ea = (if ai_base info \<noteq> A_Invalid then ea + arm64_read_reg cpu (ai_base info) else ea)
      in if ai_index info \<noteq> A_Invalid
         then ea + push_bit (ai_index_shift info) (extend_index (ai_index_ext info) (arm64_read_reg cpu (ai_index info)))
         else ea)"

section \<open>The callouts\<close>

record arm64_callout_data =
  ad_base :: u64
  ad_size :: u64
  ad_local_node_id :: nat
  ad_num_nodes :: nat
  ad_info :: arm64_mem_info

definition route_node :: "arm64_callout_data \<Rightarrow> u64 \<Rightarrow> nat" where
  "route_node cd ea =
     (let region_per_node = ad_size cd div word_of_nat (ad_num_nodes cd)
      in if region_per_node = 0 then ad_local_node_id cd else route_node16 (ad_base cd) region_per_node (ad_num_nodes cd) ea)"

text \<open>\<open>store_le\<close> writes at most the eight bytes of a register.\<close>

definition store_le :: "u64 \<Rightarrow> nat \<Rightarrow> bytes" where
  "store_le val sz = map (\<lambda>i. ucast (drop_bit (i * 8) val AND 255)) [0..<min sz 8]"

definition store_buffer :: "arm64_cpu \<Rightarrow> arm64_mem_info \<Rightarrow> bytes" where
  "store_buffer cpu info =
     fold (\<lambda>i buf. poke buf (i * ai_per_reg_size info) (store_le (arm64_read_reg cpu (ai_regs info ! i)) (ai_per_reg_size info)))
       [0..<length (ai_regs info)] (replicate 16 0)"

definition callout_guard :: "arm64_callout_data \<Rightarrow> u64 \<Rightarrow> bool" where
  "callout_guard cd ea \<longleftrightarrow> is_in_pgas_range ea (ad_base cd) (ad_size cd) \<and> ad_num_nodes cd \<noteq> 0"

text \<open>\<open>tmp\<close> is the address of the local buffer of 16 bytes.\<close>

definition arm64_load_callout ::
  "('c, 'w) cxl_client \<Rightarrow> pgas_config \<Rightarrow> nat \<Rightarrow> arm64_callout_data \<Rightarrow> arm64_cpu \<Rightarrow>
   stalker_stats \<times> ('c, 'w) pgas_world \<Rightarrow> stalker_stats \<times> ('c, 'w) pgas_world" where
  "arm64_load_callout cl cfg tmp cd cpu = (\<lambda>(st, s).
     let st = st\<lparr>sk_callouts_fired := wrap64 (sk_callouts_fired st + 1)\<rparr>; ea = arm64_compute_ea cpu (ad_info cd)
     in if \<not> callout_guard cd ea then (st, s)
        else
          let node = route_node cd ea
          in if node = ad_local_node_id cd then (st\<lparr>sk_local_passthrough := wrap64 (sk_local_passthrough st + 1)\<rparr>, s)
             else
               let sz = ai_access_size (ad_info cd);
                   s = s\<lparr>pw_mem := poke_mem (pw_mem s) tmp (replicate 16 0)\<rparr>;
                   (r, s) = remote_read cl cfg node (unat ea) tmp sz s;
                   s = s\<lparr>pw_mem := poke_mem (pw_mem s) (unat ea) (peek_mem (pw_mem s) tmp sz)\<rparr>
               in (st\<lparr>sk_remote_loads := wrap64 (sk_remote_loads st + 1)\<rparr>, s))"

definition arm64_store_callout ::
  "('c, 'w) cxl_client \<Rightarrow> pgas_config \<Rightarrow> arm64_callout_data \<Rightarrow> arm64_cpu \<Rightarrow>
   stalker_stats \<times> ('c, 'w) pgas_world \<Rightarrow> stalker_stats \<times> ('c, 'w) pgas_world" where
  "arm64_store_callout cl cfg cd cpu = (\<lambda>(st, s).
     let st = st\<lparr>sk_callouts_fired := wrap64 (sk_callouts_fired st + 1)\<rparr>; ea = arm64_compute_ea cpu (ad_info cd)
     in if \<not> callout_guard cd ea then (st, s)
        else
          let node = route_node cd ea
          in if node = ad_local_node_id cd then (st\<lparr>sk_local_passthrough := wrap64 (sk_local_passthrough st + 1)\<rparr>, s)
             else
               let (r, s) = remote_write cl cfg node (unat ea) (take (ai_access_size (ad_info cd)) (store_buffer cpu (ad_info cd))) s
               in (st\<lparr>sk_remote_stores := wrap64 (sk_remote_stores st + 1)\<rparr>, s))"

section \<open>The transformer\<close>

datatype arm64_emitted = A_Callout bool arm64_callout_data | A_Keep arm64_insn

definition arm64_skip :: "stalker_config \<Rightarrow> arm64_mem_info \<Rightarrow> bool" where
  "arm64_skip cfg info \<longleftrightarrow>
     arm64_stack_relative (ai_base info) \<or>
     (ai_base info = A_Invalid \<and> ai_index info = A_Invalid \<and>
        \<not> is_in_pgas_range (word_of_int (ai_disp info)) (st_base cfg) (st_size cfg))"

definition arm64_transform_insn ::
  "stalker_config \<Rightarrow> arm64_insn \<Rightarrow> stalker_stats \<times> nat \<Rightarrow> arm64_emitted list \<times> stalker_stats \<times> nat" where
  "arm64_transform_insn cfg insn = (\<lambda>(st, nxt).
     let st = st\<lparr>sk_insns_scanned := wrap64 (sk_insns_scanned st + 1)\<rparr>
     in case analyze_arm64_mem cfg insn of
          None \<Rightarrow> ([A_Keep insn], st, nxt)
        | Some info \<Rightarrow>
            if arm64_skip cfg info then ([A_Keep insn], st, nxt)
            else case alloc_callout_data nxt of
              (None, nxt) \<Rightarrow> ([A_Keep insn], st, nxt)
            | (Some k, nxt) \<Rightarrow>
                let cd = \<lparr>ad_base = st_base cfg, ad_size = st_size cfg, ad_local_node_id = st_local_node_id cfg,
                          ad_num_nodes = st_num_nodes cfg, ad_info = info\<rparr>
                in ([A_Callout (ai_is_load info) cd, A_Keep insn],
                    if ai_is_load info then st\<lparr>sk_mov_loads_hooked := wrap64 (sk_mov_loads_hooked st + 1)\<rparr>
                    else st\<lparr>sk_mov_stores_hooked := wrap64 (sk_mov_stores_hooked st + 1)\<rparr>, nxt))"

primrec arm64_transform_insns ::
  "stalker_config \<Rightarrow> arm64_insn list \<Rightarrow> stalker_stats \<times> nat \<Rightarrow> arm64_emitted list \<times> stalker_stats \<times> nat" where
  "arm64_transform_insns cfg [] s = ([], s)"
| "arm64_transform_insns cfg (insn # insns) s =
     (let (out, s) = arm64_transform_insn cfg insn s; (out', s) = arm64_transform_insns cfg insns s in (out @ out', s))"

definition arm64_transform_block ::
  "stalker_config \<Rightarrow> arm64_insn list \<Rightarrow> stalker_stats \<times> nat \<Rightarrow> arm64_emitted list \<times> stalker_stats \<times> nat" where
  "arm64_transform_block cfg insns = (\<lambda>(st, nxt).
     arm64_transform_insns cfg insns (st\<lparr>sk_blocks_transformed := wrap64 (sk_blocks_transformed st + 1)\<rparr>, nxt))"

section \<open>The callouts and the partitioned memory\<close>

text \<open>The memory of the process under a remote address is no part of the partitioned memory.\<close>

lemma shadow_write_flat:
  assumes own: "owned_by cfg node a (length bs)" and rem: "node \<noteq> pc_local_node_id cfg"
    and nd: "map_of (cm_node_configs (pw_mgr s)) node = Some nd"
  shows "flat_view cfg sv (s\<lparr>pw_mem := poke_mem (pw_mem s) a bs\<rparr>) = flat_view cfg sv s"
proof
  fix x
  have len: "a + length bs \<le> 2 ^ 64" using own by (simp add: owned_by_def)
  show "flat_view cfg sv (s\<lparr>pw_mem := poke_mem (pw_mem s) a bs\<rparr>) x = flat_view cfg sv s x"
    using owned_mem [OF own, of x] rem nd by (auto simp: flat_view_def Let_def poke_mem_at [OF len] split: option.splits)
qed

lemma length_store_buffer: "length (store_buffer cpu info) = 16"
proof -
  have "length (fold (\<lambda>i buf. poke buf (f i) (g i)) is b) = length b" for f and g :: "nat \<Rightarrow> bytes" and "is" b
    by (induction "is" arbitrary: b) simp_all
  then show ?thesis by (simp add: store_buffer_def)
qed

definition callout_of :: "pgas_config \<Rightarrow> arm64_callout_data \<Rightarrow> bool" where
  "callout_of cfg cd \<longleftrightarrow>
     range_of cfg (ad_base cd) (ad_size cd) (ad_num_nodes cd) (ad_local_node_id cd) \<and>
     (pc_size cfg - 1) div (pc_size cfg div pc_num_nodes cfg) < 2 ^ 16 \<and>
     0 < ai_access_size (ad_info cd) \<and> ai_access_size (ad_info cd) \<le> 16"

text \<open>The access of an instruction: remote, and with one node.\<close>

definition remote_access :: "pgas_config \<Rightarrow> arm64_callout_data \<Rightarrow> arm64_cpu \<Rightarrow> bool" where
  "remote_access cfg cd cpu \<longleftrightarrow>
     (let ea = unat (arm64_compute_ea cpu (ad_info cd))
      in addr_to_node cfg ea \<noteq> pc_local_node_id cfg \<and> owned_by cfg (addr_to_node cfg ea) ea (ai_access_size (ad_info cd)))"

lemma arm64_route:
  assumes "callout_of cfg cd" and reg: "region_ok cfg" and "remote_access cfg cd cpu"
  shows "callout_guard cd (arm64_compute_ea cpu (ad_info cd))"
    and "route_node cd (arm64_compute_ea cpu (ad_info cd)) = addr_to_node cfg (unat (arm64_compute_ea cpu (ad_info cd)))"
    and "ad_local_node_id cd = pc_local_node_id cfg"
proof -
  let ?ea = "arm64_compute_ea cpu (ad_info cd)"
  have r: "range_of cfg (ad_base cd) (ad_size cd) (ad_num_nodes cd) (ad_local_node_id cd)" using assms(1) by (simp add: callout_of_def)
  have a: "is_pgas_addr cfg (unat ?ea)" using assms(3) by (auto simp: remote_access_def Let_def intro: remote_is_pgas)
  show "callout_guard cd ?ea" using a r reg by (auto simp: callout_guard_def in_range_is_pgas [OF r reg] range_of_def region_ok_def)
  have "ad_size cd div word_of_nat (ad_num_nodes cd) \<noteq> 0"
    using region_per_node [OF r] region_size_pos [OF reg] by (metis less_numeral_extra(3) unsigned_0)
  then show "route_node cd ?ea = addr_to_node cfg (unat ?ea)"
    using route_node16_addr_to_node [OF r reg a] assms(1) by (simp add: route_node_def callout_of_def)
  show "ad_local_node_id cd = pc_local_node_id cfg" using r by (simp add: range_of_def)
qed

lemma arm64_store_flat:
  assumes ms: "memory_servers cl peer sv" and rel: "reliable cl" and ok: "world_ok cfg peer s"
    and con: "all_configured cfg (pw_mgr s)" and cd: "callout_of cfg cd" and acc: "remote_access cfg cd cpu"
    and out: "arm64_store_callout cl cfg cd cpu (st, s) = (st', s')"
  shows "flat_view cfg sv s' = poke_mem (flat_view cfg sv s) (unat (arm64_compute_ea cpu (ad_info cd)))
      (take (ai_access_size (ad_info cd)) (store_buffer cpu (ad_info cd))) \<and> world_ok cfg peer s'"
proof -
  let ?ea = "arm64_compute_ea cpu (ad_info cd)"
  let ?bs = "take (ai_access_size (ad_info cd)) (store_buffer cpu (ad_info cd))"
  have reg: "region_ok cfg" and cml: "cm_local_node_id (pw_mgr s) = pc_local_node_id cfg" using ok by (simp_all add: world_ok_def)
  have rem: "addr_to_node cfg (unat ?ea) \<noteq> pc_local_node_id cfg" using acc by (simp add: remote_access_def Let_def)
  have len: "length ?bs = ai_access_size (ad_info cd)" using cd by (simp add: length_store_buffer callout_of_def)
  have w: "remote_write cl cfg (addr_to_node cfg (unat ?ea)) (unat ?ea) ?bs s = (0, s')"
    using out remote_access_succeeds(1) [OF rel con cml addr_to_node_less [OF reg rem] rem] arm64_route [OF cd reg acc] rem
    by (auto simp: arm64_store_callout_def Let_def prod_eq_iff split: prod.splits)
  have "?bs \<noteq> []" using len cd by (auto simp: callout_of_def)
  moreover have "owned_by cfg (addr_to_node cfg (unat ?ea)) (unat ?ea) (length ?bs)"
    using acc len by (simp add: remote_access_def Let_def)
  ultimately show ?thesis using remote_write_flat [OF ms ok _ rem _ w] by blast
qed

lemma arm64_store_configs:
  "arm64_store_callout cl cfg cd cpu (st, s) = (st', s') \<Longrightarrow> cm_node_configs (pw_mgr s') = cm_node_configs (pw_mgr s)"
  using remote_access_configs(1) [of cl cfg]
  by (auto simp: arm64_store_callout_def Let_def split: if_splits prod.splits) (metis snd_conv)

text \<open>A load callout puts the bytes of the region where the original instruction will load them.\<close>

lemma arm64_load_shadow:
  assumes ms: "memory_servers cl peer sv" and rel: "reliable cl" and ok: "world_ok cfg peer s"
    and con: "all_configured cfg (pw_mgr s)" and cd: "callout_of cfg cd" and acc: "remote_access cfg cd cpu"
    and tmp: "owned_by cfg (pc_local_node_id cfg) tmp 16"
    and out: "arm64_load_callout cl cfg tmp cd cpu (st, s) = (st', s')"
  shows "peek_mem (pw_mem s') (unat (arm64_compute_ea cpu (ad_info cd))) (ai_access_size (ad_info cd)) =
    peek_mem (flat_view cfg sv s) (unat (arm64_compute_ea cpu (ad_info cd))) (ai_access_size (ad_info cd))"
proof -
  let ?ea = "unat (arm64_compute_ea cpu (ad_info cd))" and ?n = "ai_access_size (ad_info cd)"
  let ?s = "s\<lparr>pw_mem := poke_mem (pw_mem s) tmp (replicate 16 0)\<rparr>"
  let ?node = "addr_to_node cfg ?ea"
  have reg: "region_ok cfg" and cml: "cm_local_node_id (pw_mgr ?s) = pc_local_node_id cfg" using ok by (simp_all add: world_ok_def)
  have ok': "world_ok cfg peer ?s" and con': "all_configured cfg (pw_mgr ?s)" using ok con by (simp_all add: world_ok_def)
  have rem: "?node \<noteq> pc_local_node_id cfg" and own: "owned_by cfg ?node ?ea ?n"
    using acc by (simp_all add: remote_access_def Let_def)
  obtain s1 where rd: "remote_read cl cfg ?node ?ea tmp ?n ?s = (0, s1)"
    using remote_access_succeeds(2) [OF rel con' cml addr_to_node_less [OF reg rem] rem] by (metis prod.collapse)
  have s': "s' = s1\<lparr>pw_mem := poke_mem (pw_mem s1) ?ea (peek_mem (pw_mem s1) tmp ?n)\<rparr>"
    using out rd arm64_route [OF cd reg acc] rem by (simp add: arm64_load_callout_def)
  have tmp': "owned_by cfg (pc_local_node_id cfg) tmp ?n" using tmp cd by (auto simp: owned_by_def callout_of_def)
  let ?bs = "peek_mem (flat_view cfg sv ?s) ?ea ?n"
  have "peek_mem (pw_mem s1) tmp ?n = peek_mem (flat_view cfg sv s1) tmp ?n" by (rule local_peek_flat [OF tmp', symmetric])
  also have "\<dots> = ?bs"
    using remote_read_flat [OF ms ok' own rem tmp' rd] peek_poke_same [of tmp ?bs "flat_view cfg sv ?s"] tmp'
    by (simp add: owned_by_def)
  also have "\<dots> = peek_mem (flat_view cfg sv s) ?ea ?n"
  proof -
    obtain nd where "map_of (cm_node_configs (pw_mgr s)) ?node = Some nd"
      using con addr_to_node_less [OF reg rem] rem by (auto simp: all_configured_def split: option.splits)
    with remote_peek_flat [OF reg own rem, of s nd sv] remote_peek_flat [OF reg own rem, of ?s nd sv] show ?thesis by simp
  qed
  finally show ?thesis
    using s' peek_poke_same [of ?ea "peek_mem (pw_mem s1) tmp ?n" "pw_mem s1"] own by (simp add: owned_by_def)
qed


definition demo_arm64 :: "bool \<Rightarrow> arm64_reg \<Rightarrow> arm64_callout_data" where
  "demo_arm64 load_insn r = \<lparr>ad_base = 4096, ad_size = 8192, ad_local_node_id = 0, ad_num_nodes = 2,
     ad_info = \<lparr>ai_is_load = load_insn, ai_is_store = (\<not> load_insn), ai_mem_op_idx = 1, ai_access_size = 4, ai_per_reg_size = 4,
       ai_regs = [r], ai_base = X 1, ai_index = A_Invalid, ai_index_ext = EXT_NONE, ai_index_shift = 0, ai_disp = 8\<rparr>\<rparr>"

definition demo_arm64_cpu :: arm64_cpu where
  "demo_arm64_cpu = \<lparr>ac_x = (\<lambda>n. if n = 1 then 8192 else 258), ac_fp = 0, ac_lr = 0, ac_sp = 0\<rparr>"


section \<open>Transformed blocks, and instructions that are read wrongly\<close>

definition arm64_kept :: "arm64_emitted list \<Rightarrow> arm64_insn list" where
  "arm64_kept out = concat (map (\<lambda>e. case e of A_Keep i \<Rightarrow> [i] | _ \<Rightarrow> []) out)"

lemma arm64_transform_insn_kept: "arm64_kept (fst (arm64_transform_insn cfg insn s)) = [insn]"
  by (cases s) (simp add: arm64_transform_insn_def Let_def arm64_kept_def split: option.splits prod.splits)

lemma arm64_transform_insns_kept: "arm64_kept (fst (arm64_transform_insns cfg insns s)) = insns"
proof (induction insns arbitrary: s)
  case (Cons insn insns)
  obtain out s' where 1: "arm64_transform_insn cfg insn s = (out, s')" by (metis surj_pair)
  obtain out' s'' where 2: "arm64_transform_insns cfg insns s' = (out', s'')" by (metis surj_pair)
  have "arm64_kept (xs @ ys) = arm64_kept xs @ arm64_kept ys" for xs ys by (simp add: arm64_kept_def)
  then show ?case using arm64_transform_insn_kept [of cfg insn s] Cons [of s'] by (simp add: 1 2)
qed (simp add: arm64_kept_def)

lemma arm64_transform_block_keeps_instructions: "arm64_kept (fst (arm64_transform_block cfg insns (st, nxt))) = insns"
  by (simp add: arm64_transform_block_def arm64_transform_insns_kept)

text \<open>
  A store exclusive has its status register in front: it is taken for data, it sets the width, and
  the register to be stored comes second.
\<close>

lemma stxr_status_taken_for_data:
  assumes "st_hook_mov cfg"
  shows "\<exists>info. analyze_arm64_mem cfg \<lparr>an_mnemonic = ''stxr'', an_operands = [A_Reg (W 1), A_Reg (X 2), A_Mem m]\<rparr> = Some info \<and>
    ai_regs info = [W 1, X 2] \<and> ai_per_reg_size info = 4 \<and> ai_access_size info = 8"
proof -
  have "arm64_memory_width ''stxr'' (W 1) = 4" by code_simp
  then show ?thesis
    using assms
    by (simp add: analyze_arm64_mem_def is_arm64_load_def is_arm64_store_def starts_with_def data_regs_def is_supported_gpr_def)
qed

text \<open>The load of a pair of signed words is taken for a load of a pair of quadwords.\<close>

lemma ldpsw_width: "arm64_memory_width ''ldpsw'' (X 1) = 8"
  by code_simp

end
