(* ===== verification/Spec2Isabelle.thy ===== *)
theory Spec2Isabelle
  imports Array_Map Percpu_Array Fd_Array Queue_Map Stack_Map Fix_Hash_Map Var_Hash_Map Percpu_Hash_Map
    Lru_Hash_Map Bloom_Filter Lpm_Trie Stack_Trace_Map Ringbuf_Map Perf_Event Map_Handler Handler_Manager Shm Shm_Queue
    Agent_Attach Probe_Helpers Bpf_Helpers Slug_Runtime Pgas_Config Pgas_Stalker_Arm64
begin

text \<open>
  Verification of cxltime, a userspace eBPF runtime: the maps that programs share, the table of
  descriptors they live in, the attachment of programs, the helper functions they call, and the access
  to memory of other nodes.

  \<^bold>\<open>The program.\<close>  Programs and their users create maps, programs, perf events and links through
  descriptors.  A descriptor is an index of the table of handlers in a shared segment
  (\<open>bpftime_shm_internal.cpp\<close>, \<open>handler_manager.cpp\<close>); a map handler holds a tag and a pointer to one of
  the implementations under \<open>runtime/src/bpf_map/userspace\<close>, and dispatches on the tag
  (\<open>map_handler.cpp\<close>).  A process that loads the agent reads the table and attaches the linked
  programs (\<open>bpf_attach_ctx.cpp\<close>); they run when a system call is made (\<open>syscall_trace_attach_impl.cpp\<close>)
  and call helper functions (\<open>bpf_helper.cpp\<close>).  Beside it, two components send memory accesses to a CXL memory simulator: the
  runtime of the slug allocator, which instrumented code calls, and the interception of memory
  functions and instructions for a partitioned global address space (PGAS).

  \<^bold>\<open>Conventions.\<close>  \<open>Prelude\<close> has byte vectors with checked reads and writes, the failures of an
  operation (\<open>errno\<close>, a negative result, an exception, undefined behaviour), and \<open>wrap32\<close> and \<open>wrap64\<close>
  where the arithmetic of the code can wrap.  \<open>Memory\<close> is the memory of the process for components
  that work on addresses, \<open>Std_String\<close> the string conversions of the C++ library.  An operation
  returns the new state or the failure; where an exception leaves a changed state behind, it returns
  both.  Code outside the repository (boost containers, the kernel, Frida, the client of the
  simulator) is an argument of the definitions that use it; what is relied on is stated as a locale
  (\<open>unordered_map\<close>, \<open>named_segment\<close>) or as a predicate (\<open>memory_servers\<close>, \<open>copies\<close>, \<open>fresh_addresses\<close>,
  \<open>loads_calmly\<close>, \<open>tracepoints_calm\<close>) and shown to hold of a concrete instance.

  \<^bold>\<open>Maps.\<close>  One theory per implementation, with the names of the source.
  \<^item> \<open>Map_Contracts\<close> has the interfaces as locales: iteration by next key (\<open>key_iteration\<close>), bounded
    containers, and simulations between machines.  The maps interpret them.
  \<^item> \<open>Array_Map\<close>, \<open>Percpu_Array\<close>, \<open>Fd_Array\<close>: an update is what a lookup finds, and touches no other
    cell or processor.
  \<^item> \<open>Queue_Map\<close> and \<open>Stack_Map\<close> refine a bounded queue and a bounded stack.
  \<^item> \<open>Primes\<close>, \<open>Open_Hash\<close>, \<open>Fix_Hash_Map\<close>: linear probing refines a finite map as long as nothing is
    deleted inside a run; the deletions and the iterations that lose keys are characterised.
  \<^item> \<open>Unordered_Map\<close>, \<open>Var_Hash_Map\<close>, \<open>Percpu_Hash_Map\<close>, \<open>Lru_Hash_Map\<close>: maps over the boost container; the
    linked list of the LRU map refines a list in the order of use.
  \<^item> \<open>Bloom_Filter\<close>: no false negatives, and every bit in range.
  \<^item> \<open>Lpm_Trie\<close>: the trie refines a map from prefixes, and a lookup is the longest match.
  \<^item> \<open>Stack_Trace_Map\<close>, \<open>Ringbuf_Map\<close>, \<open>Perf_Event\<close>: the ring buffer refines a queue of records with
    their states, the perf buffer a queue of bytes.

  \<^bold>\<open>Descriptors.\<close>
  \<^item> \<open>Map_Handler\<close>: creation, destruction and dispatch; the object behind a tag has the class the
    switch casts to, and creating and freeing a map gives its name back.
  \<^item> \<open>Handler_Manager\<close>: the table; clearing a descriptor removes exactly the links to it, and a free
    slot is found when there is one.
  \<^item> \<open>Shm\<close>: the operations on descriptors as an inductive step relation; in every reachable state links
    lead to live programs and perf events, and maps own objects of distinct names.
  \<^item> \<open>Shm_Queue\<close>: table, dispatch and queue composed, as a bounded queue behind a descriptor.

  \<^bold>\<open>Attaching.\<close>
  \<^item> \<open>Syscall_Trace\<close>: the tracer of system calls, its lists of callbacks over objects in the heap, the
    dispatcher and the table of system call numbers; a call runs the attached programs in order and is
    replaced by an override.
  \<^item> \<open>Attach_Impl\<close>: the simple implementation, the type of all implementations, and their contract as
    the locale \<open>attach_impls\<close>, interpreted on both.
  \<^item> \<open>Attach_Ctx\<close>: the context that instantiates programs, perf events and links from the table, with
    the recursion from a link to what it needs, and destroys links.  The locale \<open>attach_context\<close> has the
    invariant for any implementations that keep the contract.
  \<^item> \<open>Agent_Attach\<close>: table, context and tracer composed: after the initialisation exactly the linked
    programs run, and none after the links are destroyed.

  \<^bold>\<open>Helper functions.\<close>
  \<^item> \<open>Packet_Helpers\<close>: checksums, the window of a packet, strings and process numbers.
  \<^item> \<open>Probe_Helpers\<close>: reads and writes at arbitrary addresses with the handlers of \<open>SIGSEGV\<close>.  Handlers that
    call each other forever are a partial function without a result; the property that probes return
    shows that this does not happen inside them.
  \<^item> \<open>Bpf_Helpers\<close>: the helpers on descriptors, composed with the table and the maps, and the groups of
    helpers registered with a program.

  \<^bold>\<open>Memory of other nodes.\<close>
  \<^item> \<open>Slug_Runtime\<close>: the requests of an access cover it line by line.
  \<^item> \<open>Pgas_Remote\<close>: connections, the node of an address and its translation, remote reads and writes.
    \<open>flat_view\<close> puts the memory of the process and the memories of the servers together; translation is
    injective on a node, so remote accesses read and write this memory.
  \<^item> \<open>Pgas_Attach\<close>: the replacements of \<open>memcpy\<close>, \<open>memmove\<close> and \<open>memset\<close> and the table of hooks;
    \<open>memcpy\<close> copies on the flat memory.
  \<^item> \<open>Pgas_Config\<close>: the text of a hook is read back, and a configuration file gives 16-bit node numbers.
  \<^item> \<open>Pgas_Stalker\<close>, \<open>Pgas_Stalker_Arm64\<close>: the interception of single instructions.  A small machine runs
    the emitted x86 code.  On AArch64 an intercepted load finds what an intercepted store wrote.

  \<^bold>\<open>Loops and bounds.\<close>  Loops are recursive functions with a termination proof; there is no fuel in the
  operations.  The walk over all keys in \<open>Map_Contracts\<close> takes a number of calls, and the lemmas give
  one that is enough.

  \<^bold>\<open>Simplifications.\<close>  Operations are atomic: locks and the interleaving of threads are not modelled.
  Positions of the ring buffers are unbounded counters.  Logging is left out.

  \<^bold>\<open>Not modelled.\<close>  Maps of the GPU and maps shared with the kernel (every operation is a call of the
  driver or of the kernel), the helper functions that only call the C library (time, random numbers,
  printing) and tail calls, loading and running programs, the verifier and the virtual machines
  (third-party code behind adapters), the uprobe and GPU attach implementations (built on Frida and on
  the CUDA driver), the syscall server, the entry points of the agent, the daemon and the command line
  tools (input and output), and the JSON export.
\<close>

end
